(* ===== verification/Prelude.thy ===== *)
theory Prelude
  imports Complex_Main "HOL-Library.Word"
begin

unbundle bit_operations_syntax

text \<open>
  Shared vocabulary of the development: the machine types the TypeScript sources work
  with, two interfaces that many components share (a codec and a transition system
  with an invariant), and generic lemmas on lists, words and sums.

  \<^item> A byte of a \<open>Uint8Array\<close> or \<open>Buffer\<close> is an \<open>8 word\<close>.
  \<^item> A JavaScript string is the list of its code points (\<open>js_string\<close>); a lone surrogate is
    a code point of its own.  Literals are written \<open>js ''abc''\<close>.
  \<^item> A JavaScript number is an \<open>int\<close> or \<open>nat\<close> where the code keeps it integral, a \<open>rat\<close>
    where it divides; the rounding of binary64 arithmetic is not modelled.
\<close>

section \<open>Types and collections\<close>

type_synonym byte = "8 word"
type_synonym js_string = "nat list"

named_theorems wire_simps \<open>evaluation rules of the byte level codecs\<close>
named_theorems inv_intros \<open>preservation of component invariants by operations\<close>

definition js :: "string \<Rightarrow> js_string" where
  "js s = map of_char s"

lemma js_simps [simp]:
  "js [] = []"
  "js (c # cs) = of_char c # js cs"
  by (simp_all add: js_def)

lemma length_js [simp]: "length (js s) = length s"
  by (simp add: js_def)

lemma js_inject: "js s = js t \<longleftrightarrow> s = t"
  by (simp add: js_def inj_map_eq_map inj_def)

section \<open>Codecs\<close>

text \<open>
  An encoder with a decoder that undoes it on the values the code produces.  The
  consequences every codec shares are proved here once.
\<close>

locale codec =
  fixes enc :: "'a \<Rightarrow> 'b"
    and dec :: "'b \<Rightarrow> 'a option"
    and valid :: "'a \<Rightarrow> bool"
  assumes dec_enc: "valid x \<Longrightarrow> dec (enc x) = Some x"
begin

lemma enc_inj: "valid x \<Longrightarrow> valid y \<Longrightarrow> enc x = enc y \<Longrightarrow> x = y"
  by (metis dec_enc option.inject)

lemma inj_on_enc: "inj_on enc {x. valid x}"
  by (auto intro: inj_onI enc_inj)

lemma dec_map_enc: "list_all valid xs \<Longrightarrow> map (dec \<circ> enc) xs = map Some xs"
  by (induction xs) (simp_all add: dec_enc)

end

section \<open>Transition systems\<close>

text \<open>
  A component with state: its initial states, its step function on an event (the
  environment's choice), the events the environment may offer in a state, and a predicate
  that every such step keeps.  A run is a list of events.
\<close>

fun run_steps :: "('s \<Rightarrow> 'e \<Rightarrow> 's) \<Rightarrow> 's \<Rightarrow> 'e list \<Rightarrow> 's" where
  "run_steps step s [] = s"
| "run_steps step s (e # es) = run_steps step (step s e) es"

fun run_ok :: "('s \<Rightarrow> 'e \<Rightarrow> bool) \<Rightarrow> ('s \<Rightarrow> 'e \<Rightarrow> 's) \<Rightarrow> 's \<Rightarrow> 'e list \<Rightarrow> bool" where
  "run_ok ok step s [] = True"
| "run_ok ok step s (e # es) = (ok s e \<and> run_ok ok step (step s e) es)"

lemma run_steps_append [simp]:
  "run_steps step s (xs @ ys) = run_steps step (run_steps step s xs) ys"
  by (induction xs arbitrary: s) auto

lemma run_ok_append [simp]:
  "run_ok ok step s (xs @ ys) = (run_ok ok step s xs \<and> run_ok ok step (run_steps step s xs) ys)"
  by (induction xs arbitrary: s) auto

locale invariant_system =
  fixes step :: "'s \<Rightarrow> 'e \<Rightarrow> 's"
    and ok :: "'s \<Rightarrow> 'e \<Rightarrow> bool"
    and inv :: "'s \<Rightarrow> bool"
  assumes inv_step: "inv s \<Longrightarrow> ok s e \<Longrightarrow> inv (step s e)"
begin

lemma inv_run: "inv s \<Longrightarrow> run_ok ok step s es \<Longrightarrow> inv (run_steps step s es)"
  by (induction es arbitrary: s) (auto intro: inv_step)

lemma inv_prefix: "inv s \<Longrightarrow> run_ok ok step s (xs @ ys) \<Longrightarrow> inv (run_steps step s xs)"
  by (auto intro: inv_run)

end

text \<open>
  A bounded stock: events that use it up.  Every use costs one unit, no allowed step adds
  to it, so a run has at most as many uses as the stock at its start.
\<close>

fun count_uses :: "('s \<Rightarrow> 'e \<Rightarrow> bool) \<Rightarrow> ('s \<Rightarrow> 'e \<Rightarrow> 's) \<Rightarrow> 's \<Rightarrow> 'e list \<Rightarrow> nat" where
  "count_uses used step s [] = 0"
| "count_uses used step s (e # es) = (if used s e then 1 else 0) + count_uses used step (step s e) es"

locale bounded_uses = invariant_system +
  fixes used :: "'a \<Rightarrow> 'b \<Rightarrow> bool"
    and stock :: "'a \<Rightarrow> int"
  assumes stock_nonneg: "inv s \<Longrightarrow> 0 \<le> stock s"
    and stock_step: "inv s \<Longrightarrow> ok s e \<Longrightarrow> stock (step s e) + (if used s e then 1 else 0) \<le> stock s"
begin

lemma uses_le_stock:
  "inv s \<Longrightarrow> run_ok ok step s es \<Longrightarrow>
     int (count_uses used step s es) + stock (run_steps step s es) \<le> stock s"
proof (induction es arbitrary: s)
  case Nil
  then show ?case by simp
next
  case (Cons e es)
  then have "int (count_uses used step (step s e) es) + stock (run_steps step (step s e) es)
      \<le> stock (step s e)"
    by (intro Cons.IH) (auto intro: inv_step)
  with stock_step [of s e] Cons.prems show ?case by auto
qed

lemma uses_bounded:
  assumes "inv s" "run_ok ok step s es"
  shows "int (count_uses used step s es) \<le> stock s"
  using uses_le_stock [OF assms] stock_nonneg [OF inv_run [OF assms]] by simp

end

text \<open>A quantity that no step lowers.\<close>

locale monotone_system =
  fixes step :: "'s \<Rightarrow> 'e \<Rightarrow> 's"
    and measure_of :: "'s \<Rightarrow> int"
  assumes step_mono: "measure_of s \<le> measure_of (step s e)"
begin

lemma run_mono: "measure_of s \<le> measure_of (run_steps step s es)"
proof (induction es arbitrary: s)
  case Nil
  then show ?case by simp
next
  case (Cons e es)
  from step_mono [of s e] Cons [of "step s e"] show ?case by simp
qed

end

section \<open>Sums as results\<close>

text \<open>\<open>Inl e\<close> is a thrown error, \<open>Inr x\<close> a returned value; \<open>andThen\<close> sequences them.\<close>

fun andThen :: "'e + 'a \<Rightarrow> ('a \<Rightarrow> 'e + 'b) \<Rightarrow> 'e + 'b" where
  "andThen (Inl e) k = Inl e"
| "andThen (Inr x) k = k x"

lemma andThen_eq_Inr [simp]: "andThen r k = Inr y \<longleftrightarrow> (\<exists>x. r = Inr x \<and> k x = Inr y)"
  by (cases r) auto

lemma andThen_assoc: "andThen (andThen r f) g = andThen r (\<lambda>x. andThen (f x) g)"
  by (cases r) auto

section \<open>Big-endian 32-bit fields\<close>

text \<open>\<open>DataView.setUint32\<close>, \<open>Buffer.writeUInt32BE\<close> and their readers.\<close>

definition u32_be :: "32 word \<Rightarrow> byte list" where
  "u32_be w = [ucast (drop_bit 24 w), ucast (drop_bit 16 w), ucast (drop_bit 8 w), ucast w]"

fun be_u32 :: "byte list \<Rightarrow> 32 word option" where
  "be_u32 (a # b # c # d # _) =
     Some (push_bit 24 (ucast a) OR push_bit 16 (ucast b) OR push_bit 8 (ucast c) OR ucast d)"
| "be_u32 _ = None"

lemma length_u32_be [simp]: "length (u32_be w) = 4"
  by (simp add: u32_be_def)

lemma be_u32_short: "length bs < 4 \<Longrightarrow> be_u32 bs = None"
  by (cases bs rule: be_u32.cases) auto

lemma be_u32_append: "4 \<le> length bs \<Longrightarrow> be_u32 (bs @ cs) = be_u32 bs"
  by (cases bs rule: be_u32.cases) auto

lemma u32_recombine:
  fixes w :: "32 word"
  shows "push_bit 24 (ucast (ucast (drop_bit 24 w) :: byte))
     OR push_bit 16 (ucast (ucast (drop_bit 16 w) :: byte))
     OR push_bit 8 (ucast (ucast (drop_bit 8 w) :: byte)) OR ucast (ucast w :: byte) = w" (is "?l = w")
proof (rule bit_word_eqI)
  fix n assume "n < LENGTH(32)"
  then consider "n < 8" | "8 \<le> n" "n < 16" | "16 \<le> n" "n < 24" | "24 \<le> n" "n < 32"
    by fastforce
  then show "bit ?l n = bit w n"
    by cases (auto simp: bit_simps)
qed

lemma be_u32_u32_be [simp, wire_simps]: "be_u32 (u32_be w @ rest) = Some w"
  using u32_recombine [of w] by (simp add: u32_be_def)

lemma be_u32_u32_be_Nil [simp]: "be_u32 (u32_be w) = Some w"
  using be_u32_u32_be [of w "[]"] by simp

interpretation u32_codec: codec u32_be be_u32 "\<lambda>_. True"
  by unfold_locales simp

lemma unat_of_nat_u32: "n < 2 ^ 32 \<Longrightarrow> unat (of_nat n :: 32 word) = n"
  by (simp add: unsigned_of_nat take_bit_nat_eq_self)

section \<open>Lists\<close>

lemma list_all_concat: "list_all P (concat xss) \<longleftrightarrow> list_all (list_all P) xss"
  by (induction xss) auto

lemma take_concat_Cons:
  "length c \<le> n \<Longrightarrow> take n (concat (c # cs)) = c @ take (n - length c) (concat cs)"
  by simp

lemma sum_list_map_length_filter:
  "sum_list (map (\<lambda>x. if P x then (1::int) else 0) xs) = int (length (filter P xs))"
  by (induction xs) auto

end
