(* ===== verification/JsText.thy ===== *)
theory JsText
  imports Prelude
begin

text \<open>
  The text layer of JavaScript the sources rely on: \<open>TextEncoder\<close> and \<open>TextDecoder\<close>
  (UTF-8, with U+FFFD for lone surrogates and for ill-formed bytes, and the byte order
  mark dropped by the decoder), \<open>String.length\<close> in UTF-16 code units, white space and
  ASCII case, decimal literals, and JSON values with \<open>JSON.stringify\<close>.
\<close>

section \<open>UTF-8\<close>

fun utf8_point :: "nat \<Rightarrow> nat list" where
  "utf8_point c =
     (if c < 128 then [c]
      else if c < 2048 then [192 + c div 64, 128 + c mod 64]
      else if 55296 \<le> c \<and> c < 57344 then [239, 191, 189]
      else if c < 65536 then [224 + c div 4096, 128 + c div 64 mod 64, 128 + c mod 64]
      else [240 + c div 262144, 128 + c div 4096 mod 64, 128 + c div 64 mod 64, 128 + c mod 64])"

declare utf8_point.simps [simp del]

definition utf8_encode :: "js_string \<Rightarrow> byte list" where
  "utf8_encode s = map of_nat (concat (map utf8_point s))"

definition utf8_length :: "js_string \<Rightarrow> nat" where
  "utf8_length s = length (utf8_encode s)"

definition cont :: "nat \<Rightarrow> bool" where
  "cont b \<longleftrightarrow> 128 \<le> b \<and> b < 192"

text \<open>
  The decoder of the WHATWG encoding standard: the ranges of the second byte exclude
  overlong forms, surrogates and values past U+10FFFF; a byte that breaks a sequence is
  read again as the start of the next one.
\<close>

definition lead3 :: "nat \<Rightarrow> nat \<Rightarrow> bool" where
  "lead3 a b \<longleftrightarrow> cont b \<and> (a = 224 \<longrightarrow> 160 \<le> b) \<and> (a = 237 \<longrightarrow> b < 160)"

definition lead4 :: "nat \<Rightarrow> nat \<Rightarrow> bool" where
  "lead4 a b \<longleftrightarrow> cont b \<and> (a = 240 \<longrightarrow> 144 \<le> b) \<and> (a = 244 \<longrightarrow> b < 144)"

function (sequential) utf8_bytes :: "nat list \<Rightarrow> js_string" where
  "utf8_bytes [] = []"
| "utf8_bytes (a # bs) =
     (if a < 128 then a # utf8_bytes bs
      else if 194 \<le> a \<and> a < 224 then
        (case bs of
           b # cs \<Rightarrow> if cont b then ((a - 192) * 64 + (b - 128)) # utf8_bytes cs else 65533 # utf8_bytes bs
         | [] \<Rightarrow> [65533])
      else if 224 \<le> a \<and> a < 240 then
        (case bs of
           b # cs \<Rightarrow> if lead3 a b then
               (case cs of
                  c # ds \<Rightarrow> if cont c then ((a - 224) * 4096 + (b - 128) * 64 + (c - 128)) # utf8_bytes ds
                             else 65533 # utf8_bytes cs
                | [] \<Rightarrow> [65533])
             else 65533 # utf8_bytes bs
         | [] \<Rightarrow> [65533])
      else if 240 \<le> a \<and> a < 245 then
        (case bs of
           b # cs \<Rightarrow> if lead4 a b then
               (case cs of
                  c # ds \<Rightarrow> if cont c then
                      (case ds of
                         d # es \<Rightarrow> if cont d
                           then ((a - 240) * 262144 + (b - 128) * 4096 + (c - 128) * 64 + (d - 128)) # utf8_bytes es
                           else 65533 # utf8_bytes ds
                       | [] \<Rightarrow> [65533])
                    else 65533 # utf8_bytes cs
                | [] \<Rightarrow> [65533])
             else 65533 # utf8_bytes bs
         | [] \<Rightarrow> [65533])
      else 65533 # utf8_bytes bs)"
  by pat_completeness auto
termination
  by (relation "measure length") auto

declare utf8_bytes.simps [simp del]

definition utf8_decode :: "byte list \<Rightarrow> js_string" where
  "utf8_decode bs = (let ns = map unat bs in
     utf8_bytes (if take 3 ns = [239, 187, 191] then drop 3 ns else ns))"

definition scalar_value :: "nat \<Rightarrow> bool" where
  "scalar_value c \<longleftrightarrow> c < 55296 \<or> 57344 \<le> c \<and> c < 1114112"

text \<open>Strings that survive encoding and decoding: scalar values, no leading byte order mark.\<close>

definition text_ok :: "js_string \<Rightarrow> bool" where
  "text_ok s \<longleftrightarrow> list_all scalar_value s \<and> (s \<noteq> [] \<longrightarrow> hd s \<noteq> 65279)"

definition ascii :: "js_string \<Rightarrow> bool" where
  "ascii s \<longleftrightarrow> list_all (\<lambda>c. c < 128) s"

lemma utf8_point_byte: "c < 1114112 \<Longrightarrow> b \<in> set (utf8_point c) \<Longrightarrow> b < 256"
  by (auto simp: utf8_point.simps split: if_splits)

lemma utf8_bytes_ascii [simp]: "a < 128 \<Longrightarrow> utf8_bytes (a # bs) = a # utf8_bytes bs"
  by (simp add: utf8_bytes.simps)

lemma utf8_bytes_Nil [simp]: "utf8_bytes [] = []"
  by (simp add: utf8_bytes.simps)

lemma utf8_bytes_point2:
  assumes "128 \<le> c" "c < 2048"
  shows "utf8_bytes (utf8_point c @ bs) = c # utf8_bytes bs"
proof -
  have d: "2 \<le> c div 64" "c div 64 < 32" using assms by auto
  then show ?thesis using assms by (simp add: utf8_point.simps utf8_bytes.simps(2) cont_def)
qed

lemma mod_bound_low: "q div k = d \<Longrightarrow> q < d * k + r \<Longrightarrow> q mod k < r" for q k d r :: nat
  using div_mult_mod_eq [of q k] by simp

lemma mod_bound_high: "q div k = d \<Longrightarrow> d * k + r \<le> q \<Longrightarrow> r \<le> q mod k" for q k d r :: nat
  using div_mult_mod_eq [of q k] by simp

lemma div_64_64: "c div 4096 = c div 64 div 64" "c div 262144 = c div 4096 div 64" for c :: nat
  by (simp_all add: div_mult2_eq [symmetric])

lemma utf8_bytes_point3:
  assumes "2048 \<le> c" "c < 65536" "scalar_value c"
  shows "utf8_bytes (utf8_point c @ bs) = c # utf8_bytes bs"
proof -
  have d: "c div 4096 < 16" using assms by auto
  have "32 \<le> c div 64" using assms by auto
  then have lo: "32 \<le> c div 64 mod 64" if "c div 4096 = 0"
    using that by (intro mod_bound_high [of _ _ 0]) (auto simp: div_64_64)
  have hi: "c div 64 mod 64 < 32" if "c div 4096 = 13"
  proof -
    have "c < 55296" using that assms by (auto simp: scalar_value_def)
    then have "c div 64 < 864" by auto
    then show ?thesis using that by (intro mod_bound_low [of _ _ 13]) (auto simp: div_64_64)
  qed
  have l: "lead3 (224 + c div 4096) (128 + c div 64 mod 64)"
    using lo hi by (auto simp: lead3_def cont_def)
  have "c div 4096 * 4096 + c div 64 mod 64 * 64 + c mod 64 = c"
    using div_mult_mod_eq [of c 64] div_mult_mod_eq [of "c div 64" 64]
    unfolding div_64_64 by linarith
  moreover have "\<not> (55296 \<le> c \<and> c < 57344)"
    using assms by (auto simp: scalar_value_def)
  ultimately show ?thesis using d l assms
    by (simp add: utf8_point.simps utf8_bytes.simps(2) cont_def)
qed

lemma utf8_bytes_point4:
  assumes "65536 \<le> c" "c < 1114112"
  shows "utf8_bytes (utf8_point c @ bs) = c # utf8_bytes bs"
proof -
  have d: "c div 262144 < 5" using assms by auto
  have "16 \<le> c div 4096" "c div 4096 < 272" using assms by auto
  then have "16 \<le> c div 4096 mod 64" if "c div 262144 = 0"
    using that by (intro mod_bound_high [of _ _ 0]) (auto simp: div_64_64(2))
  moreover have "c div 4096 mod 64 < 16" if "c div 262144 = 4"
    using that \<open>c div 4096 < 272\<close> by (intro mod_bound_low [of _ _ 4]) (auto simp: div_64_64(2))
  ultimately have l: "lead4 (240 + c div 262144) (128 + c div 4096 mod 64)"
    by (auto simp: lead4_def cont_def)
  have "c div 262144 * 262144 + c div 4096 mod 64 * 4096 + c div 64 mod 64 * 64 + c mod 64 = c"
    using div_mult_mod_eq [of c 64] div_mult_mod_eq [of "c div 64" 64]
      div_mult_mod_eq [of "c div 64 div 64" 64]
    unfolding div_64_64 by linarith
  with d l assms show ?thesis
    by (simp add: utf8_point.simps utf8_bytes.simps(2) cont_def)
qed

lemma utf8_bytes_point:
  assumes "scalar_value c"
  shows "utf8_bytes (utf8_point c @ bs) = c # utf8_bytes bs"
proof -
  consider "c < 128" | "128 \<le> c" "c < 2048" | "2048 \<le> c" "c < 65536" | "65536 \<le> c" "c < 1114112"
    using assms unfolding scalar_value_def by linarith
  then show ?thesis
  proof cases
    case 1
    then show ?thesis by (simp add: utf8_point.simps)
  qed (use assms in \<open>auto intro: utf8_bytes_point2 utf8_bytes_point3 utf8_bytes_point4\<close>)
qed

lemma utf8_bytes_encode:
  "list_all scalar_value s \<Longrightarrow> utf8_bytes (concat (map utf8_point s)) = s"
  by (induction s) (simp_all add: utf8_bytes_point)

lemma unat_of_nat_byte: "n < 256 \<Longrightarrow> unat (of_nat n :: byte) = n"
  by (simp add: unsigned_of_nat take_bit_nat_eq_self)

lemma map_unat_utf8_encode:
  assumes "list_all scalar_value s"
  shows "map unat (utf8_encode s) = concat (map utf8_point s)"
proof -
  have "b < 256" if "b \<in> set (concat (map utf8_point s))" for b
  proof -
    from that obtain c where "c \<in> set s" "b \<in> set (utf8_point c)" by auto
    moreover from this assms have "c < 1114112" by (auto simp: list_all_iff scalar_value_def)
    ultimately show ?thesis by (auto intro: utf8_point_byte)
  qed
  then show ?thesis
    by (auto simp: utf8_encode_def unat_of_nat_byte intro!: map_idI)
qed

lemma utf8_point_bom:
  assumes "scalar_value c" "take 3 (utf8_point c @ bs) = [239, 187, 191]"
  shows "c = 65279"
proof -
  have "utf8_bytes (utf8_point c @ bs) = utf8_bytes ([239, 187, 191] @ drop 3 (utf8_point c @ bs))"
    using assms(2) by (metis append_take_drop_id)
  also have "\<dots> = 65279 # utf8_bytes (drop 3 (utf8_point c @ bs))"
    by (simp add: utf8_bytes.simps(2) lead3_def cont_def)
  finally show ?thesis using utf8_bytes_point [OF assms(1), of bs] by simp
qed

lemma utf8_roundtrip: "text_ok s \<Longrightarrow> utf8_decode (utf8_encode s) = s"
proof (cases s)
  case (Cons c cs)
  assume ok: "text_ok s"
  then have "\<not> take 3 (concat (map utf8_point s)) = [239, 187, 191]"
    using utf8_point_bom [of c "concat (map utf8_point cs)"] Cons
    by (auto simp: text_ok_def)
  with ok show ?thesis
    by (simp add: utf8_decode_def Let_def map_unat_utf8_encode utf8_bytes_encode text_ok_def)
qed (simp add: utf8_decode_def utf8_encode_def)

interpretation utf8_codec: codec utf8_encode "\<lambda>bs. Some (utf8_decode bs)" text_ok
  by unfold_locales (simp add: utf8_roundtrip)

lemma utf8_encode_append [simp]: "utf8_encode (s @ t) = utf8_encode s @ utf8_encode t"
  by (simp add: utf8_encode_def)

lemma utf8_encode_Nil [simp]: "utf8_encode [] = []"
  by (simp add: utf8_encode_def)

lemma utf8_length_append [simp]: "utf8_length (s @ t) = utf8_length s + utf8_length t"
  by (simp add: utf8_length_def)

lemma utf8_length_ge: "length s \<le> utf8_length s"
proof (induction s)
  case (Cons c s)
  have "1 \<le> length (utf8_point c)" by (simp add: utf8_point.simps)
  with Cons show ?case by (simp add: utf8_length_def utf8_encode_def)
qed simp

lemma ascii_text_ok: "ascii s \<Longrightarrow> text_ok s"
  by (cases s) (auto simp: ascii_def text_ok_def scalar_value_def list_all_iff)

lemma utf8_encode_ascii: "ascii s \<Longrightarrow> utf8_encode s = map of_nat s"
  by (induction s) (auto simp: ascii_def utf8_encode_def utf8_point.simps)

lemma utf8_length_ascii: "ascii s \<Longrightarrow> utf8_length s = length s"
  by (simp add: utf8_length_def utf8_encode_ascii)

section \<open>String operations\<close>

text \<open>\<open>String.prototype.length\<close> counts UTF-16 code units.\<close>

definition u16_length :: "js_string \<Rightarrow> nat" where
  "u16_length s = sum_list (map (\<lambda>c. if c < 65536 then 1 else 2) s)"

lemma u16_length_ascii: "ascii s \<Longrightarrow> u16_length s = length s"
  by (induction s) (auto simp: u16_length_def ascii_def)

text \<open>White space and line terminators of ECMAScript, as \<open>trim\<close> and \<open>\s\<close> read them.\<close>

definition js_space :: "nat \<Rightarrow> bool" where
  "js_space c \<longleftrightarrow> c \<in> {9, 10, 11, 12, 13, 32, 160, 5760, 8232, 8233, 8239, 8287, 12288, 65279}
     \<or> 8192 \<le> c \<and> c \<le> 8202"

definition line_end :: "nat \<Rightarrow> bool" where
  "line_end c \<longleftrightarrow> c \<in> {10, 13, 8232, 8233}"

definition js_trim :: "js_string \<Rightarrow> js_string" where
  "js_trim s = rev (dropWhile js_space (rev (dropWhile js_space s)))"

definition ascii_upper :: "nat \<Rightarrow> nat" where
  "ascii_upper c = (if 97 \<le> c \<and> c \<le> 122 then c - 32 else c)"

definition ascii_lower :: "nat \<Rightarrow> nat" where
  "ascii_lower c = (if 65 \<le> c \<and> c \<le> 90 then c + 32 else c)"

definition is_digit :: "nat \<Rightarrow> bool" where
  "is_digit c \<longleftrightarrow> 48 \<le> c \<and> c \<le> 57"

text \<open>The value of a string of decimal digits, and its printed form.\<close>

definition digits_value :: "js_string \<Rightarrow> nat" where
  "digits_value s = foldl (\<lambda>v c. v * 10 + (c - 48)) 0 s"

fun nat_digits :: "nat \<Rightarrow> js_string" where
  "nat_digits n = (if n < 10 then [48 + n] else nat_digits (n div 10) @ [48 + n mod 10])"

declare nat_digits.simps [simp del]

definition int_digits :: "int \<Rightarrow> js_string" where
  "int_digits i = (if i < 0 then 45 # nat_digits (nat (- i)) else nat_digits (nat i))"

lemma digits_value_snoc: "digits_value (s @ [c]) = digits_value s * 10 + (c - 48)"
  by (simp add: digits_value_def)

lemma nat_digits_digit: "list_all is_digit (nat_digits n)"
proof (induction n rule: nat_digits.induct)
  case (1 n)
  then show ?case by (subst nat_digits.simps) (auto simp: is_digit_def [abs_def])
qed

lemma nat_digits_nonempty [simp]: "nat_digits n \<noteq> []"
  by (subst nat_digits.simps) simp

lemma digits_value_nat_digits [simp]: "digits_value (nat_digits n) = n"
proof (induction n rule: nat_digits.induct)
  case (1 n)
  show ?case
  proof (cases "n < 10")
    case True
    then show ?thesis by (simp add: nat_digits.simps [of n] digits_value_def)
  next
    case False
    with 1 show ?thesis by (simp add: nat_digits.simps [of n] digits_value_snoc)
  qed
qed

interpretation digits_codec: codec nat_digits
    "\<lambda>s. if s \<noteq> [] \<and> list_all is_digit s then Some (digits_value s) else None" "\<lambda>_. True"
  by unfold_locales (simp add: nat_digits_digit)

text \<open>
  \<open>Number(s)\<close> of a string: the grammar of StringNumericLiteral with its decimal, hexadecimal,
  octal and binary forms.  \<open>None\<close> stands for NaN and for the infinities; a literal that
  rounds past the largest finite binary64 value is infinite.
\<close>

definition finite_number :: "rat \<Rightarrow> rat option" where
  "finite_number r = (if \<bar>r\<bar> < 2 ^ 1024 - 2 ^ 970 then Some r else None)"

definition digit_in :: "nat \<Rightarrow> nat \<Rightarrow> nat option" where
  "digit_in base c =
     (let d = (if is_digit c then c - 48 else if 97 \<le> ascii_lower c \<and> ascii_lower c \<le> 102 then ascii_lower c - 87 else 99)
      in if d < base then Some d else None)"

fun radix_value :: "nat \<Rightarrow> nat \<Rightarrow> js_string \<Rightarrow> nat option" where
  "radix_value base v [] = Some v"
| "radix_value base v (c # cs) =
     (case digit_in base c of None \<Rightarrow> None | Some d \<Rightarrow> radix_value base (v * base + d) cs)"

definition strip_char :: "nat \<Rightarrow> js_string \<Rightarrow> js_string option" where
  "strip_char c s = (case s of [] \<Rightarrow> None | x # t \<Rightarrow> if x = c then Some t else None)"

definition exponent_value :: "js_string \<Rightarrow> int option" where
  "exponent_value s = (case s of
     [] \<Rightarrow> Some 0
   | c # t \<Rightarrow>
       if ascii_lower c = 101 then
         (let neg = (strip_char 45 t \<noteq> None);
              ds = (case strip_char 43 t of Some u \<Rightarrow> u | None \<Rightarrow> (case strip_char 45 t of Some u \<Rightarrow> u | None \<Rightarrow> t))
          in if ds \<noteq> [] \<and> list_all is_digit ds
             then Some (if neg then - int (digits_value ds) else int (digits_value ds)) else None)
       else None)"

definition decimal_value :: "js_string \<Rightarrow> rat option" where
  "decimal_value s =
     (let ip = takeWhile is_digit s; r = dropWhile is_digit s;
          fp = (case strip_char 46 r of Some t \<Rightarrow> takeWhile is_digit t | None \<Rightarrow> []);
          r2 = (case strip_char 46 r of Some t \<Rightarrow> dropWhile is_digit t | None \<Rightarrow> r)
      in if ip = [] \<and> fp = [] then None
         else (case exponent_value r2 of
                 None \<Rightarrow> None
               | Some e \<Rightarrow> finite_number
                   (of_nat (digits_value (ip @ fp)) / 10 ^ length fp
                      * (if 0 \<le> e then 10 ^ nat e else 1 / 10 ^ nat (- e)))))"

definition radix_prefix :: "js_string \<Rightarrow> (nat \<times> js_string) option" where
  "radix_prefix s = (case s of
     z # x # t \<Rightarrow>
       if z = 48 \<and> ascii_lower x = 120 then Some (16, t)
       else if z = 48 \<and> ascii_lower x = 111 then Some (8, t)
       else if z = 48 \<and> ascii_lower x = 98 then Some (2, t) else None
   | _ \<Rightarrow> None)"

definition Number_of :: "js_string \<Rightarrow> rat option" where
  "Number_of raw = (let s = js_trim raw in
     if s = [] then Some 0
     else (case strip_char 43 s of
       Some t \<Rightarrow> decimal_value t
     | None \<Rightarrow> (case strip_char 45 s of
         Some t \<Rightarrow> map_option uminus (decimal_value t)
       | None \<Rightarrow> (case radix_prefix s of
           Some (base, t) \<Rightarrow>
             if t = [] then None else Option.bind (radix_value base 0 t) (\<lambda>v. finite_number (of_nat v))
         | None \<Rightarrow> decimal_value s))))"

section \<open>JSON values\<close>

text \<open>
  A value of \<open>JSON.parse\<close>: objects are association lists with distinct keys, in the
  order of the text; a literal past the finite numbers is \<open>JInf\<close>, with its sign.  \<open>JSON.stringify\<close> takes the printed form of a number as its argument
  (\<open>Number::toString\<close>, whose shortest binary64 digits are not modelled); \<open>int_num\<close> is that
  form on the integers below \<open>10 ^ 21\<close>.
\<close>

datatype json =
  JNull
| JBool bool
| JNum rat
| JInf bool
| JStr js_string
| JArr "json list"
| JObj "(js_string \<times> json) list"

definition int_num :: "rat \<Rightarrow> js_string" where
  "int_num r = int_digits \<lfloor>r\<rfloor>"

definition hex_digit :: "nat \<Rightarrow> nat" where
  "hex_digit d = (if d < 10 then 48 + d else 87 + d)"

definition escape_u :: "nat \<Rightarrow> js_string" where
  "escape_u c = [92, 117, hex_digit (c div 4096 mod 16), hex_digit (c div 256 mod 16),
     hex_digit (c div 16 mod 16), hex_digit (c mod 16)]"

definition quote_char :: "nat \<Rightarrow> js_string" where
  "quote_char c =
     (if c = 8 then [92, 98] else if c = 9 then [92, 116] else if c = 10 then [92, 110]
      else if c = 12 then [92, 102] else if c = 13 then [92, 114] else if c = 34 then [92, 34]
      else if c = 92 then [92, 92]
      else if c < 32 \<or> 55296 \<le> c \<and> c < 57344 then escape_u c else [c])"

definition quote_string :: "js_string \<Rightarrow> js_string" where
  "quote_string s = [34] @ concat (map quote_char s) @ [34]"

fun join :: "js_string \<Rightarrow> js_string list \<Rightarrow> js_string" where
  "join sep [] = []"
| "join sep [s] = s"
| "join sep (s # t # us) = s @ sep @ join sep (t # us)"

fun JSON_stringify :: "(rat \<Rightarrow> js_string) \<Rightarrow> json \<Rightarrow> js_string" where
  "JSON_stringify num JNull = js ''null''"
| "JSON_stringify num (JBool b) = (if b then js ''true'' else js ''false'')"
| "JSON_stringify num (JNum r) = num r"
| "JSON_stringify num (JInf neg) = js ''null''"
| "JSON_stringify num (JStr s) = quote_string s"
| "JSON_stringify num (JArr vs) = [91] @ join [44] (map (JSON_stringify num) vs) @ [93]"
| "JSON_stringify num (JObj fs) =
     [123] @ join [44] (map (\<lambda>(k, v). quote_string k @ [58] @ JSON_stringify num v) fs) @ [125]"

text \<open>Field access: \<open>undefined\<close> is \<open>None\<close>.\<close>

fun json_field :: "string \<Rightarrow> json \<Rightarrow> json option" where
  "json_field k (JObj fs) = map_of fs (js k)"
| "json_field k _ = None"

end
