(* ===== verification/Http.thy ===== *)
theory Http
  imports JsText
begin

text \<open>
  \<open>apps/rendez-key/src/http/errors.ts\<close> and \<open>headers.ts\<close>, and the part of the responses the
  routes build: status, headers (name and value, the last setting of a name wins) and a
  text, JSON or absent body.  \<open>toISOString\<close> is \<open>Date.prototype.toISOString\<close> on the years
  0 to 9999.
\<close>

datatype resp_body = NoBody | TextBody js_string | JsonBody json

record response =
  status :: nat
  headers :: "(string \<times> js_string) list"
  body :: resp_body

definition set_header :: "string \<Rightarrow> js_string \<Rightarrow> (string \<times> js_string) list \<Rightarrow> (string \<times> js_string) list" where
  "set_header k v hs = (k, v) # filter (\<lambda>(k', _). k' \<noteq> k) hs"

definition applyNoStore :: "(string \<times> js_string) list \<Rightarrow> (string \<times> js_string) list" where
  "applyNoStore hs = set_header ''Cache-Control'' (js ''no-store'') hs"

definition problem :: "nat \<Rightarrow> string \<Rightarrow> string \<Rightarrow> string option \<Rightarrow> response" where
  "problem st code title detail =
     \<lparr>status = st,
      headers = set_header ''Content-Type'' (js ''application/problem+json'') (applyNoStore []),
      body = JsonBody (JObj
        ([(js ''type'', JStr (js (''https://rendezkey.dev/problems/'' @ code))),
          (js ''title'', JStr (js title)),
          (js ''status'', JNum (of_nat st)),
          (js ''code'', JStr (js code))]
         @ (case detail of None \<Rightarrow> [] | Some d \<Rightarrow> [(js ''detail'', JStr (js d))])))\<rparr>"

section \<open>Dates\<close>

definition pad :: "nat \<Rightarrow> int \<Rightarrow> js_string" where
  "pad n i = (let ds = int_digits i in replicate (n - length ds) 48 @ ds)"

text \<open>The proleptic Gregorian date of a day number counted from 1970-01-01.\<close>

definition civil_date :: "int \<Rightarrow> int \<times> int \<times> int" where
  "civil_date days =
     (let z = days + 719468; era = z div 146097; doe = z mod 146097;
          yoe = (doe - doe div 1460 + doe div 36524 - doe div 146096) div 365;
          doy = doe - (365 * yoe + yoe div 4 - yoe div 100);
          mp = (5 * doy + 2) div 153;
          d = doy - (153 * mp + 2) div 5 + 1;
          m = (if mp < 10 then mp + 3 else mp - 9);
          y = yoe + era * 400 + (if m \<le> 2 then 1 else 0)
      in (y, m, d))"

definition toISOString :: "int \<Rightarrow> js_string" where
  "toISOString ms =
     (let (y, m, d) = civil_date (ms div 86400000); t = ms mod 86400000
      in pad 4 y @ [45] @ pad 2 m @ [45] @ pad 2 d @ [84]
         @ pad 2 (t div 3600000) @ [58] @ pad 2 (t div 60000 mod 60) @ [58]
         @ pad 2 (t div 1000 mod 60) @ [46] @ pad 3 (t mod 1000) @ [90])"

lemma header_set [simp]: "map_of (set_header k v hs) k = Some v"
  by (simp add: set_header_def)

lemma header_set_other: "k' \<noteq> k \<Longrightarrow> map_of (set_header k v hs) k' = map_of hs k'"
proof (induction hs)
  case (Cons h hs)
  then show ?case by (cases h) (auto simp: set_header_def)
qed (simp add: set_header_def)

lemma toISOString_epoch: "toISOString 0 = js ''1970-01-01T00:00:00.000Z''"
  by code_simp

lemma toISOString_leap_day: "toISOString 951827696789 = js ''2000-02-29T12:34:56.789Z''"
  by code_simp

end
