(* ===== verification/Code.thy ===== *)
theory Code
  imports JsText
begin

text \<open>
  \<open>apps/rendez-key/src/domain/code.ts\<close>: the short human-readable codes.  \<open>generateCode\<close>
  takes the five random bytes as its argument; \<open>normalizeCode\<close> takes the Unicode upper-case
  mapping of the non-ASCII code points (\<open>up\<close>), which \<open>toUpperCase\<close> applies and which no
  property depends on.
\<close>

definition CODE_ALPHABET :: js_string where
  "CODE_ALPHABET = js ''23456789ABCDEFGHJKLMNPQRSTUVWXYZ''"

definition CODE_LENGTH :: nat where
  "CODE_LENGTH = 8"

datatype code_error = InvalidCodeGenerationState

definition random_value :: "byte list \<Rightarrow> nat" where
  "random_value randomBytes = foldl (\<lambda>v b. push_bit 8 v OR unat b) 0 randomBytes"

text \<open>The loop \<open>for (shift = 35n; shift >= 0n; shift -= 5n)\<close>.\<close>

function code_loop :: "nat \<Rightarrow> int \<Rightarrow> js_string" where
  "code_loop v shift =
     (if 0 \<le> shift then CODE_ALPHABET ! (drop_bit (nat shift) v AND 31) # code_loop v (shift - 5) else [])"
  by pat_completeness auto
termination
  by (relation "measure (\<lambda>(v, shift). nat (shift + 5))") auto

declare code_loop.simps [simp del]

definition generateCode :: "byte list \<Rightarrow> code_error + js_string" where
  "generateCode randomBytes =
     (let out = code_loop (random_value randomBytes) 35
      in if length out \<noteq> CODE_LENGTH then Inl InvalidCodeGenerationState else Inr out)"

definition formatCode :: "js_string \<Rightarrow> js_string" where
  "formatCode code = take 4 code @ [45] @ drop 4 code"

definition toUpperCase :: "(nat \<Rightarrow> js_string) \<Rightarrow> js_string \<Rightarrow> js_string" where
  "toUpperCase up s = concat (map (\<lambda>c. if c < 128 then [ascii_upper c] else up c) s)"

definition separator :: "nat \<Rightarrow> bool" where
  "separator c \<longleftrightarrow> js_space c \<or> c = 45"

definition normalizeCode :: "(nat \<Rightarrow> js_string) \<Rightarrow> js_string \<Rightarrow> js_string option" where
  "normalizeCode up input =
     (let normalized = filter (\<lambda>c. \<not> separator c) (toUpperCase up input)
      in if u16_length normalized \<noteq> CODE_LENGTH then None
         else if list_all (\<lambda>c. c \<in> set CODE_ALPHABET) normalized then Some normalized
         else None)"

text \<open>The codes the service hands out, and the ways a person may type one.\<close>

definition valid_code :: "js_string \<Rightarrow> bool" where
  "valid_code c \<longleftrightarrow> length c = CODE_LENGTH \<and> set c \<subseteq> set CODE_ALPHABET"

definition typed_as :: "js_string \<Rightarrow> js_string \<Rightarrow> bool" where
  "typed_as s c \<longleftrightarrow> ascii s \<and> map ascii_upper (filter (\<lambda>x. \<not> separator x) s) = c"

section \<open>Lemmas\<close>

lemma length_CODE_ALPHABET [simp]: "length CODE_ALPHABET = 32"
  by (simp add: CODE_ALPHABET_def)

lemma distinct_CODE_ALPHABET: "distinct CODE_ALPHABET"
  by (simp add: CODE_ALPHABET_def)

lemma CODE_ALPHABET_chars:
  assumes "c \<in> set CODE_ALPHABET"
  shows "c < 128 \<and> ascii_upper c = c \<and> \<not> separator c"
proof -
  have "list_all (\<lambda>c. c < 128 \<and> ascii_upper c = c \<and> \<not> separator c) CODE_ALPHABET"
    by (simp add: CODE_ALPHABET_def ascii_upper_def separator_def js_space_def)
  with assms show ?thesis by (simp add: list_all_iff)
qed

lemma and_31: "v AND 31 = v mod 32" for v :: nat
  using take_bit_eq_mask [of 5 v] by (simp add: take_bit_eq_mod mask_eq_exp_minus_1)

lemma push_bit_or_add:
  fixes v b :: nat
  assumes "b < 256"
  shows "push_bit 8 v OR b = v * 256 + b"
proof -
  have t: "take_bit 8 b = b" using assms by (simp add: take_bit_nat_eq_self)
  have "push_bit 8 v AND take_bit 8 b = 0"
    by (rule bit_eqI) (auto simp: bit_simps)
  then show ?thesis
    using disjunctive_add_eq_or [of "push_bit 8 v" b] t by (simp add: push_bit_eq_mult)
qed

lemma unat_byte_less [simp]: "unat (b :: byte) < 256"
  using unsigned_less [of b] by simp

lemma random_value_snoc: "random_value (bs @ [b]) = random_value bs * 256 + unat b"
  by (simp add: random_value_def push_bit_or_add)

lemma random_value_bound: "random_value bs < 256 ^ length bs"
proof (induction bs rule: rev_induct)
  case Nil
  then show ?case by (simp add: random_value_def)
next
  case (snoc b bs)
  have "unat b < 256" by simp
  moreover from snoc have "Suc (random_value bs) * 256 \<le> 256 ^ length bs * 256"
    by (intro mult_le_mono1) simp
  ultimately have "random_value bs * 256 + unat b < 256 ^ length bs * 256"
    unfolding mult_Suc by linarith
  then show ?case by (simp add: random_value_snoc)
qed

lemma split_256: "x * 256 + a = y * 256 + b \<Longrightarrow> a < 256 \<Longrightarrow> b < 256 \<Longrightarrow> a = b \<and> x = y" for x y a b :: nat
proof -
  assume eq: "x * 256 + a = y * 256 + b" and lt: "a < 256" "b < 256"
  have "(x * 256 + a) mod 256 = a" "(y * 256 + b) mod 256 = b" using lt by simp_all
  with eq have "a = b" by simp
  with eq show ?thesis by simp
qed

lemma random_value_inj:
  "length as = length bs \<Longrightarrow> random_value as = random_value bs \<Longrightarrow> as = bs"
proof (induction as arbitrary: bs rule: rev_induct)
  case Nil
  then show ?case by simp
next
  case (snoc a as)
  then obtain b bs' where bs: "bs = bs' @ [b]" "length bs' = length as"
    by (metis length_append_singleton length_0_conv nat.simps(3) rev_exhaust diff_Suc_1)
  have eq: "random_value as * 256 + unat a = random_value bs' * 256 + unat b"
    using snoc.prems(2) by (simp add: bs random_value_snoc)
  from split_256 [OF this] have "unat a = unat b" "random_value as = random_value bs'" by simp_all
  with snoc.IH [of bs'] bs show ?case by (simp add: unsigned_word_eqI)
qed

lemma code_loop_35:
  "code_loop v 35 = map (\<lambda>k. CODE_ALPHABET ! (v div 32 ^ k mod 32)) [7, 6, 5, 4, 3, 2, 1, 0]"
  by (simp add: code_loop.simps and_31 drop_bit_eq_div)

lemma generateCode_eq:
  "generateCode bs = Inr (map (\<lambda>k. CODE_ALPHABET ! (random_value bs div 32 ^ k mod 32)) [7, 6, 5, 4, 3, 2, 1, 0])"
  by (simp add: generateCode_def code_loop_35 CODE_LENGTH_def Let_def)

lemma base_32_digits:
  "(\<forall>k < n. v div 32 ^ k mod 32 = w div 32 ^ k mod 32) \<Longrightarrow> v mod 32 ^ n = w mod 32 ^ n" for v w :: nat
proof (induction n)
  case (Suc n)
  then have "v mod 32 ^ n = w mod 32 ^ n" "v div 32 ^ n mod 32 = w div 32 ^ n mod 32" by auto
  then show ?case by (simp add: mod_mult2_eq mult.commute [of 32 "32 ^ n"])
qed simp

lemma generateCode_valid:
  assumes "generateCode bs = Inr c"
  shows "valid_code c"
proof -
  have "CODE_ALPHABET ! (n mod 32) \<in> set CODE_ALPHABET" for n by simp
  with assms show ?thesis
    by (auto simp: generateCode_eq valid_code_def CODE_LENGTH_def)
qed

lemma generateCode_inj:
  assumes "length as = 5" "length bs = 5" "generateCode as = generateCode bs"
  shows "as = bs"
proof -
  let ?v = "random_value as" and ?w = "random_value bs"
  have "?v div 32 ^ k mod 32 = ?w div 32 ^ k mod 32" if "k < 8" for k
  proof -
    have "k \<in> set [7, 6, 5, 4, 3, 2, 1, 0]" using that by auto
    moreover have "\<forall>k \<in> set [7, 6, 5, 4, 3, 2, 1, 0].
        CODE_ALPHABET ! (?v div 32 ^ k mod 32) = CODE_ALPHABET ! (?w div 32 ^ k mod 32)"
      using assms(3) unfolding generateCode_eq sum.inject map_eq_conv .
    ultimately have "CODE_ALPHABET ! (?v div 32 ^ k mod 32) = CODE_ALPHABET ! (?w div 32 ^ k mod 32)"
      by (rule bspec [rotated])
    then show ?thesis
      using nth_eq_iff_index_eq [OF distinct_CODE_ALPHABET] by simp
  qed
  then have "?v mod 32 ^ 8 = ?w mod 32 ^ 8" by (intro base_32_digits) simp
  moreover have "?v < 32 ^ 8" "?w < 32 ^ 8"
    using random_value_bound [of as] random_value_bound [of bs] assms(1,2) by simp_all
  ultimately have "?v = ?w" by (metis mod_less)
  with assms show ?thesis by (intro random_value_inj) simp_all
qed

lemma valid_code_ascii: "valid_code c \<Longrightarrow> ascii c"
  using CODE_ALPHABET_chars by (auto simp: valid_code_def ascii_def list_all_iff)

lemma toUpperCase_ascii: "ascii s \<Longrightarrow> toUpperCase up s = map ascii_upper s"
  by (induction s) (auto simp: toUpperCase_def ascii_def)

lemma separator_upper: "separator (ascii_upper c) = separator c"
  by (auto simp: separator_def js_space_def ascii_upper_def)

lemma filter_upper:
  "filter (\<lambda>c. \<not> separator c) (map ascii_upper s) = map ascii_upper (filter (\<lambda>c. \<not> separator c) s)"
  by (induction s) (simp_all add: separator_upper)

lemma normalizeCode_typed:
  assumes "typed_as s c" "valid_code c"
  shows "normalizeCode up s = Some c"
  using assms valid_code_ascii [OF assms(2)]
  by (auto simp: normalizeCode_def typed_as_def toUpperCase_ascii filter_upper u16_length_ascii
      valid_code_def list_all_iff Let_def)

lemma normalizeCode_valid:
  assumes "normalizeCode up s = Some c"
  shows "valid_code c"
proof -
  let ?n = "filter (\<lambda>c. \<not> separator c) (toUpperCase up s)"
  from assms have n: "c = ?n" "u16_length ?n = CODE_LENGTH" "list_all (\<lambda>x. x \<in> set CODE_ALPHABET) ?n"
    by (auto simp: normalizeCode_def Let_def split: if_splits)
  then have "ascii c" using CODE_ALPHABET_chars by (auto simp: ascii_def list_all_iff)
  with n show ?thesis by (auto simp: valid_code_def u16_length_ascii list_all_iff)
qed

lemma formatCode_typed:
  assumes "valid_code c"
  shows "typed_as (formatCode c) c" "typed_as (map ascii_lower (formatCode c)) c" "typed_as c c"
proof -
  have up: "ascii_upper (ascii_lower x) = x" "\<not> separator (ascii_lower x)" "ascii_lower x < 128"
    if "x \<in> set CODE_ALPHABET" for x
    using CODE_ALPHABET_chars [OF that] that
    by (auto simp: ascii_upper_def ascii_lower_def separator_def js_space_def split: if_splits)
  have all: "x \<in> set CODE_ALPHABET" if "x \<in> set c" for x
    using assms that by (auto simp: valid_code_def)
  have id: "map ascii_upper (filter (\<lambda>x. \<not> separator x) xs) = xs"
    "map ascii_upper (filter (\<lambda>x. \<not> separator x) (map ascii_lower xs)) = xs"
    if "set xs \<subseteq> set c" for xs
    using that all CODE_ALPHABET_chars up by (induction xs) auto
  have dash: "separator 45" "ascii_lower 45 = 45" by (simp_all add: separator_def ascii_lower_def)
  have sub: "set (take 4 c) \<subseteq> set c" "set (drop 4 c) \<subseteq> set c"
    by (auto dest: in_set_takeD in_set_dropD)
  have asc: "ascii (formatCode c)" "ascii (map ascii_lower (formatCode c))" "ascii c"
    using all CODE_ALPHABET_chars up sub dash
    by (auto simp: ascii_def formatCode_def list_all_iff)
  show "typed_as (formatCode c) c" "typed_as (map ascii_lower (formatCode c)) c" "typed_as c c"
    using asc id dash sub by (simp_all add: typed_as_def formatCode_def)
qed

section \<open>Properties\<close>

text \<open>
  Code generation never fails, and maps the five random bytes one-to-one onto the valid
  codes (8 characters of the alphabet): every code is produced by exactly one draw, so all
  \<open>2 ^ 40\<close> codes are equally likely.
\<close>

theorem generateCode_bijective:
  "bij_betw generateCode {bs. length bs = 5} (Inr ` {c. valid_code c})"
proof -
  let ?B = "{bs :: byte list. length bs = 5}" and ?C = "Inr ` {c. valid_code c} :: (code_error + js_string) set"
  have inj: "inj_on generateCode ?B" by (auto intro: inj_onI generateCode_inj)
  have sub: "generateCode ` ?B \<subseteq> ?C"
    using generateCode_valid generateCode_eq by fastforce
  have "card ?B = 256 ^ 5"
    using card_lists_length_eq [of "UNIV :: byte set" 5] by (simp add: card_word)
  moreover have "{c. valid_code c} = {c. set c \<subseteq> set CODE_ALPHABET \<and> length c = 8}"
    by (auto simp: valid_code_def CODE_LENGTH_def)
  then have fin: "finite {c. valid_code c}" and "card {c. valid_code c} = 32 ^ 8"
    using card_lists_length_eq [of "set CODE_ALPHABET" 8] finite_lists_length_eq [of "set CODE_ALPHABET" 8]
    by (simp_all add: distinct_card [OF distinct_CODE_ALPHABET])
  then have "card ?C = 32 ^ 8" by (simp add: card_image)
  ultimately have "card (generateCode ` ?B) = card ?C"
    using card_image [OF inj] by simp
  with sub fin have "generateCode ` ?B = ?C" by (intro card_subset_eq) auto
  with inj show ?thesis by (simp add: bij_betw_def)
qed

text \<open>
  Whatever a person types for a generated code (ASCII letters in any case, any white
  space or hyphens around or inside it) is normalised to that code; the displayed form
  \<open>XXXX-XXXX\<close> and its lower-case form are among these.
\<close>

theorem normalizeCode_roundtrip:
  assumes "generateCode bs = Inr c" and "typed_as s c"
  shows "normalizeCode up s = Some c
    \<and> typed_as (formatCode c) c \<and> typed_as (map ascii_lower (formatCode c)) c"
  using generateCode_valid [OF assms(1)] formatCode_typed normalizeCode_typed [OF assms(2)] by blast

theorem normalizeCode_roundtrip_witness:
  "generateCode [0, 0, 0, 0, 255] = Inr (js ''2222229Z'')
    \<and> typed_as (js '' 2222-229z '') (js ''2222229Z'')
    \<and> normalizeCode (\<lambda>_. []) (js '' 2222-229z '') = Some (js ''2222229Z'')"
proof -
  have "random_value [0, 0, 0, 0, 255] = 255"
    by (simp add: random_value_def push_bit_or_add)
  then have g: "generateCode [0, 0, 0, 0, 255] = Inr (js ''2222229Z'')"
    by (simp add: generateCode_eq CODE_ALPHABET_def)
  have s: "typed_as (js '' 2222-229z '') (js ''2222229Z'')"
    by (simp add: typed_as_def ascii_def separator_def js_space_def ascii_upper_def)
  from g s normalizeCode_roundtrip [OF g s] show ?thesis by blast
qed

end
