(* ===== verification/EntryLimits.thy ===== *)
theory EntryLimits
  imports JsText
begin

text \<open>
  \<open>apps/rendez-key/src/domain/limits.ts\<close>: the bounds of a create request.  Thrown errors
  are the constructors of \<open>limit_error\<close>; a query parameter is \<open>None\<close> when absent.
\<close>

definition DEFAULT_TTL_SECONDS :: int where "DEFAULT_TTL_SECONDS = 3600"
definition MIN_TTL_SECONDS :: int where "MIN_TTL_SECONDS = 60"
definition MAX_TTL_SECONDS :: int where "MAX_TTL_SECONDS = 604800"
definition DEFAULT_MAX_READS :: int where "DEFAULT_MAX_READS = 1"
definition MIN_MAX_READS :: int where "MIN_MAX_READS = 1"
definition MAX_MAX_READS :: int where "MAX_MAX_READS = 100"
definition MAX_PAYLOAD_BYTES :: nat where "MAX_PAYLOAD_BYTES = 65536"

record LimitProfile =
  defaultTtlSeconds :: int
  minTtlSeconds :: int
  maxTtlSeconds :: int
  defaultMaxReads :: int
  minMaxReads :: int
  maxMaxReads :: int
  maxPayloadBytes :: nat

definition PRIVILEGED_LIMITS :: LimitProfile where
  "PRIVILEGED_LIMITS = \<lparr>defaultTtlSeconds = DEFAULT_TTL_SECONDS, minTtlSeconds = MIN_TTL_SECONDS,
     maxTtlSeconds = MAX_TTL_SECONDS, defaultMaxReads = DEFAULT_MAX_READS, minMaxReads = MIN_MAX_READS,
     maxMaxReads = MAX_MAX_READS, maxPayloadBytes = MAX_PAYLOAD_BYTES\<rparr>"

definition ANONYMOUS_LIMITS :: LimitProfile where
  "ANONYMOUS_LIMITS = \<lparr>defaultTtlSeconds = DEFAULT_TTL_SECONDS, minTtlSeconds = MIN_TTL_SECONDS,
     maxTtlSeconds = 3600, defaultMaxReads = DEFAULT_MAX_READS, minMaxReads = MIN_MAX_READS,
     maxMaxReads = 5, maxPayloadBytes = 8192\<rparr>"

datatype limit_error = InvalidTtl | InvalidReads | PayloadTooLarge | EmptyPayload

definition MAX_SAFE_INTEGER :: int where
  "MAX_SAFE_INTEGER = 9007199254740991"

text \<open>
  \<open>Number(raw)\<close> of a digit string past the safe integers rounds, but never back into them,
  so the exact value decides \<open>isSafeInteger\<close>.
\<close>

definition parseBoundedInteger :: "js_string option \<Rightarrow> int \<Rightarrow> int \<Rightarrow> int \<Rightarrow> limit_error \<Rightarrow> limit_error + int" where
  "parseBoundedInteger raw defaultValue minimum maximum errorCode = (case raw of
     None \<Rightarrow> Inr defaultValue
   | Some s \<Rightarrow>
       if \<not> (s \<noteq> [] \<and> list_all is_digit s) then Inl errorCode
       else (let v = int (digits_value s)
             in if \<not> v \<le> MAX_SAFE_INTEGER \<or> v < minimum \<or> v > maximum then Inl errorCode
                else Inr v))"

definition parseTtl :: "js_string option \<Rightarrow> LimitProfile \<Rightarrow> limit_error + int" where
  "parseTtl raw p = parseBoundedInteger raw (defaultTtlSeconds p) (minTtlSeconds p) (maxTtlSeconds p) InvalidTtl"

definition parseMaxReads :: "js_string option \<Rightarrow> LimitProfile \<Rightarrow> limit_error + int" where
  "parseMaxReads raw p = parseBoundedInteger raw (defaultMaxReads p) (minMaxReads p) (maxMaxReads p) InvalidReads"

definition utf8ByteLength :: "js_string \<Rightarrow> nat" where
  "utf8ByteLength s = utf8_length s"

text \<open>\<open>declared\<close> is the content-length header, \<open>body\<close> the text of the request.\<close>

definition readUtf8Body :: "js_string option \<Rightarrow> js_string \<Rightarrow> LimitProfile \<Rightarrow> limit_error + js_string" where
  "readUtf8Body declared body p =
     (if (case declared of
            None \<Rightarrow> False
          | Some h \<Rightarrow> (case Number_of h of None \<Rightarrow> False | Some r \<Rightarrow> of_nat (maxPayloadBytes p) < r))
      then Inl PayloadTooLarge
      else if utf8ByteLength body < 1 then Inl EmptyPayload
      else if utf8ByteLength body > maxPayloadBytes p then Inl PayloadTooLarge
      else Inr body)"

lemmas limit_defs = DEFAULT_TTL_SECONDS_def MIN_TTL_SECONDS_def MAX_TTL_SECONDS_def
  DEFAULT_MAX_READS_def MIN_MAX_READS_def MAX_MAX_READS_def MAX_PAYLOAD_BYTES_def
  PRIVILEGED_LIMITS_def ANONYMOUS_LIMITS_def

text \<open>A profile is usable when its defaults are within its bounds and its bounds are safe integers.\<close>

definition profile_ok :: "LimitProfile \<Rightarrow> bool" where
  "profile_ok p \<longleftrightarrow>
     0 < minTtlSeconds p \<and> minTtlSeconds p \<le> defaultTtlSeconds p \<and> defaultTtlSeconds p \<le> maxTtlSeconds p
     \<and> maxTtlSeconds p \<le> MAX_SAFE_INTEGER
     \<and> 0 < minMaxReads p \<and> minMaxReads p \<le> defaultMaxReads p \<and> defaultMaxReads p \<le> maxMaxReads p
     \<and> maxMaxReads p \<le> MAX_SAFE_INTEGER"

lemma profiles_ok [simp]: "profile_ok PRIVILEGED_LIMITS" "profile_ok ANONYMOUS_LIMITS"
  by (simp_all add: profile_ok_def limit_defs MAX_SAFE_INTEGER_def)

text \<open>The parser accepts exactly the decimal forms of the integers within the bounds.\<close>

lemma parseBoundedInteger_Inr:
  assumes "0 \<le> lo" "lo \<le> dflt" "dflt \<le> hi" "hi \<le> MAX_SAFE_INTEGER"
  shows "parseBoundedInteger raw dflt lo hi e = Inr v \<longleftrightarrow>
    (case raw of None \<Rightarrow> v = dflt
     | Some s \<Rightarrow> s \<noteq> [] \<and> list_all is_digit s \<and> v = int (digits_value s) \<and> lo \<le> v \<and> v \<le> hi)"
  using assms by (auto simp: parseBoundedInteger_def Let_def split: option.splits)

lemma parseBoundedInteger_print:
  assumes "0 \<le> lo" "lo \<le> v" "v \<le> hi" "hi \<le> MAX_SAFE_INTEGER"
  shows "parseBoundedInteger (Some (nat_digits (nat v))) dflt lo hi e = Inr v"
  using assms by (simp add: parseBoundedInteger_def Let_def nat_digits_digit)

lemma parseTtl_bounds:
  assumes "profile_ok p" "parseTtl raw p = Inr v"
  shows "minTtlSeconds p \<le> v \<and> v \<le> maxTtlSeconds p"
  using assms parseBoundedInteger_Inr [of "minTtlSeconds p" "defaultTtlSeconds p" "maxTtlSeconds p" raw InvalidTtl v]
  by (auto simp: parseTtl_def profile_ok_def split: option.splits)

lemma parseMaxReads_bounds:
  assumes "profile_ok p" "parseMaxReads raw p = Inr v"
  shows "minMaxReads p \<le> v \<and> v \<le> maxMaxReads p"
  using assms parseBoundedInteger_Inr [of "minMaxReads p" "defaultMaxReads p" "maxMaxReads p" raw InvalidReads v]
  by (auto simp: parseMaxReads_def profile_ok_def split: option.splits)

lemma readUtf8Body_Inr:
  assumes "readUtf8Body declared body p = Inr v"
  shows "v = body \<and> 1 \<le> utf8_length body \<and> utf8_length body \<le> maxPayloadBytes p"
  using assms by (auto simp: readUtf8Body_def utf8ByteLength_def split: if_splits)

section \<open>Properties\<close>

text \<open>
  A bounded query parameter is accepted exactly when it is absent (the default is used)
  or is a non-empty string of decimal digits whose value lies within the profile's bounds,
  which is then the result; every integer within the bounds can be requested by its decimal
  form; anything else is the error.
\<close>

theorem parseTtl_exact:
  assumes "profile_ok p"
  shows "(parseTtl raw p = Inr v \<longleftrightarrow>
      (case raw of None \<Rightarrow> v = defaultTtlSeconds p
       | Some s \<Rightarrow> s \<noteq> [] \<and> list_all is_digit s \<and> v = int (digits_value s)
           \<and> minTtlSeconds p \<le> v \<and> v \<le> maxTtlSeconds p))
    \<and> (minTtlSeconds p \<le> n \<and> n \<le> maxTtlSeconds p \<longrightarrow> parseTtl (Some (nat_digits (nat n))) p = Inr n)
    \<and> (parseTtl raw p \<noteq> Inl InvalidTtl \<longrightarrow> (\<exists>w. parseTtl raw p = Inr w))"
proof -
  have "parseTtl (Some (nat_digits (nat n))) p = Inr n" if "minTtlSeconds p \<le> n" "n \<le> maxTtlSeconds p"
    using assms that unfolding parseTtl_def profile_ok_def by (intro parseBoundedInteger_print) auto
  moreover have "\<exists>w. parseTtl raw p = Inr w" if "parseTtl raw p \<noteq> Inl InvalidTtl"
    using that by (auto simp: parseTtl_def parseBoundedInteger_def Let_def split: option.splits if_splits)
  ultimately show ?thesis
    using assms parseBoundedInteger_Inr [of "minTtlSeconds p" "defaultTtlSeconds p" "maxTtlSeconds p" raw InvalidTtl v]
    by (auto simp: parseTtl_def profile_ok_def)
qed

theorem parseTtl_exact_witness:
  "profile_ok ANONYMOUS_LIMITS \<and> parseTtl (Some (nat_digits (nat 3600))) ANONYMOUS_LIMITS = Inr 3600"
proof -
  have "minTtlSeconds ANONYMOUS_LIMITS \<le> 3600 \<and> 3600 \<le> maxTtlSeconds ANONYMOUS_LIMITS"
    by (simp add: limit_defs)
  then show ?thesis using parseTtl_exact [OF profiles_ok(2), of None 0 3600] by simp
qed

end
