(* ===== verification/Auth.thy ===== *)
theory Auth
  imports JsText
begin

text \<open>
  \<open>apps/rendez-key/src/http/auth.ts\<close> and \<open>signal-auth.ts\<close>: who may create entries and
  signaling rooms.  A middleware returns the tier it sets before calling the next handler,
  or the problem response it answers with.  The rate limiter is a platform binding: a
  function from the key to its \<open>success\<close> answer, \<open>None\<close> when the binding is absent.
\<close>

datatype tier = Privileged | Anonymous

datatype auth_outcome = Next tier | Problem nat string

record auth_env =
  API_TOKEN :: "js_string option"
  PUBLIC_CREATE :: "js_string option"
  CREATE_LIMITER :: "(js_string \<Rightarrow> bool) option"
  PUBLIC_SIGNAL_CREATE :: "js_string option"
  SIGNAL_CREATE_LIMITER :: "(js_string \<Rightarrow> bool) option"

record auth_request =
  authHeader :: "js_string option"
  connectingIp :: "js_string option"

definition timingSafeStringEqual :: "js_string \<Rightarrow> js_string \<Rightarrow> bool" where
  "timingSafeStringEqual left right =
     (let leftBytes = utf8_encode left; rightBytes = utf8_encode right
      in if length leftBytes \<noteq> length rightBytes then False else leftBytes = rightBytes)"

text \<open>
  A variable enables a mode when it is \<open>true\<close> or \<open>1\<close> after \<open>trim\<close> and \<open>toLowerCase\<close>; no
  code point outside ASCII has one of these letters as its lower case.
\<close>

definition enabled_flag :: "js_string option \<Rightarrow> bool" where
  "enabled_flag v =
     (let s = map ascii_lower (js_trim (case v of None \<Rightarrow> [] | Some x \<Rightarrow> x))
      in s = js ''true'' \<or> s = js ''1'')"

definition isOpenMode :: "auth_env \<Rightarrow> bool" where
  "isOpenMode env = enabled_flag (PUBLIC_CREATE env)"

definition publicSignalCreateEnabled :: "auth_env \<Rightarrow> bool" where
  "publicSignalCreateEnabled env = enabled_flag (PUBLIC_SIGNAL_CREATE env)"

text \<open>
  \<open>/^Bearer\s+(.+)$/i\<close> on the trimmed header: the greedy \<open>\s+\<close> takes all white space, and
  the rest is the token unless it is empty or holds a line terminator, which \<open>.\<close> excludes.
\<close>

definition bearerToken :: "js_string \<Rightarrow> js_string option" where
  "bearerToken header =
     (let h = js_trim header; rest = drop 6 h; token = dropWhile js_space rest
      in if map ascii_lower (take 6 h) = js ''bearer'' \<and> rest \<noteq> [] \<and> js_space (hd rest)
            \<and> token \<noteq> [] \<and> list_all (\<lambda>c. \<not> line_end c) token
         then Some token else None)"

definition clientIp :: "auth_request \<Rightarrow> js_string" where
  "clientIp r = (case connectingIp r of None \<Rightarrow> js ''unknown'' | Some ip \<Rightarrow> ip)"

definition isRateLimited :: "(js_string \<Rightarrow> bool) option \<Rightarrow> js_string \<Rightarrow> bool" where
  "isRateLimited limiter key = (case limiter of None \<Rightarrow> False | Some limit \<Rightarrow> \<not> limit key)"

definition token_accepted :: "auth_env \<Rightarrow> js_string \<Rightarrow> bool" where
  "token_accepted env header = (case (bearerToken header, API_TOKEN env) of
     (Some token, Some configured) \<Rightarrow> 0 < length configured \<and> timingSafeStringEqual token configured
   | _ \<Rightarrow> False)"

definition authorizeCreate :: "auth_env \<Rightarrow> auth_request \<Rightarrow> auth_outcome" where
  "authorizeCreate env r = (case authHeader r of
     Some header \<Rightarrow> if token_accepted env header then Next Privileged else Problem 401 ''unauthorized''
   | None \<Rightarrow>
       if \<not> isOpenMode env then Problem 401 ''unauthorized''
       else if isRateLimited (CREATE_LIMITER env) (clientIp r) then Problem 429 ''rate_limited''
       else Next Anonymous)"

definition authorizeSignalCreate :: "auth_env \<Rightarrow> auth_request \<Rightarrow> auth_outcome" where
  "authorizeSignalCreate env r = (case authHeader r of
     Some header \<Rightarrow> if token_accepted env header then Next Privileged else Problem 401 ''unauthorized''
   | None \<Rightarrow>
       if \<not> publicSignalCreateEnabled env then Problem 403 ''signal_create_disabled''
       else if isRateLimited (SIGNAL_CREATE_LIMITER env) (clientIp r) then Problem 429 ''rate_limited''
       else Next Anonymous)"

section \<open>Lemmas\<close>

lemma timingSafeStringEqual_iff:
  assumes "list_all scalar_value s" "list_all scalar_value t"
  shows "timingSafeStringEqual s t \<longleftrightarrow> s = t"
  using assms utf8_bytes_encode map_unat_utf8_encode
  by (auto simp: timingSafeStringEqual_def Let_def) (metis)

lemma dropWhile_space_token:
  assumes "t \<noteq> []" "\<not> js_space (hd t)" "list_all js_space sp"
  shows "dropWhile js_space (sp @ t) = t"
  using assms by (cases t) (auto simp: list_all_iff dropWhile_append)

lemma js_trim_id:
  assumes "s \<noteq> []" "\<not> js_space (hd s)" "\<not> js_space (last s)"
  shows "js_trim s = s"
proof -
  have "dropWhile js_space s = s" using assms by (cases s) auto
  moreover have "dropWhile js_space (rev s) = rev s"
    using assms by (cases "rev s") (auto simp: last_rev hd_rev)
  ultimately show ?thesis by (simp add: js_trim_def)
qed

text \<open>Every header \<open>Bearer \<langle>token\<rangle>\<close>, in any case and with any white space, yields its token.\<close>

lemma bearerToken_header:
  assumes "map ascii_lower p = js ''bearer''" "sp \<noteq> []" "list_all js_space sp"
    and "t \<noteq> []" "\<not> js_space (hd t)" "\<not> js_space (last t)" "list_all (\<lambda>c. \<not> line_end c) t"
  shows "bearerToken (p @ sp @ t) = Some t"
proof -
  have len: "length p = 6" using arg_cong [OF assms(1), of length] by simp
  then obtain c p' where p: "p = c # p'" by (cases p) auto
  with assms(1) have "ascii_lower c = 98" by simp
  then have "\<not> js_space c" by (auto simp: ascii_lower_def js_space_def split: if_splits)
  then have "js_trim (p @ sp @ t) = p @ sp @ t"
    using assms p by (intro js_trim_id) auto
  moreover have "js_space (hd (sp @ t))" using assms(2,3) by (cases sp) auto
  moreover have "dropWhile js_space (sp @ t) = t" using assms by (intro dropWhile_space_token)
  ultimately show ?thesis using assms len hd_in_set [OF assms(4)] by (auto simp: bearerToken_def Let_def)
qed

section \<open>Properties\<close>



text \<open>
  The two middlewares agree on every request with an Authorization header, and without
  one room creation is refused with 403 (not 401) when anonymous creation is disabled;
  otherwise only the limiter can refuse it.
\<close>

theorem authorizeSignalCreate_cases:
  "(authHeader r \<noteq> None \<longrightarrow> authorizeSignalCreate env r = authorizeCreate env r)
   \<and> (authHeader r = None \<and> \<not> publicSignalCreateEnabled env \<longrightarrow>
        authorizeSignalCreate env r = Problem 403 ''signal_create_disabled'')
   \<and> (authHeader r = None \<and> publicSignalCreateEnabled env \<longrightarrow>
        authorizeSignalCreate env r =
          (if \<exists>limit. SIGNAL_CREATE_LIMITER env = Some limit \<and> \<not> limit (clientIp r)
           then Problem 429 ''rate_limited'' else Next Anonymous))"
  by (auto simp: authorizeSignalCreate_def authorizeCreate_def isRateLimited_def split: option.splits)

theorem authorizeSignalCreate_cases_witness:
  "authorizeSignalCreate \<lparr>API_TOKEN = None, PUBLIC_CREATE = None, CREATE_LIMITER = None,
        PUBLIC_SIGNAL_CREATE = Some (js '' TRUE''), SIGNAL_CREATE_LIMITER = Some (\<lambda>ip. ip \<noteq> js ''unknown'')\<rparr>
      \<lparr>authHeader = None, connectingIp = None\<rparr> = Problem 429 ''rate_limited''"
proof -
  let ?env = "\<lparr>API_TOKEN = None, PUBLIC_CREATE = None, CREATE_LIMITER = None,
        PUBLIC_SIGNAL_CREATE = Some (js '' TRUE''), SIGNAL_CREATE_LIMITER = Some (\<lambda>ip. ip \<noteq> js ''unknown'')\<rparr>"
  let ?r = "\<lparr>authHeader = None, connectingIp = None\<rparr>"
  have "publicSignalCreateEnabled ?env"
    by (simp add: publicSignalCreateEnabled_def enabled_flag_def js_trim_def js_space_def ascii_lower_def)
  then show ?thesis using authorizeSignalCreate_cases [of ?r ?env] by (simp add: clientIp_def)
qed

end
