(* ===== verification/Entries.thy ===== *)
theory Entries
  imports JsText
begin

text \<open>
  \<open>apps/rendez-key/src/repositories/entries.ts\<close> over the table of \<open>db/schema.ts\<close>.  The
  table is the list of its rows; \<open>createEntry\<close>, \<open>claimEntry\<close> and \<open>cleanupEntries\<close> are the
  SQL statements the queries compile to: an insert under the primary key and the two check
  constraints, a batch (one transaction) of a guarded update and a select, and a delete.
  Concurrent requests are interleavings of these transactions.
\<close>

section \<open>The table\<close>

record entry_row =
  e_code :: js_string
  e_value :: js_string
  createdAt :: int
  expiresAt :: int
  maxReads :: int
  remainingReads :: int
  lastClaimId :: "js_string option"

type_synonym entries_db = "entry_row list"

datatype db_error = UniqueViolation | CheckViolation | ClaimUpdateFailed

definition max_reads_range :: "entry_row \<Rightarrow> bool" where
  "max_reads_range r \<longleftrightarrow> 1 \<le> maxReads r \<and> maxReads r \<le> 100"

definition remaining_reads_non_negative :: "entry_row \<Rightarrow> bool" where
  "remaining_reads_non_negative r \<longleftrightarrow> 0 \<le> remainingReads r"

section \<open>Operations\<close>

record CreateEntryInput =
  ci_code :: js_string
  ci_value :: js_string
  ci_nowSeconds :: int
  ci_expiresAtSeconds :: int
  ci_maxReads :: int

record StoredEntry =
  st_code :: js_string
  st_expiresAtSeconds :: int
  st_maxReads :: int

record ClaimEntryInput =
  cl_code :: js_string
  cl_nowSeconds :: int
  cl_claimId :: js_string

record ClaimedEntry =
  cd_value :: js_string
  cd_remainingReads :: int
  cd_expiresAtSeconds :: int

definition new_row :: "CreateEntryInput \<Rightarrow> entry_row" where
  "new_row i = \<lparr>e_code = ci_code i, e_value = ci_value i, createdAt = ci_nowSeconds i,
     expiresAt = ci_expiresAtSeconds i, maxReads = ci_maxReads i, remainingReads = ci_maxReads i,
     lastClaimId = None\<rparr>"

definition createEntry :: "entries_db \<Rightarrow> CreateEntryInput \<Rightarrow> db_error + (entries_db \<times> StoredEntry)" where
  "createEntry db i =
     (if \<not> max_reads_range (new_row i) \<or> \<not> remaining_reads_non_negative (new_row i) then Inl CheckViolation
      else if \<exists>r \<in> set db. e_code r = ci_code i then Inl UniqueViolation
      else Inr (db @ [new_row i],
        \<lparr>st_code = ci_code i, st_expiresAtSeconds = ci_expiresAtSeconds i, st_maxReads = ci_maxReads i\<rparr>))"

definition claimable :: "ClaimEntryInput \<Rightarrow> entry_row \<Rightarrow> bool" where
  "claimable i r \<longleftrightarrow> e_code r = cl_code i \<and> expiresAt r > cl_nowSeconds i \<and> remainingReads r > 0"

definition claim_update :: "ClaimEntryInput \<Rightarrow> entry_row \<Rightarrow> entry_row" where
  "claim_update i r =
     (if claimable i r
      then r\<lparr>remainingReads := remainingReads r - 1, lastClaimId := Some (cl_claimId i)\<rparr> else r)"

definition claim_select :: "ClaimEntryInput \<Rightarrow> entries_db \<Rightarrow> ClaimedEntry option" where
  "claim_select i db =
     map_option (\<lambda>r. \<lparr>cd_value = e_value r, cd_remainingReads = remainingReads r, cd_expiresAtSeconds = expiresAt r\<rparr>)
       (find (\<lambda>r. e_code r = cl_code i \<and> lastClaimId r = Some (cl_claimId i)) db)"

text \<open>\<open>success\<close> is the outcome D1 reports for the update.\<close>

definition claimEntry :: "bool \<Rightarrow> entries_db \<Rightarrow> ClaimEntryInput \<Rightarrow> entries_db \<times> (db_error + ClaimedEntry option)" where
  "claimEntry success db i =
     (let db1 = map (claim_update i) db; row = claim_select i db1
      in if \<not> success then (db, Inl ClaimUpdateFailed) else (db1, Inr row))"

definition stale :: "int \<Rightarrow> entry_row \<Rightarrow> bool" where
  "stale nowSeconds r \<longleftrightarrow> expiresAt r \<le> nowSeconds \<or> remainingReads r \<le> 0"

definition cleanupEntries :: "entries_db \<Rightarrow> int \<Rightarrow> entries_db \<times> nat" where
  "cleanupEntries db nowSeconds =
     (filter (\<lambda>r. \<not> stale nowSeconds r) db, length (filter (stale nowSeconds) db))"

section \<open>Runs\<close>

datatype entries_event = Create CreateEntryInput | Claim ClaimEntryInput | Cleanup int

fun entries_step :: "entries_db \<Rightarrow> entries_event \<Rightarrow> entries_db" where
  "entries_step db (Create i) = (case createEntry db i of Inl _ \<Rightarrow> db | Inr (db', _) \<Rightarrow> db')"
| "entries_step db (Claim i) = fst (claimEntry True db i)"
| "entries_step db (Cleanup now) = fst (cleanupEntries db now)"

fun claim_succeeds :: "js_string \<Rightarrow> entries_db \<Rightarrow> entries_event \<Rightarrow> bool" where
  "claim_succeeds c db (Claim i) \<longleftrightarrow> cl_code i = c \<and> (\<exists>row. snd (claimEntry True db i) = Inr (Some row))"
| "claim_succeeds c db _ \<longleftrightarrow> False"

text \<open>Claim ids (\<open>crypto.randomUUID()\<close>) do not repeat an id that is still stored.\<close>

fun fresh_claim :: "entries_db \<Rightarrow> entries_event \<Rightarrow> bool" where
  "fresh_claim db (Claim i) \<longleftrightarrow> (\<forall>r \<in> set db. lastClaimId r \<noteq> Some (cl_claimId i))"
| "fresh_claim db _ \<longleftrightarrow> True"

fun creates :: "js_string \<Rightarrow> entries_event \<Rightarrow> bool" where
  "creates c (Create i) \<longleftrightarrow> ci_code i = c"
| "creates c _ \<longleftrightarrow> False"

definition lookup_row :: "entries_db \<Rightarrow> js_string \<Rightarrow> entry_row option" where
  "lookup_row db c = find (\<lambda>r. e_code r = c) db"

definition reads_left :: "js_string \<Rightarrow> entries_db \<Rightarrow> int" where
  "reads_left c db = (case lookup_row db c of None \<Rightarrow> 0 | Some r \<Rightarrow> remainingReads r)"

definition row_ok :: "entry_row \<Rightarrow> bool" where
  "row_ok r \<longleftrightarrow> max_reads_range r \<and> 0 \<le> remainingReads r \<and> remainingReads r \<le> maxReads r"

definition db_inv :: "entries_db \<Rightarrow> bool" where
  "db_inv db \<longleftrightarrow> distinct (map e_code db) \<and> (\<forall>r \<in> set db. row_ok r)"

section \<open>Lemmas\<close>

lemma claim_update_simps [simp]:
  "e_code (claim_update i r) = e_code r"
  "e_value (claim_update i r) = e_value r"
  "expiresAt (claim_update i r) = expiresAt r"
  "maxReads (claim_update i r) = maxReads r"
  by (simp_all add: claim_update_def)

lemma lookup_row_unique:
  assumes "distinct (map e_code db)" "r \<in> set db"
  shows "lookup_row db (e_code r) = Some r"
  using assms by (induction db) (auto simp: lookup_row_def)

lemma lookup_row_None: "lookup_row db c = None \<longleftrightarrow> (\<forall>r \<in> set db. e_code r \<noteq> c)"
  by (auto simp: lookup_row_def find_None_iff)

lemma lookup_row_Some:
  assumes "distinct (map e_code db)"
  shows "lookup_row db c = Some r \<longleftrightarrow> r \<in> set db \<and> e_code r = c"
  using assms lookup_row_unique by (auto simp: lookup_row_def find_Some_iff)

lemma lookup_row_code: "lookup_row db c = Some r \<Longrightarrow> e_code r = c"
  by (auto simp: lookup_row_def find_Some_iff)

lemma map_e_code_update [simp]: "map (e_code \<circ> claim_update i) db = map e_code db"
  by (simp add: comp_def)

lemma lookup_row_update: "lookup_row (map (claim_update i) db) c = map_option (claim_update i) (lookup_row db c)"
  by (induction db) (auto simp: lookup_row_def)

lemma lookup_row_filter:
  assumes "distinct (map e_code db)"
  shows "lookup_row (filter P db) c = (case lookup_row db c of None \<Rightarrow> None | Some r \<Rightarrow> if P r then Some r else None)"
  using assms
proof (induction db)
  case (Cons r db)
  have "lookup_row (filter P db) c = None" if "e_code r = c"
    using Cons.prems that by (auto simp: lookup_row_None image_iff)
  with Cons show ?case by (auto simp: lookup_row_def)
qed (simp add: lookup_row_def)

lemma lookup_row_append: "lookup_row (db @ [r]) c =
  (case lookup_row db c of None \<Rightarrow> if e_code r = c then Some r else None | Some x \<Rightarrow> Some x)"
  by (induction db) (auto simp: lookup_row_def)

lemma db_inv_lookup: "db_inv db \<Longrightarrow> lookup_row db c = Some r \<Longrightarrow> row_ok r"
  by (auto simp: db_inv_def lookup_row_Some)

text \<open>With a fresh claim id the select sees exactly the row the update touched.\<close>

lemma claimEntry_result:
  assumes "db_inv db" "fresh_claim db (Claim i)"
  shows "snd (claimEntry True db i) = Inr (case lookup_row db (cl_code i) of
      None \<Rightarrow> None
    | Some r \<Rightarrow> if claimable i r
        then Some \<lparr>cd_value = e_value r, cd_remainingReads = remainingReads r - 1, cd_expiresAtSeconds = expiresAt r\<rparr>
        else None)"
proof -
  let ?hit = "\<lambda>r. e_code r = cl_code i \<and> lastClaimId r = Some (cl_claimId i)"
  have upd: "?hit (claim_update i r) \<longleftrightarrow> claimable i r" if "lastClaimId r \<noteq> Some (cl_claimId i)" for r
    using that by (auto simp: claim_update_def claimable_def)
  have "find ?hit (map (claim_update i) db) =
      (case lookup_row db (cl_code i) of None \<Rightarrow> None
       | Some r \<Rightarrow> if claimable i r then Some (claim_update i r) else None)"
    using assms
  proof (induction db)
    case (Cons r db)
    then have IH: "find ?hit (map (claim_update i) db) =
      (case lookup_row db (cl_code i) of None \<Rightarrow> None
       | Some r \<Rightarrow> if claimable i r then Some (claim_update i r) else None)"
      by (simp add: db_inv_def)
    show ?case
    proof (cases "e_code r = cl_code i")
      case True
      then have "lookup_row db (cl_code i) = None"
        using Cons.prems by (force simp: lookup_row_None db_inv_def)
      with IH True Cons.prems upd [of r] show ?thesis by (simp add: lookup_row_def)
    next
      case False
      with IH show ?thesis by (simp add: lookup_row_def)
    qed
  qed (simp add: lookup_row_def)
  then show ?thesis
    by (auto simp: claimEntry_def claim_select_def claim_update_def Let_def split: option.splits)
qed

lemma claim_succeeds_iff:
  assumes "db_inv db" "fresh_claim db (Claim i)"
  shows "claim_succeeds c db (Claim i) \<longleftrightarrow>
    cl_code i = c \<and> (\<exists>r. lookup_row db c = Some r \<and> claimable i r)"
  using claimEntry_result [OF assms] by (auto split: option.splits if_splits)

lemma row_ok_claim_update: "row_ok r \<Longrightarrow> row_ok (claim_update i r)"
  by (auto simp: row_ok_def claim_update_def claimable_def max_reads_range_def)

lemma db_inv_step: "db_inv db \<Longrightarrow> db_inv (entries_step db e)"
proof (cases e)
  case (Claim i)
  assume "db_inv db"
  then show ?thesis using Claim
    by (auto simp: db_inv_def claimEntry_def Let_def row_ok_claim_update)
next
  case (Cleanup now)
  assume "db_inv db"
  then show ?thesis using Cleanup
    by (auto simp: db_inv_def cleanupEntries_def distinct_map_filter)
qed (auto simp: db_inv_def createEntry_def row_ok_def new_row_def max_reads_range_def
    remaining_reads_non_negative_def split: if_splits)

interpretation entries_system: invariant_system entries_step "\<lambda>_ _. True" db_inv
  by unfold_locales (rule db_inv_step)

lemma reads_left_claim:
  assumes "db_inv db" "fresh_claim db (Claim i)"
  shows "reads_left c (entries_step db (Claim i)) =
    reads_left c db - (if claim_succeeds c db (Claim i) then 1 else 0)"
  using claim_succeeds_iff [OF assms, of c] lookup_row_update [of i db c]
  by (auto simp: reads_left_def claimEntry_def Let_def claim_update_def claimable_def
      dest: lookup_row_code split: option.splits if_splits simp del: claim_succeeds.simps)

lemma reads_left_create:
  "\<not> creates c (Create i) \<Longrightarrow> reads_left c (entries_step db (Create i)) = reads_left c db"
  by (auto simp: reads_left_def createEntry_def lookup_row_append new_row_def split: option.splits if_splits)

lemma reads_left_cleanup:
  assumes "db_inv db"
  shows "reads_left c (entries_step db (Cleanup now)) =
    (case lookup_row db c of None \<Rightarrow> 0 | Some r \<Rightarrow> if stale now r then 0 else remainingReads r)"
  using assms by (auto simp: reads_left_def cleanupEntries_def lookup_row_filter db_inv_def split: option.splits)

lemma reads_left_nonneg: "db_inv db \<Longrightarrow> 0 \<le> reads_left c db"
  by (auto simp: reads_left_def row_ok_def dest: db_inv_lookup split: option.splits)

interpretation claims: bounded_uses entries_step "\<lambda>db e. fresh_claim db e \<and> \<not> creates c e" db_inv
    "claim_succeeds c" "reads_left c" for c
proof
  fix db e
  assume inv: "db_inv db" and ok: "fresh_claim db e \<and> \<not> creates c e"
  show "reads_left c (entries_step db e) + (if claim_succeeds c db e then 1 else 0) \<le> reads_left c db"
  proof (cases e)
    case (Cleanup now)
    with inv reads_left_cleanup [OF inv, of c now] reads_left_nonneg [OF inv, of c] show ?thesis
      by (auto simp: reads_left_def split: option.splits)
  qed (use inv ok in \<open>auto simp: reads_left_claim reads_left_create
        simp del: claim_succeeds.simps(1) entries_step.simps(1,2)\<close>)
qed (auto simp: db_inv_step reads_left_nonneg)

text \<open>
  The row of a code keeps its value and its expiry, so a claim of it returns that value;
  claims at a time before the expiry are the ones that count.
\<close>

fun timely :: "js_string \<Rightarrow> int \<Rightarrow> entries_event \<Rightarrow> bool" where
  "timely c t (Claim i) \<longleftrightarrow> cl_code i = c \<and> cl_nowSeconds i < t"
| "timely c t _ \<longleftrightarrow> False"

fun early_cleanup :: "int \<Rightarrow> entries_event \<Rightarrow> bool" where
  "early_cleanup t (Cleanup now) \<longleftrightarrow> now < t"
| "early_cleanup t _ \<longleftrightarrow> True"

definition holds_row :: "js_string \<Rightarrow> js_string \<Rightarrow> int \<Rightarrow> entries_db \<Rightarrow> bool" where
  "holds_row c v t db \<longleftrightarrow> (\<forall>r. lookup_row db c = Some r \<longrightarrow> e_value r = v \<and> expiresAt r = t)"

lemma holds_row_step:
  assumes "db_inv db" "holds_row c v t db" "\<not> creates c e"
  shows "holds_row c v t (entries_step db e)"
proof (cases e)
  case (Create i)
  with assms show ?thesis
    by (auto simp: holds_row_def createEntry_def lookup_row_append new_row_def split: option.splits if_splits)
next
  case (Claim i)
  with assms show ?thesis
    by (auto simp: holds_row_def claimEntry_def Let_def lookup_row_update)
next
  case (Cleanup now)
  with assms show ?thesis
    by (auto simp: holds_row_def cleanupEntries_def db_inv_def lookup_row_filter split: option.splits if_splits)
qed

lemma claim_exact:
  assumes "db_inv db" "holds_row c v t db" "fresh_claim db e" "\<not> creates c e" "early_cleanup t e"
  shows "claim_succeeds c db e \<longleftrightarrow> timely c t e \<and> 0 < reads_left c db"
    and "reads_left c (entries_step db e) = reads_left c db - (if claim_succeeds c db e then 1 else 0)"
proof -
  show "claim_succeeds c db e \<longleftrightarrow> timely c t e \<and> 0 < reads_left c db"
  proof (cases e)
    case (Claim i)
    with assms claim_succeeds_iff [OF assms(1), of i c] show ?thesis
      by (auto simp: reads_left_def claimable_def holds_row_def dest: lookup_row_code
          split: option.splits simp del: claim_succeeds.simps)
  qed simp_all
  show "reads_left c (entries_step db e) = reads_left c db - (if claim_succeeds c db e then 1 else 0)"
  proof (cases e)
    case (Cleanup now)
    with assms reads_left_cleanup [OF assms(1), of c now] reads_left_nonneg [OF assms(1), of c] show ?thesis
      by (auto simp: reads_left_def holds_row_def stale_def split: option.splits)
  qed (use assms in \<open>auto simp: reads_left_claim reads_left_create
        simp del: claim_succeeds.simps(1) entries_step.simps(1,2)\<close>)
qed

lemma claims_exact_run:
  "db_inv db \<Longrightarrow> holds_row c v t db \<Longrightarrow>
   run_ok (\<lambda>db e. fresh_claim db e \<and> \<not> creates c e \<and> early_cleanup t e) entries_step db es \<Longrightarrow>
   int (count_uses (claim_succeeds c) entries_step db es)
     = min (reads_left c db) (int (length (filter (timely c t) es)))"
proof (induction es arbitrary: db)
  case Nil
  then show ?case using reads_left_nonneg [of db c] by simp
next
  case (Cons e es)
  from Cons.prems have ok: "fresh_claim db e" "\<not> creates c e" "early_cleanup t e"
    "run_ok (\<lambda>db e. fresh_claim db e \<and> \<not> creates c e \<and> early_cleanup t e) entries_step (entries_step db e) es"
    by auto
  have IH: "int (count_uses (claim_succeeds c) entries_step (entries_step db e) es)
     = min (reads_left c (entries_step db e)) (int (length (filter (timely c t) es)))"
    using Cons.IH [OF db_inv_step [OF Cons.prems(1)] holds_row_step [OF Cons.prems(1,2) ok(2)] ok(4)] .
  show ?case
    using IH claim_exact [OF Cons.prems(1,2) ok(1-3)] reads_left_nonneg [OF Cons.prems(1), of c]
      reads_left_nonneg [OF db_inv_step [OF Cons.prems(1)], of c e]
    by (auto simp del: claim_succeeds.simps entries_step.simps split: if_splits)
qed

lemma created_row:
  assumes "createEntry db i = Inr (db', st)"
  shows "lookup_row db' (ci_code i) = Some (new_row i)" "1 \<le> ci_maxReads i" "ci_maxReads i \<le> 100"
proof -
  from assms have "db' = db @ [new_row i]" "lookup_row db (ci_code i) = None"
    by (auto simp: createEntry_def lookup_row_None split: if_splits)
  then show "lookup_row db' (ci_code i) = Some (new_row i)"
    by (simp add: lookup_row_append) (simp add: new_row_def)
  from assms show "1 \<le> ci_maxReads i" "ci_maxReads i \<le> 100"
    by (auto simp: createEntry_def max_reads_range_def new_row_def split: if_splits)
qed

lemma db_inv_create: "db_inv db \<Longrightarrow> createEntry db i = Inr (db', st) \<Longrightarrow> db_inv db'"
  using db_inv_step [of db "Create i"] by simp

section \<open>Properties\<close>

text \<open>
  C31: after an entry was created, in every later sequence of transactions (claims of any
  code, creations of other codes, cleanups, in any order and at any times) with claim ids
  that are not repeated, at most \<open>maxReads\<close> claims of its code succeed.
\<close>

theorem claims_at_most_max_reads:
  assumes "db_inv db" and "createEntry db i = Inr (db', st)"
    and "run_ok (\<lambda>db e. fresh_claim db e \<and> \<not> creates (ci_code i) e) entries_step db' es"
  shows "int (count_uses (claim_succeeds (ci_code i)) entries_step db' es) \<le> ci_maxReads i"
  using claims.uses_bounded [OF db_inv_create [OF assms(1,2)] assms(3)] created_row(1) [OF assms(2)]
  by (simp add: reads_left_def new_row_def)

theorem claims_at_most_max_reads_witness:
  "\<exists>db'. createEntry [] \<lparr>ci_code = [50], ci_value = [97], ci_nowSeconds = 0, ci_expiresAtSeconds = 60, ci_maxReads = 1\<rparr>
        = Inr (db', \<lparr>st_code = [50], st_expiresAtSeconds = 60, st_maxReads = 1\<rparr>)
     \<and> int (count_uses (claim_succeeds [50]) entries_step db'
         [Claim \<lparr>cl_code = [50], cl_nowSeconds = 5, cl_claimId = [1]\<rparr>, Claim \<lparr>cl_code = [50], cl_nowSeconds = 6, cl_claimId = [2]\<rparr>]) \<le> 1"
proof -
  let ?i = "\<lparr>ci_code = [50], ci_value = [97], ci_nowSeconds = 0, ci_expiresAtSeconds = 60, ci_maxReads = 1\<rparr>"
  let ?es = "[Claim \<lparr>cl_code = [50], cl_nowSeconds = 5, cl_claimId = [1]\<rparr>, Claim \<lparr>cl_code = [50], cl_nowSeconds = 6, cl_claimId = [2]\<rparr>]"
  have 1: "db_inv []" by (simp add: db_inv_def)
  have 2: "createEntry [] ?i = Inr ([new_row ?i], \<lparr>st_code = [50], st_expiresAtSeconds = 60, st_maxReads = 1\<rparr>)"
    by (simp add: createEntry_def new_row_def max_reads_range_def remaining_reads_non_negative_def)
  have 3: "run_ok (\<lambda>db e. fresh_claim db e \<and> \<not> creates (ci_code ?i) e) entries_step [new_row ?i] ?es"
    by (simp add: claimEntry_def claim_update_def claimable_def new_row_def Let_def)
  from claims_at_most_max_reads [OF 1 2 3] 2 show ?thesis by auto
qed

text \<open>
  And the limit is exact: as long as no cleanup runs with a clock at or past the entry's
  expiry, the number of successful claims is the smaller of \<open>maxReads\<close> and the number of
  claims made before the expiry; cleanups of exhausted rows do not change that.
\<close>

theorem claims_exactly_max_reads:
  assumes "db_inv db" and "createEntry db i = Inr (db', st)"
    and "run_ok (\<lambda>db e. fresh_claim db e \<and> \<not> creates (ci_code i) e
           \<and> early_cleanup (ci_expiresAtSeconds i) e) entries_step db' es"
  shows "int (count_uses (claim_succeeds (ci_code i)) entries_step db' es)
    = min (ci_maxReads i) (int (length (filter (timely (ci_code i) (ci_expiresAtSeconds i)) es)))"
proof -
  have "holds_row (ci_code i) (ci_value i) (ci_expiresAtSeconds i) db'"
    using created_row(1) [OF assms(2)] by (simp add: holds_row_def new_row_def)
  from claims_exact_run [OF db_inv_create [OF assms(1,2)] this assms(3)] created_row(1) [OF assms(2)]
  show ?thesis by (simp add: reads_left_def new_row_def)
qed

theorem claims_exactly_max_reads_witness:
  "\<exists>db'. createEntry [] \<lparr>ci_code = [50], ci_value = [97], ci_nowSeconds = 0, ci_expiresAtSeconds = 60, ci_maxReads = 1\<rparr>
        = Inr (db', \<lparr>st_code = [50], st_expiresAtSeconds = 60, st_maxReads = 1\<rparr>)
     \<and> int (count_uses (claim_succeeds [50]) entries_step db'
         [Claim \<lparr>cl_code = [50], cl_nowSeconds = 5, cl_claimId = [1]\<rparr>, Cleanup 7,
          Claim \<lparr>cl_code = [50], cl_nowSeconds = 8, cl_claimId = [2]\<rparr>]) = 1"
proof -
  let ?i = "\<lparr>ci_code = [50], ci_value = [97], ci_nowSeconds = 0, ci_expiresAtSeconds = 60, ci_maxReads = 1\<rparr>"
  let ?es = "[Claim \<lparr>cl_code = [50], cl_nowSeconds = 5, cl_claimId = [1]\<rparr>, Cleanup 7,
    Claim \<lparr>cl_code = [50], cl_nowSeconds = 8, cl_claimId = [2]\<rparr>]"
  have 1: "db_inv []" by (simp add: db_inv_def)
  have 2: "createEntry [] ?i = Inr ([new_row ?i], \<lparr>st_code = [50], st_expiresAtSeconds = 60, st_maxReads = 1\<rparr>)"
    by (simp add: createEntry_def new_row_def max_reads_range_def remaining_reads_non_negative_def)
  have 3: "run_ok (\<lambda>db e. fresh_claim db e \<and> \<not> creates (ci_code ?i) e
      \<and> early_cleanup (ci_expiresAtSeconds ?i) e) entries_step [new_row ?i] ?es"
    by (simp add: claimEntry_def claim_update_def claimable_def new_row_def Let_def cleanupEntries_def stale_def)
  from claims_exactly_max_reads [OF 1 2 3] 2 show ?thesis by auto
qed

text \<open>
  A cleanup deletes exactly the rows no claim at or after its time can use, and reports
  how many: for claims whose clock is not behind the cleanup's, the answer is the same with
  and without the cleanup.
\<close>

theorem cleanup_invisible:
  assumes "db_inv db" and "fresh_claim db (Claim i)" and "now \<le> cl_nowSeconds i"
  shows "snd (claimEntry True (fst (cleanupEntries db now)) i) = snd (claimEntry True db i)
    \<and> snd (cleanupEntries db now) + length (fst (cleanupEntries db now)) = length db"
proof -
  let ?db = "fst (cleanupEntries db now)"
  have inv: "db_inv ?db" using db_inv_step [OF assms(1), of "Cleanup now"] by simp
  have fresh: "fresh_claim ?db (Claim i)" using assms(2) by (auto simp: cleanupEntries_def)
  have "lookup_row ?db (cl_code i) = (case lookup_row db (cl_code i) of None \<Rightarrow> None
      | Some r \<Rightarrow> if \<not> stale now r then Some r else None)"
    using assms(1) by (simp add: cleanupEntries_def lookup_row_filter db_inv_def)
  moreover have "\<not> claimable i r" if "stale now r" for r
    using that assms(3) by (auto simp: stale_def claimable_def)
  moreover have "snd (cleanupEntries db now) + length ?db = length db"
    using sum_length_filter_compl [of "stale now" db] by (simp add: cleanupEntries_def)
  ultimately show ?thesis
    by (auto simp: claimEntry_result [OF inv fresh] claimEntry_result [OF assms(1,2)] split: option.splits)
qed

abbreviation live_row :: entry_row where
  "live_row \<equiv> \<lparr>e_code = [50], e_value = [97], createdAt = 0, expiresAt = 60, maxReads = 2, remainingReads = 1,
     lastClaimId = Some [9]\<rparr>"

abbreviation dead_row :: entry_row where
  "dead_row \<equiv> \<lparr>e_code = [51], e_value = [98], createdAt = 0, expiresAt = 2, maxReads = 1, remainingReads = 1,
     lastClaimId = None\<rparr>"

theorem cleanup_invisible_witness:
  "fst (cleanupEntries [live_row, dead_row] 3) = [live_row]
    \<and> snd (claimEntry True [live_row] \<lparr>cl_code = [50], cl_nowSeconds = 3, cl_claimId = [1]\<rparr>)
      = snd (claimEntry True [live_row, dead_row] \<lparr>cl_code = [50], cl_nowSeconds = 3, cl_claimId = [1]\<rparr>)"
proof -
  have "db_inv [live_row, dead_row]" by (simp add: db_inv_def row_ok_def max_reads_range_def)
  moreover have "fst (cleanupEntries [live_row, dead_row] 3) = [live_row]"
    by (simp add: cleanupEntries_def stale_def)
  ultimately show ?thesis
    using cleanup_invisible [of "[live_row, dead_row]" "\<lparr>cl_code = [50], cl_nowSeconds = 3, cl_claimId = [1]\<rparr>" 3]
    by simp
qed

end
