(* ===== verification/EntryRoutes.thy ===== *)
theory EntryRoutes
  imports Http Code EntryLimits Auth Entries
begin

text \<open>
  \<open>apps/rendez-key/src/routes/create-entry.ts\<close>, \<open>claim-entry.ts\<close>, \<open>health.ts\<close> and
  \<open>src/scheduled.ts\<close>.  A handler takes what it reads of the request, the clock in
  milliseconds, the random draws it consumes and the table, and returns the response and
  the table.  An error it does not catch is \<open>Inl\<close>: the application turns it into a 500.
\<close>

definition MAX_CODE_INSERT_ATTEMPTS :: nat where
  "MAX_CODE_INSERT_ATTEMPTS = 5"

definition epochSeconds :: "int \<Rightarrow> int" where
  "epochSeconds nowMs = nowMs div 1000"

fun isUniqueConstraintError :: "db_error \<Rightarrow> bool" where
  "isUniqueConstraintError UniqueViolation = True"
| "isUniqueConstraintError _ = False"

record create_request =
  contentType :: "js_string option"
  q_ttl :: "js_string option"
  q_reads :: "js_string option"
  contentLength :: "js_string option"
  bodyText :: js_string
  accept :: "js_string option"

datatype route_error = DbError db_error | CodeError code_error

definition starts_with :: "js_string \<Rightarrow> js_string \<Rightarrow> bool" where
  "starts_with p s \<longleftrightarrow> take (length p) s = p"

fun js_includes :: "js_string \<Rightarrow> js_string \<Rightarrow> bool" where
  "js_includes p [] = (p = [])"
| "js_includes p (c # s) = (starts_with p (c # s) \<or> js_includes p s)"

fun limit_error_code :: "limit_error \<Rightarrow> string" where
  "limit_error_code InvalidTtl = ''invalid_ttl''"
| "limit_error_code InvalidReads = ''invalid_reads''"
| "limit_error_code PayloadTooLarge = ''payload_too_large''"
| "limit_error_code EmptyPayload = ''empty_payload''"

fun limits_of :: "tier \<Rightarrow> LimitProfile" where
  "limits_of Anonymous = ANONYMOUS_LIMITS"
| "limits_of Privileged = PRIVILEGED_LIMITS"

text \<open>The \<open>try\<close> block: the three validations in their order.\<close>

definition validated :: "tier \<Rightarrow> create_request \<Rightarrow> limit_error + (int \<times> int \<times> js_string)" where
  "validated t rq =
     andThen (parseTtl (q_ttl rq) (limits_of t)) (\<lambda>ttl.
     andThen (parseMaxReads (q_reads rq) (limits_of t)) (\<lambda>mr.
     andThen (readUtf8Body (contentLength rq) (bodyText rq) (limits_of t)) (\<lambda>v.
       Inr (ttl, mr, v))))"

definition created_response :: "create_request \<Rightarrow> js_string \<Rightarrow> int \<Rightarrow> int \<Rightarrow> response" where
  "created_response rq normalizedCode expiresAtSeconds mr =
     (let displayCode = formatCode normalizedCode; expires = toISOString (expiresAtSeconds * 1000)
      in if js_includes (js ''text/plain'') (case accept rq of None \<Rightarrow> [] | Some a \<Rightarrow> a)
         then \<lparr>status = 201,
               headers = set_header ''X-RendezKey-Max-Reads'' (int_digits mr)
                 (set_header ''X-RendezKey-Expires-At'' expires
                   (set_header ''Content-Type'' (js ''text/plain; charset=utf-8'') [])),
               body = TextBody displayCode\<rparr>
         else \<lparr>status = 201, headers = [],
               body = JsonBody (JObj [(js ''code'', JStr displayCode), (js ''expires_at'', JStr expires),
                 (js ''max_reads'', JNum (of_int mr))])\<rparr>)"

text \<open>The insert loop: \<open>n\<close> attempts are left, each consumes one draw of five random bytes.\<close>

fun insert_attempts :: "nat \<Rightarrow> create_request \<Rightarrow> js_string \<Rightarrow> int \<Rightarrow> int \<Rightarrow> int \<Rightarrow> (nat \<Rightarrow> byte list) \<Rightarrow> entries_db
    \<Rightarrow> (route_error + response) \<times> entries_db" where
  "insert_attempts 0 rq v now expires mr draws db =
     (Inr (problem 503 ''code_generation_failed'' ''Code generation failed'' None), db)"
| "insert_attempts (Suc n) rq v now expires mr draws db = (case generateCode (draws 0) of
     Inl e \<Rightarrow> (Inl (CodeError e), db)
   | Inr c \<Rightarrow> (case createEntry db \<lparr>ci_code = c, ci_value = v, ci_nowSeconds = now,
                  ci_expiresAtSeconds = expires, ci_maxReads = mr\<rparr> of
       Inr (db', st) \<Rightarrow> (Inr (created_response rq c expires mr), db')
     | Inl e \<Rightarrow> if isUniqueConstraintError e
         then insert_attempts n rq v now expires mr (\<lambda>k. draws (Suc k)) db
         else (Inl (DbError e), db)))"

definition createEntryRoute :: "tier \<Rightarrow> create_request \<Rightarrow> int \<Rightarrow> (nat \<Rightarrow> byte list) \<Rightarrow> entries_db
    \<Rightarrow> (route_error + response) \<times> entries_db" where
  "createEntryRoute t rq nowMs draws db =
     (if \<not> starts_with (js ''text/plain'') (map ascii_lower (case contentType rq of None \<Rightarrow> [] | Some c \<Rightarrow> c))
      then (Inr (problem 400 ''invalid_request'' ''Invalid request'' (Some ''Content-Type must be text/plain'')), db)
      else (case validated t rq of
        Inl PayloadTooLarge \<Rightarrow> (Inr (problem 413 ''payload_too_large'' ''Payload too large'' None), db)
      | Inl e \<Rightarrow> (Inr (problem 400 ''invalid_request'' ''Invalid request'' (Some (limit_error_code e))), db)
      | Inr (ttl, mr, v) \<Rightarrow>
          insert_attempts MAX_CODE_INSERT_ATTEMPTS rq v (epochSeconds nowMs) (epochSeconds nowMs + ttl) mr draws db))"

definition unavailable :: response where
  "unavailable = problem 404 ''entry_not_available'' ''Entry not available'' None"

definition claimEntryRoute :: "(nat \<Rightarrow> js_string) \<Rightarrow> js_string \<Rightarrow> int \<Rightarrow> js_string \<Rightarrow> bool \<Rightarrow> entries_db
    \<Rightarrow> (route_error + response) \<times> entries_db" where
  "claimEntryRoute up codeParam nowMs uuid success db = (case normalizeCode up codeParam of
     None \<Rightarrow> (Inr unavailable, db)
   | Some c \<Rightarrow>
       (case claimEntry success db \<lparr>cl_code = c, cl_nowSeconds = epochSeconds nowMs, cl_claimId = uuid\<rparr> of
          (db', Inl e) \<Rightarrow> (Inl (DbError e), db')
        | (db', Inr None) \<Rightarrow> (Inr unavailable, db')
        | (db', Inr (Some cd)) \<Rightarrow>
            (Inr \<lparr>status = 200,
               headers = set_header ''X-RendezKey-Expires-At'' (toISOString (cd_expiresAtSeconds cd * 1000))
                 (set_header ''X-RendezKey-Remaining-Reads'' (int_digits (cd_remainingReads cd))
                   (set_header ''Content-Type'' (js ''text/plain; charset=utf-8'') [])),
               body = TextBody (cd_value cd)\<rparr>, db')))"

definition health :: response where
  "health = \<lparr>status = 200, headers = [],
     body = JsonBody (JObj [(js ''status'', JStr (js ''ok'')), (js ''service'', JStr (js ''rendezkey''))])\<rparr>"

definition runCleanup :: "entries_db \<Rightarrow> int \<Rightarrow> entries_db" where
  "runCleanup db scheduledTimeMs = fst (cleanupEntries db (scheduledTimeMs div 1000))"

section \<open>Lemmas\<close>

lemma validated_bounds:
  assumes "validated t rq = Inr (ttl, mr, v)"
  shows "minTtlSeconds (limits_of t) \<le> ttl \<and> ttl \<le> maxTtlSeconds (limits_of t)
    \<and> minMaxReads (limits_of t) \<le> mr \<and> mr \<le> maxMaxReads (limits_of t)
    \<and> v = bodyText rq \<and> 1 \<le> utf8_length v \<and> utf8_length v \<le> maxPayloadBytes (limits_of t)"
proof -
  have ok: "profile_ok (limits_of t)" by (cases t) simp_all
  from assms have "parseTtl (q_ttl rq) (limits_of t) = Inr ttl" "parseMaxReads (q_reads rq) (limits_of t) = Inr mr"
    "readUtf8Body (contentLength rq) (bodyText rq) (limits_of t) = Inr v"
    by (auto simp: validated_def)
  with parseTtl_bounds [OF ok] parseMaxReads_bounds [OF ok] readUtf8Body_Inr show ?thesis by blast
qed

lemma status_problem [simp]: "status (problem st c ti d) = st"
  by (simp add: problem_def)

lemma status_created [simp]: "status (created_response rq c x mr) = 201"
  by (simp add: created_response_def Let_def)

text \<open>What the loop does: insert under the first drawn code that is free, else report 503.\<close>

definition drawn_code :: "(nat \<Rightarrow> byte list) \<Rightarrow> nat \<Rightarrow> js_string" where
  "drawn_code draws k = (case generateCode (draws k) of Inr c \<Rightarrow> c | Inl _ \<Rightarrow> [])"

lemma generateCode_drawn: "generateCode (draws k) = Inr (drawn_code draws k)"
  by (simp add: drawn_code_def generateCode_eq)

definition taken :: "entries_db \<Rightarrow> js_string \<Rightarrow> bool" where
  "taken db c \<longleftrightarrow> (\<exists>r \<in> set db. e_code r = c)"

lemma insert_attempts_spec:
  assumes "1 \<le> mr" "mr \<le> 100"
  shows "insert_attempts n rq v now expires mr draws db =
    (if \<forall>k < n. taken db (drawn_code draws k)
     then (Inr (problem 503 ''code_generation_failed'' ''Code generation failed'' None), db)
     else (let c = drawn_code draws (LEAST k. \<not> taken db (drawn_code draws k))
           in (Inr (created_response rq c expires mr),
               db @ [\<lparr>e_code = c, e_value = v, createdAt = now, expiresAt = expires, maxReads = mr,
                      remainingReads = mr, lastClaimId = None\<rparr>])))"
proof (induction n arbitrary: draws)
  case 0
  then show ?case by simp
next
  case (Suc n)
  show ?case
  proof (cases "taken db (drawn_code draws 0)")
    case True
    have shift: "drawn_code (\<lambda>k. draws (Suc k)) = (\<lambda>k. drawn_code draws (Suc k))"
      by (simp add: drawn_code_def fun_eq_iff)
    have all: "(\<forall>k < Suc n. taken db (drawn_code draws k)) = (\<forall>k < n. taken db (drawn_code draws (Suc k)))"
      using True by (auto simp: less_Suc_eq_0_disj)
    have least: "(LEAST k. \<not> taken db (drawn_code draws k)) = Suc (LEAST k. \<not> taken db (drawn_code draws (Suc k)))"
      if "\<not> (\<forall>k < n. taken db (drawn_code draws (Suc k)))"
    proof -
      from that obtain j where "\<not> taken db (drawn_code draws (Suc j))" by blast
      then show ?thesis using True by (intro Least_Suc) auto
    qed
    have "insert_attempts (Suc n) rq v now expires mr draws db =
        insert_attempts n rq v now expires mr (\<lambda>k. draws (Suc k)) db"
      using True assms
      by (simp add: generateCode_drawn createEntry_def taken_def max_reads_range_def new_row_def
          remaining_reads_non_negative_def)
    with Suc [of "\<lambda>k. draws (Suc k)"] all least show ?thesis by (simp add: shift Let_def)
  next
    case False
    then have "(LEAST k. \<not> taken db (drawn_code draws k)) = 0" by (simp add: Least_eq_0)
    with False assms show ?thesis
      by (auto simp: generateCode_drawn createEntry_def taken_def max_reads_range_def new_row_def
          remaining_reads_non_negative_def Let_def)
  qed
qed

lemma limits_of_reads: "1 \<le> minMaxReads (limits_of t)" "maxMaxReads (limits_of t) \<le> 100"
  by (cases t; simp add: limit_defs)+

lemma createEntryRoute_cases:
  obtains (refused) e where "createEntryRoute t rq ms draws db = (Inr e, db)" "status e \<in> {400, 413}"
  | (valid) ttl mr v where "validated t rq = Inr (ttl, mr, v)" "1 \<le> mr" "mr \<le> 100"
      "createEntryRoute t rq ms draws db = insert_attempts MAX_CODE_INSERT_ATTEMPTS rq v
         (epochSeconds ms) (epochSeconds ms + ttl) mr draws db"
proof (cases "starts_with (js ''text/plain'') (map ascii_lower (case contentType rq of None \<Rightarrow> [] | Some c \<Rightarrow> c))")
  case False
  then show ?thesis using refused by (simp add: createEntryRoute_def)
next
  case ct: True
  show ?thesis
  proof (cases "validated t rq")
    case (Inl e)
    with ct show ?thesis using refused by (cases e) (auto simp: createEntryRoute_def)
  next
    case (Inr x)
    obtain ttl mr v where x: "x = (ttl, mr, v)" by (cases x)
    have "1 \<le> mr" "mr \<le> 100"
      using validated_bounds [OF Inr [unfolded x]] limits_of_reads [of t] by auto
    with ct Inr x show ?thesis using valid by (simp add: createEntryRoute_def)
  qed
qed

fun shown_code :: "response \<Rightarrow> js_string option" where
  "shown_code r = (case body r of
     TextBody d \<Rightarrow> Some d
   | JsonBody j \<Rightarrow> (case json_field ''code'' j of Some (JStr d) \<Rightarrow> Some d | _ \<Rightarrow> None)
   | NoBody \<Rightarrow> None)"

lemma shown_code_created: "shown_code (created_response rq c x mr) = Some (formatCode c)"
  by (simp add: created_response_def Let_def)

lemma drawn_code_valid: "valid_code (drawn_code draws k)"
  using generateCode_valid generateCode_drawn by blast

lemma least_free: "\<not> (\<forall>k < n. taken db (drawn_code draws k)) \<Longrightarrow>
    \<not> taken db (drawn_code draws (LEAST k. \<not> taken db (drawn_code draws k)))"
  by (metis (mono_tags, lifting) LeastI)

lemma createEntryRoute_outcome:
  "\<exists>resp db'. createEntryRoute t rq ms draws db = (Inr resp, db') \<and>
     ((status resp \<in> {400, 413} \<and> db' = db)
      \<or> (status resp = 503 \<and> db' = db \<and> (\<forall>k < 5. taken db (drawn_code draws k)))
      \<or> (status resp = 201 \<and> \<not> (\<forall>k < 5. taken db (drawn_code draws k)) \<and>
         (\<exists>c ttl mr. valid_code c \<and> \<not> taken db c \<and> shown_code resp = Some (formatCode c)
            \<and> db' = db @ [\<lparr>e_code = c, e_value = bodyText rq, createdAt = epochSeconds ms,
                  expiresAt = epochSeconds ms + ttl, maxReads = mr, remainingReads = mr, lastClaimId = None\<rparr>]
            \<and> 60 \<le> ttl \<and> ttl \<le> (case t of Anonymous \<Rightarrow> 3600 | Privileged \<Rightarrow> 604800)
            \<and> 1 \<le> mr \<and> mr \<le> (case t of Anonymous \<Rightarrow> 5 | Privileged \<Rightarrow> 100)
            \<and> 1 \<le> utf8_length (bodyText rq)
            \<and> utf8_length (bodyText rq) \<le> (case t of Anonymous \<Rightarrow> 8192 | Privileged \<Rightarrow> 65536))))"
proof (cases rule: createEntryRoute_cases [of t rq ms draws db])
  case (refused e)
  then show ?thesis by auto
next
  case (valid ttl mr v)
  let ?c = "drawn_code draws (LEAST k. \<not> taken db (drawn_code draws k))"
  note b = validated_bounds [OF valid(1)]
  show ?thesis
  proof (cases "\<forall>k < 5. taken db (drawn_code draws k)")
    case True
    then show ?thesis
      using insert_attempts_spec [OF valid(2,3)] valid(4) by (simp add: MAX_CODE_INSERT_ATTEMPTS_def)
  next
    case False
    let ?db = "db @ [\<lparr>e_code = ?c, e_value = v, createdAt = epochSeconds ms, expiresAt = epochSeconds ms + ttl,
        maxReads = mr, remainingReads = mr, lastClaimId = None\<rparr>]"
    have "createEntryRoute t rq ms draws db = (Inr (created_response rq ?c (epochSeconds ms + ttl) mr), ?db)"
      using False insert_attempts_spec [OF valid(2,3), of 5] valid(4)
      by (simp add: MAX_CODE_INSERT_ATTEMPTS_def Let_def)
    moreover have "60 \<le> ttl \<and> ttl \<le> (case t of Anonymous \<Rightarrow> 3600 | Privileged \<Rightarrow> 604800)"
      "1 \<le> mr \<and> mr \<le> (case t of Anonymous \<Rightarrow> 5 | Privileged \<Rightarrow> 100)"
      "utf8_length v \<le> (case t of Anonymous \<Rightarrow> 8192 | Privileged \<Rightarrow> 65536)"
      using b by (cases t; simp add: limit_defs)+
    ultimately show ?thesis
      using b False least_free [of 5 db draws] drawn_code_valid
      by (intro exI conjI) (auto simp: shown_code_created simp del: shown_code.simps)
  qed
qed

abbreviation sample_request :: create_request where
  "sample_request \<equiv> \<lparr>contentType = Some (js ''text/plain''), q_ttl = None, q_reads = None, contentLength = None,
     bodyText = js ''hi'', accept = Some (js ''text/plain'')\<rparr>"

abbreviation sample_row :: entry_row where
  "sample_row \<equiv> \<lparr>e_code = js ''22222222'', e_value = js ''hi'', createdAt = 0, expiresAt = 3600, maxReads = 1,
     remainingReads = 1, lastClaimId = None\<rparr>"

lemma sample_code: "generateCode ([0, 0, 0, 0, 0]) = Inr (js ''22222222'')"
  by (simp add: generateCode_eq CODE_ALPHABET_def random_value_def)

lemma sample_create: "createEntryRoute Anonymous sample_request 0 (\<lambda>_. [0, 0, 0, 0, 0]) [] =
    (Inr (created_response sample_request (js ''22222222'') 3600 1), [sample_row])"
proof -
  have "validated Anonymous sample_request = Inr (3600, 1, js ''hi'')" by code_simp
  moreover have "starts_with (js ''text/plain'') (map ascii_lower (js ''text/plain''))" by code_simp
  ultimately show ?thesis
    using sample_code
    by (simp add: createEntryRoute_def MAX_CODE_INSERT_ATTEMPTS_def epochSeconds_def createEntry_def
        new_row_def max_reads_range_def remaining_reads_non_negative_def numeral_eq_Suc del: js_simps)
qed

section \<open>Properties\<close>



text \<open>
  C30: end to end: the code shown in a 201 answer claims the stored text.  From the table the
  create left, a claim with the shown code, at any time before the expiry and with an unused
  claim id, answers 200 with exactly the uploaded text and one read fewer in the header.
\<close>

theorem create_then_claim:
  assumes "db_inv db" and "createEntryRoute t rq ms draws db = (Inr resp, db')" and "status resp = 201"
    and "shown_code resp = Some d"
    and "\<forall>r \<in> set db'. lastClaimId r \<noteq> Some uuid"
    and "\<forall>r \<in> set db'. r \<notin> set db \<longrightarrow> epochSeconds ms' < expiresAt r"
  shows "\<exists>resp' db'' r. claimEntryRoute up d ms' uuid True db' = (Inr resp', db'') \<and> status resp' = 200
    \<and> body resp' = TextBody (bodyText rq) \<and> set db' - set db = {r}
    \<and> map_of (headers resp') ''X-RendezKey-Remaining-Reads'' = Some (int_digits (maxReads r - 1))"
proof -
  from createEntryRoute_outcome [of t rq ms draws db] assms(2,3) obtain c ttl mr where
    c: "valid_code c" "\<not> taken db c" "shown_code resp = Some (formatCode c)"
    and db': "db' = db @ [\<lparr>e_code = c, e_value = bodyText rq, createdAt = epochSeconds ms,
                  expiresAt = epochSeconds ms + ttl, maxReads = mr, remainingReads = mr, lastClaimId = None\<rparr>]"
      (is "_ = db @ [?row]")
    and mr: "1 \<le> mr" "mr \<le> (case t of Anonymous \<Rightarrow> 5 | Privileged \<Rightarrow> 100)"
    by auto
  from mr(2) have "mr \<le> 100" by (cases t) auto
  with mr(1) c(2) assms(1) have inv: "db_inv db'"
    by (auto simp: db_inv_def db' taken_def row_ok_def max_reads_range_def)
  have new: "?row \<notin> set db" using c(2) by (force simp: taken_def)
  let ?i = "\<lparr>cl_code = c, cl_nowSeconds = epochSeconds ms', cl_claimId = uuid\<rparr>"
  have look: "lookup_row db' c = Some ?row"
    using inv by (simp add: lookup_row_Some db_inv_def) (simp add: db')
  have "claimable ?i ?row" using assms(6) new mr(1) by (simp add: claimable_def db')
  then have "snd (claimEntry True db' ?i) = Inr (Some \<lparr>cd_value = bodyText rq, cd_remainingReads = mr - 1,
      cd_expiresAtSeconds = epochSeconds ms + ttl\<rparr>)"
    using claimEntry_result [OF inv, of ?i] assms(5) look by simp
  then obtain db'' where cl: "claimEntry True db' ?i = (db'', Inr (Some \<lparr>cd_value = bodyText rq,
      cd_remainingReads = mr - 1, cd_expiresAtSeconds = epochSeconds ms + ttl\<rparr>))"
    by (metis prod.collapse)
  have "normalizeCode up d = Some c"
    using normalizeCode_typed [OF formatCode_typed(1) [OF c(1)] c(1)] c(3) assms(4) by simp
  with cl have "\<exists>resp'. claimEntryRoute up d ms' uuid True db' = (Inr resp', db'') \<and> status resp' = 200
      \<and> body resp' = TextBody (bodyText rq)
      \<and> map_of (headers resp') ''X-RendezKey-Remaining-Reads'' = Some (int_digits (mr - 1))"
    by (simp add: claimEntryRoute_def header_set_other)
  moreover have "set db' - set db = {?row}" using new by (auto simp: db')
  ultimately show ?thesis by fastforce
qed

theorem create_then_claim_witness:
  "\<exists>resp db' resp' db''. createEntryRoute Anonymous sample_request 0 (\<lambda>_. [0, 0, 0, 0, 0]) [] = (Inr resp, db')
     \<and> claimEntryRoute (\<lambda>c. [ascii_upper c]) (js ''2222-2222'') 3599999 [7] True db' = (Inr resp', db'')
     \<and> status resp' = 200 \<and> body resp' = TextBody (js ''hi'')"
proof -
  have "formatCode (js ''22222222'') = js ''2222-2222''" by code_simp
  then have "shown_code (created_response sample_request (js ''22222222'') 3600 1) = Some (js ''2222-2222'')"
    by (simp add: shown_code_created del: shown_code.simps)
  from create_then_claim [OF _ sample_create _ this, of "[7]" 3599999 "\<lambda>c. [ascii_upper c]"] sample_create
  show ?thesis by (auto simp: db_inv_def epochSeconds_def simp del: js_simps)
qed

text \<open>
  A claim that does not succeed is answered with one and the same 404, whether the code
  is malformed, unknown, expired or exhausted, and leaves the table unchanged.
\<close>

theorem claim_failure_uniform:
  assumes "db_inv db" and "\<forall>r \<in> set db. lastClaimId r \<noteq> Some uuid"
    and "claimEntryRoute up code ms uuid True db = (Inr resp, db')" and "status resp \<noteq> 200"
  shows "resp = unavailable \<and> db' = db"
proof (cases "normalizeCode up code")
  case None
  with assms(3) show ?thesis by (simp add: claimEntryRoute_def)
next
  case (Some c)
  let ?i = "\<lparr>cl_code = c, cl_nowSeconds = epochSeconds ms, cl_claimId = uuid\<rparr>"
  have res: "snd (claimEntry True db ?i) = Inr None" "db' = fst (claimEntry True db ?i)" "resp = unavailable"
    using assms(3,4) Some by (auto simp: claimEntryRoute_def split: prod.splits sum.splits option.splits)
  have "\<not> claimable ?i r" if "r \<in> set db" for r
  proof
    assume cl: "claimable ?i r"
    then have "lookup_row db c = Some r"
      using that assms(1) by (auto simp: lookup_row_Some db_inv_def claimable_def)
    with cl res(1) claimEntry_result [OF assms(1), of ?i] assms(2) show False by simp
  qed
  then have "map (claim_update ?i) db = db"
    by (intro map_idI) (simp add: claim_update_def)
  with res show ?thesis by (simp add: claimEntry_def Let_def)
qed

theorem claim_failure_uniform_witness:
  "claimEntryRoute (\<lambda>c. [ascii_upper c]) (js ''2222-2222'') 3600000 [7] True [sample_row] = (Inr unavailable, [sample_row])"
proof -
  have n: "normalizeCode (\<lambda>c. [ascii_upper c]) (js ''2222-2222'') = Some (js ''22222222'')"
    by (simp add: normalizeCode_def toUpperCase_def separator_def js_space_def ascii_upper_def u16_length_def
        CODE_LENGTH_def CODE_ALPHABET_def)
  obtain resp db' where r: "claimEntryRoute (\<lambda>c. [ascii_upper c]) (js ''2222-2222'') 3600000 [7] True [sample_row] = (Inr resp, db')"
      "status resp = 404"
    using n by (simp add: claimEntryRoute_def claimEntry_def claim_update_def claimable_def claim_select_def epochSeconds_def
        unavailable_def Let_def del: js_simps)
  then have "resp = unavailable \<and> db' = [sample_row]"
    by (intro claim_failure_uniform [OF _ _ r(1)]) (simp_all add: db_inv_def row_ok_def max_reads_range_def)
  with r show ?thesis by simp
qed

end
