(* ===== verification/JsonText.thy ===== *)
theory JsonText
  imports JsText
begin

text \<open>
  \<open>JSON.parse\<close> as a recursive descent over the code points of the text (ECMA-404 with the
  number grammar of ECMAScript), and the proof that it reads back what \<open>JSON.stringify\<close>
  prints.  The first argument of the recursion is fuel; every recursive call consumes a
  code point, so \<open>length s + 1\<close> is enough, which the round trip proves for printed values.
  Repeated keys keep the position of the first and the value of the last, as in JavaScript.
\<close>

fun skip_ws :: "js_string \<Rightarrow> js_string" where
  "skip_ws [] = []"
| "skip_ws (c # s) = (if c \<in> {9, 10, 13, 32} then skip_ws s else c # s)"

section \<open>Strings\<close>

definition hex4 :: "js_string \<Rightarrow> nat option" where
  "hex4 s = (if length s < 4 then None else radix_value 16 0 (take 4 s))"

definition escape_of :: "nat \<Rightarrow> nat option" where
  "escape_of e =
     (if e = 34 then Some 34 else if e = 92 then Some 92 else if e = 47 then Some 47
      else if e = 98 then Some 8 else if e = 102 then Some 12 else if e = 110 then Some 10
      else if e = 114 then Some 13 else if e = 116 then Some 9 else None)"

definition cons_fst :: "'a \<Rightarrow> ('a list \<times> 'b) option \<Rightarrow> ('a list \<times> 'b) option" where
  "cons_fst x r = map_option (\<lambda>(xs, y). (x # xs, y)) r"

lemma cons_fst_Some [simp]: "cons_fst x (Some (xs, y)) = Some (x # xs, y)"
  by (simp add: cons_fst_def)

function (sequential) scan_units :: "js_string \<Rightarrow> (js_string \<times> js_string) option" where
  "scan_units [] = None"
| "scan_units (c # s) =
     (if c = 34 then Some ([], s)
      else if c < 32 then None
      else if c \<noteq> 92 then cons_fst c (scan_units s)
      else (case s of
         [] \<Rightarrow> None
       | e # t \<Rightarrow>
           if e = 117 then (case hex4 t of None \<Rightarrow> None | Some v \<Rightarrow> cons_fst v (scan_units (drop 4 t)))
           else (case escape_of e of None \<Rightarrow> None | Some v \<Rightarrow> cons_fst v (scan_units t))))"
  by pat_completeness auto
termination
  by (relation "measure length") auto

declare scan_units.simps [simp del]

text \<open>A high surrogate followed by a low one is one code point.\<close>

fun join_surrogates :: "js_string \<Rightarrow> js_string" where
  "join_surrogates (a # b # s) =
     (if 55296 \<le> a \<and> a < 56320 \<and> 56320 \<le> b \<and> b < 57344
      then (65536 + (a - 55296) * 1024 + (b - 56320)) # join_surrogates s
      else a # join_surrogates (b # s))"
| "join_surrogates s = s"

definition scan_string :: "js_string \<Rightarrow> (js_string \<times> js_string) option" where
  "scan_string s = map_option (\<lambda>(cs, t). (join_surrogates cs, t)) (scan_units s)"

section \<open>Numbers\<close>

definition num_char :: "nat \<Rightarrow> bool" where
  "num_char c \<longleftrightarrow> is_digit c \<or> c \<in> {43, 45, 46, 69, 101}"

definition json_int_part :: "js_string \<Rightarrow> bool" where
  "json_int_part s \<longleftrightarrow> s \<noteq> [] \<and> (hd s = 48 \<longrightarrow> length s = 1)"

definition json_frac_part :: "js_string \<Rightarrow> bool" where
  "json_frac_part s \<longleftrightarrow> (case strip_char 46 s of None \<Rightarrow> True | Some t \<Rightarrow> takeWhile is_digit t \<noteq> [])"

text \<open>
  A lexeme of the characters a number may have is a JSON number when it has no sign but a
  leading minus, an integer part without leading zeros, a digit after a point, and the
  exponent form of the decimal literals.
\<close>

definition json_number :: "js_string \<Rightarrow> json option" where
  "json_number s =
     (let neg = (strip_char 45 s \<noteq> None);
          t = (case strip_char 45 s of Some u \<Rightarrow> u | None \<Rightarrow> s);
          r = dropWhile is_digit t;
          fp = (case strip_char 46 r of Some u \<Rightarrow> takeWhile is_digit u | None \<Rightarrow> []);
          r2 = (case strip_char 46 r of Some u \<Rightarrow> dropWhile is_digit u | None \<Rightarrow> r)
      in if json_int_part (takeWhile is_digit t) \<and> json_frac_part r \<and> exponent_value r2 \<noteq> None
         then Some (case decimal_value t of
             Some v \<Rightarrow> JNum (if neg then - v else v)
           | None \<Rightarrow> JInf neg)
         else None)"

section \<open>Values\<close>

definition set_member :: "js_string \<Rightarrow> json \<Rightarrow> (js_string \<times> json) list \<Rightarrow> (js_string \<times> json) list" where
  "set_member k v fs =
     (if k \<in> fst ` set fs then map (\<lambda>(k', v'). if k' = k then (k', v) else (k', v')) fs else fs @ [(k, v)])"

definition members :: "(js_string \<times> json) list \<Rightarrow> (js_string \<times> json) list" where
  "members fs = foldl (\<lambda>acc (k, v). set_member k v acc) [] fs"

definition word_prefix :: "string \<Rightarrow> js_string \<Rightarrow> js_string option" where
  "word_prefix w s = (if take (length w) s = js w then Some (drop (length w) s) else None)"

fun parse_value :: "nat \<Rightarrow> js_string \<Rightarrow> (json \<times> js_string) option"
  and parse_members :: "nat \<Rightarrow> js_string \<Rightarrow> ((js_string \<times> json) list \<times> js_string) option"
  and parse_elements :: "nat \<Rightarrow> js_string \<Rightarrow> (json list \<times> js_string) option" where
  "parse_value 0 s = None"
| "parse_value (Suc n) s = (case skip_ws s of
     [] \<Rightarrow> None
   | c # t \<Rightarrow>
       if c = 123 then
         (case strip_char 125 (skip_ws t) of
            Some u \<Rightarrow> Some (JObj [], u)
          | None \<Rightarrow> map_option (\<lambda>(fs, u). (JObj (members fs), u)) (parse_members n t))
       else if c = 91 then
         (case strip_char 93 (skip_ws t) of
            Some u \<Rightarrow> Some (JArr [], u)
          | None \<Rightarrow> map_option (\<lambda>(vs, u). (JArr vs, u)) (parse_elements n t))
       else if c = 34 then map_option (\<lambda>(cs, u). (JStr cs, u)) (scan_string t)
       else if num_char c then
         map_option (\<lambda>v. (v, dropWhile num_char (c # t))) (json_number (takeWhile num_char (c # t)))
       else (case word_prefix ''true'' (c # t) of Some u \<Rightarrow> Some (JBool True, u)
         | None \<Rightarrow> (case word_prefix ''false'' (c # t) of Some u \<Rightarrow> Some (JBool False, u)
         | None \<Rightarrow> (case word_prefix ''null'' (c # t) of Some u \<Rightarrow> Some (JNull, u) | None \<Rightarrow> None))))"
| "parse_members 0 s = None"
| "parse_members (Suc n) s =
     Option.bind (strip_char 34 (skip_ws s)) (\<lambda>t.
     Option.bind (scan_string t) (\<lambda>(k, u).
     Option.bind (strip_char 58 (skip_ws u)) (\<lambda>w.
     Option.bind (parse_value n w) (\<lambda>(v, x).
       case strip_char 44 (skip_ws x) of
         Some y \<Rightarrow> cons_fst (k, v) (parse_members n y)
       | None \<Rightarrow> map_option (\<lambda>z. ([(k, v)], z)) (strip_char 125 (skip_ws x))))))"
| "parse_elements 0 s = None"
| "parse_elements (Suc n) s =
     Option.bind (parse_value n s) (\<lambda>(v, x).
       case strip_char 44 (skip_ws x) of
         Some y \<Rightarrow> cons_fst v (parse_elements n y)
       | None \<Rightarrow> map_option (\<lambda>z. ([v], z)) (strip_char 93 (skip_ws x)))"

definition JSON_parse :: "js_string \<Rightarrow> json option" where
  "JSON_parse s = (case parse_value (Suc (length s)) s of
     Some (v, rest) \<Rightarrow> if skip_ws rest = [] then Some v else None
   | None \<Rightarrow> None)"

section \<open>Reading back what was printed\<close>

definition num_ok :: "(rat \<Rightarrow> js_string) \<Rightarrow> rat \<Rightarrow> bool" where
  "num_ok num r \<longleftrightarrow> num r \<noteq> [] \<and> list_all num_char (num r) \<and> json_number (num r) = Some (JNum r)"

text \<open>Values a program builds: scalar text, distinct keys, finite numbers that print exactly.\<close>

fun json_ok :: "(rat \<Rightarrow> js_string) \<Rightarrow> json \<Rightarrow> bool" where
  "json_ok num (JNum r) = num_ok num r"
| "json_ok num (JInf neg) = False"
| "json_ok num (JStr s) = list_all scalar_value s"
| "json_ok num (JArr vs) = list_all (json_ok num) vs"
| "json_ok num (JObj fs) = (distinct (map fst fs) \<and> list_all (\<lambda>(k, v). list_all scalar_value k \<and> json_ok num v) fs)"
| "json_ok num _ = True"

lemma hex_digit_in: "d < 16 \<Longrightarrow> digit_in 16 (hex_digit d) = Some d"
  by (auto simp: digit_in_def hex_digit_def is_digit_def ascii_lower_def)

lemma hex4_escape: "c < 65536 \<Longrightarrow> hex4 (drop 2 (escape_u c) @ t) = Some c"
proof -
  assume c: "c < 65536"
  have "((c div 4096 mod 16 * 16 + c div 256 mod 16) * 16 + c div 16 mod 16) * 16 + c mod 16 = c"
  proof -
    have "c div 4096 mod 16 = c div 4096" using c by simp
    moreover have "c div 4096 = c div 16 div 16 div 16" "c div 256 = c div 16 div 16"
      by (simp_all add: div_mult2_eq [symmetric])
    ultimately show ?thesis
      using div_mult_mod_eq [of c 16] div_mult_mod_eq [of "c div 16" 16] div_mult_mod_eq [of "c div 16 div 16" 16]
      by simp
  qed
  moreover have "c div 4096 < 16" using c by auto
  ultimately show ?thesis by (simp add: hex4_def escape_u_def hex_digit_in)
qed

lemma scan_units_quote_char:
  assumes "scalar_value c"
  shows "scan_units (quote_char c @ t) = cons_fst c (scan_units t)"
proof (cases "c < 32 \<and> c \<notin> {8, 9, 10, 12, 13}")
  case True
  then have q: "quote_char c = 92 # 117 # drop 2 (escape_u c)"
    by (auto simp: quote_char_def escape_u_def)
  have "drop 4 (drop 2 (escape_u c) @ t) = t" by (simp add: escape_u_def)
  with True show ?thesis
    unfolding q by (simp add: scan_units.simps(2) hex4_escape)
next
  case False
  with assms show ?thesis
    by (auto simp: quote_char_def scalar_value_def scan_units.simps(2) escape_of_def)
qed

lemma join_surrogates_scalar: "list_all scalar_value s \<Longrightarrow> join_surrogates s = s"
  by (induction s rule: join_surrogates.induct) (auto simp: scalar_value_def)

lemma scan_string_quoted:
  assumes "list_all scalar_value s"
  shows "scan_string (concat (map quote_char s) @ 34 # t) = Some (s, t)"
proof -
  have "scan_units (concat (map quote_char s) @ 34 # t) = Some (s, t)"
    using assms
    by (induction s) (simp_all add: scan_units_quote_char scan_units.simps)
  with assms show ?thesis by (simp add: scan_string_def join_surrogates_scalar)
qed

lemma foldl_set_member:
  "distinct (map fst fs) \<Longrightarrow> fst ` set acc \<inter> fst ` set fs = {} \<Longrightarrow>
     foldl (\<lambda>acc (k, v). set_member k v acc) acc fs = acc @ fs"
  by (induction fs arbitrary: acc) (auto simp: set_member_def)

lemma members_distinct: "distinct (map fst fs) \<Longrightarrow> members fs = fs"
  using foldl_set_member [of fs "[]"] by (simp add: members_def)

definition num_end :: "js_string \<Rightarrow> bool" where
  "num_end s \<longleftrightarrow> (case s of [] \<Rightarrow> True | c # _ \<Rightarrow> \<not> num_char c)"

lemma takeWhile_num: "list_all num_char s \<Longrightarrow> num_end t \<Longrightarrow>
    takeWhile num_char (s @ t) = s \<and> dropWhile num_char (s @ t) = t"
  by (induction s) (auto simp: num_end_def split: list.splits)

lemma num_char_facts:
  "num_char c \<Longrightarrow> c \<notin> {9, 10, 13, 32, 123, 91, 34, 116, 102, 110}"
  by (auto simp: num_char_def is_digit_def)

lemma parse_number:
  assumes "num_ok num r" "num_end t"
  shows "parse_value (Suc n) (num r @ t) = Some (JNum r, t)"
proof -
  from assms(1) obtain c s where cs: "num r = c # s" "num_char c"
    by (cases "num r") (auto simp: num_ok_def)
  have "takeWhile num_char (num r @ t) = num r \<and> dropWhile num_char (num r @ t) = t"
    using assms by (intro takeWhile_num) (auto simp: num_ok_def)
  with assms(1) cs num_char_facts [OF cs(2)] show ?thesis
    by (auto simp: num_ok_def)
qed

lemma skip_ws_id: "s \<noteq> [] \<Longrightarrow> hd s \<notin> {9, 10, 13, 32} \<Longrightarrow> skip_ws s = s"
  by (cases s) auto

lemma strip_char_Cons: "strip_char c (x # s) = (if x = c then Some s else None)"
  by (simp add: strip_char_def)

text \<open>Every printed value starts with a character that is neither space nor a closing bracket.\<close>

lemma stringify_start:
  assumes "json_ok num j"
  obtains c s where "JSON_stringify num j = c # s" "c \<notin> {9, 10, 13, 32, 93, 125, 44, 65279}"
proof (cases j)
  case (JNum r)
  with assms obtain c s where "num r = c # s" "num_char c"
    by (cases "num r") (auto simp: num_ok_def)
  then show thesis using that JNum by (auto simp: num_char_def is_digit_def)
next
  case (JBool b)
  then show thesis using that by (cases b) auto
qed (use that in \<open>auto simp: quote_string_def split: if_splits\<close>)

definition printed_ok :: "(rat \<Rightarrow> js_string) \<Rightarrow> json \<Rightarrow> bool" where
  "printed_ok num j \<longleftrightarrow> (\<forall>n rest. length (JSON_stringify num j) < n \<longrightarrow> num_end rest \<longrightarrow>
     parse_value n (JSON_stringify num j @ rest) = Some (j, rest))"

lemma printed_okD:
  "printed_ok num j \<Longrightarrow> length (JSON_stringify num j) < n \<Longrightarrow> num_end rest \<Longrightarrow>
     parse_value n (JSON_stringify num j @ rest) = Some (j, rest)"
  by (simp add: printed_ok_def)

lemma num_end_Cons: "num_end (c # s) = (\<not> num_char c)"
  by (simp add: num_end_def)

lemma num_char_sep [simp]: "\<not> num_char 44" "\<not> num_char 93" "\<not> num_char 125"
  by (auto simp: num_char_def is_digit_def)

lemma parse_elements_printed:
  assumes "vs \<noteq> []" "list_all (printed_ok num) vs"
    and "length (join [44] (map (JSON_stringify num) vs)) + 1 < n"
  shows "parse_elements n (join [44] (map (JSON_stringify num) vs) @ 93 # rest) = Some (vs, rest)"
  using assms
proof (induction vs arbitrary: n rule: list_nonempty_induct)
  case (single v)
  then obtain m where n: "n = Suc m" by (cases n) auto
  with single have "parse_value m (JSON_stringify num v @ 93 # rest) = Some (v, 93 # rest)"
    by (intro printed_okD) (auto simp: num_end_Cons)
  with n show ?case by (simp add: strip_char_Cons)
next
  case (cons v vs)
  then obtain w ws where vs: "vs = w # ws" by (cases vs) auto
  from cons obtain m where n: "n = Suc m" by (cases n) auto
  let ?r = "join [44] (map (JSON_stringify num) vs)"
  have "parse_value m (JSON_stringify num v @ 44 # ?r @ 93 # rest) = Some (v, 44 # ?r @ 93 # rest)"
    using cons.prems n vs by (intro printed_okD) (auto simp: num_end_Cons)
  moreover have "parse_elements m (?r @ 93 # rest) = Some (vs, rest)"
    using cons.prems n vs by (intro cons.IH) auto
  ultimately show ?case using n vs by (simp add: strip_char_Cons)
qed

abbreviation print_member :: "(rat \<Rightarrow> js_string) \<Rightarrow> js_string \<times> json \<Rightarrow> js_string" where
  "print_member num \<equiv> \<lambda>(k, v). quote_string k @ [58] @ JSON_stringify num v"

lemma parse_member:
  assumes "list_all scalar_value k" "printed_ok num v" "length (JSON_stringify num v) < n" "num_end rest"
  shows "parse_members (Suc n) (print_member num (k, v) @ rest) = (case strip_char 44 (skip_ws rest) of
         Some y \<Rightarrow> cons_fst (k, v) (parse_members n y)
       | None \<Rightarrow> map_option (\<lambda>z. ([(k, v)], z)) (strip_char 125 (skip_ws rest)))"
  using scan_string_quoted [OF assms(1)] printed_okD [OF assms(2-4)]
  by (simp add: quote_string_def strip_char_Cons)

lemma parse_members_printed:
  assumes "fs \<noteq> []" "list_all (\<lambda>(k, v). list_all scalar_value k \<and> printed_ok num v) fs"
    and "length (join [44] (map (print_member num) fs)) < n"
  shows "parse_members n (join [44] (map (print_member num) fs) @ 125 # rest) = Some (fs, rest)"
  using assms
proof (induction fs arbitrary: n rule: list_nonempty_induct)
  case (single f)
  obtain k v where f: "f = (k, v)" by (cases f)
  from single obtain m where n: "n = Suc m" by (cases n) auto
  have "parse_members (Suc m) (print_member num (k, v) @ 125 # rest) = Some ([(k, v)], rest)"
    using single f n by (subst parse_member) (auto simp: num_end_Cons strip_char_Cons quote_string_def)
  with n f show ?case by simp
next
  case (cons f fs)
  obtain k v where f: "f = (k, v)" by (cases f)
  obtain g gs where fs: "fs = g # gs" using cons.hyps by (cases fs) auto
  from cons obtain m where n: "n = Suc m" by (cases n) auto
  let ?r = "join [44] (map (print_member num) fs)"
  have "parse_members m (?r @ 125 # rest) = Some (fs, rest)"
    using cons.prems n fs f by (intro cons.IH) (auto simp: quote_string_def)
  moreover have "parse_members (Suc m) (print_member num (k, v) @ 44 # ?r @ 125 # rest) =
      cons_fst (k, v) (parse_members m (?r @ 125 # rest))"
    using cons.prems n fs f by (subst parse_member) (auto simp: num_end_Cons strip_char_Cons quote_string_def)
  ultimately show ?case using n f fs by simp
qed

lemma stringify_printed: "json_ok num j \<Longrightarrow> printed_ok num j"
proof (induction j)
  case (JNum r)
  then show ?case
    unfolding printed_ok_def
    by (metis JSON_stringify.simps(3) json_ok.simps(1) not_less_zero old.nat.exhaust parse_number)
next
  case (JStr s)
  then show ?case
    using scan_string_quoted
    by (auto simp: printed_ok_def quote_string_def num_char_def is_digit_def less_Suc_eq_0_disj gr0_conv_Suc
        dest!: less_imp_Suc_add)
next
  case (JArr vs)
  show ?case
    unfolding printed_ok_def
  proof (intro allI impI)
    fix n rest assume n: "length (JSON_stringify num (JArr vs)) < n"
    then obtain m where m: "n = Suc m" by (cases n) auto
    show "parse_value n (JSON_stringify num (JArr vs) @ rest) = Some (JArr vs, rest)"
    proof (cases vs)
      case Nil
      then show ?thesis by (simp add: m strip_char_Cons)
    next
      case (Cons w ws)
      let ?j = "join [44] (map (JSON_stringify num) vs)"
      from JArr Cons obtain c s where c: "JSON_stringify num w = c # s" "c \<notin> {9, 10, 13, 32, 93, 125, 44, 65279}"
        using stringify_start [of num w] by auto
      have "parse_elements m (?j @ 93 # rest) = Some (vs, rest)"
        using JArr n m Cons by (intro parse_elements_printed) (auto simp: list_all_iff)
      moreover have "strip_char 93 (skip_ws (?j @ 93 # rest)) = None"
        using c Cons by (cases ws) (auto simp: strip_char_Cons)
      ultimately show ?thesis by (simp add: m)
    qed
  qed
next
  case (JObj fs)
  show ?case
    unfolding printed_ok_def
  proof (intro allI impI)
    fix n rest assume n: "length (JSON_stringify num (JObj fs)) < n"
    then obtain m where m: "n = Suc m" by (cases n) auto
    show "parse_value n (JSON_stringify num (JObj fs) @ rest) = Some (JObj fs, rest)"
    proof (cases fs)
      case Nil
      then show ?thesis by (simp add: m strip_char_Cons)
    next
      case (Cons g gs)
      let ?j = "join [44] (map (print_member num) fs)"
      have "list_all (\<lambda>(k, v). list_all scalar_value k \<and> printed_ok num v) fs"
        using JObj by (fastforce simp: list_all_iff)
      then have "parse_members m (?j @ 125 # rest) = Some (fs, rest)"
        using n m Cons by (intro parse_members_printed) auto
      moreover have "strip_char 125 (skip_ws (?j @ 125 # rest)) = None"
        using Cons by (cases gs; cases g) (auto simp: strip_char_Cons quote_string_def)
      ultimately show ?thesis using JObj by (simp add: m members_distinct)
    qed
  qed
qed (auto simp: printed_ok_def word_prefix_def num_char_def is_digit_def dest!: less_imp_Suc_add)

theorem JSON_roundtrip: "json_ok num j \<Longrightarrow> JSON_parse (JSON_stringify num j) = Some j"
  using printed_okD [OF stringify_printed, of num j "Suc (length (JSON_stringify num j))" "[]"]
  by (simp add: JSON_parse_def num_end_def)

interpretation json_codec: codec "JSON_stringify num" JSON_parse "json_ok num" for num
  by unfold_locales (rule JSON_roundtrip)

text \<open>The printed text survives UTF-8.\<close>

lemma scalar_ascii: "c < 128 \<Longrightarrow> scalar_value c"
  by (simp add: scalar_value_def)

lemma hex_digit_scalar: "d < 16 \<Longrightarrow> scalar_value (hex_digit d)"
  by (simp add: hex_digit_def scalar_value_def)

lemma quote_char_scalar: "scalar_value c \<Longrightarrow> list_all scalar_value (quote_char c)"
  by (simp add: quote_char_def escape_u_def hex_digit_scalar scalar_ascii)

lemma quote_string_scalar: "list_all scalar_value s \<Longrightarrow> list_all scalar_value (quote_string s)"
  using quote_char_scalar by (auto simp: quote_string_def list_all_iff scalar_ascii)

lemma join_scalar: "list_all (list_all scalar_value) ss \<Longrightarrow> list_all scalar_value (join [44] ss)"
  by (induction "[44] :: js_string" ss rule: join.induct) (auto simp: scalar_ascii)

lemma stringify_scalar: "json_ok num j \<Longrightarrow> list_all scalar_value (JSON_stringify num j)"
proof (induction j)
  case (JNum r)
  then show ?case
    by (auto simp: num_ok_def list_all_iff num_char_def is_digit_def scalar_value_def)
next
  case (JArr vs)
  then have "list_all (list_all scalar_value) (map (JSON_stringify num) vs)"
    by (auto simp: list_all_iff)
  from join_scalar [OF this] show ?case by (simp add: scalar_ascii)
next
  case (JObj fs)
  have "list_all scalar_value (print_member num f)" if "f \<in> set fs" for f
  proof -
    obtain k v where f: "f = (k, v)" by (cases f)
    with that JObj have "list_all scalar_value k" "list_all scalar_value (JSON_stringify num v)"
      by (fastforce simp: list_all_iff)+
    then show ?thesis using quote_string_scalar [of k] f by (simp add: scalar_ascii)
  qed
  then have "list_all (list_all scalar_value) (map (print_member num) fs)"
    by (simp add: list_all_iff)
  from join_scalar [OF this] show ?case by (simp add: scalar_ascii)
qed (auto simp: quote_string_scalar scalar_ascii)

lemma stringify_text_ok:
  assumes "json_ok num j"
  shows "text_ok (JSON_stringify num j) \<and> JSON_stringify num j \<noteq> []"
proof -
  obtain c s where "JSON_stringify num j = c # s" "c \<noteq> 65279"
    using stringify_start [OF assms] by blast
  then show ?thesis using stringify_scalar [OF assms] by (simp add: text_ok_def)
qed

lemma of_char_less: "(of_char c :: nat) < 256"
  by simp

lemma js_scalar: "list_all scalar_value (js s)"
proof -
  have "scalar_value (of_char c)" for c :: char
    unfolding scalar_value_def using of_char_less [of c] by linarith
  then show ?thesis by (induction s) simp_all
qed

section \<open>Integers\<close>

lemma hd_nat_digits: "n \<noteq> 0 \<Longrightarrow> hd (nat_digits n) \<noteq> 48"
proof (induction n rule: nat_digits.induct)
  case (1 n)
  then show ?case by (subst nat_digits.simps) (auto simp: hd_append)
qed

lemma nat_digits_0: "nat_digits 0 = [48]"
  by (simp add: nat_digits.simps)

lemma json_int_part_nat_digits: "json_int_part (nat_digits n)"
  using hd_nat_digits [of n] by (cases "n = 0") (auto simp: json_int_part_def nat_digits_0)

lemma takeWhile_digits:
  "takeWhile is_digit (nat_digits n) = nat_digits n" "dropWhile is_digit (nat_digits n) = []"
  using nat_digits_digit [of n] by (simp_all add: takeWhile_eq_all_conv list_all_iff)

lemma decimal_value_nat_digits:
  "decimal_value (nat_digits n) = finite_number (of_nat n)"
  by (simp add: decimal_value_def takeWhile_digits strip_char_def exponent_value_def)

lemma strip_minus_nat_digits: "strip_char 45 (nat_digits n) = None"
proof -
  have "is_digit (hd (nat_digits n))" using nat_digits_digit [of n] by (simp add: list_all_iff)
  then have "hd (nat_digits n) \<noteq> 45" by (auto simp: is_digit_def)
  then show ?thesis by (cases "nat_digits n") (auto simp: strip_char_def)
qed

lemma json_number_int_digits:
  assumes "\<bar>i\<bar> < 2 ^ 1000"
  shows "json_number (int_digits i) = Some (JNum (of_int i))"
proof -
  have big: "(2::rat) ^ 1000 < 2 ^ 1024 - 2 ^ 970" by simp
  have "\<bar>rat_of_int i\<bar> = of_int \<bar>i\<bar>" by simp
  also have "\<dots> < of_int (2 ^ 1000)" using assms by (simp only: of_int_less_iff)
  finally have "\<bar>rat_of_int i\<bar> < 2 ^ 1024 - 2 ^ 970" using big by simp
  then have f: "finite_number (rat_of_int \<bar>i\<bar>) = Some (rat_of_int \<bar>i\<bar>)"
    by (simp add: finite_number_def)
  show ?thesis
  proof (cases "i < 0")
    case True
    then have "rat_of_nat (nat (- i)) = - rat_of_int i" by (simp add: of_nat_nat)
    with True f show ?thesis
      by (simp add: json_number_def int_digits_def strip_char_Cons takeWhile_digits json_int_part_nat_digits
          json_frac_part_def decimal_value_nat_digits exponent_value_def)
        (simp add: strip_char_def)
  next
    case False
    then have "rat_of_nat (nat i) = rat_of_int i" by (simp add: of_nat_nat)
    with False f show ?thesis
      by (simp add: json_number_def int_digits_def strip_minus_nat_digits takeWhile_digits json_int_part_nat_digits
          json_frac_part_def decimal_value_nat_digits exponent_value_def)
        (simp add: strip_char_def)
  qed
qed

lemma int_digits_chars: "int_digits i \<noteq> [] \<and> list_all num_char (int_digits i)"
  using nat_digits_digit by (auto simp: int_digits_def num_char_def list_all_iff)

lemma num_ok_int: "\<bar>i\<bar> < 2 ^ 1000 \<Longrightarrow> num_ok int_num (of_int i)"
  unfolding num_ok_def int_num_def
  by (simp only: floor_of_int json_number_int_digits int_digits_chars simp_thms)

end
