(* ===== verification/Secret.thy ===== *)
theory Secret
  imports JsText
begin

text \<open>
  \<open>apps/rendez-key/src/signal/secret.ts\<close> and \<open>signal/limits.ts\<close>: the listener's secret.
  \<open>btoa\<close> and \<open>atob\<close> are the forgiving base64 of the HTML standard on byte strings.  SHA-256
  is an argument (\<open>sha256\<close>); that its digests have 32 bytes is the one fact used of it.
\<close>

definition SIGNAL_PROTOCOL_VERSION :: int where "SIGNAL_PROTOCOL_VERSION = 1"
definition DEFAULT_SIGNAL_TTL_SECONDS :: int where "DEFAULT_SIGNAL_TTL_SECONDS = 600"
definition MIN_SIGNAL_TTL_SECONDS :: int where "MIN_SIGNAL_TTL_SECONDS = 60"
definition MAX_SIGNAL_TTL_SECONDS :: int where "MAX_SIGNAL_TTL_SECONDS = 3600"
definition SIGNAL_BIND_DEADLINE_MS :: int where "SIGNAL_BIND_DEADLINE_MS = 5000"
definition MAX_SIGNAL_FRAME_BYTES :: nat where "MAX_SIGNAL_FRAME_BYTES = 65536"
definition MAX_SIGNAL_SDP_BYTES :: nat where "MAX_SIGNAL_SDP_BYTES = 60 * 1024"
definition MAX_SIGNAL_CANDIDATE_BYTES :: nat where "MAX_SIGNAL_CANDIDATE_BYTES = 4096"
definition MAX_SIGNAL_CANDIDATES_PER_PEER :: nat where "MAX_SIGNAL_CANDIDATES_PER_PEER = 16"
definition MAX_SIGNAL_FORWARDED_BYTES :: nat where "MAX_SIGNAL_FORWARDED_BYTES = 1048576"
definition SIGNAL_LISTENER_SECRET_BYTES :: nat where "SIGNAL_LISTENER_SECRET_BYTES = 32"
definition SIGNAL_LISTENER_SECRET_LENGTH :: nat where "SIGNAL_LISTENER_SECRET_LENGTH = 43"
definition SIGNAL_POLICY_CLOSE_CODE :: nat where "SIGNAL_POLICY_CLOSE_CODE = 1008"
definition SIGNAL_EXPIRED_CLOSE_CODE :: nat where "SIGNAL_EXPIRED_CLOSE_CODE = 1001"
definition SIGNAL_INTERNAL_CLOSE_CODE :: nat where "SIGNAL_INTERNAL_CLOSE_CODE = 1011"

section \<open>Base64\<close>

definition B64 :: js_string where
  "B64 = js ''ABCDEFGHIJKLMNOPQRSTUVWXYZabcdefghijklmnopqrstuvwxyz0123456789+/''"

definition sextet :: "nat \<Rightarrow> nat" where
  "sextet d = B64 ! d"

definition sextet_value :: "nat \<Rightarrow> nat option" where
  "sextet_value c =
     (if 65 \<le> c \<and> c \<le> 90 then Some (c - 65) else if 97 \<le> c \<and> c \<le> 122 then Some (c - 71)
      else if is_digit c then Some (c + 4) else if c = 43 then Some 62 else if c = 47 then Some 63 else None)"

fun btoa_sextets :: "nat list \<Rightarrow> nat list" where
  "btoa_sextets (a # b # c # r) =
     a div 4 # (a mod 4 * 16 + b div 16) # (b mod 16 * 4 + c div 64) # c mod 64 # btoa_sextets r"
| "btoa_sextets [a, b] = [a div 4, a mod 4 * 16 + b div 16, b mod 16 * 4]"
| "btoa_sextets [a] = [a div 4, a mod 4 * 16]"
| "btoa_sextets [] = []"

definition btoa :: "byte list \<Rightarrow> js_string" where
  "btoa bs = map sextet (btoa_sextets (map unat bs)) @ replicate ((3 - length bs mod 3) mod 3) 61"

fun atob_bytes :: "nat list \<Rightarrow> nat list" where
  "atob_bytes (p # q # r # s # t) =
     (p * 4 + q div 16) # (q mod 16 * 16 + r div 4) # (r mod 4 * 64 + s) # atob_bytes t"
| "atob_bytes [p, q, r] = [p * 4 + q div 16, q mod 16 * 16 + r div 4]"
| "atob_bytes [p, q] = [p * 4 + q div 16]"
| "atob_bytes _ = []"

definition strip_padding :: "js_string \<Rightarrow> js_string" where
  "strip_padding s =
     (if length s mod 4 = 0 \<and> s \<noteq> [] \<and> last s = 61
      then (if butlast s \<noteq> [] \<and> last (butlast s) = 61 then butlast (butlast s) else butlast s)
      else s)"

definition atob_space :: "nat \<Rightarrow> bool" where
  "atob_space c \<longleftrightarrow> c \<in> {9, 10, 12, 13, 32}"

fun sextets :: "js_string \<Rightarrow> nat list option" where
  "sextets [] = Some []"
| "sextets (c # s) = (case sextet_value c of
     None \<Rightarrow> None
   | Some v \<Rightarrow> map_option (\<lambda>vs. v # vs) (sextets s))"

definition atob :: "js_string \<Rightarrow> byte list option" where
  "atob raw =
     (let s = strip_padding (filter (\<lambda>c. \<not> atob_space c) raw)
      in if length s mod 4 = 1 then None
         else map_option (\<lambda>vs. map of_nat (atob_bytes vs)) (sextets s))"

section \<open>Secrets\<close>

datatype secret_error = InvalidListenerSecret | InvalidListenerSecretGeneration

definition url_char :: "nat \<Rightarrow> bool" where
  "url_char c \<longleftrightarrow> 65 \<le> c \<and> c \<le> 90 \<or> 97 \<le> c \<and> c \<le> 122 \<or> is_digit c \<or> c = 95 \<or> c = 45"

definition to_url :: "nat \<Rightarrow> nat" where
  "to_url c = (if c = 43 then 45 else if c = 47 then 95 else c)"

definition of_url :: "nat \<Rightarrow> nat" where
  "of_url c = (if c = 45 then 43 else if c = 95 then 47 else c)"

definition encodeBase64Url :: "byte list \<Rightarrow> js_string" where
  "encodeBase64Url bytes = rev (dropWhile (\<lambda>c. c = 61) (rev (map to_url (btoa bytes))))"

definition decodeBase64Url :: "js_string \<Rightarrow> secret_error + byte list" where
  "decodeBase64Url v =
     (if v = [] \<or> \<not> list_all url_char v then Inl InvalidListenerSecret
      else (case atob (map of_url v @ replicate ((4 - u16_length v mod 4) mod 4) 61) of
              None \<Rightarrow> Inl InvalidListenerSecret
            | Some bs \<Rightarrow> Inr bs))"

definition generateListenerSecret :: "byte list \<Rightarrow> secret_error + js_string" where
  "generateListenerSecret bytes =
     (let secret = encodeBase64Url bytes
      in if u16_length secret \<noteq> SIGNAL_LISTENER_SECRET_LENGTH then Inl InvalidListenerSecretGeneration
         else Inr secret)"

definition hashListenerSecret :: "(byte list \<Rightarrow> byte list) \<Rightarrow> js_string \<Rightarrow> byte list" where
  "hashListenerSecret sha256 secret = sha256 (utf8_encode secret)"

definition bytesToHex :: "byte list \<Rightarrow> js_string" where
  "bytesToHex bytes = concat (map (\<lambda>b. [hex_digit (unat b div 16), hex_digit (unat b mod 16)]) bytes)"

definition lower_hex :: "nat \<Rightarrow> bool" where
  "lower_hex c \<longleftrightarrow> is_digit c \<or> 97 \<le> c \<and> c \<le> 102"

fun hex_pairs :: "js_string \<Rightarrow> byte list" where
  "hex_pairs (x # y # r) = (case radix_value 16 0 [x, y] of Some v \<Rightarrow> of_nat v | None \<Rightarrow> 0) # hex_pairs r"
| "hex_pairs _ = []"

definition hexToBytes :: "js_string \<Rightarrow> byte list option" where
  "hexToBytes v = (if length v = 64 \<and> list_all lower_hex v then Some (hex_pairs v) else None)"

definition hashListenerSecretHex :: "(byte list \<Rightarrow> byte list) \<Rightarrow> js_string \<Rightarrow> js_string" where
  "hashListenerSecretHex sha256 secret = bytesToHex (hashListenerSecret sha256 secret)"

text \<open>The loop accumulates the differences of all positions; it has no early exit.\<close>

definition constantTimeDigestEqual :: "byte list \<Rightarrow> byte list \<Rightarrow> bool" where
  "constantTimeDigestEqual left right =
     (if length left \<noteq> length right then False
      else foldl (\<lambda>difference i. difference OR (left ! i XOR right ! i)) 0 [0..<length left] = 0)"

definition verifyListenerSecret :: "(byte list \<Rightarrow> byte list) \<Rightarrow> js_string \<Rightarrow> js_string \<Rightarrow> bool" where
  "verifyListenerSecret sha256 secret expectedHashHex = (case hexToBytes expectedHashHex of
     None \<Rightarrow> False
   | Some expected \<Rightarrow> constantTimeDigestEqual (hashListenerSecret sha256 secret) expected)"

text \<open>What logs may show of a secret.\<close>

definition redactListenerSecret :: "js_string \<Rightarrow> (js_string \<times> js_string) list" where
  "redactListenerSecret secret = [(js ''listenerSecret'', js ''[redacted]'')]"

section \<open>Base64 round trip\<close>

lemma sextet_value_sextet: "d < 64 \<Longrightarrow> sextet_value (sextet d) = Some d"
proof -
  have "\<forall>d \<in> set [0..<64]. sextet_value (B64 ! d) = Some d" by code_simp
  then show "d < 64 \<Longrightarrow> ?thesis" by (simp add: sextet_def)
qed

lemma sextet_char: "d < 64 \<Longrightarrow> of_url (to_url (sextet d)) = sextet d \<and> url_char (to_url (sextet d))
    \<and> \<not> atob_space (sextet d) \<and> sextet d \<noteq> 61 \<and> to_url (sextet d) < 128"
proof -
  assume "d < 64"
  moreover have "length B64 = 64" by (simp add: B64_def)
  moreover have "list_all (\<lambda>c. of_url (to_url c) = c \<and> url_char (to_url c) \<and> \<not> atob_space c \<and> c \<noteq> 61
      \<and> to_url c < 128) B64"
    by (simp add: B64_def of_url_def to_url_def url_char_def atob_space_def is_digit_def)
  ultimately show ?thesis by (simp add: sextet_def list_all_length)
qed

lemma btoa_sextets_bound: "list_all (\<lambda>a. a < 256) xs \<Longrightarrow> list_all (\<lambda>d. d < 64) (btoa_sextets xs)"
proof (induction xs rule: btoa_sextets.induct)
  case (1 a b c r)
  then have "a mod 4 * 16 + b div 16 < 64" "b mod 16 * 4 + c div 64 < 64" "a div 4 < 64" by auto
  with 1 show ?case by simp
qed auto

lemma atob_btoa_sextets: "list_all (\<lambda>a. a < 256) xs \<Longrightarrow> atob_bytes (btoa_sextets xs) = xs"
proof (induction xs rule: btoa_sextets.induct)
  case (1 a b c r)
  then have d: "b div 16 < 16" "c div 64 < 4" by auto
  from d have "(a mod 4 * 16 + b div 16) div 16 = a mod 4" "(a mod 4 * 16 + b div 16) mod 16 = b div 16"
    "(b mod 16 * 4 + c div 64) div 4 = b mod 16" "(b mod 16 * 4 + c div 64) mod 4 = c div 64"
    by (simp_all add: div_add1_eq)
  with 1 show ?case by simp
next
  case (2 a b)
  then have d: "b div 16 < 16" by auto
  then have "(a mod 4 * 16 + b div 16) div 16 = a mod 4" "(a mod 4 * 16 + b div 16) mod 16 = b div 16"
    by (simp_all add: div_add1_eq)
  with 2 show ?case by simp
qed auto

lemma length_btoa_sextets:
  "length (btoa_sextets xs) = length xs + (length xs + 2) div 3"
  by (induction xs rule: btoa_sextets.induct) auto

lemma sextets_map_sextet: "list_all (\<lambda>d. d < 64) ds \<Longrightarrow> sextets (map sextet ds) = Some ds"
  by (induction ds) (simp_all add: sextet_value_sextet)

definition b64_text :: "byte list \<Rightarrow> js_string" where
  "b64_text bs = map sextet (btoa_sextets (map unat bs))"

lemma b64_bound: "list_all (\<lambda>d. d < 64) (btoa_sextets (map unat (bs :: byte list)))"
  using unsigned_less [where ?'b = 8 and ?'a = nat] by (intro btoa_sextets_bound) (simp add: list_all_iff)

lemma b64_chars: "c \<in> set (b64_text bs) \<Longrightarrow> of_url (to_url c) = c \<and> url_char (to_url c)
    \<and> \<not> atob_space c \<and> c \<noteq> 61 \<and> to_url c < 128"
  using b64_bound [of bs] sextet_char by (auto simp: b64_text_def list_all_iff)

lemma to_url_pad: "to_url c \<noteq> 61 \<longleftrightarrow> c \<noteq> 61"
  by (auto simp: to_url_def)

lemma dropWhile_none: "(\<And>x. x \<in> set xs \<Longrightarrow> \<not> P x) \<Longrightarrow> dropWhile P xs = xs"
  by (cases xs) auto

lemma encodeBase64Url_eq: "encodeBase64Url bs = map to_url (b64_text bs)"
proof -
  let ?t = "map to_url (b64_text bs)"
  have t: "c \<noteq> 61" if "c \<in> set ?t" for c using that b64_chars to_url_pad by auto
  have "map to_url (btoa bs) = ?t @ replicate ((3 - length bs mod 3) mod 3) 61"
    by (simp add: btoa_def b64_text_def to_url_def)
  then have "encodeBase64Url bs = rev (dropWhile (\<lambda>c. c = 61) (rev ?t))"
    by (simp add: encodeBase64Url_def dropWhile_append)
  also have "dropWhile (\<lambda>c. c = 61) (rev ?t) = rev ?t"
    using t by (intro dropWhile_none) simp
  finally show ?thesis by simp
qed

lemma strip_padding_pad:
  assumes "61 \<notin> set t" "length t mod 4 \<noteq> 1" "t \<noteq> []"
  shows "strip_padding (t @ replicate ((4 - length t mod 4) mod 4) 61) = t"
proof -
  have l: "last t \<noteq> 61" using assms by (metis last_in_set)
  have "length t mod 4 < 4" by simp
  with assms(2) consider "length t mod 4 = 0" | "length t mod 4 = 2" | "length t mod 4 = 3" by linarith
  then show ?thesis
  proof cases
    case 2
    then have "(length t + 2) mod 4 = 0" by presburger
    with 2 show ?thesis by (simp add: strip_padding_def numeral_2_eq_2 butlast_append)
  next
    case 3
    then have "Suc (length t) mod 4 = 0" by presburger
    with 3 l assms(3) show ?thesis by (simp add: strip_padding_def)
  qed (use l in \<open>simp add: strip_padding_def\<close>)
qed

lemma length_b64_mod: "length (b64_text bs) mod 4 \<noteq> 1"
proof -
  have "(n + (n + 2) div 3) mod 4 \<noteq> 1" for n :: nat by presburger
  then show ?thesis by (simp add: b64_text_def length_btoa_sextets)
qed

lemma b64_text_Nil: "b64_text bs = [] \<longleftrightarrow> bs = []"
  using length_btoa_sextets [of "map unat bs"] by (auto simp: b64_text_def)

lemma encode_ascii: "ascii (encodeBase64Url bs)"
  using b64_chars by (auto simp: encodeBase64Url_eq ascii_def list_all_iff)

lemma decode_encodeBase64Url:
  assumes "bs \<noteq> []"
  shows "decodeBase64Url (encodeBase64Url bs) = Inr bs"
proof -
  let ?t = "b64_text bs"
  have u: "map of_url (map to_url ?t) = ?t"
    using b64_chars by (auto intro: map_idI)
  have len: "u16_length (encodeBase64Url bs) = length ?t"
    using u16_length_ascii [OF encode_ascii] by (simp add: encodeBase64Url_eq)
  have "61 \<notin> set ?t" using b64_chars by blast
  moreover have "filter (\<lambda>c. \<not> atob_space c) (?t @ replicate k 61) = ?t @ replicate k 61" for k
    using b64_chars by (auto simp: filter_id_conv atob_space_def)
  ultimately have "atob (?t @ replicate ((4 - length ?t mod 4) mod 4) 61) =
      map_option (\<lambda>vs. map of_nat (atob_bytes vs)) (sextets ?t)"
    using strip_padding_pad [of ?t] length_b64_mod [of bs] assms by (simp add: atob_def b64_text_Nil)
  also have "\<dots> = Some (map of_nat (map unat bs))"
    using b64_bound [of bs] unsigned_less [where ?'b = 8 and ?'a = nat]
    by (simp add: b64_text_def sextets_map_sextet atob_btoa_sextets list_all_iff)
  also have "map of_nat (map unat bs) = bs" by (simp add: map_idI)
  finally have a: "atob (map of_url (encodeBase64Url bs) @ replicate ((4 - length ?t mod 4) mod 4) 61) = Some bs"
    using u by (simp add: encodeBase64Url_eq)
  have "list_all url_char (encodeBase64Url bs)" "encodeBase64Url bs \<noteq> []"
    using b64_chars assms by (auto simp: encodeBase64Url_eq list_all_iff b64_text_Nil)
  with a len show ?thesis by (simp add: decodeBase64Url_def)
qed

lemma generateListenerSecret_32:
  assumes "length bs = SIGNAL_LISTENER_SECRET_BYTES"
  shows "generateListenerSecret bs = Inr (encodeBase64Url bs) \<and> length (encodeBase64Url bs) = 43"
proof -
  have "length (encodeBase64Url bs) = 43"
    using assms by (simp add: encodeBase64Url_eq b64_text_def length_btoa_sextets SIGNAL_LISTENER_SECRET_BYTES_def)
  then show ?thesis
    using u16_length_ascii [OF encode_ascii]
    by (simp add: generateListenerSecret_def SIGNAL_LISTENER_SECRET_LENGTH_def)
qed

interpretation secret_codec: codec encodeBase64Url "\<lambda>s. case decodeBase64Url s of Inr bs \<Rightarrow> Some bs | Inl _ \<Rightarrow> None"
    "\<lambda>bs. bs \<noteq> []"
  by unfold_locales (simp add: decode_encodeBase64Url)

section \<open>Digests\<close>

lemma foldl_or_zero:
  fixes f :: "nat \<Rightarrow> byte"
  shows "foldl (\<lambda>d i. d OR f i) d is = 0 \<longleftrightarrow> d = 0 \<and> (\<forall>i \<in> set is. f i = 0)"
proof (induction "is" arbitrary: d)
  case (Cons i "is")
  have "d OR f i = 0 \<longleftrightarrow> d = 0 \<and> f i = 0" by (simp add: or_eq_0_iff)
  with Cons show ?case by auto
qed simp

lemma xor_zero: "(a :: byte) XOR b = 0 \<longleftrightarrow> a = b"
proof
  assume "a XOR b = 0"
  then have "(a XOR b) XOR b = b" by simp
  then show "a = b" by (simp add: xor.assoc)
qed simp

lemma constantTimeDigestEqual_iff: "constantTimeDigestEqual l r \<longleftrightarrow> l = r"
  unfolding constantTimeDigestEqual_def foldl_or_zero
  by (auto simp: xor_zero intro: nth_equalityI)

lemma hex_digit_lower: "d < 16 \<Longrightarrow> lower_hex (hex_digit d)"
  by (auto simp: lower_hex_def hex_digit_def is_digit_def)

lemma hex_pair_value:
  "radix_value 16 0 [hex_digit (unat (b :: byte) div 16), hex_digit (unat b mod 16)] = Some (unat b)"
proof -
  have "unat b div 16 < 16" using unsigned_less [of b, where ?'a = nat] by auto
  moreover have "digit_in 16 (hex_digit d) = Some d" if "d < 16" for d
    using that by (auto simp: digit_in_def hex_digit_def is_digit_def ascii_lower_def)
  ultimately show ?thesis by simp
qed

lemma hexToBytes_bytesToHex:
  assumes "length bs = 32"
  shows "hexToBytes (bytesToHex bs) = Some bs"
proof -
  have len: "length (bytesToHex xs) = 2 * length xs" for xs
    by (induction xs) (simp_all add: bytesToHex_def)
  have low: "list_all lower_hex (bytesToHex xs)" for xs
  proof -
    have "unat (b :: byte) div 16 < 16" for b using unsigned_less [of b, where ?'a = nat] by auto
    then show ?thesis by (induction xs) (simp_all add: bytesToHex_def hex_digit_lower)
  qed
  have "hex_pairs (bytesToHex xs) = xs" for xs
    by (induction xs) (simp_all add: bytesToHex_def hex_pair_value del: radix_value.simps)
  with len low assms show ?thesis by (simp add: hexToBytes_def)
qed

lemma verify_hash:
  assumes "length (hashListenerSecret sha256 secret) = 32"
  shows "verifyListenerSecret sha256 s (hashListenerSecretHex sha256 secret)
    \<longleftrightarrow> hashListenerSecret sha256 s = hashListenerSecret sha256 secret"
  using assms
  by (simp add: verifyListenerSecret_def hashListenerSecretHex_def hexToBytes_bytesToHex constantTimeDigestEqual_iff)

section \<open>Property\<close>

text \<open>
  A listener secret made from 32 random bytes is accepted by its own generator's length
  check, has 43 characters, carries the 32 bytes (they decode from it, so different draws
  give different secrets), and the stored hexadecimal digest accepts exactly the secrets
  with the same SHA-256 digest, in particular the one it was made from.  Of SHA-256 only
  the digest length is assumed.
\<close>

theorem listener_secret_correct:
  assumes "length raw = SIGNAL_LISTENER_SECRET_BYTES" and "\<And>m. length (sha256 m) = 32"
  shows "\<exists>secret. generateListenerSecret raw = Inr secret \<and> length secret = SIGNAL_LISTENER_SECRET_LENGTH
    \<and> decodeBase64Url secret = Inr raw
    \<and> verifyListenerSecret sha256 secret (hashListenerSecretHex sha256 secret)
    \<and> (\<forall>s. verifyListenerSecret sha256 s (hashListenerSecretHex sha256 secret)
          \<longleftrightarrow> sha256 (utf8_encode s) = sha256 (utf8_encode secret))"
proof -
  have "raw \<noteq> []" using assms(1) by (auto simp: SIGNAL_LISTENER_SECRET_BYTES_def)
  with generateListenerSecret_32 [OF assms(1)] decode_encodeBase64Url [of raw]
    verify_hash [of sha256 "encodeBase64Url raw"] assms(2)
  show ?thesis by (simp add: hashListenerSecret_def SIGNAL_LISTENER_SECRET_LENGTH_def)
qed

theorem listener_secret_correct_witness:
  "\<exists>secret. generateListenerSecret (replicate 32 7) = Inr secret \<and> length secret = 43
    \<and> decodeBase64Url secret = Inr (replicate 32 7)
    \<and> verifyListenerSecret (\<lambda>m. take 32 (m @ replicate 32 0)) secret
        (hashListenerSecretHex (\<lambda>m. take 32 (m @ replicate 32 0)) secret)"
proof -
  have "length (replicate 32 (7 :: byte)) = SIGNAL_LISTENER_SECRET_BYTES" by (simp add: SIGNAL_LISTENER_SECRET_BYTES_def)
  moreover have "length (take 32 (m @ replicate 32 0)) = 32" for m :: "byte list" by simp
  ultimately show ?thesis
    using listener_secret_correct [of "replicate 32 7" "\<lambda>m. take 32 (m @ replicate 32 0)"]
    unfolding SIGNAL_LISTENER_SECRET_LENGTH_def by blast
qed

end
