(* ===== verification/SignalProtocol.thy ===== *)
theory SignalProtocol
  imports JsonText Secret
begin

text \<open>
  \<open>apps/rendez-key/src/signal/protocol.ts\<close>: the messages of the signaling channel, their
  schemas (strict objects: every field present, no other field), the parser of client
  frames and the serializer of server messages.  A message is a value of a datatype with
  one constructor per schema; \<open>client_of_json\<close> is \<open>clientSignalMessageSchema.safeParse\<close>.
\<close>

datatype signal_error =
  invalid_message | room_not_found | room_expired | room_full
| unauthorized_listener | unexpected_message | resource_limit | internal_error

fun error_text :: "signal_error \<Rightarrow> js_string" where
  "error_text invalid_message = js ''invalid_message''"
| "error_text room_not_found = js ''room_not_found''"
| "error_text room_expired = js ''room_expired''"
| "error_text room_full = js ''room_full''"
| "error_text unauthorized_listener = js ''unauthorized_listener''"
| "error_text unexpected_message = js ''unexpected_message''"
| "error_text resource_limit = js ''resource_limit''"
| "error_text internal_error = js ''internal_error''"

datatype SignalRole = Listener | Joiner

fun role_text :: "SignalRole \<Rightarrow> js_string" where
  "role_text Listener = js ''listener''"
| "role_text Joiner = js ''joiner''"

datatype sdp_type = Offer | Answer

fun sdp_type_text :: "sdp_type \<Rightarrow> js_string" where
  "sdp_type_text Offer = js ''offer''"
| "sdp_type_text Answer = js ''answer''"

record candidate =
  cand :: js_string
  sdp_mid :: "js_string option"
  sdp_mline_index :: "int option"
  username_fragment :: "js_string option"

text \<open>The messages both sides exchange through the room, and the two message types.\<close>

datatype relay_message = Description sdp_type js_string | Candidate candidate | EndOfCandidates

datatype ClientSignalMessage = BindListener js_string | BindJoiner | Relay relay_message | Leave

datatype ServerSignalMessage =
  Bound SignalRole int
| PeerReady
| Relayed relay_message
| PeerLeft
| ErrorMsg signal_error js_string

section \<open>Field checks\<close>

definition encodedBytes :: "js_string \<Rightarrow> nat" where
  "encodedBytes s = utf8_length s"

definition validListenerSecret :: "js_string \<Rightarrow> bool" where
  "validListenerSecret v =
     (if u16_length v \<noteq> SIGNAL_LISTENER_SECRET_LENGTH \<or> v = [] \<or> \<not> list_all url_char v then False
      else (case atob (map of_url v @ [61]) of
              None \<Rightarrow> False
            | Some bs \<Rightarrow> length bs = SIGNAL_LISTENER_SECRET_BYTES))"

definition sdp_ok :: "js_string \<Rightarrow> bool" where
  "sdp_ok s \<longleftrightarrow> 1 \<le> u16_length s \<and> encodedBytes s \<le> MAX_SIGNAL_SDP_BYTES"

definition cand_ok :: "js_string \<Rightarrow> bool" where
  "cand_ok s \<longleftrightarrow> 1 \<le> u16_length s \<and> encodedBytes s \<le> MAX_SIGNAL_CANDIDATE_BYTES"

definition short_ok :: "js_string \<Rightarrow> bool" where
  "short_ok s \<longleftrightarrow> u16_length s \<le> 256"

text \<open>\<open>z.strictObject\<close>: exactly these keys; \<open>v: z.literal(1)\<close> and \<open>type: z.literal(t)\<close>.\<close>

definition strict_object :: "string list \<Rightarrow> json \<Rightarrow> bool" where
  "strict_object ks j = (case j of JObj fs \<Rightarrow> set (map fst fs) = set (map js ks) | _ \<Rightarrow> False)"

definition has_literal :: "string \<Rightarrow> js_string \<Rightarrow> json \<Rightarrow> bool" where
  "has_literal k t j \<longleftrightarrow> json_field k j = Some (JStr t)"

definition versioned :: "string list \<Rightarrow> string \<Rightarrow> json \<Rightarrow> bool" where
  "versioned ks t j \<longleftrightarrow> strict_object (''v'' # ''type'' # ks) j
     \<and> json_field ''v'' j = Some (JNum (of_int SIGNAL_PROTOCOL_VERSION)) \<and> has_literal ''type'' (js t) j"

definition string_field :: "string \<Rightarrow> (js_string \<Rightarrow> bool) \<Rightarrow> json \<Rightarrow> js_string option" where
  "string_field k P j = (case json_field k j of Some (JStr s) \<Rightarrow> if P s then Some s else None | _ \<Rightarrow> None)"

definition nullable_string :: "string \<Rightarrow> json \<Rightarrow> js_string option option" where
  "nullable_string k j = (case json_field k j of
     Some JNull \<Rightarrow> Some None
   | Some (JStr s) \<Rightarrow> if short_ok s then Some (Some s) else None
   | _ \<Rightarrow> None)"

text \<open>\<open>z.number().int().min(lo).max(hi)\<close>.\<close>

definition int_in :: "int \<Rightarrow> int \<Rightarrow> rat \<Rightarrow> int option" where
  "int_in lo hi r = (if of_int \<lfloor>r\<rfloor> = r \<and> lo \<le> \<lfloor>r\<rfloor> \<and> \<lfloor>r\<rfloor> \<le> hi then Some \<lfloor>r\<rfloor> else None)"

definition nullable_index :: "string \<Rightarrow> json \<Rightarrow> int option option" where
  "nullable_index k j = (case json_field k j of
     Some JNull \<Rightarrow> Some None
   | Some (JNum r) \<Rightarrow> map_option Some (int_in 0 65535 r)
   | _ \<Rightarrow> None)"

section \<open>Schemas\<close>

definition listenerBindSchema :: "json \<Rightarrow> ClientSignalMessage option" where
  "listenerBindSchema j =
     (if versioned [''role'', ''secret''] ''bind'' j \<and> has_literal ''role'' (js ''listener'') j
      then map_option BindListener (string_field ''secret'' validListenerSecret j) else None)"

definition joinerBindSchema :: "json \<Rightarrow> ClientSignalMessage option" where
  "joinerBindSchema j =
     (if versioned [''role''] ''bind'' j \<and> has_literal ''role'' (js ''joiner'') j then Some BindJoiner else None)"

definition descriptionMessageSchema :: "json \<Rightarrow> relay_message option" where
  "descriptionMessageSchema j =
     (if versioned [''sdp_type'', ''sdp''] ''description'' j
      then (if has_literal ''sdp_type'' (js ''offer'') j
            then map_option (Description Offer) (string_field ''sdp'' sdp_ok j)
            else if has_literal ''sdp_type'' (js ''answer'') j
            then map_option (Description Answer) (string_field ''sdp'' sdp_ok j) else None)
      else None)"

definition candidateMessageSchema :: "json \<Rightarrow> relay_message option" where
  "candidateMessageSchema j =
     (if versioned [''candidate'', ''sdp_mid'', ''sdp_mline_index'', ''username_fragment''] ''candidate'' j
      then Option.bind (string_field ''candidate'' cand_ok j) (\<lambda>c.
           Option.bind (nullable_string ''sdp_mid'' j) (\<lambda>m.
           Option.bind (nullable_index ''sdp_mline_index'' j) (\<lambda>i.
           map_option (\<lambda>u. Candidate \<lparr>cand = c, sdp_mid = m, sdp_mline_index = i, username_fragment = u\<rparr>)
             (nullable_string ''username_fragment'' j))))
      else None)"

text \<open>\<open>z.union\<close>: the first schema that accepts.\<close>

fun first_some :: "('a \<Rightarrow> 'b option) list \<Rightarrow> 'a \<Rightarrow> 'b option" where
  "first_some [] x = None"
| "first_some (f # fs) x = (case f x of Some y \<Rightarrow> Some y | None \<Rightarrow> first_some fs x)"

definition clientSignalMessageSchema :: "json \<Rightarrow> ClientSignalMessage option" where
  "clientSignalMessageSchema = first_some
     [listenerBindSchema, joinerBindSchema,
      \<lambda>j. map_option Relay (descriptionMessageSchema j),
      \<lambda>j. map_option Relay (candidateMessageSchema j),
      \<lambda>j. if versioned [] ''end_of_candidates'' j then Some (Relay EndOfCandidates) else None,
      \<lambda>j. if versioned [] ''leave'' j then Some Leave else None]"

definition parseClientSignalMessage :: "json \<Rightarrow> signal_error + ClientSignalMessage" where
  "parseClientSignalMessage j = (case clientSignalMessageSchema j of
     None \<Rightarrow> Inl invalid_message
   | Some m \<Rightarrow> Inr m)"

text \<open>A frame of the WebSocket is text or binary.\<close>

datatype ws_frame = TextFrame js_string | BinaryFrame "byte list"

definition parseSignalFrame :: "ws_frame \<Rightarrow> signal_error + ClientSignalMessage" where
  "parseSignalFrame frame = (case frame of
     BinaryFrame _ \<Rightarrow> Inl invalid_message
   | TextFrame s \<Rightarrow>
       if MAX_SIGNAL_FRAME_BYTES < encodedBytes s then Inl resource_limit
       else (case JSON_parse s of
               None \<Rightarrow> Inl invalid_message
             | Some j \<Rightarrow> parseClientSignalMessage j))"

section \<open>Printing\<close>

definition nullable_json :: "('a \<Rightarrow> json) \<Rightarrow> 'a option \<Rightarrow> json" where
  "nullable_json f x = (case x of None \<Rightarrow> JNull | Some y \<Rightarrow> f y)"

definition typed :: "string \<Rightarrow> (string \<times> json) list \<Rightarrow> json" where
  "typed t fs = JObj (map (\<lambda>(k, v). (js k, v))
     ((''v'', JNum (of_int SIGNAL_PROTOCOL_VERSION)) # (''type'', JStr (js t)) # fs))"

fun relay_json :: "relay_message \<Rightarrow> json" where
  "relay_json (Description t s) =
     typed ''description'' [(''sdp_type'', JStr (sdp_type_text t)), (''sdp'', JStr s)]"
| "relay_json (Candidate c) =
     typed ''candidate'' [(''candidate'', JStr (cand c)), (''sdp_mid'', nullable_json JStr (sdp_mid c)),
       (''sdp_mline_index'', nullable_json (\<lambda>i. JNum (of_int i)) (sdp_mline_index c)),
       (''username_fragment'', nullable_json JStr (username_fragment c))]"
| "relay_json EndOfCandidates = typed ''end_of_candidates'' []"

fun server_json :: "ServerSignalMessage \<Rightarrow> json" where
  "server_json (Bound r n) =
     typed ''bound'' [(''role'', JStr (role_text r)), (''expires_in_seconds'', JNum (of_int n))]"
| "server_json PeerReady = typed ''peer_ready'' []"
| "server_json (Relayed m) = relay_json m"
| "server_json PeerLeft = typed ''peer_left'' []"
| "server_json (ErrorMsg c t) = typed ''error'' [(''code'', JStr (error_text c)), (''message'', JStr t)]"

text \<open>What a client sends (the text its own code builds).\<close>

fun client_json :: "ClientSignalMessage \<Rightarrow> json" where
  "client_json (BindListener s) = typed ''bind'' [(''role'', JStr (js ''listener'')), (''secret'', JStr s)]"
| "client_json BindJoiner = typed ''bind'' [(''role'', JStr (js ''joiner''))]"
| "client_json (Relay m) = relay_json m"
| "client_json Leave = typed ''leave'' []"

text \<open>
  \<open>serverSignalMessageSchema.parse\<close> on a value the room built: the types fix the shape, the
  refinements are checked.  \<open>None\<close> is a thrown \<open>ZodError\<close>.
\<close>

fun relay_ok :: "relay_message \<Rightarrow> bool" where
  "relay_ok (Description t s) = sdp_ok s"
| "relay_ok (Candidate c) = (cand_ok (cand c)
     \<and> (case sdp_mid c of None \<Rightarrow> True | Some s \<Rightarrow> short_ok s)
     \<and> (case sdp_mline_index c of None \<Rightarrow> True | Some i \<Rightarrow> 0 \<le> i \<and> i \<le> 65535)
     \<and> (case username_fragment c of None \<Rightarrow> True | Some s \<Rightarrow> short_ok s))"
| "relay_ok EndOfCandidates = True"

fun serverSignalMessageSchema :: "ServerSignalMessage \<Rightarrow> bool" where
  "serverSignalMessageSchema (Bound r n) = (0 \<le> n \<and> n \<le> 3600)"
| "serverSignalMessageSchema (Relayed m) = relay_ok m"
| "serverSignalMessageSchema (ErrorMsg c t) = (1 \<le> u16_length t \<and> u16_length t \<le> 256)"
| "serverSignalMessageSchema _ = True"

definition serializeSignalMessage :: "ServerSignalMessage \<Rightarrow> js_string option" where
  "serializeSignalMessage m =
     (if serverSignalMessageSchema m then Some (JSON_stringify int_num (server_json m)) else None)"

section \<open>Lemmas\<close>

declare js_inject [simp]

text \<open>Each schema reads back the value printed for its message, and none of another type.\<close>

lemma json_field_typed:
  "json_field k (typed t fs) = (if k = ''v'' then Some (JNum (of_int SIGNAL_PROTOCOL_VERSION))
     else if k = ''type'' then Some (JStr (js t)) else map_of fs k)"
proof -
  have "map_of (map (\<lambda>(k, v). (js k, v)) gs) (js k) = map_of gs k" for gs :: "(string \<times> json) list"
    by (induction gs) auto
  then show ?thesis by (simp add: typed_def del: js_simps)
qed

lemma strict_object_typed:
  "map fst fs = ks \<Longrightarrow> strict_object (''v'' # ''type'' # ks) (typed t fs)"
proof -
  have "map fst (map (\<lambda>(k, v). (js k, v)) gs) = map js (map fst gs)" for gs :: "(string \<times> json) list"
    by (induction gs) auto
  then show "map fst fs = ks \<Longrightarrow> ?thesis" by (simp only: strict_object_def typed_def json.case list.map fst_conv prod.case)
qed

lemma versioned_typed [simp]: "map fst fs = ks \<Longrightarrow> \<forall>k \<in> set ks. k \<noteq> ''v'' \<and> k \<noteq> ''type'' \<Longrightarrow>
    versioned ks t' (typed t fs) \<longleftrightarrow> t = t'"
  by (auto simp: versioned_def has_literal_def json_field_typed strict_object_typed simp del: js_simps)

lemma versioned_type: "t \<noteq> t' \<Longrightarrow> \<not> versioned ks t' (typed t fs)"
  by (simp add: versioned_def has_literal_def json_field_typed del: js_simps)

lemma int_in_of_int [simp]: "int_in lo hi (of_int i) = (if lo \<le> i \<and> i \<le> hi then Some i else None)"
  by (simp add: int_in_def)

lemma descriptionMessageSchema_json:
  "relay_ok (Description t s) \<Longrightarrow> descriptionMessageSchema (relay_json (Description t s)) = Some (Description t s)"
  by (cases t) (simp_all add: descriptionMessageSchema_def has_literal_def string_field_def json_field_typed
      del: js_simps)

lemma candidateMessageSchema_json:
  assumes "relay_ok (Candidate c)"
  shows "candidateMessageSchema (relay_json (Candidate c)) = Some (Candidate c)"
proof -
  let ?j = "relay_json (Candidate c)"
  have v: "versioned [''candidate'', ''sdp_mid'', ''sdp_mline_index'', ''username_fragment''] ''candidate'' ?j"
    by simp
  have "string_field ''candidate'' cand_ok ?j = Some (cand c)"
    using assms by (simp add: string_field_def json_field_typed del: js_simps)
  moreover have "nullable_string ''sdp_mid'' ?j = Some (sdp_mid c)"
    using assms by (auto simp: nullable_string_def nullable_json_def json_field_typed simp del: js_simps split: option.splits)
  moreover have "nullable_index ''sdp_mline_index'' ?j = Some (sdp_mline_index c)"
    using assms by (auto simp: nullable_index_def nullable_json_def json_field_typed simp del: js_simps split: option.splits)
  moreover have "nullable_string ''username_fragment'' ?j = Some (username_fragment c)"
    using assms by (auto simp: nullable_string_def nullable_json_def json_field_typed simp del: js_simps split: option.splits)
  ultimately show ?thesis using v by (simp add: candidateMessageSchema_def del: relay_json.simps)
qed

text \<open>The messages a client may build.\<close>

fun client_ok :: "ClientSignalMessage \<Rightarrow> bool" where
  "client_ok (BindListener s) = validListenerSecret s"
| "client_ok (Relay m) = relay_ok m"
| "client_ok _ = True"

lemma not_description:
  "t \<noteq> ''description'' \<Longrightarrow> descriptionMessageSchema (typed t fs) = None"
  "t \<noteq> ''candidate'' \<Longrightarrow> candidateMessageSchema (typed t fs) = None"
  "t \<noteq> ''bind'' \<Longrightarrow> listenerBindSchema (typed t fs) = None"
  "t \<noteq> ''bind'' \<Longrightarrow> joinerBindSchema (typed t fs) = None"
  by (simp_all add: descriptionMessageSchema_def candidateMessageSchema_def listenerBindSchema_def
      joinerBindSchema_def versioned_type)

lemma clientSignalMessageSchema_json:
  assumes "client_ok m"
  shows "clientSignalMessageSchema (client_json m) = Some m"
proof (cases m)
  case (BindListener s)
  with assms show ?thesis
    by (simp add: clientSignalMessageSchema_def listenerBindSchema_def has_literal_def string_field_def
        json_field_typed del: js_simps)
next
  case BindJoiner
  then show ?thesis
    by (simp add: clientSignalMessageSchema_def listenerBindSchema_def joinerBindSchema_def has_literal_def
        json_field_typed del: js_simps)
next
  case (Relay r)
  show ?thesis
  proof (cases r)
    case (Description t s)
    with Relay assms descriptionMessageSchema_json [of t s] show ?thesis
      by (simp add: clientSignalMessageSchema_def not_description del: js_simps)
  next
    case (Candidate c)
    with Relay assms candidateMessageSchema_json [of c] show ?thesis
      by (simp add: clientSignalMessageSchema_def not_description del: js_simps)
  next
    case EndOfCandidates
    with Relay show ?thesis
      by (simp add: clientSignalMessageSchema_def not_description del: js_simps)
  qed
next
  case Leave
  then show ?thesis
    by (simp add: clientSignalMessageSchema_def not_description versioned_type del: js_simps)
qed

text \<open>Every accepted message satisfies its refinements.\<close>

lemma descriptionMessageSchema_ok: "descriptionMessageSchema j = Some m \<Longrightarrow> relay_ok m"
  by (auto simp: descriptionMessageSchema_def string_field_def split: if_splits option.splits json.splits)

lemma candidateMessageSchema_ok: "candidateMessageSchema j = Some m \<Longrightarrow> relay_ok m"
  by (auto simp: candidateMessageSchema_def string_field_def nullable_string_def nullable_index_def int_in_def
      bind_eq_Some_conv split: if_splits option.splits json.splits)

lemma clientSignalMessageSchema_ok:
  assumes "clientSignalMessageSchema j = Some m"
  shows "client_ok m"
proof -
  from assms consider "listenerBindSchema j = Some m" | "joinerBindSchema j = Some m"
    | r where "descriptionMessageSchema j = Some r" "m = Relay r"
    | r where "candidateMessageSchema j = Some r" "m = Relay r"
    | "m = Relay EndOfCandidates" | "m = Leave"
    by (auto simp: clientSignalMessageSchema_def split: option.splits if_splits)
  then show ?thesis
    by cases (auto simp: listenerBindSchema_def joinerBindSchema_def string_field_def
        dest: descriptionMessageSchema_ok candidateMessageSchema_ok
        split: if_splits option.splits json.splits)
qed

lemma parseSignalFrame_ok: "parseSignalFrame f = Inr m \<Longrightarrow> client_ok m"
  by (auto simp: parseSignalFrame_def parseClientSignalMessage_def dest: clientSignalMessageSchema_ok
      split: ws_frame.splits if_splits option.splits)

text \<open>Text with scalar values only, as every string a JSON text carries.\<close>

fun scalar_relay :: "relay_message \<Rightarrow> bool" where
  "scalar_relay (Description t s) = list_all scalar_value s"
| "scalar_relay (Candidate c) = (list_all scalar_value (cand c)
     \<and> (case sdp_mid c of None \<Rightarrow> True | Some s \<Rightarrow> list_all scalar_value s)
     \<and> (case username_fragment c of None \<Rightarrow> True | Some s \<Rightarrow> list_all scalar_value s))"
| "scalar_relay EndOfCandidates = True"

fun scalar_client :: "ClientSignalMessage \<Rightarrow> bool" where
  "scalar_client (BindListener s) = list_all scalar_value s"
| "scalar_client (Relay m) = scalar_relay m"
| "scalar_client _ = True"

lemma json_ok_typed:
  assumes "distinct (''v'' # ''type'' # map fst fs)" "list_all (\<lambda>(k, v). json_ok int_num v) fs"
  shows "json_ok int_num (typed t fs)"
proof -
  have "num_ok int_num 1" using num_ok_int [of 1] by simp
  moreover have "map fst (map (\<lambda>(k, v). (js k, v)) gs) = map js (map fst gs)" for gs :: "(string \<times> json) list"
    by (induction gs) auto
  moreover have "distinct (map js xs) = distinct xs" for xs
    by (simp add: distinct_map inj_on_def)
  ultimately show ?thesis
    using assms js_scalar
    by (simp only: typed_def json_ok.simps) (auto simp: list_all_iff SIGNAL_PROTOCOL_VERSION_def simp del: js_simps)
qed

lemma num_ok_small: "0 \<le> i \<Longrightarrow> i \<le> 65535 \<Longrightarrow> num_ok int_num (of_int i)"
proof -
  assume "0 \<le> i" "i \<le> 65535"
  moreover have "(65535 :: int) < 2 ^ 1000" by simp
  ultimately have "\<bar>i\<bar> < 2 ^ 1000" by linarith
  then show ?thesis by (rule num_ok_int)
qed

lemma json_ok_relay: "relay_ok m \<Longrightarrow> scalar_relay m \<Longrightarrow> json_ok int_num (relay_json m)"
proof (induction m)
  case (Description t s)
  then show ?case
    by (cases t) (auto intro!: json_ok_typed simp: js_scalar simp del: js_simps)
next
  case (Candidate c)
  then show ?case
    by (auto intro!: json_ok_typed num_ok_small simp: nullable_json_def simp del: js_simps split: option.splits)
next
  case EndOfCandidates
  then show ?case by (auto intro!: json_ok_typed)
qed

lemma json_ok_client: "client_ok m \<Longrightarrow> scalar_client m \<Longrightarrow> json_ok int_num (client_json m)"
  by (cases m) (auto intro!: json_ok_typed simp: js_scalar json_ok_relay simp del: js_simps)

text \<open>The schema of the bind message accepts every secret the service generates.\<close>

lemma validListenerSecret_generated:
  assumes "length raw = SIGNAL_LISTENER_SECRET_BYTES" and "generateListenerSecret raw = Inr s"
  shows "validListenerSecret s \<and> list_all scalar_value s"
proof -
  have raw: "raw \<noteq> []" using assms(1) by (auto simp: SIGNAL_LISTENER_SECRET_BYTES_def)
  have s: "s = encodeBase64Url raw" "length s = 43" "ascii s"
    using generateListenerSecret_32 [OF assms(1)] assms(2) encode_ascii by auto
  have "decodeBase64Url s = Inr raw" using decode_encodeBase64Url [OF raw] s(1) by simp
  then have "s \<noteq> []" "list_all url_char s" "atob (map of_url s @ [61]) = Some raw"
    using s u16_length_ascii [OF s(3)] by (auto simp: decodeBase64Url_def split: if_splits option.splits)
  then show ?thesis
    using assms(1) s u16_length_ascii [OF s(3)]
    by (auto simp: validListenerSecret_def SIGNAL_LISTENER_SECRET_LENGTH_def ascii_def list_all_iff scalar_ascii)
qed

lemma parse_client_text:
  assumes "client_ok m" "scalar_client m"
    and "encodedBytes (JSON_stringify int_num (client_json m)) \<le> MAX_SIGNAL_FRAME_BYTES"
  shows "parseSignalFrame (TextFrame (JSON_stringify int_num (client_json m))) = Inr m"
  using assms
  by (simp add: parseSignalFrame_def parseClientSignalMessage_def JSON_roundtrip json_ok_client
      clientSignalMessageSchema_json)

section \<open>Properties\<close>

text \<open>
  A client message that satisfies its schema and whose text fits a frame is read from
  its JSON text exactly, whatever its type; and everything the parser accepts satisfies
  the schema of its type, so that the room can serialize it again without an error.
\<close>

theorem signal_message_roundtrip:
  assumes "client_ok m" and "scalar_client m"
    and "encodedBytes (JSON_stringify int_num (client_json m)) \<le> MAX_SIGNAL_FRAME_BYTES"
  shows "parseSignalFrame (TextFrame (JSON_stringify int_num (client_json m))) = Inr m
    \<and> (\<forall>f r. parseSignalFrame f = Inr (Relay r) \<longrightarrow>
          serializeSignalMessage (Relayed r) = Some (JSON_stringify int_num (client_json (Relay r))))"
  using parse_client_text [OF assms] parseSignalFrame_ok by (fastforce simp: serializeSignalMessage_def)

theorem signal_message_roundtrip_witness:
  "parseSignalFrame (TextFrame (JSON_stringify int_num (client_json (Relay (Description Offer (js ''v=0'')))))) =
     Inr (Relay (Description Offer (js ''v=0'')))"
proof -
  let ?m = "Relay (Description Offer (js ''v=0''))"
  let ?t = "''{\"v\":1,\"type\":\"description\",\"sdp_type\":\"offer\",\"sdp\":\"v=0\"}''"
  have "JSON_stringify int_num (client_json ?m) = js ?t"
    by (simp add: typed_def quote_string_def quote_char_def int_num_def int_digits_def nat_digits.simps
        SIGNAL_PROTOCOL_VERSION_def)
  moreover have "ascii (js ?t)" "ascii (js ''v=0'')" by (simp_all add: ascii_def)
  ultimately have "encodedBytes (JSON_stringify int_num (client_json ?m)) \<le> 65536"
    by (simp add: encodedBytes_def utf8_length_ascii del: js_simps)
  moreover have "sdp_ok (js ''v=0'')"
    using \<open>ascii (js ''v=0'')\<close>
    by (simp add: sdp_ok_def encodedBytes_def utf8_length_ascii u16_length_ascii MAX_SIGNAL_SDP_BYTES_def del: js_simps)
  ultimately show ?thesis
    using signal_message_roundtrip [of ?m]
    by (simp add: js_scalar MAX_SIGNAL_FRAME_BYTES_def del: js_simps client_json.simps)
qed

end
