(* ===== verification/SignalRoom.thy ===== *)
theory SignalRoom
  imports SignalProtocol
begin

text \<open>
  \<open>apps/rendez-key/src/signal/room.ts\<close>: the Durable Object that pairs a listener with a
  joiner and relays their WebRTC signaling.

  The state is the single row of the table \<open>signal_room\<close>, the attached WebSockets in the
  order \<open>getWebSockets\<close> lists them (ready state, attachment, the frames sent and the close
  requested on each), the alarm, and the listener binds whose digest is being computed:
  \<open>await verifyListenerSecret\<close> is the one suspension of a handler at which other events may
  run, so \<open>bindSocket\<close> is split there and \<open>pending\<close> holds what its continuation captured.
  The awaits on storage (alarm calls) keep other events out and are atomic here.

  A handler is a state transformer that may throw.  Events are the calls the runtime makes;
  it may take a connection out of the OPEN state at any time (\<open>Gone\<close>).  Of the runtime two
  functions are arguments: SHA-256 and which close codes \<open>WebSocket.close\<close> accepts.
\<close>

section \<open>State\<close>

datatype SignalRoomLifecycle = ListenerCreated | ListenerBound | Paired | Closed

record SignalRoomRow =
  row_version :: int
  lifecycle :: SignalRoomLifecycle
  created_at :: int
  expires_at :: int
  listener_secret_hash :: js_string
  listener_candidates :: nat
  joiner_candidates :: nat
  forwarded_bytes :: nat
  offer_seen :: nat
  answer_seen :: nat
  terminal_reason :: "js_string option"

record SignalSocketAttachment =
  a_version :: int
  sessionId :: js_string
  connectedAt :: int
  bound :: bool
  a_role :: "SignalRole option"

datatype ready_state = CONNECTING | OPEN | CLOSING | CLOSED

record socket =
  sid :: nat
  readyState :: ready_state
  ws_attachment :: "SignalSocketAttachment option"
  sent :: "js_string list"
  close_call :: "(nat \<times> js_string) option"

record pending_bind =
  pb_socket :: nat
  pb_attachment :: SignalSocketAttachment
  pb_secret :: js_string
  pb_row :: SignalRoomRow

record room =
  room_row :: "SignalRoomRow option"
  sockets :: "socket list"
  room_alarm :: "int option"
  pending :: "pending_bind list"
  next_sid :: nat

record runtime =
  rt_sha256 :: "byte list \<Rightarrow> byte list"
  rt_close_ok :: "nat \<Rightarrow> bool"

definition new_room :: room where
  "new_room = \<lparr>room_row = None, sockets = [], room_alarm = None, pending = [], next_sid = 0\<rparr>"

datatype exn = Protocol signal_error | ZodError

type_synonym handler = "room \<Rightarrow> exn option \<times> room"

definition ok :: handler where
  "ok r = (None, r)"

definition throw :: "exn \<Rightarrow> handler" where
  "throw e r = (Some e, r)"

definition seq :: "handler \<Rightarrow> handler \<Rightarrow> handler" where
  "seq m k r = (case m r of (None, r') \<Rightarrow> k r' | (Some e, r') \<Rightarrow> (Some e, r'))"

definition seqs :: "handler list \<Rightarrow> handler" where
  "seqs ms = foldr seq ms ok"

definition find_socket :: "nat \<Rightarrow> room \<Rightarrow> socket option" where
  "find_socket i r = List.find (\<lambda>s. sid s = i) (sockets r)"

definition upd_socket :: "nat \<Rightarrow> (socket \<Rightarrow> socket) \<Rightarrow> room \<Rightarrow> room" where
  "upd_socket i f r = r\<lparr>sockets := map (\<lambda>s. if sid s = i then f s else s) (sockets r)\<rparr>"

text \<open>\<open>UPDATE signal_room SET ... WHERE id = 1 AND lifecycle != 'closed'\<close>.\<close>

definition update_row :: "(SignalRoomRow \<Rightarrow> SignalRoomRow) \<Rightarrow> room \<Rightarrow> room" where
  "update_row f r = r\<lparr>room_row := map_option (\<lambda>w. if lifecycle w \<noteq> Closed then f w else w) (room_row r)\<rparr>"

definition room_open :: "room \<Rightarrow> bool" where
  "room_open r \<longleftrightarrow> (case room_row r of None \<Rightarrow> False | Some w \<Rightarrow> lifecycle w \<noteq> Closed)"

section \<open>Sending and closing\<close>

text \<open>\<open>String.prototype.slice(0, n)\<close> in UTF-16 code units.\<close>

fun u16_take :: "nat \<Rightarrow> js_string \<Rightarrow> js_string" where
  "u16_take 0 s = []"
| "u16_take (Suc n) [] = []"
| "u16_take (Suc n) (c # s) =
     (if c < 65536 then c # u16_take n s
      else (case n of 0 \<Rightarrow> [55296 + (c - 65536) div 1024] | Suc m \<Rightarrow> c # u16_take m s))"

definition attachment :: "socket \<Rightarrow> SignalSocketAttachment option" where
  "attachment ws = (case ws_attachment ws of
     None \<Rightarrow> None
   | Some a \<Rightarrow> if a_version a \<noteq> SIGNAL_PROTOCOL_VERSION then None else Some a)"

definition holds_role :: "SignalRole \<Rightarrow> socket \<Rightarrow> bool" where
  "holds_role role s \<longleftrightarrow> readyState s = OPEN
     \<and> (case attachment s of None \<Rightarrow> False | Some a \<Rightarrow> bound a \<and> a_role a = Some role)"

definition boundSocket :: "SignalRole \<Rightarrow> nat option \<Rightarrow> room \<Rightarrow> nat option" where
  "boundSocket role excluding r =
     map_option sid (List.find (\<lambda>s. Some (sid s) \<noteq> excluding \<and> holds_role role s) (sockets r))"

definition safeSendSerialized :: "nat \<Rightarrow> js_string \<Rightarrow> handler" where
  "safeSendSerialized i message r =
     ok (upd_socket i (\<lambda>s. if readyState s = OPEN then s\<lparr>sent := sent s @ [message]\<rparr> else s) r)"

definition safeSend :: "nat \<Rightarrow> ServerSignalMessage \<Rightarrow> handler" where
  "safeSend i m r = (case serializeSignalMessage m of
     None \<Rightarrow> throw ZodError r
   | Some t \<Rightarrow> safeSendSerialized i t r)"

definition close_socket :: "runtime \<Rightarrow> nat \<Rightarrow> js_string \<Rightarrow> socket \<Rightarrow> socket" where
  "close_socket rt code reason s =
     (if (readyState s = OPEN \<or> readyState s = CONNECTING) \<and> rt_close_ok rt code
      then s\<lparr>readyState := CLOSING, close_call := Some (code, u16_take 123 reason)\<rparr> else s)"

definition safeClose :: "runtime \<Rightarrow> nat \<Rightarrow> nat \<Rightarrow> js_string \<Rightarrow> handler" where
  "safeClose rt i code reason r = ok (upd_socket i (close_socket rt code reason) r)"

definition sendErrorAndClose :: "runtime \<Rightarrow> nat \<Rightarrow> signal_error \<Rightarrow> string \<Rightarrow> nat \<Rightarrow> handler" where
  "sendErrorAndClose rt i code message closeCode =
     seq (safeSend i (ErrorMsg code (js message))) (safeClose rt i closeCode (error_text code))"

definition closing_message :: "signal_error option \<Rightarrow> ServerSignalMessage" where
  "closing_message errorCode = (case errorCode of
     Some e \<Rightarrow> ErrorMsg e (js ''room expired'')
   | None \<Rightarrow> PeerLeft)"

definition closeRoom :: "runtime \<Rightarrow> string \<Rightarrow> nat option \<Rightarrow> signal_error option \<Rightarrow> nat \<Rightarrow> handler" where
  "closeRoom rt reason source errorCode closeCode r =
     (if \<not> room_open r then ok r
      else seqs (map (\<lambda>s. seq (if Some (sid s) \<noteq> source then safeSend (sid s) (closing_message errorCode) else ok)
                              (safeClose rt (sid s) closeCode (js reason)))
                     (sockets r))
             ((update_row (\<lambda>w. w\<lparr>lifecycle := Closed, terminal_reason := Some (js reason)\<rparr>) r)
                \<lparr>room_alarm := None\<rparr>))"

definition scheduleNextAlarm :: handler where
  "scheduleNextAlarm r = (case room_row r of
     None \<Rightarrow> ok (r\<lparr>room_alarm := None\<rparr>)
   | Some w \<Rightarrow>
       if lifecycle w = Closed then ok (r\<lparr>room_alarm := None\<rparr>)
       else ok (r\<lparr>room_alarm := Some (foldl (\<lambda>next s. case attachment s of
                None \<Rightarrow> next
              | Some a \<Rightarrow> if bound a then next else min next (connectedAt a + SIGNAL_BIND_DEADLINE_MS))
            (expires_at w) (sockets r))\<rparr>))"

section \<open>Creation and connection\<close>

record InitializeSignalRoomInput =
  in_version :: int
  in_hash :: js_string
  in_createdAt :: int
  in_expiresAt :: int

record InitializeSignalRoomResult =
  res_created :: bool
  res_matchesInput :: bool
  res_lifecycle :: SignalRoomLifecycle
  res_expiresAt :: int

definition safe_integer :: "int \<Rightarrow> bool" where
  "safe_integer i \<longleftrightarrow> \<bar>i\<bar> \<le> 2 ^ 53 - 1"

definition valid_initialization :: "InitializeSignalRoomInput \<Rightarrow> bool" where
  "valid_initialization i \<longleftrightarrow> in_version i = SIGNAL_PROTOCOL_VERSION \<and> safe_integer (in_createdAt i)
     \<and> safe_integer (in_expiresAt i) \<and> in_createdAt i < in_expiresAt i
     \<and> length (in_hash i) = 64 \<and> list_all lower_hex (in_hash i)"

text \<open>\<open>None\<close> is the thrown \<open>invalid_signal_room_initialization\<close>.\<close>

definition initialize :: "InitializeSignalRoomInput \<Rightarrow> room \<Rightarrow> InitializeSignalRoomResult option \<times> room" where
  "initialize i r =
     (if \<not> valid_initialization i then (None, r)
      else (case room_row r of
        Some w \<Rightarrow> (Some \<lparr>res_created = False, res_matchesInput = (listener_secret_hash w = in_hash i),
                     res_lifecycle = lifecycle w, res_expiresAt = expires_at w\<rparr>, r)
      | None \<Rightarrow> (Some \<lparr>res_created = True, res_matchesInput = True, res_lifecycle = ListenerCreated,
                     res_expiresAt = in_expiresAt i\<rparr>,
          r\<lparr>room_row := Some \<lparr>row_version = in_version i, lifecycle = ListenerCreated,
               created_at = in_createdAt i, expires_at = in_expiresAt i, listener_secret_hash = in_hash i,
               listener_candidates = 0, joiner_candidates = 0, forwarded_bytes = 0, offer_seen = 0,
               answer_seen = 0, terminal_reason = None\<rparr>,
            room_alarm := Some (in_expiresAt i)\<rparr>)))"

record room_snapshot =
  snap_initialized :: bool
  snap_lifecycle :: "SignalRoomLifecycle option"
  snap_expiresAt :: "int option"
  snap_listenerSecretHash :: "js_string option"
  snap_terminalReason :: "js_string option"

definition snapshot :: "room \<Rightarrow> room_snapshot" where
  "snapshot r = (case room_row r of
     None \<Rightarrow> \<lparr>snap_initialized = False, snap_lifecycle = None, snap_expiresAt = None,
       snap_listenerSecretHash = None, snap_terminalReason = None\<rparr>
   | Some w \<Rightarrow> \<lparr>snap_initialized = True, snap_lifecycle = Some (lifecycle w), snap_expiresAt = Some (expires_at w),
       snap_listenerSecretHash = Some (js ''[redacted]''), snap_terminalReason = terminal_reason w\<rparr>)"

datatype fetch_response = SignalResponse nat signal_error | Upgraded nat

definition accept_socket :: "int \<Rightarrow> js_string \<Rightarrow> room \<Rightarrow> room" where
  "accept_socket now uuid r = r\<lparr>sockets := sockets r @
     [\<lparr>sid = next_sid r, readyState = OPEN,
       ws_attachment = Some \<lparr>a_version = SIGNAL_PROTOCOL_VERSION, sessionId = uuid, connectedAt = now,
         bound = False, a_role = None\<rparr>,
       sent = [], close_call = None\<rparr>],
     next_sid := Suc (next_sid r)\<rparr>"

text \<open>\<open>is_get\<close>: the method is GET; \<open>upgrade\<close>: the Upgrade header, lower-cased by the code.\<close>

definition fetch :: "runtime \<Rightarrow> int \<Rightarrow> js_string \<Rightarrow> bool \<Rightarrow> js_string option \<Rightarrow> room \<Rightarrow> fetch_response \<times> room" where
  "fetch rt now uuid is_get upgrade r = (case room_row r of
     None \<Rightarrow> (SignalResponse 404 room_not_found, r)
   | Some w \<Rightarrow>
       if lifecycle w = Closed then (SignalResponse 404 room_not_found, r)
       else if expires_at w \<le> now
         then (SignalResponse 404 room_expired, snd (closeRoom rt ''expired'' None (Some room_expired) 1001 r))
       else if \<not> is_get \<or> map_option (map ascii_lower) upgrade \<noteq> Some (js ''websocket'')
         then (SignalResponse 426 invalid_message, r)
       else if 4 \<le> length (sockets r) then (SignalResponse 429 room_full, r)
       else (Upgraded (next_sid r), snd (scheduleNextAlarm (accept_socket now uuid r))))"

section \<open>Binding\<close>

text \<open>\<open>Math.max(0, Math.ceil((expires_at - now) / 1000))\<close>.\<close>

definition expires_in :: "int \<Rightarrow> int \<Rightarrow> int" where
  "expires_in expires now = max 0 (- ((now - expires) div 1000))"

text \<open>The replies to a successful bind.\<close>

definition announce_bind :: "nat \<Rightarrow> nat option \<Rightarrow> nat option \<Rightarrow> SignalRole \<Rightarrow> int \<Rightarrow> handler" where
  "announce_bind i listener joiner role n =
     seq (safeSend i (Bound role n))
       (seq (case (listener, joiner) of
               (Some l, Some j) \<Rightarrow> seq (safeSend l PeerReady) (safeSend j PeerReady)
             | _ \<Rightarrow> ok)
         scheduleNextAlarm)"

text \<open>The part of \<open>bindSocket\<close> after the digest was compared, which runs without a suspension.\<close>

definition bind_role :: "runtime \<Rightarrow> int \<Rightarrow> nat \<Rightarrow> SignalSocketAttachment \<Rightarrow> SignalRole \<Rightarrow> SignalRoomRow \<Rightarrow> handler" where
  "bind_role rt now i a role w r =
     (if boundSocket role (Some i) r \<noteq> None
      then sendErrorAndClose rt i room_full ''role is already occupied'' SIGNAL_POLICY_CLOSE_CODE r
      else
        (let r1 = upd_socket i (\<lambda>s. s\<lparr>ws_attachment := Some (a\<lparr>bound := True, a_role := Some role\<rparr>)\<rparr>) r;
             listener = (if role = Listener then Some i else boundSocket Listener None r1);
             joiner = (if role = Joiner then Some i else boundSocket Joiner None r1);
             r2 = update_row (\<lambda>v. v\<lparr>lifecycle :=
                    (if listener \<noteq> None \<and> joiner \<noteq> None then Paired
                     else if listener \<noteq> None then ListenerBound else ListenerCreated)\<rparr>) r1
         in announce_bind i listener joiner role (expires_in (expires_at w) now) r2))"

definition bindSocket :: "runtime \<Rightarrow> int \<Rightarrow> nat \<Rightarrow> SignalSocketAttachment \<Rightarrow> ClientSignalMessage \<Rightarrow> SignalRoomRow \<Rightarrow> handler" where
  "bindSocket rt now i a message w r =
     (let refuse = sendErrorAndClose rt i unexpected_message ''first message must bind the socket'' SIGNAL_POLICY_CLOSE_CODE r
      in if connectedAt a + SIGNAL_BIND_DEADLINE_MS < now then refuse
         else (case message of
           BindListener secret \<Rightarrow>
             ok (r\<lparr>pending := pending r @ [\<lparr>pb_socket = i, pb_attachment = a, pb_secret = secret, pb_row = w\<rparr>]\<rparr>)
         | BindJoiner \<Rightarrow> bind_role rt now i a Joiner w r
         | _ \<Rightarrow> refuse))"

text \<open>The continuation of a listener bind once the digest is known.\<close>

definition bind_verified :: "runtime \<Rightarrow> int \<Rightarrow> pending_bind \<Rightarrow> handler" where
  "bind_verified rt now p =
     (if \<not> verifyListenerSecret (rt_sha256 rt) (pb_secret p) (listener_secret_hash (pb_row p))
      then sendErrorAndClose rt (pb_socket p) unauthorized_listener ''listener authentication failed'' SIGNAL_POLICY_CLOSE_CODE
      else bind_role rt now (pb_socket p) (pb_attachment p) Listener (pb_row p))"

section \<open>Relaying\<close>

fun other_role :: "SignalRole \<Rightarrow> SignalRole" where
  "other_role Listener = Joiner"
| "other_role Joiner = Listener"

fun legal_description :: "SignalRole \<Rightarrow> relay_message \<Rightarrow> SignalRoomRow \<Rightarrow> bool" where
  "legal_description role (Description t s) w =
     ((role = Joiner \<and> t = Offer \<and> offer_seen w = 0)
      \<or> (role = Listener \<and> t = Answer \<and> offer_seen w = 1 \<and> answer_seen w = 0))"
| "legal_description role _ w = True"

definition role_candidates :: "SignalRole \<Rightarrow> SignalRoomRow \<Rightarrow> nat" where
  "role_candidates role w = (case role of Listener \<Rightarrow> listener_candidates w | Joiner \<Rightarrow> joiner_candidates w)"

text \<open>The row update of the relayed message.\<close>

fun count_message :: "SignalRole \<Rightarrow> relay_message \<Rightarrow> nat \<Rightarrow> SignalRoomRow \<Rightarrow> SignalRoomRow" where
  "count_message Listener (Candidate c) n w =
     w\<lparr>listener_candidates := listener_candidates w + 1, forwarded_bytes := forwarded_bytes w + n\<rparr>"
| "count_message Joiner (Candidate c) n w =
     w\<lparr>joiner_candidates := joiner_candidates w + 1, forwarded_bytes := forwarded_bytes w + n\<rparr>"
| "count_message role (Description Offer s) n w =
     w\<lparr>offer_seen := 1, forwarded_bytes := forwarded_bytes w + n\<rparr>"
| "count_message role (Description Answer s) n w =
     w\<lparr>answer_seen := 1, forwarded_bytes := forwarded_bytes w + n\<rparr>"
| "count_message role EndOfCandidates n w = w\<lparr>forwarded_bytes := forwarded_bytes w + n\<rparr>"

definition is_candidate :: "relay_message \<Rightarrow> bool" where
  "is_candidate m = (case m of Candidate _ \<Rightarrow> True | _ \<Rightarrow> False)"

definition forward :: "runtime \<Rightarrow> nat \<Rightarrow> SignalSocketAttachment \<Rightarrow> relay_message \<Rightarrow> SignalRoomRow \<Rightarrow> handler" where
  "forward rt sender a message w r = (case a_role a of
     None \<Rightarrow> sendErrorAndClose rt sender unexpected_message ''socket is not bound'' SIGNAL_POLICY_CLOSE_CODE r
   | Some role \<Rightarrow> (case boundSocket (other_role role) None r of
       None \<Rightarrow> sendErrorAndClose rt sender unexpected_message ''peer is not ready'' SIGNAL_POLICY_CLOSE_CODE r
     | Some peer \<Rightarrow>
         if \<not> legal_description role message w
         then sendErrorAndClose rt sender unexpected_message ''description is not valid in this state'' SIGNAL_POLICY_CLOSE_CODE r
         else (case serializeSignalMessage (Relayed message) of
           None \<Rightarrow> throw ZodError r
         | Some encoded \<Rightarrow>
             if MAX_SIGNAL_FORWARDED_BYTES < forwarded_bytes w + utf8_length encoded
             then sendErrorAndClose rt sender resource_limit ''forwarded byte limit exceeded'' SIGNAL_POLICY_CLOSE_CODE r
             else if is_candidate message \<and> MAX_SIGNAL_CANDIDATES_PER_PEER \<le> role_candidates role w
             then sendErrorAndClose rt sender resource_limit ''candidate limit exceeded'' SIGNAL_POLICY_CLOSE_CODE r
             else safeSendSerialized peer encoded
                    (update_row (count_message role message (utf8_length encoded)) r))))"

section \<open>Runtime callbacks\<close>

text \<open>The \<open>catch\<close> of \<open>webSocketMessage\<close>.\<close>

definition catching :: "runtime \<Rightarrow> nat \<Rightarrow> handler \<Rightarrow> handler" where
  "catching rt i m r = (case m r of
     (None, r') \<Rightarrow> (None, r')
   | (Some (Protocol e), r') \<Rightarrow> sendErrorAndClose rt i e ''invalid signaling message'' SIGNAL_POLICY_CLOSE_CODE r'
   | (Some ZodError, r') \<Rightarrow> sendErrorAndClose rt i internal_error ''internal signaling error'' SIGNAL_INTERNAL_CLOSE_CODE r')"

definition message_body :: "runtime \<Rightarrow> int \<Rightarrow> nat \<Rightarrow> ws_frame \<Rightarrow> handler" where
  "message_body rt now i frame r = (case room_row r of
     None \<Rightarrow> sendErrorAndClose rt i room_not_found ''room is unavailable'' SIGNAL_POLICY_CLOSE_CODE r
   | Some w \<Rightarrow>
       if lifecycle w = Closed
       then sendErrorAndClose rt i room_not_found ''room is unavailable'' SIGNAL_POLICY_CLOSE_CODE r
       else if expires_at w \<le> now then closeRoom rt ''expired'' None (Some room_expired) 1001 r
       else (case Option.bind (find_socket i r) attachment of
         None \<Rightarrow> sendErrorAndClose rt i internal_error ''socket state unavailable'' SIGNAL_INTERNAL_CLOSE_CODE r
       | Some a \<Rightarrow> (case parseSignalFrame frame of
           Inl e \<Rightarrow> throw (Protocol e) r
         | Inr message \<Rightarrow>
             if \<not> bound a then bindSocket rt now i a message w r
             else (case message of
               BindListener _ \<Rightarrow> sendErrorAndClose rt i unexpected_message ''socket is already bound'' SIGNAL_POLICY_CLOSE_CODE r
             | BindJoiner \<Rightarrow> sendErrorAndClose rt i unexpected_message ''socket is already bound'' SIGNAL_POLICY_CLOSE_CODE r
             | Leave \<Rightarrow> closeRoom rt ''peer_left'' (Some i) None 1000 r
             | Relay m \<Rightarrow> forward rt i a m w r))))"

definition webSocketMessage :: "runtime \<Rightarrow> int \<Rightarrow> nat \<Rightarrow> ws_frame \<Rightarrow> handler" where
  "webSocketMessage rt now i frame = catching rt i (message_body rt now i frame)"

definition is_bound :: "nat \<Rightarrow> room \<Rightarrow> bool" where
  "is_bound i r = (case Option.bind (find_socket i r) attachment of None \<Rightarrow> False | Some a \<Rightarrow> bound a)"

definition webSocketClose :: "runtime \<Rightarrow> nat \<Rightarrow> nat \<Rightarrow> js_string \<Rightarrow> handler" where
  "webSocketClose rt i code reason r =
     seq (if is_bound i r then closeRoom rt ''peer_left'' (Some i) None 1000 else scheduleNextAlarm)
         (safeClose rt i code reason) r"

definition webSocketError :: "runtime \<Rightarrow> nat \<Rightarrow> handler" where
  "webSocketError rt i r =
     seq (if is_bound i r then closeRoom rt ''socket_error'' (Some i) None SIGNAL_INTERNAL_CLOSE_CODE else ok)
         (safeClose rt i SIGNAL_INTERNAL_CLOSE_CODE (js ''internal error'')) r"

definition bind_overdue :: "int \<Rightarrow> socket \<Rightarrow> bool" where
  "bind_overdue now s = (case attachment s of
     None \<Rightarrow> False
   | Some a \<Rightarrow> \<not> bound a \<and> connectedAt a + SIGNAL_BIND_DEADLINE_MS \<le> now)"

text \<open>The runtime clears the alarm before it calls the handler.\<close>

definition alarm :: "runtime \<Rightarrow> int \<Rightarrow> handler" where
  "alarm rt now r = (case room_row r of
     None \<Rightarrow> ok r
   | Some w \<Rightarrow>
       if lifecycle w = Closed then ok r
       else if expires_at w \<le> now then closeRoom rt ''expired'' None (Some room_expired) SIGNAL_EXPIRED_CLOSE_CODE r
       else seq (seqs (map (\<lambda>s. if bind_overdue now s
                    then sendErrorAndClose rt (sid s) unexpected_message ''bind deadline exceeded'' SIGNAL_POLICY_CLOSE_CODE
                    else ok) (sockets r)))
              scheduleNextAlarm r)"

section \<open>The room as a transition system\<close>

datatype room_event =
  Initialize InitializeSignalRoomInput
| Fetch int js_string bool "js_string option"
| Message int nat ws_frame
| SecretChecked int nat
| Gone nat ready_state
| CloseEvent nat nat js_string
| ErrorEvent nat
| AlarmFires int
| Detach nat
| Restart

definition secret_checked :: "runtime \<Rightarrow> int \<Rightarrow> nat \<Rightarrow> room \<Rightarrow> room" where
  "secret_checked rt now k r =
     (if k < length (pending r)
      then (let p = pending r ! k; r' = r\<lparr>pending := take k (pending r) @ drop (Suc k) (pending r)\<rparr>
            in snd (catching rt (pb_socket p) (bind_verified rt now p) r'))
      else r)"

fun room_step :: "runtime \<Rightarrow> room \<Rightarrow> room_event \<Rightarrow> room" where
  "room_step rt r (Initialize i) = snd (initialize i r)"
| "room_step rt r (Fetch now uuid is_get upgrade) = snd (fetch rt now uuid is_get upgrade r)"
| "room_step rt r (Message now i frame) = snd (webSocketMessage rt now i frame r)"
| "room_step rt r (SecretChecked now k) = secret_checked rt now k r"
| "room_step rt r (Gone i st) =
     upd_socket i (\<lambda>s. s\<lparr>readyState := (if st = OPEN \<or> st = CONNECTING then CLOSED else st)\<rparr>) r"
| "room_step rt r (CloseEvent i code reason) = snd (webSocketClose rt i code reason r)"
| "room_step rt r (ErrorEvent i) = snd (webSocketError rt i r)"
| "room_step rt r (AlarmFires now) = snd (alarm rt now (r\<lparr>room_alarm := None\<rparr>))"
| "room_step rt r (Detach i) = r\<lparr>sockets := filter (\<lambda>s. sid s \<noteq> i \<or> readyState s = OPEN) (sockets r)\<rparr>"
| "room_step rt r Restart = r\<lparr>pending := []\<rparr>"

section \<open>Invariant\<close>

text \<open>
  At most four sockets, with distinct identities; at most one OPEN socket per role; a bound
  socket has a role; the counters respect their limits and an answer follows an offer; an
  open room has an alarm no later than its expiry and than the bind deadline of every
  unbound socket, a closed one has none; and a suspended bind was captured from this row.
\<close>

definition socket_ok :: "socket \<Rightarrow> bool" where
  "socket_ok s \<longleftrightarrow> (\<exists>a. ws_attachment s = Some a \<and> a_version a = SIGNAL_PROTOCOL_VERSION
     \<and> (bound a \<longleftrightarrow> a_role a \<noteq> None))"

definition one_per_role :: "socket list \<Rightarrow> bool" where
  "one_per_role ss \<longleftrightarrow> (\<forall>role. \<forall>s \<in> set ss. \<forall>t \<in> set ss.
     holds_role role s \<longrightarrow> holds_role role t \<longrightarrow> sid s = sid t)"

definition sockets_inv :: "room \<Rightarrow> bool" where
  "sockets_inv r \<longleftrightarrow> distinct (map sid (sockets r)) \<and> length (sockets r) \<le> 4
     \<and> (\<forall>s \<in> set (sockets r). sid s < next_sid r \<and> socket_ok s) \<and> one_per_role (sockets r)"

lemma sockets_inv_simps [simp]:
  "sockets_inv (r\<lparr>room_row := x\<rparr>) = sockets_inv r"
  "sockets_inv (r\<lparr>room_alarm := y\<rparr>) = sockets_inv r"
  "sockets_inv (r\<lparr>pending := z\<rparr>) = sockets_inv r"
  "sockets_inv (r\<lparr>room_alarm := y, sockets := ss\<rparr>) = sockets_inv (r\<lparr>sockets := ss\<rparr>)"
  by (simp_all add: sockets_inv_def)

lemma one_per_roleD:
  "one_per_role ss \<Longrightarrow> s \<in> set ss \<Longrightarrow> t \<in> set ss \<Longrightarrow> holds_role role s \<Longrightarrow> holds_role role t \<Longrightarrow> sid s = sid t"
  unfolding one_per_role_def by blast

definition row_inv :: "SignalRoomRow \<Rightarrow> bool" where
  "row_inv w \<longleftrightarrow> listener_candidates w \<le> MAX_SIGNAL_CANDIDATES_PER_PEER
     \<and> joiner_candidates w \<le> MAX_SIGNAL_CANDIDATES_PER_PEER
     \<and> forwarded_bytes w \<le> MAX_SIGNAL_FORWARDED_BYTES
     \<and> answer_seen w \<le> offer_seen w \<and> offer_seen w \<le> 1 \<and> created_at w < expires_at w"

definition unbound_by :: "int \<Rightarrow> socket \<Rightarrow> bool" where
  "unbound_by t s = (case attachment s of
     None \<Rightarrow> True
   | Some a \<Rightarrow> bound a \<or> t \<le> connectedAt a + SIGNAL_BIND_DEADLINE_MS)"

definition alarm_inv :: "room \<Rightarrow> bool" where
  "alarm_inv r \<longleftrightarrow> (case room_row r of
     None \<Rightarrow> room_alarm r = None \<and> sockets r = []
   | Some w \<Rightarrow>
       if lifecycle w = Closed then room_alarm r = None
       else (\<exists>t. room_alarm r = Some t \<and> t \<le> expires_at w \<and> (\<forall>s \<in> set (sockets r). unbound_by t s)))"

definition pending_inv :: "room \<Rightarrow> bool" where
  "pending_inv r \<longleftrightarrow> (\<forall>p \<in> set (pending r). a_version (pb_attachment p) = SIGNAL_PROTOCOL_VERSION
     \<and> (\<exists>w. room_row r = Some w \<and> listener_secret_hash (pb_row p) = listener_secret_hash w
           \<and> expires_at (pb_row p) = expires_at w))"

definition room_inv :: "room \<Rightarrow> bool" where
  "room_inv r \<longleftrightarrow> sockets_inv r \<and> alarm_inv r \<and> pending_inv r \<and> (\<forall>w. room_row r = Some w \<longrightarrow> row_inv w)"

section \<open>Quiet handlers\<close>

text \<open>
  Most of a handler only sends and closes: it changes no attachment and opens no socket.
  Such steps compose, and they keep the invariant.
\<close>

definition benign :: "(socket \<Rightarrow> socket) \<Rightarrow> bool" where
  "benign f \<longleftrightarrow> (\<forall>s. sid (f s) = sid s \<and> ws_attachment (f s) = ws_attachment s
     \<and> (readyState (f s) = OPEN \<longrightarrow> readyState s = OPEN))"

definition quiet :: "handler \<Rightarrow> bool" where
  "quiet m \<longleftrightarrow> (\<forall>r. \<exists>f. benign f \<and> snd (m r) = r\<lparr>sockets := map f (sockets r)\<rparr>)"

lemma benign_id: "benign (\<lambda>s. s)"
  by (simp add: benign_def)

lemma benign_comp: "benign f \<Longrightarrow> benign g \<Longrightarrow> benign (g \<circ> f)"
  unfolding benign_def comp_def by metis

lemma snd_seq: "snd (seq m k r) = (if fst (m r) = None then snd (k (snd (m r))) else snd (m r))"
  by (auto simp: seq_def split: prod.splits option.splits)

lemma fst_seq: "fst (seq m k r) = (if fst (m r) = None then fst (k (snd (m r))) else fst (m r))"
  by (auto simp: seq_def split: prod.splits option.splits)

lemma quietI: "(\<And>r. \<exists>f. benign f \<and> snd (m r) = r\<lparr>sockets := map f (sockets r)\<rparr>) \<Longrightarrow> quiet m"
  by (simp add: quiet_def)

lemma quiet_ok [inv_intros]: "quiet ok"
  by (rule quietI) (auto simp: ok_def intro!: exI [of _ "\<lambda>s. s"] benign_id)

lemma quiet_throw [inv_intros]: "quiet (throw e)"
  by (rule quietI) (auto simp: throw_def intro!: exI [of _ "\<lambda>s. s"] benign_id)

lemma quiet_seq [inv_intros]:
  assumes "quiet m" "quiet k"
  shows "quiet (seq m k)"
proof (rule quietI)
  fix r
  obtain f where f: "benign f" "snd (m r) = r\<lparr>sockets := map f (sockets r)\<rparr>"
    using assms(1) by (auto simp: quiet_def)
  obtain g where g: "benign g" "snd (k (snd (m r))) = (snd (m r))\<lparr>sockets := map g (sockets (snd (m r)))\<rparr>"
    using assms(2) by (auto simp: quiet_def)
  show "\<exists>f. benign f \<and> snd (seq m k r) = r\<lparr>sockets := map f (sockets r)\<rparr>"
  proof (cases "fst (m r)")
    case None
    then have "snd (seq m k r) = r\<lparr>sockets := map (g \<circ> f) (sockets r)\<rparr>"
      using f g by (simp add: snd_seq)
    with benign_comp [OF f(1) g(1)] show ?thesis by blast
  next
    case (Some e)
    then show ?thesis using f by (auto simp: snd_seq)
  qed
qed

lemma quiet_seqs [inv_intros]: "(\<And>m. m \<in> set ms \<Longrightarrow> quiet m) \<Longrightarrow> quiet (seqs ms)"
  by (induction ms) (simp_all add: seqs_def quiet_ok quiet_seq)

lemma quiet_if [inv_intros]: "quiet m \<Longrightarrow> quiet k \<Longrightarrow> quiet (if b then m else k)"
  by simp

lemma upd_socket_benign:
  "benign f \<Longrightarrow> \<exists>g. benign g \<and> upd_socket i f r = r\<lparr>sockets := map g (sockets r)\<rparr>"
  by (intro exI [of _ "\<lambda>s. if sid s = i then f s else s"]) (simp add: upd_socket_def benign_def)

lemma benign_send: "benign (\<lambda>s. if readyState s = OPEN then s\<lparr>sent := sent s @ [m]\<rparr> else s)"
  by (simp add: benign_def)

lemma benign_close: "benign (close_socket rt code reason)"
  by (simp add: benign_def close_socket_def)

lemma quiet_safeSendSerialized [inv_intros]: "quiet (safeSendSerialized i m)"
  by (rule quietI) (simp add: safeSendSerialized_def ok_def upd_socket_benign benign_send)

lemma quiet_safeSend [inv_intros]: "quiet (safeSend i m)"
  using quiet_throw quiet_safeSendSerialized
  by (cases "serializeSignalMessage m") (simp_all add: safeSend_def [abs_def])

lemma quiet_safeClose [inv_intros]: "quiet (safeClose rt i code reason)"
  by (rule quietI) (simp add: safeClose_def ok_def upd_socket_benign benign_close)

lemma quiet_sendErrorAndClose [inv_intros]: "quiet (sendErrorAndClose rt i c m code)"
  unfolding sendErrorAndClose_def by (intro inv_intros)

lemma attachment_benign: "benign f \<Longrightarrow> attachment (f s) = attachment s"
  by (simp add: attachment_def benign_def)

lemma holds_role_benign: "benign f \<Longrightarrow> holds_role role (f s) \<Longrightarrow> holds_role role s"
  by (auto simp: holds_role_def attachment_benign) (simp add: benign_def)

lemma room_inv_benign:
  assumes "room_inv r" "benign f"
  shows "room_inv (r\<lparr>sockets := map f (sockets r)\<rparr>)"
proof -
  have m: "map (sid \<circ> f) (sockets r) = map sid (sockets r)"
    using assms(2) by (simp add: benign_def)
  have "sockets_inv (r\<lparr>sockets := map f (sockets r)\<rparr>)"
    unfolding sockets_inv_def
  proof (intro conjI)
    show "distinct (map sid (sockets (r\<lparr>sockets := map f (sockets r)\<rparr>)))"
      using assms(1) by (simp add: m room_inv_def sockets_inv_def)
    show "length (sockets (r\<lparr>sockets := map f (sockets r)\<rparr>)) \<le> 4"
      using assms(1) by (simp add: room_inv_def sockets_inv_def)
    show "\<forall>s \<in> set (sockets (r\<lparr>sockets := map f (sockets r)\<rparr>)). sid s < next_sid (r\<lparr>sockets := map f (sockets r)\<rparr>) \<and> socket_ok s"
      using assms by (auto simp: room_inv_def sockets_inv_def benign_def socket_ok_def)
    have "one_per_role (sockets r)" using assms(1) by (simp add: room_inv_def sockets_inv_def)
    then show "one_per_role (sockets (r\<lparr>sockets := map f (sockets r)\<rparr>))"
      using holds_role_benign [OF assms(2)] assms(2)
      by (simp add: one_per_role_def benign_def) blast
  qed
  moreover have "alarm_inv (r\<lparr>sockets := map f (sockets r)\<rparr>)"
    using assms by (auto simp: room_inv_def alarm_inv_def unbound_by_def attachment_benign split: option.splits)
  moreover have "pending_inv (r\<lparr>sockets := map f (sockets r)\<rparr>)"
    using assms(1) by (simp add: room_inv_def pending_inv_def)
  ultimately show ?thesis using assms(1) by (simp add: room_inv_def)
qed

lemma quiet_room_inv: "quiet m \<Longrightarrow> room_inv r \<Longrightarrow> room_inv (snd (m r))"
  unfolding quiet_def using room_inv_benign by metis

section \<open>The other steps keep the invariant\<close>

lemma boundSocket_None:
  "boundSocket role ex r = None \<longleftrightarrow> (\<forall>s \<in> set (sockets r). Some (sid s) = ex \<or> \<not> holds_role role s)"
  by (auto simp: boundSocket_def find_None_iff)

lemma boundSocket_Some:
  "boundSocket role ex r = Some i \<Longrightarrow> \<exists>s \<in> set (sockets r). sid s = i \<and> Some i \<noteq> ex \<and> holds_role role s"
  by (auto simp: boundSocket_def find_Some_iff)

abbreviation attach :: "SignalSocketAttachment \<Rightarrow> SignalRole \<Rightarrow> socket \<Rightarrow> socket" where
  "attach a role s \<equiv> s\<lparr>ws_attachment := Some (a\<lparr>bound := True, a_role := Some role\<rparr>)\<rparr>"

lemma room_inv_attach:
  assumes "room_inv r" "a_version a = SIGNAL_PROTOCOL_VERSION" "boundSocket role (Some i) r = None"
  shows "room_inv (upd_socket i (attach a role) r)"
proof -
  have hr: "holds_role rl (attach a role s) \<Longrightarrow> rl = role" for rl s
    using assms(2) by (auto simp: holds_role_def attachment_def)
  have other: "\<not> holds_role role s" if "s \<in> set (sockets r)" "sid s \<noteq> i" for s
    using assms(3) that by (auto simp: boundSocket_None)
  have uniq: "one_per_role (sockets r)"
    using assms(1) by (simp add: room_inv_def sockets_inv_def)
  have m: "map (sid \<circ> (\<lambda>s. if sid s = i then attach a role s else s)) (sockets r) = map sid (sockets r)"
    by simp
  have "sockets_inv (upd_socket i (attach a role) r)"
    unfolding sockets_inv_def
  proof (intro conjI)
    show "distinct (map sid (sockets (upd_socket i (attach a role) r)))"
      using assms(1) by (simp add: upd_socket_def m room_inv_def sockets_inv_def)
    show "length (sockets (upd_socket i (attach a role) r)) \<le> 4"
      using assms(1) by (simp add: upd_socket_def room_inv_def sockets_inv_def)
    show "\<forall>s \<in> set (sockets (upd_socket i (attach a role) r)). sid s < next_sid (upd_socket i (attach a role) r) \<and> socket_ok s"
      using assms by (auto simp: upd_socket_def room_inv_def sockets_inv_def socket_ok_def)
    show "one_per_role (sockets (upd_socket i (attach a role) r))"
      unfolding one_per_role_def
    proof (intro allI ballI impI)
      fix rl s t
      assume "s \<in> set (sockets (upd_socket i (attach a role) r))" "t \<in> set (sockets (upd_socket i (attach a role) r))"
        and h: "holds_role rl s" "holds_role rl t"
      then obtain s' t' where st: "s' \<in> set (sockets r)" "s = (if sid s' = i then attach a role s' else s')"
          "t' \<in> set (sockets r)" "t = (if sid t' = i then attach a role t' else t')"
        by (auto simp: upd_socket_def)
      show "sid s = sid t"
      proof (cases "sid s' = i \<or> sid t' = i")
        case True
        then have "rl = role" using st(2,4) h hr by auto
        with True st h other [of s'] other [of t'] show ?thesis by (cases "sid s' = i"; cases "sid t' = i") simp_all
      next
        case False
        with st h one_per_roleD [OF uniq, of s' t' rl] show ?thesis by simp
      qed
    qed
  qed
  moreover have "unbound_by t (attach a role s)" for t s
    using assms(2) by (simp add: unbound_by_def attachment_def)
  then have "alarm_inv (upd_socket i (attach a role) r)"
    using assms(1) by (auto simp: room_inv_def alarm_inv_def upd_socket_def split: option.splits)
  moreover have "pending_inv (upd_socket i (attach a role) r)"
    using assms(1) by (simp add: room_inv_def pending_inv_def upd_socket_def)
  ultimately show ?thesis using assms(1) by (simp add: room_inv_def upd_socket_def)
qed

lemma room_inv_update_row:
  assumes "room_inv r"
    and "\<And>w. room_row r = Some w \<Longrightarrow> row_inv (f w) \<and> lifecycle (f w) \<noteq> Closed
      \<and> listener_secret_hash (f w) = listener_secret_hash w \<and> expires_at (f w) = expires_at w"
  shows "room_inv (update_row f r)"
  using assms
  by (cases "room_row r") (auto simp: room_inv_def update_row_def alarm_inv_def pending_inv_def)

lemma alarm_foldl:
  fixes step :: "int \<Rightarrow> socket \<Rightarrow> int"
  defines "step \<equiv> \<lambda>next s. case attachment s of
                None \<Rightarrow> next
              | Some a \<Rightarrow> if bound a then next else min next (connectedAt a + SIGNAL_BIND_DEADLINE_MS)"
  shows "foldl step e ss \<le> e \<and> (\<forall>s \<in> set ss. unbound_by (foldl step e ss) s)"
proof (induction ss arbitrary: e)
  case Nil
  then show ?case by simp
next
  case (Cons s ss)
  have 1: "step e s \<le> e" and 2: "unbound_by (step e s) s"
    by (auto simp: step_def unbound_by_def split: option.splits)
  have "unbound_by t s" if "t \<le> step e s" for t
    using 2 that by (auto simp: unbound_by_def split: option.splits)
  with Cons [of "step e s"] 1 show ?case by auto
qed

lemma room_inv_schedule:
  assumes "sockets_inv r" "pending_inv r" "\<And>w. room_row r = Some w \<Longrightarrow> row_inv w"
    and "room_row r = None \<Longrightarrow> sockets r = []"
  shows "room_inv (snd (scheduleNextAlarm r))"
  using assms alarm_foldl
  by (auto simp: scheduleNextAlarm_def room_inv_def alarm_inv_def pending_inv_def ok_def split: option.splits)

lemma room_inv_scheduleNextAlarm: "room_inv r \<Longrightarrow> room_inv (snd (scheduleNextAlarm r))"
  by (intro room_inv_schedule) (auto simp: room_inv_def alarm_inv_def)

lemma room_inv_seq:
  "room_inv (snd (m r)) \<Longrightarrow> (\<And>r. room_inv r \<Longrightarrow> room_inv (snd (k r))) \<Longrightarrow> room_inv (snd (seq m k r))"
  by (simp add: snd_seq)

lemma quiet_closing_loop:
  "quiet (seqs (map (\<lambda>s. seq (if Some (sid s) \<noteq> source then safeSend (sid s) (closing_message e) else ok)
                            (safeClose rt (sid s) code reason)) ss))"
  by (intro quiet_seqs) (auto intro!: inv_intros)

lemma quiet_ready:
  "quiet (case (l, j) of (Some l, Some j) \<Rightarrow> seq (safeSend l PeerReady) (safeSend j PeerReady) | _ \<Rightarrow> ok)"
  by (auto intro!: inv_intros split: option.splits)

lemma room_inv_announce: "room_inv r \<Longrightarrow> room_inv (snd (announce_bind i l j role n r))"
  unfolding announce_bind_def
  by (intro room_inv_seq quiet_room_inv [OF quiet_safeSend] quiet_room_inv [OF quiet_ready]
      room_inv_scheduleNextAlarm)

lemma bind_role_cases:
  obtains (occupied) "boundSocket role (Some i) r \<noteq> None"
      "bind_role rt now i a role w r =
         sendErrorAndClose rt i room_full ''role is already occupied'' SIGNAL_POLICY_CLOSE_CODE r"
  | (free) l j lc where "boundSocket role (Some i) r = None" "lc \<noteq> Closed"
      "bind_role rt now i a role w r = announce_bind i l j role (expires_in (expires_at w) now)
         (update_row (\<lambda>v. v\<lparr>lifecycle := lc\<rparr>) (upd_socket i (attach a role) r))"
proof (cases "boundSocket role (Some i) r = None")
  case True
  have "(if b then Paired else if c then ListenerBound else ListenerCreated) \<noteq> Closed" for b c by simp
  from free [OF True this] show thesis using True by (simp add: bind_role_def Let_def)
next
  case False
  then show thesis using occupied by (simp add: bind_role_def)
qed

lemma room_inv_closeRoom:
  assumes "room_inv r"
  shows "room_inv (snd (closeRoom rt reason source e code r))"
proof (cases "room_open r")
  case True
  let ?r = "(update_row (\<lambda>w. w\<lparr>lifecycle := Closed, terminal_reason := Some (js reason)\<rparr>) r)\<lparr>room_alarm := None\<rparr>"
  have "room_inv ?r"
    using assms True
    by (auto simp: room_inv_def update_row_def alarm_inv_def pending_inv_def row_inv_def
        room_open_def split: option.splits)
  then show ?thesis
    using True quiet_room_inv [OF quiet_closing_loop] by (simp add: closeRoom_def)
qed (use assms in \<open>simp add: closeRoom_def ok_def\<close>)

lemma room_inv_bind_role:
  assumes "room_inv r" "a_version a = SIGNAL_PROTOCOL_VERSION"
  shows "room_inv (snd (bind_role rt now i a role w r))"
proof (cases rule: bind_role_cases [of role i r rt now a w])
  case occupied
  then show ?thesis using quiet_room_inv [OF quiet_sendErrorAndClose assms(1)] by simp
next
  case (free l j lc)
  have "room_inv (update_row (\<lambda>v. v\<lparr>lifecycle := lc\<rparr>) (upd_socket i (attach a role) r))"
    using room_inv_attach [OF assms free(1)] free(2)
    by (intro room_inv_update_row) (auto simp: room_inv_def row_inv_def)
  then show ?thesis using free(3) by (simp add: room_inv_announce)
qed

lemma attachment_version: "attachment s = Some a \<Longrightarrow> a_version a = SIGNAL_PROTOCOL_VERSION"
  by (auto simp: attachment_def split: option.splits if_splits)

lemma room_inv_bindSocket:
  assumes "room_inv r" "a_version a = SIGNAL_PROTOCOL_VERSION" "room_row r = Some w"
  shows "room_inv (snd (bindSocket rt now i a message w r))"
proof -
  have "room_inv (r\<lparr>pending := pending r @ [\<lparr>pb_socket = i, pb_attachment = a, pb_secret = s, pb_row = w\<rparr>]\<rparr>)" for s
    using assms by (auto simp: room_inv_def pending_inv_def alarm_inv_def)
  then show ?thesis
    using assms quiet_room_inv [OF quiet_sendErrorAndClose assms(1)] room_inv_bind_role
    by (auto simp: bindSocket_def Let_def ok_def split: ClientSignalMessage.splits)
qed

lemma row_inv_count:
  assumes "row_inv w" "legal_description role m w" "forwarded_bytes w + n \<le> MAX_SIGNAL_FORWARDED_BYTES"
    and "is_candidate m \<Longrightarrow> role_candidates role w < MAX_SIGNAL_CANDIDATES_PER_PEER"
  shows "row_inv (count_message role m n w) \<and> lifecycle (count_message role m n w) = lifecycle w
    \<and> listener_secret_hash (count_message role m n w) = listener_secret_hash w
    \<and> expires_at (count_message role m n w) = expires_at w"
  using assms
  by (cases "(role, m, n, w)" rule: count_message.cases)
    (auto simp: row_inv_def is_candidate_def role_candidates_def)

lemma room_inv_forward:
  assumes "room_inv r" "room_row r = Some w" "lifecycle w \<noteq> Closed"
  shows "room_inv (snd (forward rt i a m w r))"
proof -
  have quiet: "room_inv (snd (sendErrorAndClose rt i c t code r))" for c t code
    by (rule quiet_room_inv [OF quiet_sendErrorAndClose assms(1)])
  have count: "room_inv (snd (safeSendSerialized peer e (update_row (count_message role m n) r)))"
    if "legal_description role m w" "forwarded_bytes w + n \<le> MAX_SIGNAL_FORWARDED_BYTES"
      "is_candidate m \<Longrightarrow> role_candidates role w < MAX_SIGNAL_CANDIDATES_PER_PEER" for peer e role n
    using assms row_inv_count [OF _ that]
    by (intro quiet_room_inv [OF quiet_safeSendSerialized] room_inv_update_row) (auto simp: room_inv_def)
  show ?thesis
    using quiet count assms(1)
    by (auto simp: forward_def throw_def not_less not_le split: option.splits)
qed

lemma room_inv_message_body:
  assumes "room_inv r"
  shows "room_inv (snd (message_body rt now i frame r))"
  using assms quiet_room_inv [OF quiet_sendErrorAndClose assms] quiet_room_inv [OF quiet_throw assms]
    room_inv_closeRoom room_inv_bindSocket room_inv_forward
  by (auto simp: message_body_def bind_eq_Some_conv attachment_version
      split: option.splits sum.splits ClientSignalMessage.splits)

lemma room_inv_catching:
  "room_inv (snd (m r)) \<Longrightarrow> room_inv (snd (catching rt i m r))"
  using quiet_room_inv [OF quiet_sendErrorAndClose]
  by (auto simp: catching_def split: prod.splits option.splits exn.splits)

lemma room_inv_initialize: "room_inv r \<Longrightarrow> room_inv (snd (initialize i r))"
  by (auto simp: initialize_def room_inv_def alarm_inv_def pending_inv_def row_inv_def valid_initialization_def
      split: option.splits)

lemma one_per_role_snoc:
  assumes "one_per_role ss" "\<And>role. \<not> holds_role role x"
  shows "one_per_role (ss @ [x])"
  unfolding one_per_role_def
proof (intro allI ballI impI)
  fix role s t
  assume st: "s \<in> set (ss @ [x])" "t \<in> set (ss @ [x])" and h: "holds_role role s" "holds_role role t"
  from st h assms(2) have "s \<in> set ss" "t \<in> set ss" by auto
  from one_per_roleD [OF assms(1) this h] show "sid s = sid t" .
qed

lemma sockets_inv_accept:
  assumes "sockets_inv r" "length (sockets r) < 4"
  shows "sockets_inv (accept_socket now uuid r)"
proof -
  let ?s = "\<lparr>sid = next_sid r, readyState = OPEN,
       ws_attachment = Some \<lparr>a_version = SIGNAL_PROTOCOL_VERSION, sessionId = uuid, connectedAt = now,
         bound = False, a_role = None\<rparr>, sent = [], close_call = None\<rparr>"
  have "\<not> holds_role role ?s" for role by (simp add: holds_role_def attachment_def)
  then have "one_per_role (sockets r @ [?s])"
    using assms(1) by (intro one_per_role_snoc) (simp_all add: sockets_inv_def)
  moreover have "distinct (map sid (sockets r @ [?s]))"
    using assms(1) by (auto simp: sockets_inv_def)
  moreover have "socket_ok ?s" by (simp add: socket_ok_def)
  ultimately show ?thesis
    using assms by (auto simp: sockets_inv_def accept_socket_def less_Suc_eq)
qed

lemma room_inv_fetch:
  assumes "room_inv r"
  shows "room_inv (snd (fetch rt now uuid g u r))"
proof -
  have "room_inv (snd (scheduleNextAlarm (accept_socket now uuid r)))"
    if "room_row r = Some w" "length (sockets r) < 4" for w
    using that assms sockets_inv_accept [of r now uuid]
    by (intro room_inv_schedule) (simp_all add: room_inv_def, simp_all add: pending_inv_def accept_socket_def)
  then show ?thesis
    using assms room_inv_closeRoom by (auto simp: fetch_def split: option.splits)
qed

lemma room_inv_filter:
  assumes "room_inv r"
  shows "room_inv (r\<lparr>sockets := filter P (sockets r)\<rparr>)"
proof -
  have "one_per_role (filter P (sockets r))"
    using assms by (simp add: room_inv_def sockets_inv_def one_per_role_def)
  moreover have "length (filter P (sockets r)) \<le> 4"
    using assms le_trans [OF length_filter_le [of P "sockets r"]] by (simp add: room_inv_def sockets_inv_def)
  ultimately have "sockets_inv (r\<lparr>sockets := filter P (sockets r)\<rparr>)"
    using assms by (simp add: room_inv_def sockets_inv_def distinct_map_filter)
  then show ?thesis
    using assms by (auto simp: room_inv_def alarm_inv_def pending_inv_def split: option.splits)
qed

lemma room_inv_pending:
  assumes "room_inv r" "set ps \<subseteq> set (pending r)"
  shows "room_inv (r\<lparr>pending := ps\<rparr>)"
proof -
  have "alarm_inv (r\<lparr>pending := ps\<rparr>) = alarm_inv r" by (simp add: alarm_inv_def split: option.split)
  moreover have "pending_inv (r\<lparr>pending := ps\<rparr>)"
    using assms by (auto simp: room_inv_def pending_inv_def)
  ultimately show ?thesis using assms(1) by (simp add: room_inv_def)
qed

lemma room_inv_secret_checked:
  assumes "room_inv r"
  shows "room_inv (secret_checked rt now k r)"
proof (cases "k < length (pending r)")
  case True
  let ?p = "pending r ! k"
  let ?r = "r\<lparr>pending := take k (pending r) @ drop (Suc k) (pending r)\<rparr>"
  have "set (take k (pending r) @ drop (Suc k) (pending r)) \<subseteq> set (pending r)"
    by (auto dest: in_set_takeD in_set_dropD)
  then have inv: "room_inv ?r" by (rule room_inv_pending [OF assms])
  have "a_version (pb_attachment ?p) = SIGNAL_PROTOCOL_VERSION"
    using assms True by (auto simp: room_inv_def pending_inv_def)
  then have "room_inv (snd (bind_verified rt now ?p ?r))"
    using quiet_room_inv [OF quiet_sendErrorAndClose inv] room_inv_bind_role [OF inv]
    by (simp add: bind_verified_def)
  then show ?thesis using True by (simp add: secret_checked_def Let_def room_inv_catching)
qed (use assms in \<open>simp add: secret_checked_def\<close>)

lemma fst_sendErrorAndClose:
  assumes "message \<noteq> []" "length message \<le> 256"
  shows "fst (sendErrorAndClose rt i c message code r) = None"
proof -
  have "u16_length (js message) = length message"
  proof (induction message)
    case (Cons ch m)
    have "(of_char ch :: nat) < 256" by simp
    then have "(of_char ch :: nat) < 65536" by linarith
    with Cons show ?case by (simp add: u16_length_def)
  qed (simp add: u16_length_def)
  moreover have "1 \<le> length message" using assms(1) by (cases message) auto
  ultimately show ?thesis
    using assms
    by (simp add: sendErrorAndClose_def fst_seq safeSend_def serializeSignalMessage_def safeSendSerialized_def
        safeClose_def ok_def)
qed

lemma fst_seqs: "(\<And>m r. m \<in> set ms \<Longrightarrow> fst (m r) = None) \<Longrightarrow> fst (seqs ms r) = None"
  by (induction ms arbitrary: r) (simp_all add: seqs_def ok_def fst_seq)

lemma room_inv_alarm:
  assumes "room_inv r"
  shows "room_inv (snd (alarm rt now (r\<lparr>room_alarm := None\<rparr>)))"
proof (cases "room_open r")
  case False
  then show ?thesis
    using assms by (auto simp: alarm_def ok_def room_open_def room_inv_def alarm_inv_def pending_inv_def
        split: option.splits)
next
  case True
  then obtain w where w: "room_row r = Some w" "lifecycle w \<noteq> Closed"
    by (auto simp: room_open_def split: option.splits)
  let ?r = "r\<lparr>room_alarm := None\<rparr>"
  show ?thesis
  proof (cases "expires_at w \<le> now")
    case expired: True
    have "closeRoom rt reason src e code ?r = closeRoom rt reason src e code r" for reason src e code
      by (simp add: closeRoom_def room_open_def update_row_def ok_def w)
    then show ?thesis using w expired room_inv_closeRoom [OF assms] by (simp add: alarm_def)
  next
    case live: False
    let ?ms = "map (\<lambda>s. if bind_overdue now s
        then sendErrorAndClose rt (sid s) unexpected_message ''bind deadline exceeded'' SIGNAL_POLICY_CLOSE_CODE
        else ok) (sockets r)"
    have q: "quiet (seqs ?ms)" by (intro quiet_seqs) (auto intro: inv_intros)
    have n: "fst (seqs ?ms ?r) = None"
      by (rule fst_seqs) (auto simp: fst_sendErrorAndClose ok_def)
    obtain f where f: "benign f" "snd (seqs ?ms ?r) = ?r\<lparr>sockets := map f (sockets ?r)\<rparr>"
      using q unfolding quiet_def by blast
    have "room_inv (snd (scheduleNextAlarm (snd (seqs ?ms ?r))))"
      using room_inv_benign [OF assms f(1)] w
      by (intro room_inv_schedule) (auto simp: f(2) room_inv_def pending_inv_def)
    then show ?thesis using n w live by (simp add: alarm_def snd_seq)
  qed
qed

lemma room_inv_step: "room_inv r \<Longrightarrow> room_inv (room_step rt r e)"
proof (induction e)
  case (Gone i st)
  have "benign (\<lambda>s. s\<lparr>readyState := (if st = OPEN \<or> st = CONNECTING then CLOSED else st)\<rparr>)"
    by (auto simp: benign_def)
  from upd_socket_benign [OF this] Gone room_inv_benign show ?case by (metis room_step.simps(5))
next
  case (CloseEvent i code reason)
  then show ?case
    by (auto simp: webSocketClose_def
        intro!: room_inv_seq room_inv_closeRoom room_inv_scheduleNextAlarm quiet_room_inv [OF quiet_safeClose])
next
  case (ErrorEvent i)
  then show ?case
    by (auto simp: webSocketError_def ok_def
        intro!: room_inv_seq room_inv_closeRoom quiet_room_inv [OF quiet_safeClose])
next
  case Restart
  then show ?case by (simp add: room_inv_pending)
qed (simp_all add: webSocketMessage_def room_inv_initialize room_inv_fetch room_inv_catching room_inv_message_body
      room_inv_secret_checked room_inv_alarm room_inv_filter)

interpretation room_system: invariant_system "room_step rt" "\<lambda>_ _. True" room_inv for rt
  by unfold_locales (rule room_inv_step)

lemma room_inv_new: "room_inv new_room"
  by (simp add: room_inv_def new_room_def sockets_inv_def one_per_role_def alarm_inv_def pending_inv_def)

lemma run_ok_True [simp]: "run_ok (\<lambda>_ _. True) step s es"
  by (induction es arbitrary: s) simp_all

lemma room_inv_run: "room_inv (run_steps (room_step rt) new_room es)"
  using room_system.inv_run [OF room_inv_new] by simp

section \<open>A closed room stays closed\<close>

lemma quiet_fields:
  assumes "quiet m"
  shows "room_row (snd (m r)) = room_row r" "room_alarm (snd (m r)) = room_alarm r"
    "pending (snd (m r)) = pending r"
  using assms unfolding quiet_def by (metis room.select_convs(1) room.surjective room.update_convs(2),
      metis room.select_convs(3) room.surjective room.update_convs(2),
      metis room.select_convs(4) room.surjective room.update_convs(2))

definition closed_as :: "SignalRoomRow \<Rightarrow> room \<Rightarrow> bool" where
  "closed_as w r \<longleftrightarrow> room_row r = Some w \<and> lifecycle w = Closed"

lemma closed_quiet: "quiet m \<Longrightarrow> closed_as w r \<Longrightarrow> closed_as w (snd (m r))"
  by (simp add: closed_as_def quiet_fields)

lemma closed_update: "closed_as w r \<Longrightarrow> closed_as w (update_row f r)"
  by (simp add: closed_as_def update_row_def)

lemma closed_seq:
  "closed_as w (snd (m r)) \<Longrightarrow> (\<And>r. closed_as w r \<Longrightarrow> closed_as w (snd (k r))) \<Longrightarrow> closed_as w (snd (seq m k r))"
  by (simp add: snd_seq)

lemma closed_schedule: "closed_as w r \<Longrightarrow> closed_as w (snd (scheduleNextAlarm r))"
  by (simp add: closed_as_def scheduleNextAlarm_def ok_def)

lemma closed_closeRoom: "closed_as w r \<Longrightarrow> closed_as w (snd (closeRoom rt reason src e code r))"
  by (simp add: closed_as_def closeRoom_def room_open_def ok_def)

lemma closed_bind_role: "closed_as w r \<Longrightarrow> closed_as w (snd (bind_role rt now i a role v r))"
proof (cases rule: bind_role_cases [of role i r rt now a v])
  case occupied
  assume "closed_as w r"
  then show ?thesis using occupied by (simp add: closed_quiet [OF quiet_sendErrorAndClose])
next
  case (free l j lc)
  assume c: "closed_as w r"
  have "closed_as w (update_row (\<lambda>v. v\<lparr>lifecycle := lc\<rparr>) (upd_socket i (attach a role) r))"
    using c by (intro closed_update) (simp add: closed_as_def upd_socket_def)
  then show ?thesis
    unfolding free(3) announce_bind_def
    by (intro closed_seq closed_quiet [OF quiet_safeSend] closed_quiet [OF quiet_ready] closed_schedule)
qed

lemma closed_catching: "closed_as w (snd (m r)) \<Longrightarrow> closed_as w (snd (catching rt i m r))"
  using closed_quiet [OF quiet_sendErrorAndClose]
  by (auto simp: catching_def split: prod.splits option.splits exn.splits)

lemma closed_message_body: "closed_as w r \<Longrightarrow> closed_as w (snd (message_body rt now i frame r))"
  using closed_quiet [OF quiet_sendErrorAndClose, of w r]
  by (simp add: message_body_def) (simp add: closed_as_def)

lemma closed_step: "closed_as w r \<Longrightarrow> closed_as w (room_step rt r e)"
proof (induction e)
  case (SecretChecked now k)
  then have "closed_as w (r\<lparr>pending := ps\<rparr>)" for ps by (simp add: closed_as_def)
  with SecretChecked show ?case
    by (auto simp: secret_checked_def Let_def bind_verified_def
        intro!: closed_catching closed_bind_role closed_quiet [OF quiet_sendErrorAndClose])
next
  case (CloseEvent i code reason)
  then show ?case
    by (auto simp: webSocketClose_def
        intro!: closed_seq closed_closeRoom closed_schedule closed_quiet [OF quiet_safeClose])
next
  case (ErrorEvent i)
  then show ?case
    by (auto simp: webSocketError_def ok_def
        intro!: closed_seq closed_closeRoom closed_quiet [OF quiet_safeClose])
next
  case (Message now i frame)
  then show ?case by (simp add: webSocketMessage_def closed_catching closed_message_body)
qed (auto simp: initialize_def fetch_def alarm_def ok_def upd_socket_def closed_as_def split: option.splits)

text \<open>As a quantity that never falls.\<close>

definition closed_flag :: "room \<Rightarrow> int" where
  "closed_flag r = (if \<exists>w. closed_as w r then 1 else 0)"

interpretation room_closing: monotone_system "room_step rt" closed_flag for rt
  by unfold_locales (auto simp: closed_flag_def dest: closed_step)

lemma closed_run: "closed_as w r \<Longrightarrow> closed_as w (run_steps (room_step rt) r es)"
  by (induction es arbitrary: r) (simp_all add: closed_step)

section \<open>Who becomes the listener\<close>

definition listener_bound :: "nat \<Rightarrow> room \<Rightarrow> bool" where
  "listener_bound i r \<longleftrightarrow> (\<exists>s \<in> set (sockets r). sid s = i \<and> (\<exists>a. attachment s = Some a \<and> bound a \<and> a_role a = Some Listener))"

lemma listener_bound_benign:
  "benign f \<Longrightarrow> listener_bound i (r\<lparr>sockets := map f (sockets r)\<rparr>) = listener_bound i r"
  by (auto simp: listener_bound_def attachment_benign) (auto simp: benign_def)

lemma listener_bound_quiet: "quiet m \<Longrightarrow> listener_bound i (snd (m r)) = listener_bound i r"
  unfolding quiet_def using listener_bound_benign by metis

lemma listener_bound_fields [simp]:
  "listener_bound i (r\<lparr>room_row := x\<rparr>) = listener_bound i r"
  "listener_bound i (r\<lparr>room_alarm := y\<rparr>) = listener_bound i r"
  "listener_bound i (r\<lparr>pending := z\<rparr>) = listener_bound i r"
  "listener_bound i (update_row f r) = listener_bound i r"
  by (simp_all add: listener_bound_def update_row_def)

lemma listener_bound_schedule [simp]: "listener_bound i (snd (scheduleNextAlarm r)) = listener_bound i r"
  by (simp add: scheduleNextAlarm_def ok_def split: option.splits)

lemma listener_bound_seq:
  assumes "\<And>r. listener_bound i (snd (m r)) \<Longrightarrow> listener_bound i r"
    and "\<And>r. listener_bound i (snd (k r)) \<Longrightarrow> listener_bound i r"
    and "listener_bound i (snd (seq m k r))"
  shows "listener_bound i r"
  using assms(1) [of r] assms(2) [of "snd (m r)"] assms(3) by (simp add: snd_seq split: if_splits)

lemma attachment_attach:
  "attachment (attach a role s) =
     (if a_version a = SIGNAL_PROTOCOL_VERSION then Some (a\<lparr>bound := True, a_role := Some role\<rparr>) else None)"
  by (simp add: attachment_def)

lemma listener_bound_closeRoom [simp]:
  "listener_bound i (snd (closeRoom rt reason src e code r)) = listener_bound i r"
  by (simp add: closeRoom_def ok_def listener_bound_quiet [OF quiet_closing_loop])

lemma listener_bound_announce:
  "listener_bound k (snd (announce_bind i l j role n r)) \<Longrightarrow> listener_bound k r"
  unfolding announce_bind_def
  by (rule listener_bound_seq [OF iffD1 [OF listener_bound_quiet [OF quiet_safeSend]]
        listener_bound_seq [OF iffD1 [OF listener_bound_quiet [OF quiet_ready]] iffD1 [OF listener_bound_schedule]]])

lemma listener_bound_bind_role:
  assumes "listener_bound k (snd (bind_role rt now i a role w r))" "\<not> listener_bound k r"
  shows "k = i \<and> role = Listener"
proof (cases rule: bind_role_cases [of role i r rt now a w])
  case occupied
  then show ?thesis using assms listener_bound_quiet [OF quiet_sendErrorAndClose] by simp
next
  case (free l j lc)
  with assms(1) have "listener_bound k (upd_socket i (attach a role) r)"
    using listener_bound_announce by fastforce
  with assms(2) show ?thesis
    by (auto simp: listener_bound_def upd_socket_def attachment_attach split: if_splits)
qed

lemma listener_bound_catching:
  "listener_bound i (snd (catching rt j m r)) = listener_bound i (snd (m r))"
  using listener_bound_quiet [OF quiet_sendErrorAndClose]
  by (auto simp: catching_def split: prod.splits option.splits exn.splits)

lemma listener_bound_bindSocket:
  "listener_bound k (snd (bindSocket rt now i a message w r)) \<Longrightarrow> listener_bound k r"
  using listener_bound_quiet [OF quiet_sendErrorAndClose]
    listener_bound_bind_role [of k rt now i a Joiner w r]
  by (auto simp: bindSocket_def Let_def ok_def split: ClientSignalMessage.splits if_splits)

lemma listener_bound_forward:
  "listener_bound k (snd (forward rt i a m w r)) \<longleftrightarrow> listener_bound k r"
  using listener_bound_quiet [OF quiet_sendErrorAndClose] listener_bound_quiet [OF quiet_safeSendSerialized]
  by (auto simp: forward_def throw_def split: option.splits)

lemma listener_bound_message_body:
  "listener_bound k (snd (message_body rt now i frame r)) \<Longrightarrow> listener_bound k r"
  by (auto simp: message_body_def throw_def listener_bound_quiet [OF quiet_sendErrorAndClose] listener_bound_forward
      dest: listener_bound_bindSocket split: option.splits sum.splits ClientSignalMessage.splits if_splits)

lemma listener_bound_fetch: "listener_bound k (snd (fetch rt now uuid g u r)) \<Longrightarrow> listener_bound k r"
  by (auto simp: fetch_def split: option.splits if_splits)
    (auto simp: accept_socket_def listener_bound_def attachment_def)

lemma listener_bound_alarm: "listener_bound k (snd (alarm rt now r)) \<Longrightarrow> listener_bound k r"
proof -
  have q: "quiet (seqs (map (\<lambda>s. if bind_overdue now s
      then sendErrorAndClose rt (sid s) unexpected_message ''bind deadline exceeded'' SIGNAL_POLICY_CLOSE_CODE
      else ok) ss))" for ss
    by (intro quiet_seqs) (auto intro: inv_intros)
  show "listener_bound k (snd (alarm rt now r)) \<Longrightarrow> ?thesis"
    by (auto simp: alarm_def ok_def snd_seq listener_bound_quiet [OF q] split: option.splits if_splits)
qed

lemma listener_bound_secret_checked:
  assumes "listener_bound i (secret_checked rt now k r)" "\<not> listener_bound i r"
  shows "k < length (pending r) \<and> pb_socket (pending r ! k) = i
    \<and> verifyListenerSecret (rt_sha256 rt) (pb_secret (pending r ! k)) (listener_secret_hash (pb_row (pending r ! k)))"
proof -
  have k: "k < length (pending r)" using assms by (auto simp: secret_checked_def split: if_splits)
  let ?p = "pending r ! k"
  let ?r = "r\<lparr>pending := take k (pending r) @ drop (Suc k) (pending r)\<rparr>"
  have b: "listener_bound i (snd (bind_verified rt now ?p ?r))"
    using assms(1) k by (simp add: secret_checked_def Let_def listener_bound_catching)
  have v: "verifyListenerSecret (rt_sha256 rt) (pb_secret ?p) (listener_secret_hash (pb_row ?p))"
    using b assms(2) listener_bound_quiet [OF quiet_sendErrorAndClose]
    by (auto simp: bind_verified_def split: if_splits)
  with b assms(2) listener_bound_bind_role [of i rt now "pb_socket ?p" "pb_attachment ?p" Listener "pb_row ?p" ?r] k
  show ?thesis by (simp add: bind_verified_def)
qed

lemma listener_bound_step:
  assumes "listener_bound i (room_step rt r e)" "\<not> listener_bound i r"
  obtains now k where "e = SecretChecked now k"
proof (cases e)
  case (Gone j st)
  have "benign (\<lambda>s. s\<lparr>readyState := (if st = OPEN \<or> st = CONNECTING then CLOSED else st)\<rparr>)"
    by (auto simp: benign_def)
  from upd_socket_benign [OF this, of j r] assms Gone show ?thesis
    using listener_bound_benign by (auto simp del: if_image_distrib)
next
  case (CloseEvent j code reason)
  with assms show ?thesis
    by (auto simp: webSocketClose_def snd_seq listener_bound_quiet [OF quiet_safeClose] split: if_splits)
next
  case (ErrorEvent j)
  with assms show ?thesis
    by (auto simp: webSocketError_def ok_def snd_seq listener_bound_quiet [OF quiet_safeClose] split: if_splits)
next
  case (Initialize j)
  with assms show ?thesis by (auto simp: initialize_def split: if_splits option.splits)
next
  case (Message now j f)
  with assms show ?thesis
    by (auto simp: webSocketMessage_def listener_bound_catching dest: listener_bound_message_body)
next
  case (AlarmFires now)
  with assms show ?thesis using listener_bound_alarm [of i rt now "r\<lparr>room_alarm := None\<rparr>"] by simp
next
  case (Fetch now u g h)
  with assms show ?thesis by (auto dest: listener_bound_fetch)
qed (use assms that in \<open>auto simp: listener_bound_def\<close>)

section \<open>What closing and relaying do\<close>

lemma room_sockets_update: "r\<lparr>sockets := sockets r\<rparr> = r"
  by simp

lemma seqs_upd_socket:
  assumes "distinct (map sid ss)" "\<And>i s. sid (F i s) = sid s"
    and "\<And>s r. s \<in> set ss \<Longrightarrow> h s r = (None, upd_socket (sid s) (F (sid s)) r)"
  shows "seqs (map h ss) r =
    (None, r\<lparr>sockets := map (\<lambda>s. if sid s \<in> sid ` set ss then F (sid s) s else s) (sockets r)\<rparr>)"
  using assms(1,3)
proof (induction ss arbitrary: r)
  case Nil
  then show ?case by (simp add: seqs_def ok_def)
next
  case (Cons x xs)
  then have "seqs (map h (x # xs)) r = seqs (map h xs) (upd_socket (sid x) (F (sid x)) r)"
    by (simp add: seqs_def seq_def)
  also have "\<dots> = (None, (upd_socket (sid x) (F (sid x)) r)\<lparr>sockets :=
      map (\<lambda>s. if sid s \<in> sid ` set xs then F (sid s) s else s) (sockets (upd_socket (sid x) (F (sid x)) r))\<rparr>)"
    using Cons by (intro Cons.IH) auto
  also have "\<dots> = (None, r\<lparr>sockets := map (\<lambda>s. if sid s \<in> sid ` set (x # xs) then F (sid s) s else s) (sockets r)\<rparr>)"
    using Cons.prems(1) assms(2) by (auto simp: upd_socket_def)
  finally show ?case .
qed

text \<open>The effect of \<open>closeRoom\<close> on one socket.\<close>

definition closing_text :: "signal_error option \<Rightarrow> js_string" where
  "closing_text e = JSON_stringify int_num (server_json (closing_message e))"

definition closed_socket :: "runtime \<Rightarrow> string \<Rightarrow> nat option \<Rightarrow> signal_error option \<Rightarrow> nat \<Rightarrow> nat \<Rightarrow> socket \<Rightarrow> socket" where
  "closed_socket rt reason source e code i s = close_socket rt code (js reason)
     (if Some i \<noteq> source \<and> readyState s = OPEN then s\<lparr>sent := sent s @ [closing_text e]\<rparr> else s)"

lemma serialize_closing: "serializeSignalMessage (closing_message e) = Some (closing_text e)"
  by (cases e) (simp_all add: serializeSignalMessage_def closing_message_def closing_text_def u16_length_def)

lemma u16_take_all: "ascii s \<Longrightarrow> length s \<le> n \<Longrightarrow> u16_take n s = s"
  by (induction n s rule: u16_take.induct) (auto simp: ascii_def)

lemma sid_close_socket: "sid (close_socket rt c t s) = sid s"
  by (simp add: close_socket_def)

lemma closeRoom_effect:
  assumes "distinct (map sid (sockets r))" "room_row r = Some w" "lifecycle w \<noteq> Closed"
  shows "closeRoom rt reason source e code r =
    (None, r\<lparr>room_row := Some (w\<lparr>lifecycle := Closed, terminal_reason := Some (js reason)\<rparr>), room_alarm := None,
       sockets := map (\<lambda>s. closed_socket rt reason source e code (sid s) s) (sockets r)\<rparr>)"
proof -
  let ?F = "closed_socket rt reason source e code"
  let ?h = "\<lambda>s. seq (if Some (sid s) \<noteq> source then safeSend (sid s) (closing_message e) else ok)
                  (safeClose rt (sid s) code (js reason))"
  have h: "?h s r = (None, upd_socket (sid s) (?F (sid s)) r)" for s r
    by (auto simp: seq_def safeSend_def serialize_closing safeSendSerialized_def safeClose_def ok_def upd_socket_def
        closed_socket_def)
  have "seqs (map ?h (sockets r)) r' =
      (None, r'\<lparr>sockets := map (\<lambda>s. if sid s \<in> sid ` set (sockets r) then ?F (sid s) s else s) (sockets r')\<rparr>)" for r'
    by (rule seqs_upd_socket [OF assms(1) _ h]) (simp add: closed_socket_def sid_close_socket)
  then show ?thesis using assms(2,3) by (simp add: closeRoom_def room_open_def update_row_def)
qed

lemma find_socket_upd:
  assumes "\<And>s. sid (f s) = sid s"
  shows "find_socket j (upd_socket i f r) = (if j = i then map_option f (find_socket j r) else find_socket j r)"
proof -
  have "List.find (\<lambda>s. sid s = j) (map (\<lambda>s. if sid s = i then f s else s) ss) =
      (if j = i then map_option f (List.find (\<lambda>s. sid s = j) ss) else List.find (\<lambda>s. sid s = j) ss)" for ss
    using assms by (induction ss) auto
  then show ?thesis by (simp add: find_socket_def upd_socket_def)
qed

lemma find_socket_row [simp]: "find_socket j (update_row f r) = find_socket j r"
  by (simp add: find_socket_def update_row_def)

lemma find_socket_in:
  assumes "distinct (map sid (sockets r))" "s \<in> set (sockets r)"
  shows "find_socket (sid s) r = Some s"
proof -
  have "distinct (map sid ss) \<Longrightarrow> s \<in> set ss \<Longrightarrow> List.find (\<lambda>t. sid t = sid s) ss = Some s" for ss
    by (induction ss) (auto simp: image_iff)
  with assms show ?thesis by (simp add: find_socket_def)
qed

lemma sendErrorAndClose_others:
  assumes "j \<noteq> i"
  shows "find_socket j (snd (sendErrorAndClose rt i c m code r)) = find_socket j r"
    and "room_row (snd (sendErrorAndClose rt i c m code r)) = room_row r"
proof -
  show "room_row (snd (sendErrorAndClose rt i c m code r)) = room_row r"
    by (rule quiet_fields [OF quiet_sendErrorAndClose])
  show "find_socket j (snd (sendErrorAndClose rt i c m code r)) = find_socket j r"
    using assms
    by (auto simp: sendErrorAndClose_def snd_seq safeSend_def safeSendSerialized_def safeClose_def throw_def ok_def
        find_socket_upd sid_close_socket split: option.splits)
qed

lemma seq_quiet_catching: "fst (m r) = None \<Longrightarrow> catching rt i m r = m r"
  by (auto simp: catching_def split: prod.splits option.splits)

text \<open>When \<open>forward\<close> accepts a message, and what it does then.\<close>

definition relay_allowed :: "SignalRole \<Rightarrow> relay_message \<Rightarrow> js_string \<Rightarrow> SignalRoomRow \<Rightarrow> bool" where
  "relay_allowed role m encoded w \<longleftrightarrow> legal_description role m w
     \<and> forwarded_bytes w + utf8_length encoded \<le> MAX_SIGNAL_FORWARDED_BYTES
     \<and> (is_candidate m \<longrightarrow> role_candidates role w < MAX_SIGNAL_CANDIDATES_PER_PEER)"

lemma forward_cases:
  assumes "a_role a = Some role" "relay_ok m"
  defines "encoded \<equiv> JSON_stringify int_num (relay_json m)"
  obtains (delivered) peer where "boundSocket (other_role role) None r = Some peer" "relay_allowed role m encoded w"
      "forward rt i a m w r = safeSendSerialized peer encoded (update_row (count_message role m (utf8_length encoded)) r)"
  | (refused) c t where "boundSocket (other_role role) None r = None \<or> \<not> relay_allowed role m encoded w"
      "t \<noteq> []" "length t \<le> 256"
      "forward rt i a m w r = sendErrorAndClose rt i c t SIGNAL_POLICY_CLOSE_CODE r"
proof -
  have ser: "serializeSignalMessage (Relayed m) = Some encoded"
    using assms(2) by (simp add: serializeSignalMessage_def encoded_def)
  consider "boundSocket (other_role role) None r = None"
    | peer where "boundSocket (other_role role) None r = Some peer" "\<not> legal_description role m w"
    | peer where "boundSocket (other_role role) None r = Some peer" "legal_description role m w"
        "MAX_SIGNAL_FORWARDED_BYTES < forwarded_bytes w + utf8_length encoded"
    | peer where "boundSocket (other_role role) None r = Some peer" "legal_description role m w"
        "forwarded_bytes w + utf8_length encoded \<le> MAX_SIGNAL_FORWARDED_BYTES" "is_candidate m"
        "MAX_SIGNAL_CANDIDATES_PER_PEER \<le> role_candidates role w"
    | peer where "boundSocket (other_role role) None r = Some peer" "relay_allowed role m encoded w"
    unfolding relay_allowed_def by (metis not_le option.exhaust)
  then show thesis
  proof cases
    case 5
    then show ?thesis
      using assms(1) ser by (intro delivered) (auto simp: forward_def relay_allowed_def)
  qed (use assms(1) ser in \<open>auto intro!: refused simp: forward_def relay_allowed_def not_le not_less\<close>)
qed

lemma alarm_expired:
  assumes "room_inv r" "room_row r = Some w" "lifecycle w \<noteq> Closed" "expires_at w \<le> now"
  shows "room_step rt r (AlarmFires now) =
    r\<lparr>room_row := Some (w\<lparr>lifecycle := Closed, terminal_reason := Some (js ''expired'')\<rparr>), room_alarm := None,
      sockets := map (\<lambda>s. closed_socket rt ''expired'' None (Some room_expired) 1001 (sid s) s) (sockets r)\<rparr>"
proof -
  have "distinct (map sid (sockets r))" using assms(1) by (simp add: room_inv_def sockets_inv_def)
  then have "closeRoom rt ''expired'' None (Some room_expired) SIGNAL_EXPIRED_CLOSE_CODE (r\<lparr>room_alarm := None\<rparr>) =
      (None, r\<lparr>room_row := Some (w\<lparr>lifecycle := Closed, terminal_reason := Some (js ''expired'')\<rparr>), room_alarm := None,
        sockets := map (\<lambda>s. closed_socket rt ''expired'' None (Some room_expired) 1001 (sid s) s) (sockets r)\<rparr>)"
    using closeRoom_effect [of "r\<lparr>room_alarm := None\<rparr>" w] assms(2,3) by (simp add: SIGNAL_EXPIRED_CLOSE_CODE_def)
  then show ?thesis using assms(2-4) by (simp add: alarm_def del: js_simps)
qed

section \<open>A sample session\<close>

text \<open>
  A room with a listener on socket 0 and a joiner on socket 1, used to exhibit the
  properties; the digest of the sample runtime is constant.
\<close>

abbreviation sample_rt :: runtime where
  "sample_rt \<equiv> \<lparr>rt_sha256 = (\<lambda>_. replicate 32 0), rt_close_ok = (\<lambda>_. True)\<rparr>"

abbreviation sample_init :: InitializeSignalRoomInput where
  "sample_init \<equiv> \<lparr>in_version = 1, in_hash = replicate 64 48, in_createdAt = 0, in_expiresAt = 600000\<rparr>"

abbreviation client_frame :: "ClientSignalMessage \<Rightarrow> ws_frame" where
  "client_frame m \<equiv> TextFrame (JSON_stringify int_num (client_json m))"

abbreviation sample_secret :: js_string where
  "sample_secret \<equiv> encodeBase64Url (replicate 32 0)"

abbreviation sample_connect :: "room_event list" where
  "sample_connect \<equiv> [Initialize sample_init, Fetch 0 [7] True (Some (js ''websocket'')), Fetch 0 [8] True (Some (js ''WebSocket''))]"

abbreviation sample_row :: SignalRoomRow where
  "sample_row \<equiv> \<lparr>row_version = 1, lifecycle = ListenerCreated, created_at = 0, expires_at = 600000,
     listener_secret_hash = replicate 64 48, listener_candidates = 0, joiner_candidates = 0, forwarded_bytes = 0,
     offer_seen = 0, answer_seen = 0, terminal_reason = None\<rparr>"

abbreviation sample_attachment :: "nat \<Rightarrow> SignalSocketAttachment" where
  "sample_attachment n \<equiv> \<lparr>a_version = 1, sessionId = [n], connectedAt = 0, bound = False, a_role = None\<rparr>"

abbreviation sample_socket :: "nat \<Rightarrow> SignalSocketAttachment \<Rightarrow> js_string list \<Rightarrow> socket" where
  "sample_socket i a ms \<equiv> \<lparr>sid = i, readyState = OPEN, ws_attachment = Some a, sent = ms, close_call = None\<rparr>"

lemma sample_connected: "run_steps (room_step sample_rt) new_room sample_connect =
    \<lparr>room_row = Some sample_row, sockets = [sample_socket 0 (sample_attachment 7) [], sample_socket 1 (sample_attachment 8) []],
     room_alarm = Some 5000, pending = [], next_sid = 2\<rparr>"
proof -
  have "list_all lower_hex (replicate 64 48)" by (simp add: list_all_iff lower_hex_def is_digit_def)
  moreover have "map ascii_lower (js ''WebSocket'') = js ''websocket''" "map ascii_lower (js ''websocket'') = js ''websocket''"
    by (simp_all add: ascii_lower_def)
  ultimately show ?thesis
    by (simp add: new_room_def initialize_def valid_initialization_def safe_integer_def fetch_def accept_socket_def
        scheduleNextAlarm_def attachment_def ok_def SIGNAL_PROTOCOL_VERSION_def SIGNAL_BIND_DEADLINE_MS_def
        del: js_simps)
qed

lemma sample_text_length:
  "encodedBytes (JSON_stringify int_num (client_json BindJoiner)) \<le> MAX_SIGNAL_FRAME_BYTES"
  "encodedBytes (JSON_stringify int_num (client_json (Relay (Description Offer (js ''v=0''))))) \<le> MAX_SIGNAL_FRAME_BYTES"
proof -
  let ?t = "''{\"v\":1,\"type\":\"description\",\"sdp_type\":\"offer\",\"sdp\":\"v=0\"}''"
  let ?j = "''{\"v\":1,\"type\":\"bind\",\"role\":\"joiner\"}''"
  have "JSON_stringify int_num (client_json (Relay (Description Offer (js ''v=0'')))) = js ?t"
    "JSON_stringify int_num (client_json BindJoiner) = js ?j"
    by (simp_all add: typed_def quote_string_def quote_char_def int_num_def int_digits_def nat_digits.simps
        SIGNAL_PROTOCOL_VERSION_def)
  moreover have "ascii (js ?t)" "ascii (js ?j)" by (simp_all add: ascii_def)
  ultimately show
    "encodedBytes (JSON_stringify int_num (client_json BindJoiner)) \<le> MAX_SIGNAL_FRAME_BYTES"
    "encodedBytes (JSON_stringify int_num (client_json (Relay (Description Offer (js ''v=0''))))) \<le> MAX_SIGNAL_FRAME_BYTES"
    by (simp_all add: encodedBytes_def utf8_length_ascii MAX_SIGNAL_FRAME_BYTES_def del: js_simps client_json.simps)
qed

lemma sample_secret_text:
  "encodedBytes (JSON_stringify int_num (client_json (BindListener sample_secret))) \<le> MAX_SIGNAL_FRAME_BYTES"
proof -
  have a: "ascii sample_secret" by (rule encode_ascii)
  have "list_all url_char sample_secret" using b64_chars by (auto simp: encodeBase64Url_eq list_all_iff)
  moreover have "list_all url_char s \<Longrightarrow> concat (map quote_char s) = s" for s
    by (induction s) (auto simp: quote_char_def url_char_def is_digit_def)
  ultimately have q: "concat (map quote_char sample_secret) = sample_secret" by blast
  let ?p = "''{\"v\":1,\"type\":\"bind\",\"role\":\"listener\",\"secret\":\"''"
  have "JSON_stringify int_num (client_json (BindListener sample_secret)) = js ?p @ sample_secret @ js (CHR 0x22 # ''}'')"
    using q by (simp add: typed_def quote_string_def quote_char_def int_num_def int_digits_def nat_digits.simps
        SIGNAL_PROTOCOL_VERSION_def)
  moreover have "ascii (js ?p)" "ascii (js (CHR 0x22 # ''}''))" by (simp_all add: ascii_def)
  moreover have "length sample_secret = 43"
    using generateListenerSecret_32 [of "replicate 32 0"] by (simp add: SIGNAL_LISTENER_SECRET_BYTES_def)
  ultimately show ?thesis
    using a by (simp add: encodedBytes_def utf8_length_ascii MAX_SIGNAL_FRAME_BYTES_def del: js_simps client_json.simps)
qed

lemma sample_parse:
  "parseSignalFrame (client_frame (BindListener sample_secret)) = Inr (BindListener sample_secret)"
  "parseSignalFrame (client_frame BindJoiner) = Inr BindJoiner"
  "parseSignalFrame (client_frame (Relay (Description Offer (js ''v=0'')))) = Inr (Relay (Description Offer (js ''v=0'')))"
proof -
  have "generateListenerSecret (replicate 32 0) = Inr sample_secret"
    using generateListenerSecret_32 [of "replicate 32 0"] by (simp add: SIGNAL_LISTENER_SECRET_BYTES_def)
  then have "validListenerSecret sample_secret" "list_all scalar_value sample_secret"
    using validListenerSecret_generated [of "replicate 32 0"] by (simp_all add: SIGNAL_LISTENER_SECRET_BYTES_def)
  then show "parseSignalFrame (client_frame (BindListener sample_secret)) = Inr (BindListener sample_secret)"
    by (intro parse_client_text sample_secret_text) simp_all
  show "parseSignalFrame (client_frame BindJoiner) = Inr BindJoiner"
    by (intro parse_client_text sample_text_length) simp_all
  have "ascii (js ''v=0'')" by (simp add: ascii_def)
  then have "sdp_ok (js ''v=0'')"
    by (simp add: sdp_ok_def encodedBytes_def utf8_length_ascii u16_length_ascii MAX_SIGNAL_SDP_BYTES_def del: js_simps)
  then show "parseSignalFrame (client_frame (Relay (Description Offer (js ''v=0'')))) = Inr (Relay (Description Offer (js ''v=0'')))"
    using js_scalar by (intro parse_client_text sample_text_length) (simp_all del: js_simps)
qed

lemma sample_verified: "verifyListenerSecret (\<lambda>_. replicate 32 0) s (replicate 64 48)"
proof -
  have "bytesToHex (replicate 32 0) = replicate 64 48"
  proof -
    have "bytesToHex (replicate n 0) = replicate (2 * n) 48" for n
      by (induction n) (simp_all add: bytesToHex_def hex_digit_def)
    from this [of 32] show ?thesis by simp
  qed
  then show ?thesis
    using verify_hash [of "\<lambda>_. replicate 32 0" "[]" s] by (simp add: hashListenerSecret_def hashListenerSecretHex_def)
qed

abbreviation sample_listen :: "room_event list" where
  "sample_listen \<equiv> [Message 1 0 (client_frame (BindListener sample_secret)), SecretChecked 2 0]"

abbreviation bound_as :: "SignalRole \<Rightarrow> nat \<Rightarrow> SignalSocketAttachment" where
  "bound_as role n \<equiv> \<lparr>a_version = 1, sessionId = [n], connectedAt = 0, bound = True, a_role = Some role\<rparr>"

abbreviation server_text :: "ServerSignalMessage \<Rightarrow> js_string" where
  "server_text m \<equiv> JSON_stringify int_num (server_json m)"

lemmas room_eval = webSocketMessage_def catching_def message_body_def find_socket_def attachment_def
  bindSocket_def bind_role_def announce_bind_def boundSocket_def holds_role_def upd_socket_def update_row_def
  safeSend_def safeSendSerialized_def serializeSignalMessage_def scheduleNextAlarm_def ok_def seq_def
  expires_in_def SIGNAL_PROTOCOL_VERSION_def SIGNAL_BIND_DEADLINE_MS_def Let_def

abbreviation sample_listening :: room where
  "sample_listening \<equiv> \<lparr>room_row = Some (sample_row\<lparr>lifecycle := ListenerBound\<rparr>),
     sockets = [sample_socket 0 (bound_as Listener 7) [server_text (Bound Listener 600)], sample_socket 1 (sample_attachment 8) []],
     room_alarm = Some 5000, pending = [], next_sid = 2\<rparr>"

lemma sample_listened:
  "run_steps (room_step sample_rt) new_room (sample_connect @ sample_listen) = sample_listening"
proof -
  have "room_step sample_rt (run_steps (room_step sample_rt) new_room sample_connect)
      (Message 1 0 (client_frame (BindListener sample_secret))) =
    \<lparr>room_row = Some sample_row, sockets = [sample_socket 0 (sample_attachment 7) [], sample_socket 1 (sample_attachment 8) []],
     room_alarm = Some 5000,
     pending = [\<lparr>pb_socket = 0, pb_attachment = sample_attachment 7, pb_secret = sample_secret, pb_row = sample_row\<rparr>],
     next_sid = 2\<rparr>"
    unfolding sample_connected
    by (simp add: room_eval sample_parse del: client_json.simps server_json.simps js_simps)
  then show ?thesis
    by (simp add: secret_checked_def bind_verified_def sample_verified room_eval
        del: client_json.simps server_json.simps js_simps room_step.simps(1-3))
qed

abbreviation sample_pair :: "room_event list" where
  "sample_pair \<equiv> sample_connect @ sample_listen @ [Message 3 1 (client_frame BindJoiner)]"

abbreviation sample_paired :: room where
  "sample_paired \<equiv> \<lparr>room_row = Some (sample_row\<lparr>lifecycle := Paired\<rparr>),
     sockets = [sample_socket 0 (bound_as Listener 7) [server_text (Bound Listener 600), server_text PeerReady],
       sample_socket 1 (bound_as Joiner 8) [server_text (Bound Joiner 600), server_text PeerReady]],
     room_alarm = Some 600000, pending = [], next_sid = 2\<rparr>"

lemma sample_paired_run: "run_steps (room_step sample_rt) new_room sample_pair = sample_paired"
proof -
  have "run_steps (room_step sample_rt) new_room sample_pair =
      room_step sample_rt (run_steps (room_step sample_rt) new_room (sample_connect @ sample_listen))
        (Message 3 1 (client_frame BindJoiner))"
    by (simp only: run_steps_append run_steps.simps append_assoc)
  also have "\<dots> = sample_paired"
    unfolding sample_listened by (simp add: room_eval sample_parse del: client_json.simps server_json.simps js_simps)
  finally show ?thesis .
qed

section \<open>Properties\<close>

text \<open>
  C33: in every run of the room, whatever the runtime delivers and in whatever order: at
  most four sockets are attached, each role is held by at most one OPEN socket, at most 16
  candidates per peer and 1 MiB in total were relayed, an answer was relayed only after an
  offer and each at most once, an open room has an alarm set no later than its expiry and
  than the bind deadline of every unbound socket, and a closed room has no alarm.
\<close>

theorem room_invariant:
  fixes rt es
  defines "r \<equiv> run_steps (room_step rt) new_room es"
  shows "length (sockets r) \<le> 4
    \<and> (\<forall>role. \<forall>s \<in> set (sockets r). \<forall>t \<in> set (sockets r). holds_role role s \<longrightarrow> holds_role role t \<longrightarrow> s = t)
    \<and> (\<forall>w. room_row r = Some w \<longrightarrow>
         listener_candidates w \<le> 16 \<and> joiner_candidates w \<le> 16 \<and> forwarded_bytes w \<le> 1048576
         \<and> answer_seen w \<le> offer_seen w \<and> offer_seen w \<le> 1
         \<and> (if lifecycle w = Closed then room_alarm r = None
            else \<exists>t. room_alarm r = Some t \<and> t \<le> expires_at w \<and> (\<forall>s \<in> set (sockets r). unbound_by t s)))"
proof -
  have inv: "room_inv r" unfolding r_def by (rule room_inv_run)
  have d: "distinct (map sid (sockets r))" and o: "one_per_role (sockets r)" and l: "length (sockets r) \<le> 4"
    using inv by (simp_all add: room_inv_def sockets_inv_def)
  have "s = t" if "s \<in> set (sockets r)" "t \<in> set (sockets r)" "holds_role role s" "holds_role role t" for role s t
    using one_per_roleD [OF o that] d that(1,2) by (auto simp: distinct_map dest: inj_onD)
  moreover have "alarm_inv r" "\<And>w. room_row r = Some w \<Longrightarrow> row_inv w" using inv by (simp_all add: room_inv_def)
  ultimately show ?thesis
    using l by (auto simp: row_inv_def alarm_inv_def MAX_SIGNAL_CANDIDATES_PER_PEER_def MAX_SIGNAL_FORWARDED_BYTES_def)
qed

theorem room_invariant_witness:
  "room_row (run_steps (room_step sample_rt) new_room sample_pair) = Some (sample_row\<lparr>lifecycle := Paired\<rparr>)
    \<and> length (filter (holds_role Listener) (sockets (run_steps (room_step sample_rt) new_room sample_pair))) = 1
    \<and> (\<exists>t. room_alarm (run_steps (room_step sample_rt) new_room sample_pair) = Some t \<and> t \<le> 600000)"
proof -
  have "\<exists>t. room_alarm (run_steps (room_step sample_rt) new_room sample_pair) = Some t \<and> t \<le> expires_at sample_row"
    using room_invariant [of sample_rt sample_pair] unfolding sample_paired_run by simp
  then show ?thesis
    unfolding sample_paired_run by (simp add: holds_role_def attachment_def SIGNAL_PROTOCOL_VERSION_def)
qed

text \<open>
  C34: only the holder of the secret becomes the listener: if a step of a run binds a socket
  as listener that was not bound as listener before, then the step is the completion of a
  bind that socket sent, and the secret it sent has the digest stored in the room.
\<close>

theorem listener_authenticated:
  fixes rt es
  defines "r \<equiv> run_steps (room_step rt) new_room es"
  assumes "\<not> listener_bound i r" and "listener_bound i (room_step rt r e)"
  shows "\<exists>now k w. e = SecretChecked now k \<and> k < length (pending r) \<and> pb_socket (pending r ! k) = i
    \<and> room_row r = Some w
    \<and> verifyListenerSecret (rt_sha256 rt) (pb_secret (pending r ! k)) (listener_secret_hash w)"
proof -
  obtain now k where e: "e = SecretChecked now k" using listener_bound_step [OF assms(3,2)] .
  with assms(2,3) have k: "k < length (pending r)" "pb_socket (pending r ! k) = i"
    and v: "verifyListenerSecret (rt_sha256 rt) (pb_secret (pending r ! k)) (listener_secret_hash (pb_row (pending r ! k)))"
    using listener_bound_secret_checked [of i rt now k r] by auto
  have "pending_inv r" using room_inv_run [of rt es] by (simp add: r_def room_inv_def)
  with k(1) obtain w where "room_row r = Some w" "listener_secret_hash (pb_row (pending r ! k)) = listener_secret_hash w"
    unfolding pending_inv_def by (meson nth_mem)
  with e k v show ?thesis by metis
qed

theorem listener_authenticated_witness:
  "\<exists>now k w. SecretChecked 2 0 = SecretChecked now k
    \<and> room_row (run_steps (room_step sample_rt) new_room (sample_connect @ [Message 1 0 (client_frame (BindListener sample_secret))])) = Some w
    \<and> verifyListenerSecret (rt_sha256 sample_rt) sample_secret (listener_secret_hash w)"
proof -
  let ?es = "sample_connect @ [Message 1 0 (client_frame (BindListener sample_secret))]"
  let ?r = "run_steps (room_step sample_rt) new_room ?es"
  have r: "?r = \<lparr>room_row = Some sample_row, sockets = [sample_socket 0 (sample_attachment 7) [], sample_socket 1 (sample_attachment 8) []],
     room_alarm = Some 5000,
     pending = [\<lparr>pb_socket = 0, pb_attachment = sample_attachment 7, pb_secret = sample_secret, pb_row = sample_row\<rparr>],
     next_sid = 2\<rparr>"
    unfolding run_steps_append sample_connected
    by (simp add: room_eval sample_parse del: client_json.simps server_json.simps js_simps)
  have "room_step sample_rt ?r (SecretChecked 2 0) = sample_listening"
    using sample_listened by (simp only: run_steps_append run_steps.simps append_assoc append.simps)
  then have "listener_bound 0 (room_step sample_rt ?r (SecretChecked 2 0))"
    by (simp only:) (simp add: listener_bound_def attachment_def SIGNAL_PROTOCOL_VERSION_def)
  moreover have "\<not> listener_bound 0 ?r"
    unfolding r by (simp add: listener_bound_def attachment_def SIGNAL_PROTOCOL_VERSION_def)
  ultimately obtain now k w where a: "SecretChecked 2 0 = SecretChecked now k" "k < length (pending ?r)"
    "room_row ?r = Some w"
    "verifyListenerSecret (rt_sha256 sample_rt) (pb_secret (pending ?r ! k)) (listener_secret_hash w)"
    using listener_authenticated [of 0 sample_rt ?es "SecretChecked 2 0"] by blast
  then have "pb_secret (pending ?r ! k) = sample_secret" unfolding r by simp
  with a show ?thesis by metis
qed

text \<open>
  C35: the relay, in a reachable open room that has not expired: a message a bound socket
  sends reaches the open socket of the other role, as the JSON text of that message and
  after everything sent to it before, exactly when there is such a socket and the message
  is within the protocol order and the limits; then only the counters of the row change and
  no other socket does.  Otherwise the row and all sockets but the sender's are unchanged.
\<close>

theorem relay_exact:
  fixes rt es
  defines "r \<equiv> run_steps (room_step rt) new_room es"
  assumes "room_row r = Some w" and "lifecycle w \<noteq> Closed" and "now < expires_at w"
    and "find_socket i r = Some s" and "attachment s = Some a" and "bound a" and "a_role a = Some role"
    and "parseSignalFrame frame = Inr (Relay m)"
  shows "\<exists>r'. webSocketMessage rt now i frame r = (None, r') \<and>
    (case boundSocket (other_role role) None r of
       Some peer \<Rightarrow>
         if relay_allowed role m (JSON_stringify int_num (relay_json m)) w
         then peer \<noteq> i \<and> (\<exists>t. find_socket peer r = Some t
                \<and> find_socket peer r' = Some (t\<lparr>sent := sent t @ [JSON_stringify int_num (relay_json m)]\<rparr>))
           \<and> (\<forall>j. j \<noteq> peer \<longrightarrow> find_socket j r' = find_socket j r)
           \<and> room_row r' = Some (count_message role m (utf8_length (JSON_stringify int_num (relay_json m))) w)
         else room_row r' = room_row r \<and> (\<forall>j. j \<noteq> i \<longrightarrow> find_socket j r' = find_socket j r)
     | None \<Rightarrow> room_row r' = room_row r \<and> (\<forall>j. j \<noteq> i \<longrightarrow> find_socket j r' = find_socket j r))"
proof -
  let ?t = "JSON_stringify int_num (relay_json m)"
  have d: "distinct (map sid (sockets r))"
    using room_inv_run [of rt es] by (simp add: r_def room_inv_def sockets_inv_def)
  have body: "message_body rt now i frame r = forward rt i a m w r"
    using assms(2-9) by (simp add: message_body_def)
  have ok: "relay_ok m" using parseSignalFrame_ok [OF assms(9)] by simp
  show ?thesis
  proof (cases rule: forward_cases [OF assms(8) ok, of r w rt i, case_names delivered refused])
    case (delivered peer)
    let ?r' = "upd_socket peer (\<lambda>s. if readyState s = OPEN then s\<lparr>sent := sent s @ [?t]\<rparr> else s)
      (update_row (count_message role m (utf8_length ?t)) r)"
    have w: "webSocketMessage rt now i frame r = (None, ?r')"
      using body delivered(3) by (simp add: webSocketMessage_def seq_quiet_catching safeSendSerialized_def ok_def)
    obtain p where p: "p \<in> set (sockets r)" "sid p = peer" "holds_role (other_role role) p"
      using boundSocket_Some [OF delivered(1)] by auto
    have f: "find_socket peer r = Some p" using find_socket_in [OF d p(1)] p(2) by simp
    have "peer \<noteq> i"
      using f assms(5,6,8) p(3) by (cases role) (auto simp: holds_role_def)
    moreover have "readyState p = OPEN" using p(3) by (simp add: holds_role_def)
    ultimately have "peer \<noteq> i \<and> (\<exists>t. find_socket peer r = Some t \<and> find_socket peer ?r' = Some (t\<lparr>sent := sent t @ [?t]\<rparr>))
       \<and> (\<forall>j. j \<noteq> peer \<longrightarrow> find_socket j ?r' = find_socket j r)
       \<and> room_row ?r' = Some (count_message role m (utf8_length ?t) w)"
      using f assms(2,3) by (simp add: find_socket_upd) (simp add: upd_socket_def update_row_def)
    with w delivered(1,2) show ?thesis by auto
  next
    case (refused c t)
    let ?r' = "snd (sendErrorAndClose rt i c t SIGNAL_POLICY_CLOSE_CODE r)"
    have "fst (message_body rt now i frame r) = None"
      using body refused(2-4) fst_sendErrorAndClose by simp
    then have "webSocketMessage rt now i frame r = (None, ?r')"
      using body refused(4) by (simp add: webSocketMessage_def seq_quiet_catching prod_eq_iff)
    moreover have "room_row ?r' = room_row r" "\<forall>j. j \<noteq> i \<longrightarrow> find_socket j ?r' = find_socket j r"
      using quiet_fields(1) [OF quiet_sendErrorAndClose] sendErrorAndClose_others(1) by auto
    ultimately show ?thesis using refused(1) by (auto split: option.splits)
  qed
qed

theorem relay_exact_witness:
  "\<exists>r'. webSocketMessage sample_rt 4 1 (client_frame (Relay (Description Offer (js ''v=0''))))
        (run_steps (room_step sample_rt) new_room sample_pair) = (None, r')
    \<and> (\<exists>t. find_socket 0 (run_steps (room_step sample_rt) new_room sample_pair) = Some t
         \<and> find_socket 0 r' = Some (t\<lparr>sent := sent t @ [server_text (Relayed (Description Offer (js ''v=0'')))]\<rparr>))"
proof -
  let ?m = "Description Offer (js ''v=0'')"
  let ?text = "JSON_stringify int_num (relay_json ?m)"
  have len: "utf8_length ?text \<le> 65536"
    using sample_text_length(2) by (simp add: encodedBytes_def MAX_SIGNAL_FRAME_BYTES_def del: js_simps relay_json.simps)
  have s: "find_socket 1 sample_paired = Some (sample_socket 1 (bound_as Joiner 8) [server_text (Bound Joiner 600), server_text PeerReady])"
    "attachment (sample_socket 1 (bound_as Joiner 8) [server_text (Bound Joiner 600), server_text PeerReady]) = Some (bound_as Joiner 8)"
    "boundSocket Listener None sample_paired = Some 0"
    by (simp_all add: find_socket_def attachment_def boundSocket_def holds_role_def SIGNAL_PROTOCOL_VERSION_def
        del: server_json.simps)
  have allowed: "relay_allowed Joiner ?m ?text (sample_row\<lparr>lifecycle := Paired\<rparr>)"
    using len by (simp add: relay_allowed_def is_candidate_def MAX_SIGNAL_FORWARDED_BYTES_def del: js_simps relay_json.simps)
  show ?thesis
    using relay_exact [of sample_rt sample_pair "sample_row\<lparr>lifecycle := Paired\<rparr>" 4 1 _ "bound_as Joiner 8" Joiner
        "client_frame (Relay ?m)" ?m, unfolded sample_paired_run, OF _ _ _ s(1,2)] allowed s(3) sample_parse(3)
    unfolding sample_paired_run
    by (auto simp del: js_simps relay_json.simps client_json.simps server_json.simps simp: server_json.simps(3))
qed

text \<open>
  Closing is final: once the row of a room is closed, no later event changes it (no
  reason is overwritten, no counter moves, no role is taken again), and connecting is
  refused as not found.
\<close>

theorem closed_room_final:
  assumes "room_row (run_steps (room_step rt) new_room es) = Some w" and "lifecycle w = Closed"
  shows "room_row (run_steps (room_step rt) new_room (es @ fs)) = Some w
    \<and> fetch rt now uuid g u (run_steps (room_step rt) new_room (es @ fs))
        = (SignalResponse 404 room_not_found, run_steps (room_step rt) new_room (es @ fs))"
proof -
  have "closed_as w (run_steps (room_step rt) new_room (es @ fs))"
    using assms closed_run [of w "run_steps (room_step rt) new_room es"] by (simp add: closed_as_def)
  then show ?thesis by (simp add: closed_as_def fetch_def)
qed

theorem closed_room_final_witness:
  "room_row (run_steps (room_step sample_rt) new_room ((sample_pair @ [AlarmFires 600000]) @ [Initialize sample_init, AlarmFires 7]))
      = Some (sample_row\<lparr>lifecycle := Closed, terminal_reason := Some (js ''expired'')\<rparr>)"
proof -
  have "room_inv sample_paired" using room_inv_run [of sample_rt sample_pair] unfolding sample_paired_run .
  then have "room_row (run_steps (room_step sample_rt) new_room (sample_pair @ [AlarmFires 600000])) =
      Some (sample_row\<lparr>lifecycle := Closed, terminal_reason := Some (js ''expired'')\<rparr>)"
    using alarm_expired [of sample_paired "sample_row\<lparr>lifecycle := Paired\<rparr>" 600000 sample_rt]
    unfolding run_steps_append [of _ _ sample_pair] sample_paired_run
    by (simp del: room_step.simps js_simps)
  moreover have "lifecycle (sample_row\<lparr>lifecycle := Closed, terminal_reason := Some (js ''expired'')\<rparr>) = Closed" by simp
  ultimately show ?thesis by (rule conjunct1 [OF closed_room_final])
qed

text \<open>
  Expiry ends every room: in a reachable open room the alarm at or after the expiry
  closes the row with reason \<open>expired\<close>, clears the alarm, and leaves no socket OPEN; every
  socket that was open got the error frame and the close code 1001.  Assumed of the runtime
  is only that \<open>WebSocket.close\<close> accepts 1001.
\<close>

theorem expiry_closes_room:
  fixes rt es
  defines "r \<equiv> run_steps (room_step rt) new_room es"
  assumes "room_row r = Some w" and "lifecycle w \<noteq> Closed" and "expires_at w \<le> now" and "rt_close_ok rt 1001"
  shows "room_row (room_step rt r (AlarmFires now)) = Some (w\<lparr>lifecycle := Closed, terminal_reason := Some (js ''expired'')\<rparr>)
    \<and> room_alarm (room_step rt r (AlarmFires now)) = None
    \<and> map sid (sockets (room_step rt r (AlarmFires now))) = map sid (sockets r)
    \<and> (\<forall>s \<in> set (sockets (room_step rt r (AlarmFires now))). readyState s \<noteq> OPEN)
    \<and> (\<forall>s \<in> set (sockets r). readyState s = OPEN \<longrightarrow>
         s\<lparr>readyState := CLOSING, sent := sent s @ [closing_text (Some room_expired)], close_call := Some (1001, js ''expired'')\<rparr>
         \<in> set (sockets (room_step rt r (AlarmFires now))))"
proof -
  have "room_inv r" unfolding r_def by (rule room_inv_run)
  note step = alarm_expired [OF this assms(2-4)]
  have u: "u16_take 123 (js ''expired'') = js ''expired''"
    by (rule u16_take_all) (simp_all add: ascii_def)
  have "closed_socket rt ''expired'' None (Some room_expired) 1001 (sid s) s =
      s\<lparr>readyState := CLOSING, sent := sent s @ [closing_text (Some room_expired)], close_call := Some (1001, js ''expired'')\<rparr>"
    if "readyState s = OPEN" for s
    using that assms(5) u by (simp add: closed_socket_def close_socket_def del: js_simps)
  moreover have "sid (closed_socket rt ''expired'' None (Some room_expired) 1001 (sid s) s) = sid s
      \<and> readyState (closed_socket rt ''expired'' None (Some room_expired) 1001 (sid s) s) \<noteq> OPEN" for s
    using assms(5) by (auto simp: closed_socket_def close_socket_def simp del: js_simps)
  ultimately show ?thesis
    unfolding step by (auto simp del: js_simps intro: rev_image_eqI)
qed

theorem expiry_closes_room_witness:
  "room_row (room_step sample_rt (run_steps (room_step sample_rt) new_room sample_pair) (AlarmFires 600000))
      = Some (sample_row\<lparr>lifecycle := Closed, terminal_reason := Some (js ''expired'')\<rparr>)
    \<and> list_all (\<lambda>s. readyState s \<noteq> OPEN)
         (sockets (room_step sample_rt (run_steps (room_step sample_rt) new_room sample_pair) (AlarmFires 600000)))"
  using expiry_closes_room [of sample_rt sample_pair "sample_row\<lparr>lifecycle := Paired\<rparr>" 600000]
  unfolding sample_paired_run by (simp add: list_all_iff del: room_step.simps js_simps)

section \<open>Two corner cases\<close>

text \<open>
  A socket that disconnects while its digest is being computed is bound all the same: its
  close callback saw an unbound socket, the continuation does not look at the ready state,
  and the row says \<open>listener-bound\<close> although no open socket holds the role.
\<close>

lemma bind_after_disconnect:
  "let r = run_steps (room_step sample_rt) new_room
       (sample_connect @ [Message 1 0 (client_frame (BindListener sample_secret)), Gone 0 CLOSED,
          CloseEvent 0 1001 [], SecretChecked 2 0])
   in map_option lifecycle (room_row r) = Some ListenerBound \<and> filter (holds_role Listener) (sockets r) = []"
  unfolding run_steps_append sample_connected
  by (simp add: room_eval sample_parse webSocketClose_def is_bound_def safeClose_def close_socket_def
      secret_checked_def bind_verified_def sample_verified
      del: client_json.simps server_json.simps js_simps)

text \<open>
  A room with the longest lifetime whose object's clock is behind the creator's by any
  amount refuses every bind: the remaining seconds round up to 3601, the schema of the
  \<open>bound\<close> message allows 3600, and the error closes the socket that was just bound.
\<close>

lemma bind_with_clock_skew:
  "let r = run_steps (room_step sample_rt) new_room
       [Initialize \<lparr>in_version = 1, in_hash = replicate 64 48, in_createdAt = 1000, in_expiresAt = 3601000\<rparr>,
        Fetch 500 [8] True (Some (js ''websocket'')), Message 600 0 (client_frame BindJoiner)]
   in map (\<lambda>s. (readyState s, map_option bound (ws_attachment s), sent s)) (sockets r) =
        [(CLOSING, Some True, [server_text (ErrorMsg internal_error (js ''internal signaling error''))])]"
proof -
  have "list_all lower_hex (replicate 64 48)" by (simp add: list_all_iff lower_hex_def is_digit_def)
  moreover have "map ascii_lower (js ''websocket'') = js ''websocket''" by (simp add: ascii_lower_def)
  moreover have "u16_length (js ''internal signaling error'') = 24"
    by (simp add: u16_length_def)
  ultimately show ?thesis
    by (simp add: new_room_def initialize_def valid_initialization_def safe_integer_def fetch_def accept_socket_def
        room_eval throw_def sample_parse sendErrorAndClose_def safeClose_def close_socket_def
        del: client_json.simps server_json.simps js_simps)
qed

end
