(* ===== verification/SignalRoutes.thy ===== *)
theory SignalRoutes
  imports Http Code SignalRoom
begin

text \<open>
  \<open>apps/rendez-key/src/routes/create-signal-room.ts\<close> and \<open>connect-signal-room.ts\<close>.  The
  namespace \<open>SIGNAL_ROOMS\<close> maps a code to its room, \<open>new_room\<close> where none was ever
  initialized.  A call to a room may fail before it ran or after its effect was committed;
  \<open>rpc attempt try\<close> says which, for the two tries of each attempt.
\<close>

definition MAX_CODE_ATTEMPTS :: nat where
  "MAX_CODE_ATTEMPTS = 5"

text \<open>\<open>requestSchema\<close>: a strict object with \<open>v: 1\<close> and an optional lifetime.\<close>

definition requestSchema :: "json \<Rightarrow> int option" where
  "requestSchema j = (case j of
     JObj fs \<Rightarrow>
       if set (map fst fs) \<subseteq> {js ''v'', js ''ttl_seconds''}
          \<and> json_field ''v'' j = Some (JNum (of_int SIGNAL_PROTOCOL_VERSION))
       then (case json_field ''ttl_seconds'' j of
               None \<Rightarrow> Some DEFAULT_SIGNAL_TTL_SECONDS
             | Some (JNum r) \<Rightarrow> int_in MIN_SIGNAL_TTL_SECONDS MAX_SIGNAL_TTL_SECONDS r
             | Some _ \<Rightarrow> None)
       else None
   | _ \<Rightarrow> None)"

type_synonym rooms = "js_string \<Rightarrow> room"

datatype rpc_fate = Answered | LostBefore | LostAfter

record SignalRoomAllocation =
  al_code :: js_string
  al_listenerSecret :: js_string
  al_expiresAt :: int

text \<open>One call of \<open>stub.initialize\<close>: \<open>None\<close> is a rejected promise.\<close>

definition call_initialize :: "rpc_fate \<Rightarrow> js_string \<Rightarrow> InitializeSignalRoomInput \<Rightarrow> rooms
    \<Rightarrow> InitializeSignalRoomResult option \<times> rooms" where
  "call_initialize fate code input rooms = (case fate of
     LostBefore \<Rightarrow> (None, rooms)
   | LostAfter \<Rightarrow> (None, rooms(code := snd (initialize input (rooms code))))
   | Answered \<Rightarrow> (fst (initialize input (rooms code)), rooms(code := snd (initialize input (rooms code)))))"

definition initialize_twice :: "(nat \<Rightarrow> rpc_fate) \<Rightarrow> js_string \<Rightarrow> InitializeSignalRoomInput \<Rightarrow> rooms
    \<Rightarrow> InitializeSignalRoomResult option \<times> rooms" where
  "initialize_twice fate code input rooms = (case call_initialize (fate 0) code input rooms of
     (Some result, rooms') \<Rightarrow> (Some result, rooms')
   | (None, rooms') \<Rightarrow> call_initialize (fate 1) code input rooms')"

datatype allocation_error = AllocCode code_error | AllocSecret secret_error

text \<open>The loop: \<open>n\<close> attempts are left; each draws a code from five random bytes.\<close>

fun allocate_attempts :: "nat \<Rightarrow> (nat \<Rightarrow> byte list) \<Rightarrow> (nat \<Rightarrow> nat \<Rightarrow> rpc_fate) \<Rightarrow> InitializeSignalRoomInput \<Rightarrow> js_string \<Rightarrow> rooms
    \<Rightarrow> (allocation_error + SignalRoomAllocation option) \<times> rooms" where
  "allocate_attempts 0 draws rpc input secret rooms = (Inr None, rooms)"
| "allocate_attempts (Suc n) draws rpc input secret rooms = (case generateCode (draws 0) of
     Inl e \<Rightarrow> (Inl (AllocCode e), rooms)
   | Inr code \<Rightarrow> (case initialize_twice (rpc 0) code input rooms of
       (Some result, rooms') \<Rightarrow>
         if res_created result \<or> res_matchesInput result
         then (Inr (Some \<lparr>al_code = code, al_listenerSecret = secret, al_expiresAt = in_expiresAt input\<rparr>), rooms')
         else allocate_attempts n (\<lambda>k. draws (Suc k)) (\<lambda>k. rpc (Suc k)) input secret rooms'
     | (None, rooms') \<Rightarrow> allocate_attempts n (\<lambda>k. draws (Suc k)) (\<lambda>k. rpc (Suc k)) input secret rooms'))"

definition allocateSignalRoom :: "(byte list \<Rightarrow> byte list) \<Rightarrow> int \<Rightarrow> byte list \<Rightarrow> (nat \<Rightarrow> byte list) \<Rightarrow> (nat \<Rightarrow> nat \<Rightarrow> rpc_fate)
    \<Rightarrow> int \<Rightarrow> rooms \<Rightarrow> (allocation_error + SignalRoomAllocation option) \<times> rooms" where
  "allocateSignalRoom sha256 nowMs secretBytes draws rpc ttlSeconds rooms =
     (let createdAt = nowMs; expiresAt = createdAt + ttlSeconds * 1000
      in (case generateListenerSecret secretBytes of
            Inl e \<Rightarrow> (Inl (AllocSecret e), rooms)
          | Inr listenerSecret \<Rightarrow>
              allocate_attempts MAX_CODE_ATTEMPTS draws rpc
                \<lparr>in_version = SIGNAL_PROTOCOL_VERSION, in_hash = hashListenerSecretHex sha256 listenerSecret,
                 in_createdAt = createdAt, in_expiresAt = expiresAt\<rparr>
                listenerSecret rooms))"

text \<open>\<open>bodyText\<close> is \<open>None\<close> when reading the body fails; \<open>c.req.json()\<close> parses it.\<close>

definition createSignalRoomRoute :: "(byte list \<Rightarrow> byte list) \<Rightarrow> js_string option \<Rightarrow> int \<Rightarrow> byte list \<Rightarrow> (nat \<Rightarrow> byte list)
    \<Rightarrow> (nat \<Rightarrow> nat \<Rightarrow> rpc_fate) \<Rightarrow> rooms \<Rightarrow> (allocation_error + response) \<times> rooms" where
  "createSignalRoomRoute sha256 bodyText nowMs secretBytes draws rpc rooms =
     (case Option.bind bodyText JSON_parse of
        None \<Rightarrow> (Inr (problem 400 ''invalid_request'' ''Invalid JSON request'' None), rooms)
      | Some j \<Rightarrow> (case requestSchema j of
          None \<Rightarrow> (Inr (problem 400 ''invalid_request'' ''Invalid signaling room request'' None), rooms)
        | Some ttl \<Rightarrow> (case allocateSignalRoom sha256 nowMs secretBytes draws rpc ttl rooms of
            (Inl e, rooms') \<Rightarrow> (Inl e, rooms')
          | (Inr (Some a), rooms') \<Rightarrow>
              (Inr \<lparr>status = 201, headers = [], body = JsonBody (JObj
                 [(js ''v'', JNum (of_int SIGNAL_PROTOCOL_VERSION)), (js ''code'', JStr (formatCode (al_code a))),
                  (js ''listener_secret'', JStr (al_listenerSecret a)),
                  (js ''expires_at'', JStr (toISOString (al_expiresAt a)))])\<rparr>, rooms')
          | (Inr None, rooms') \<Rightarrow>
              (Inr (problem 503 ''code_generation_failed'' ''Unable to allocate signaling room'' None), rooms'))))"

datatype connect_response = NotFound response | FromRoom fetch_response

definition connectSignalRoomRoute :: "runtime \<Rightarrow> (nat \<Rightarrow> js_string) \<Rightarrow> js_string \<Rightarrow> int \<Rightarrow> js_string \<Rightarrow> bool \<Rightarrow> js_string option
    \<Rightarrow> rooms \<Rightarrow> connect_response \<times> rooms" where
  "connectSignalRoomRoute rt up codeParam now uuid is_get upgrade rooms = (case normalizeCode up codeParam of
     None \<Rightarrow> (NotFound (problem 404 ''room_not_found'' ''Room is unavailable'' None), rooms)
   | Some code \<Rightarrow> (FromRoom (fst (fetch rt now uuid is_get upgrade (rooms code))),
       rooms(code := snd (fetch rt now uuid is_get upgrade (rooms code)))))"

section \<open>Lemmas\<close>

text \<open>Initializing an initialized room changes nothing.\<close>

lemma initialize_existing:
  "room_row r = Some w \<Longrightarrow> valid_initialization i \<Longrightarrow>
     initialize i r = (Some \<lparr>res_created = False, res_matchesInput = (listener_secret_hash w = in_hash i),
                     res_lifecycle = lifecycle w, res_expiresAt = expires_at w\<rparr>, r)"
  by (simp add: initialize_def)

text \<open>A later state of the namespace: initialized rooms are unchanged.\<close>

definition keeps_rooms :: "rooms \<Rightarrow> rooms \<Rightarrow> bool" where
  "keeps_rooms rs rs' \<longleftrightarrow> (\<forall>c. room_row (rs c) \<noteq> None \<longrightarrow> rs' c = rs c)"

lemma keeps_rooms_refl: "keeps_rooms rs rs"
  by (simp add: keeps_rooms_def)

lemma keeps_rooms_trans: "keeps_rooms a b \<Longrightarrow> keeps_rooms b c \<Longrightarrow> keeps_rooms a c"
  by (metis keeps_rooms_def)

lemma keeps_initialize: "keeps_rooms rs (rs(c := snd (initialize i (rs c))))"
  by (auto simp: keeps_rooms_def initialize_def)

lemma keeps_call: "keeps_rooms rs (snd (call_initialize f c i rs))"
  by (auto simp: call_initialize_def keeps_initialize keeps_rooms_refl split: rpc_fate.splits)

lemma keeps_twice: "keeps_rooms rs (snd (initialize_twice f c i rs))"
  using keeps_call [of rs "f 0" c i] keeps_call [of "snd (call_initialize (f 0) c i rs)" "f 1" c i]
  by (auto simp: initialize_twice_def split: prod.splits option.splits intro: keeps_rooms_trans)

lemma initialize_owner:
  assumes "initialize i r = (Some res, r')" "res_created res \<or> res_matchesInput res"
  shows "\<exists>w. room_row r' = Some w \<and> listener_secret_hash w = in_hash i"
  using assms by (auto simp: initialize_def split: if_splits option.splits)

lemma call_owner:
  assumes "call_initialize f c i rs = (Some res, rs')" "res_created res \<or> res_matchesInput res"
  shows "\<exists>w. room_row (rs' c) = Some w \<and> listener_secret_hash w = in_hash i"
  using assms initialize_owner [of i "rs c"]
  by (cases "initialize i (rs c)") (auto simp: call_initialize_def split: rpc_fate.splits)

lemma twice_owner:
  assumes "initialize_twice f c i rs = (Some res, rs')" "res_created res \<or> res_matchesInput res"
  shows "\<exists>w. room_row (rs' c) = Some w \<and> listener_secret_hash w = in_hash i"
  using assms call_owner by (auto simp: initialize_twice_def split: prod.splits option.splits)

lemma allocate_attempts_owner:
  assumes "allocate_attempts n draws rpc i secret rs = (Inr (Some a), rs')"
  shows "valid_code (al_code a) \<and> al_listenerSecret a = secret \<and> al_expiresAt a = in_expiresAt i
    \<and> (\<exists>w. room_row (rs' (al_code a)) = Some w \<and> listener_secret_hash w = in_hash i)"
  using assms
proof (induction n arbitrary: draws rpc rs)
  case (Suc n)
  obtain c where c: "generateCode (draws 0) = Inr c" by (simp add: generateCode_eq)
  obtain res rs1 where t: "initialize_twice (rpc 0) c i rs = (res, rs1)" by force
  show ?case
  proof (cases "\<exists>x. res = Some x \<and> (res_created x \<or> res_matchesInput x)")
    case True
    then obtain x where x: "res = Some x" "res_created x \<or> res_matchesInput x" by blast
    with Suc.prems c t have "a = \<lparr>al_code = c, al_listenerSecret = secret, al_expiresAt = in_expiresAt i\<rparr>" "rs' = rs1"
      by auto
    with twice_owner [of "rpc 0" c i rs x rs1] t x generateCode_valid [OF c] show ?thesis by simp
  next
    case False
    with Suc.prems c t have "allocate_attempts n (\<lambda>k. draws (Suc k)) (\<lambda>k. rpc (Suc k)) i secret rs1 = (Inr (Some a), rs')"
      by (auto split: option.splits if_splits)
    from Suc.IH [OF this] show ?thesis .
  qed
qed simp

lemma keeps_allocate: "keeps_rooms rs (snd (allocate_attempts n draws rpc i secret rs))"
proof (induction n arbitrary: draws rpc rs)
  case (Suc n)
  show ?case
    using keeps_twice [of rs "rpc 0" _ i] Suc
    by (auto simp: split: prod.splits option.splits sum.splits intro: keeps_rooms_trans keeps_rooms_refl)
      (metis keeps_rooms_trans keeps_twice snd_conv)+
qed (simp add: keeps_rooms_refl)

lemma allocate_attempts_returns: "\<exists>a rs'. allocate_attempts n draws rpc i secret rs = (Inr a, rs')"
proof (induction n arbitrary: draws rpc rs)
  case (Suc n)
  then show ?case by (auto simp: generateCode_eq split: prod.splits option.splits)
qed simp

lemma hash_of_secret:
  assumes "\<And>m. length (sha256 m) = 32"
  shows "verifyListenerSecret sha256 s (hashListenerSecretHex sha256 s)"
  using verify_hash [of sha256 s s] assms by (simp add: hashListenerSecret_def)

section \<open>Property\<close>

text \<open>
  C36: room creation always answers (201, 400 or 503), never touches a room that was already
  initialized, whatever calls fail, before or after their effect; and a 201 answer hands
  out a code and a secret that belong together: the displayed code connects to a room whose
  stored digest accepts that secret.
\<close>

theorem createSignalRoom_owned:
  assumes "length raw = SIGNAL_LISTENER_SECRET_BYTES" and "\<And>m. length (sha256 m) = 32"
  shows "\<exists>resp rs'. createSignalRoomRoute sha256 text now raw draws rpc rs = (Inr resp, rs')
    \<and> status resp \<in> {201, 400, 503} \<and> (\<forall>c. room_row (rs c) \<noteq> None \<longrightarrow> rs' c = rs c)
    \<and> (status resp = 201 \<longrightarrow> (\<exists>code secret expires w.
         body resp = JsonBody (JObj [(js ''v'', JNum 1), (js ''code'', JStr (formatCode code)),
           (js ''listener_secret'', JStr secret), (js ''expires_at'', JStr expires)])
         \<and> normalizeCode up (formatCode code) = Some code \<and> room_row (rs' code) = Some w
         \<and> verifyListenerSecret sha256 secret (listener_secret_hash w)))"
proof -
  have s: "generateListenerSecret raw = Inr (encodeBase64Url raw)"
    using generateListenerSecret_32 [OF assms(1)] by simp
  let ?i = "\<lambda>ttl. \<lparr>in_version = SIGNAL_PROTOCOL_VERSION, in_hash = hashListenerSecretHex sha256 (encodeBase64Url raw),
      in_createdAt = now, in_expiresAt = now + ttl * 1000\<rparr>"
  consider "Option.bind text JSON_parse = None"
    | j where "Option.bind text JSON_parse = Some j" "requestSchema j = None"
    | j ttl where "Option.bind text JSON_parse = Some j" "requestSchema j = Some ttl"
    by (metis option.exhaust)
  then show ?thesis
  proof cases
    case 1
    then show ?thesis by (simp add: createSignalRoomRoute_def problem_def)
  next
    case 2
    then show ?thesis by (simp add: createSignalRoomRoute_def problem_def)
  next
    case (3 j ttl)
    note j = this
    obtain a rs' where a: "allocate_attempts MAX_CODE_ATTEMPTS draws rpc (?i ttl) (encodeBase64Url raw) rs = (Inr a, rs')"
      using allocate_attempts_returns by blast
    have k: "\<forall>c. room_row (rs c) \<noteq> None \<longrightarrow> rs' c = rs c"
      using keeps_allocate [of rs MAX_CODE_ATTEMPTS draws rpc "?i ttl" "encodeBase64Url raw"] a by (simp add: keeps_rooms_def)
    show ?thesis
    proof (cases a)
      case None
      with a j s k show ?thesis by (simp add: createSignalRoomRoute_def allocateSignalRoom_def problem_def)
    next
      case (Some al)
      obtain w where w: "valid_code (al_code al)" "al_listenerSecret al = encodeBase64Url raw"
        "room_row (rs' (al_code al)) = Some w" "listener_secret_hash w = hashListenerSecretHex sha256 (encodeBase64Url raw)"
        using allocate_attempts_owner [OF a [unfolded Some]] by auto
      have "normalizeCode up (formatCode (al_code al)) = Some (al_code al)"
        using normalizeCode_typed [OF formatCode_typed(1) [OF w(1)] w(1)] .
      with w Some a j s k hash_of_secret [of sha256, OF assms(2)] show ?thesis
        by (auto simp: createSignalRoomRoute_def allocateSignalRoom_def SIGNAL_PROTOCOL_VERSION_def simp del: js_simps)
    qed
  qed
qed

abbreviation sample_body :: js_string where
  "sample_body \<equiv> JSON_stringify int_num (JObj [(js ''v'', JNum 1)])"

abbreviation lost_once :: "nat \<Rightarrow> nat \<Rightarrow> rpc_fate" where
  "lost_once \<equiv> \<lambda>attempt try. if try = 0 then LostAfter else Answered"

lemma allocate_first:
  "generateCode (draws 0) = Inr c \<Longrightarrow> initialize_twice (rpc 0) c i rs = (Some res, rs') \<Longrightarrow>
     res_created res \<or> res_matchesInput res \<Longrightarrow>
     allocate_attempts (Suc n) draws rpc i s rs =
       (Inr (Some \<lparr>al_code = c, al_listenerSecret = s, al_expiresAt = in_expiresAt i\<rparr>), rs')"
  by auto

lemma sample_room_created:
  "\<exists>resp rs'. createSignalRoomRoute (\<lambda>_. replicate 32 0) (Some sample_body) 0 (replicate 32 1) (\<lambda>_. [0, 0, 0, 0, 0])
      lost_once (\<lambda>_. new_room) = (Inr resp, rs') \<and> status resp = 201"
proof -
  let ?sha = "\<lambda>_ :: byte list. replicate 32 (0 :: byte)"
  let ?secret = "encodeBase64Url (replicate 32 1)"
  let ?i = "\<lparr>in_version = 1, in_hash = hashListenerSecretHex ?sha ?secret, in_createdAt = 0, in_expiresAt = 600000\<rparr>"
  have "num_ok int_num 1" using num_ok_int [of 1] by simp
  then have p: "JSON_parse sample_body = Some (JObj [(js ''v'', JNum 1)])"
    by (intro JSON_roundtrip) (simp add: js_scalar del: js_simps)
  have q: "requestSchema (JObj [(js ''v'', JNum 1)]) = Some 600"
    by (simp add: requestSchema_def SIGNAL_PROTOCOL_VERSION_def DEFAULT_SIGNAL_TTL_SECONDS_def)
  have g: "generateListenerSecret (replicate 32 1) = Inr ?secret"
    using generateListenerSecret_32 [of "replicate 32 1"] by (simp add: SIGNAL_LISTENER_SECRET_BYTES_def)
  obtain c where c: "generateCode [0, 0, 0, 0, 0] = Inr c" by (simp add: generateCode_eq)
  have "hexToBytes (hashListenerSecretHex ?sha ?secret) = Some (replicate 32 0)"
    using hexToBytes_bytesToHex [of "replicate 32 0"] by (simp add: hashListenerSecretHex_def hashListenerSecret_def)
  then have v: "valid_initialization ?i"
    by (simp add: valid_initialization_def safe_integer_def SIGNAL_PROTOCOL_VERSION_def hexToBytes_def split: if_splits)
  obtain res rs' where t: "initialize_twice (lost_once 0) c ?i (\<lambda>_. new_room) = (Some res, rs')" "res_matchesInput res"
    using v by (simp add: initialize_twice_def call_initialize_def initialize_def new_room_def)
  have m: "MAX_CODE_ATTEMPTS = Suc 4" by (simp add: MAX_CODE_ATTEMPTS_def)
  have "allocate_attempts MAX_CODE_ATTEMPTS (\<lambda>_. [0, 0, 0, 0, 0]) lost_once ?i ?secret (\<lambda>_. new_room) =
      (Inr (Some \<lparr>al_code = c, al_listenerSecret = ?secret, al_expiresAt = 600000\<rparr>), rs')"
    unfolding m using allocate_first [of "\<lambda>_. [0, 0, 0, 0, 0]" c lost_once ?i "\<lambda>_. new_room" res rs' 4 ?secret] c t
    by (simp only: disjI2 InitializeSignalRoomInput.select_convs)
  then have "allocateSignalRoom ?sha 0 (replicate 32 1) (\<lambda>_. [0, 0, 0, 0, 0]) lost_once 600 (\<lambda>_. new_room) =
      (Inr (Some \<lparr>al_code = c, al_listenerSecret = ?secret, al_expiresAt = 600000\<rparr>), rs')"
    using g by (simp add: allocateSignalRoom_def SIGNAL_PROTOCOL_VERSION_def)
  then show ?thesis using p q by (simp add: createSignalRoomRoute_def del: js_simps JSON_stringify.simps)
qed

theorem createSignalRoom_owned_witness:
  "\<exists>resp rs' code secret w. createSignalRoomRoute (\<lambda>_. replicate 32 0) (Some sample_body) 0 (replicate 32 1)
      (\<lambda>_. [0, 0, 0, 0, 0]) lost_once (\<lambda>_. new_room) = (Inr resp, rs') \<and> status resp = 201
    \<and> normalizeCode (\<lambda>c. [c]) (formatCode code) = Some code \<and> room_row (rs' code) = Some w
    \<and> verifyListenerSecret (\<lambda>_. replicate 32 0) secret (listener_secret_hash w)"
proof -
  have 1: "length (replicate 32 (1 :: byte)) = SIGNAL_LISTENER_SECRET_BYTES" by (simp add: SIGNAL_LISTENER_SECRET_BYTES_def)
  have 2: "length ((\<lambda>_. replicate 32 (0 :: byte)) m) = 32" for m :: "byte list" by simp
  obtain resp rs' where r: "createSignalRoomRoute (\<lambda>_. replicate 32 0) (Some sample_body) 0 (replicate 32 1)
      (\<lambda>_. [0, 0, 0, 0, 0]) lost_once (\<lambda>_. new_room) = (Inr resp, rs')" "status resp = 201"
    using sample_room_created by blast
  from createSignalRoom_owned [OF 1, of "\<lambda>_. replicate 32 0", OF 2, of "Some sample_body" 0 "\<lambda>_. [0, 0, 0, 0, 0]"
      lost_once "\<lambda>_. new_room" "\<lambda>c. [c]", unfolded r(1)] r(2)
  have "\<exists>code secret w. normalizeCode (\<lambda>c. [c]) (formatCode code) = Some code \<and> room_row (rs' code) = Some w
      \<and> verifyListenerSecret (\<lambda>_. replicate 32 0) secret (listener_secret_hash w)"
    by (auto simp del: js_simps)
  with r show ?thesis by blast
qed

end
