(* ===== verification/App.thy ===== *)
theory App
  imports EntryRoutes SignalRoutes
begin

text \<open>
  \<open>apps/rendez-key/src/app.ts\<close> and \<open>index.ts\<close>: the service as a whole.  Its state is the
  entry table and the signaling rooms.  A request is what the handlers read of it; the path
  is split at slashes and percent-decoded, as the router does.  \<open>world\<close> holds what a handler
  takes from its surroundings (clock, randomness, outcomes of platform calls).  The pages
  \<open>/openapi.json\<close> and \<open>/docs\<close> are produced by libraries and are an argument; HEAD requests,
  which the framework answers from the GET routes, are left out.
\<close>

record app_state =
  app_db :: entries_db
  app_rooms :: rooms

record app_request =
  rq_method :: string
  rq_path :: "js_string list"
  rq_auth :: auth_request
  rq_entry :: create_request
  rq_json :: "js_string option"
  rq_upgrade :: "js_string option"

record world =
  w_now :: int
  w_draws :: "nat \<Rightarrow> byte list"
  w_secret :: "byte list"
  w_uuid :: js_string
  w_rpc :: "nat \<Rightarrow> nat \<Rightarrow> rpc_fate"
  w_update_ok :: bool

record platform =
  p_env :: auth_env
  p_runtime :: runtime
  p_upper :: "nat \<Rightarrow> js_string"
  p_page :: "string \<Rightarrow> response"

definition notFound :: response where
  "notFound = problem 404 ''not_found'' ''Route not found'' None"

definition onError :: response where
  "onError = problem 500 ''internal_error'' ''Internal server error'' None"

text \<open>The titles of the problems the two middlewares answer with.\<close>

definition auth_problem :: "nat \<Rightarrow> string \<Rightarrow> response" where
  "auth_problem st code = problem st code
     (if st = 401 then ''Unauthorized'' else if st = 429 then ''Too Many Requests''
      else ''Anonymous signaling room creation is disabled'') None"

definition or_error :: "'e + response \<Rightarrow> response" where
  "or_error r = (case r of Inl _ \<Rightarrow> onError | Inr resp \<Rightarrow> resp)"

fun fetch_http :: "fetch_response \<Rightarrow> response" where
  "fetch_http (SignalResponse st e) = \<lparr>status = st, headers = applyNoStore [],
     body = JsonBody (JObj [(js ''v'', JNum (of_int SIGNAL_PROTOCOL_VERSION)), (js ''error'', JStr (error_text e))])\<rparr>"
| "fetch_http (Upgraded i) = \<lparr>status = 101, headers = [], body = NoBody\<rparr>"

fun connect_http :: "connect_response \<Rightarrow> response" where
  "connect_http (NotFound r) = r"
| "connect_http (FromRoom f) = fetch_http f"

datatype route = Health | CreateEntry | ClaimEntry js_string | CreateRoom | ConnectRoom js_string | Page string | NoRoute

definition route_of :: "string \<Rightarrow> js_string list \<Rightarrow> route" where
  "route_of meth path =
     (if meth = ''GET'' \<and> path = [js ''healthz''] then Health
      else if meth = ''POST'' \<and> path = [js ''v1'', js ''entries''] then CreateEntry
      else if meth = ''POST'' \<and> length path = 4 \<and> take 2 path = [js ''v1'', js ''entries''] \<and> path ! 3 = js ''claim''
        then ClaimEntry (path ! 2)
      else if meth = ''POST'' \<and> path = [js ''v1'', js ''signal'', js ''rooms''] then CreateRoom
      else if meth = ''GET'' \<and> length path = 5 \<and> take 3 path = [js ''v1'', js ''signal'', js ''rooms''] \<and> path ! 4 = js ''ws''
        then ConnectRoom (path ! 3)
      else if meth = ''GET'' \<and> path = [js ''openapi.json''] then Page ''openapi.json''
      else if meth = ''GET'' \<and> path = [js ''docs''] then Page ''docs''
      else NoRoute)"

definition handle :: "platform \<Rightarrow> world \<Rightarrow> app_request \<Rightarrow> app_state \<Rightarrow> response \<times> app_state" where
  "handle p w rq st = (case route_of (rq_method rq) (rq_path rq) of
     Health \<Rightarrow> (health, st)
   | CreateEntry \<Rightarrow> (case authorizeCreate (p_env p) (rq_auth rq) of
       Problem s code \<Rightarrow> (auth_problem s code, st)
     | Next t \<Rightarrow> (case createEntryRoute t (rq_entry rq) (w_now w) (w_draws w) (app_db st) of
         (r, db') \<Rightarrow> (or_error r, st\<lparr>app_db := db'\<rparr>)))
   | ClaimEntry code \<Rightarrow> (case claimEntryRoute (p_upper p) code (w_now w) (w_uuid w) (w_update_ok w) (app_db st) of
       (r, db') \<Rightarrow> (or_error r, st\<lparr>app_db := db'\<rparr>))
   | CreateRoom \<Rightarrow> (case authorizeSignalCreate (p_env p) (rq_auth rq) of
       Problem s code \<Rightarrow> (auth_problem s code, st)
     | Next t \<Rightarrow> (case createSignalRoomRoute (rt_sha256 (p_runtime p)) (rq_json rq) (w_now w) (w_secret w) (w_draws w)
           (w_rpc w) (app_rooms st) of
         (r, rs') \<Rightarrow> (or_error r, st\<lparr>app_rooms := rs'\<rparr>)))
   | ConnectRoom code \<Rightarrow> (case connectSignalRoomRoute (p_runtime p) (p_upper p) code (w_now w) (w_uuid w)
         (rq_method rq = ''GET'') (rq_upgrade rq) (app_rooms st) of
       (r, rs') \<Rightarrow> (connect_http r, st\<lparr>app_rooms := rs'\<rparr>))
   | Page n \<Rightarrow> (p_page p n, st)
   | NoRoute \<Rightarrow> (notFound, st))"

text \<open>The \<open>use("*")\<close> middleware runs after every handler, the error handler included.\<close>

definition app_fetch :: "platform \<Rightarrow> world \<Rightarrow> app_request \<Rightarrow> app_state \<Rightarrow> response \<times> app_state" where
  "app_fetch p w rq st = (case handle p w rq st of
     (r, st') \<Rightarrow> (r\<lparr>headers := applyNoStore (headers r)\<rparr>, st'))"

text \<open>Everything that can happen to the service.\<close>

datatype service_event = Request world app_request | Scheduled int | RoomEvent js_string room_event

fun service_step :: "platform \<Rightarrow> app_state \<Rightarrow> service_event \<Rightarrow> app_state" where
  "service_step p st (Request w rq) = snd (app_fetch p w rq st)"
| "service_step p st (Scheduled ms) = st\<lparr>app_db := runCleanup (app_db st) ms\<rparr>"
| "service_step p st (RoomEvent c e) =
     st\<lparr>app_rooms := (app_rooms st)(c := room_step (p_runtime p) (app_rooms st c) e)\<rparr>"

definition new_service :: app_state where
  "new_service = \<lparr>app_db = [], app_rooms = (\<lambda>_. new_room)\<rparr>"

definition service_inv :: "app_state \<Rightarrow> bool" where
  "service_inv st \<longleftrightarrow> db_inv (app_db st) \<and> (\<forall>c. room_inv (app_rooms st c))"

section \<open>Lemmas\<close>

lemma db_inv_createEntryRoute:
  assumes "db_inv db" "createEntryRoute t rq ms draws db = (r, db')"
  shows "db_inv db'"
proof -
  have "db' = db \<or> (\<exists>c x mr. \<not> taken db c \<and> db' = db @ [\<lparr>e_code = c, e_value = bodyText rq, createdAt = epochSeconds ms,
      expiresAt = x, maxReads = mr, remainingReads = mr, lastClaimId = None\<rparr>] \<and> 1 \<le> mr \<and> mr \<le> 100)"
    using createEntryRoute_outcome [of t rq ms draws db] assms(2) by (cases t) fastforce+
  then show ?thesis
    using assms(1) by (auto simp: db_inv_def taken_def row_ok_def max_reads_range_def)
qed

lemma db_inv_claimEntryRoute:
  assumes "db_inv db" "claimEntryRoute up c ms uuid s db = (r, db')"
  shows "db_inv db'"
proof (cases "normalizeCode up c")
  case None
  then show ?thesis using assms by (simp add: claimEntryRoute_def)
next
  case (Some k)
  let ?i = "\<lparr>cl_code = k, cl_nowSeconds = epochSeconds ms, cl_claimId = uuid\<rparr>"
  have "db' = fst (claimEntry s db ?i)"
    using assms(2) Some by (auto simp: claimEntryRoute_def split: prod.splits sum.splits option.splits)
  then have "db' = db \<or> db' = entries_step db (Claim ?i)"
    by (cases s) (simp_all add: claimEntry_def Let_def)
  with assms(1) db_inv_step [OF assms(1), of "Claim ?i"] show ?thesis by metis
qed

lemma room_inv_call: "(\<forall>c. room_inv (rs c)) \<Longrightarrow> \<forall>c. room_inv (snd (call_initialize f k i rs) c)"
  by (auto simp: call_initialize_def room_inv_initialize split: rpc_fate.splits)

lemma room_inv_twice: "(\<forall>c. room_inv (rs c)) \<Longrightarrow> \<forall>c. room_inv (snd (initialize_twice f k i rs) c)"
  using room_inv_call [of rs "f 0" k i] room_inv_call [of "snd (call_initialize (f 0) k i rs)" "f 1" k i]
  by (auto simp: initialize_twice_def split: prod.splits option.splits)

lemma room_inv_allocate: "(\<forall>c. room_inv (rs c)) \<Longrightarrow> \<forall>c. room_inv (snd (allocate_attempts n draws rpc i s rs) c)"
proof (induction n arbitrary: draws rpc rs)
  case (Suc n)
  obtain k where k: "generateCode (draws 0) = Inr k" by (simp add: generateCode_eq)
  have t: "\<forall>c. room_inv (snd (initialize_twice (rpc 0) k i rs) c)"
    using Suc.prems by (rule room_inv_twice)
  from t Suc.IH [OF t, of "\<lambda>k. draws (Suc k)" "\<lambda>k. rpc (Suc k)"] show ?case
    by (auto simp: k split: prod.splits option.splits)
qed simp

lemma room_inv_createSignalRoomRoute:
  assumes "\<forall>c. room_inv (rs c)" "createSignalRoomRoute sha text now raw draws rpc rs = (r, rs')"
  shows "\<forall>c. room_inv (rs' c)"
proof -
  have "\<forall>c. room_inv (snd (allocateSignalRoom sha now raw draws rpc ttl rs) c)" for ttl
    using assms(1) room_inv_allocate by (simp add: allocateSignalRoom_def Let_def split: sum.splits)
  then show ?thesis
    using assms
    by (auto simp: createSignalRoomRoute_def split: option.splits prod.splits sum.splits) (metis snd_conv)+
qed

lemma room_inv_connect:
  assumes "\<forall>c. room_inv (rs c)" "connectSignalRoomRoute rt up code now uuid g u rs = (r, rs')"
  shows "\<forall>c. room_inv (rs' c)"
  using assms room_inv_fetch by (auto simp: connectSignalRoomRoute_def split: option.splits)

lemma service_inv_handle: "service_inv st \<Longrightarrow> service_inv (snd (handle p w rq st))"
  by (auto simp: handle_def service_inv_def split: route.splits auth_outcome.splits prod.splits
      dest: db_inv_createEntryRoute db_inv_claimEntryRoute room_inv_createSignalRoomRoute room_inv_connect)

lemma service_inv_step: "service_inv st \<Longrightarrow> service_inv (service_step p st e)"
proof (induction e)
  case (Request w rq)
  then show ?case using service_inv_handle [of st p w rq] by (cases "handle p w rq st") (simp add: app_fetch_def)
next
  case (Scheduled ms)
  then show ?case
    using db_inv_step [of "app_db st" "Cleanup (ms div 1000)"] by (simp add: service_inv_def runCleanup_def)
next
  case (RoomEvent c e)
  then show ?case by (simp add: service_inv_def room_inv_step)
qed

interpretation service_system: invariant_system "service_step p" "\<lambda>_ _. True" service_inv for p
  by unfold_locales (rule service_inv_step)

lemma service_inv_new: "service_inv new_service"
  by (simp add: service_inv_def new_service_def room_inv_new) (simp add: db_inv_def)

lemma fst_app_fetch_header: "map_of (headers (fst (app_fetch p w rq st))) ''Cache-Control'' = Some (js ''no-store'')"
  by (simp add: app_fetch_def applyNoStore_def set_header_def split: prod.splits)

section \<open>Properties\<close>

text \<open>
  C37: the service keeps its data consistent: in every run of requests, cleanups and room
  events, entry codes are unique, every entry has between zero and its maximum of reads
  left, and every room satisfies the invariant of the signaling room.
\<close>

theorem service_invariant:
  fixes p es
  defines "st \<equiv> run_steps (service_step p) new_service es"
  shows "distinct (map e_code (app_db st))
    \<and> (\<forall>r \<in> set (app_db st). 0 \<le> remainingReads r \<and> remainingReads r \<le> maxReads r \<and> maxReads r \<le> 100)
    \<and> (\<forall>c. room_inv (app_rooms st c))"
proof -
  have "service_inv st"
    unfolding st_def using service_system.inv_run [OF service_inv_new] by simp
  then show ?thesis by (auto simp: service_inv_def db_inv_def row_ok_def max_reads_range_def)
qed

abbreviation sample_platform :: platform where
  "sample_platform \<equiv> \<lparr>p_env = \<lparr>API_TOKEN = None, PUBLIC_CREATE = None, CREATE_LIMITER = None,
     PUBLIC_SIGNAL_CREATE = None, SIGNAL_CREATE_LIMITER = None\<rparr>,
     p_runtime = sample_rt, p_upper = (\<lambda>c. [c]), p_page = (\<lambda>_. notFound)\<rparr>"

abbreviation sample_world :: world where
  "sample_world \<equiv> \<lparr>w_now = 0, w_draws = (\<lambda>_. [0, 0, 0, 0, 0]), w_secret = replicate 32 0, w_uuid = [7],
     w_rpc = (\<lambda>_ _. Answered), w_update_ok = True\<rparr>"

abbreviation anonymous_create :: app_request where
  "anonymous_create \<equiv> \<lparr>rq_method = ''POST'', rq_path = [js ''v1'', js ''entries''],
     rq_auth = \<lparr>authHeader = None, connectingIp = None\<rparr>, rq_entry = sample_request, rq_json = None, rq_upgrade = None\<rparr>"

theorem service_invariant_witness:
  "room_row (app_rooms (run_steps (service_step sample_platform) new_service
      [Scheduled 0, RoomEvent [50] (Initialize sample_init)]) [50]) = Some SignalRoom.sample_row
    \<and> room_inv (app_rooms (run_steps (service_step sample_platform) new_service
      [Scheduled 0, RoomEvent [50] (Initialize sample_init)]) [50])"
proof -
  have "list_all lower_hex (replicate 64 48)" by (simp add: list_all_iff lower_hex_def is_digit_def)
  then have "room_row (app_rooms (run_steps (service_step sample_platform) new_service
      [Scheduled 0, RoomEvent [50] (Initialize sample_init)]) [50]) = Some SignalRoom.sample_row"
    by (simp add: new_service_def initialize_def valid_initialization_def safe_integer_def new_room_def
        SIGNAL_PROTOCOL_VERSION_def)
  with service_invariant [of sample_platform "[Scheduled 0, RoomEvent [50] (Initialize sample_init)]"]
  show ?thesis by blast
qed

text \<open>
  C38: no unauthorized write: a request changes the entry table or the rooms only through one
  of the four write routes, and through the two create routes only after its middleware let
  it pass; and every response, errors included, carries \<open>Cache-Control: no-store\<close>.
\<close>

theorem writes_are_authorized:
  "map_of (headers (fst (app_fetch p w rq st))) ''Cache-Control'' = Some (js ''no-store'')
    \<and> (snd (app_fetch p w rq st) \<noteq> st \<longrightarrow>
        (\<exists>t. route_of (rq_method rq) (rq_path rq) = CreateEntry \<and> authorizeCreate (p_env p) (rq_auth rq) = Next t)
        \<or> (\<exists>t. route_of (rq_method rq) (rq_path rq) = CreateRoom \<and> authorizeSignalCreate (p_env p) (rq_auth rq) = Next t)
        \<or> (\<exists>c. route_of (rq_method rq) (rq_path rq) \<in> {ClaimEntry c, ConnectRoom c}))"
  using fst_app_fetch_header [of p w rq st]
  by (auto simp: app_fetch_def handle_def split: prod.splits route.splits auth_outcome.splits)

theorem writes_are_authorized_witness:
  "snd (app_fetch sample_platform sample_world anonymous_create new_service) = new_service"
proof -
  have r: "route_of ''POST'' [js ''v1'', js ''entries''] = CreateEntry"
    by (simp add: route_of_def del: js_simps)
  moreover have "authorizeCreate (p_env sample_platform) \<lparr>authHeader = None, connectingIp = None\<rparr> = Problem 401 ''unauthorized''"
    by (simp add: authorizeCreate_def isOpenMode_def enabled_flag_def js_trim_def)
  ultimately show ?thesis
    using writes_are_authorized [of sample_platform sample_world anonymous_create new_service]
    by (auto simp del: js_simps)
qed

end
