(* ===== verification/Pipe.thy ===== *)
theory Pipe
  imports Prelude
begin

text \<open>
  \<open>packages/netsu/src/protocol/pipe.ts\<close>: the buffering shared by every transport.
  \<open>ByteBuffer\<close> is a record of its four private fields; each method returns the new buffer
  and the promises it settled.  A promise is named by the number of its \<open>readExact\<close> call.
  \<open>MemoryPipe\<close> is a pair of buffers.  The interface \<open>BytePipe\<close> is the locale
  \<open>ordered_pipe\<close>: what a reader may rely on, whatever the chunking of the transport.
\<close>

section \<open>The buffer\<close>

datatype pipe_error =
  ConcurrentReadExact
| PipeClosed
| ReadTimeout nat
| TypeError
| StillPending

datatype settlement = Resolved nat "byte list" | Rejected nat pipe_error

record waiter =
  w_n :: nat
  w_id :: nat
  w_timer :: "nat option"

record byte_buffer =
  chunks :: "byte list list"
  blength :: int
  bwaiter :: "waiter option"
  bclosed :: bool

definition new_buffer :: byte_buffer where
  "new_buffer = \<lparr>chunks = [], blength = 0, bwaiter = None, bclosed = False\<rparr>"

text \<open>
  The copy loop of \<open>pump\<close>: \<open>out\<close> holds the first \<open>offset\<close> bytes.  Reading \<open>chunks[0]\<close> of
  an empty array would be a \<open>TypeError\<close> (\<open>None\<close>).
\<close>

function pump_loop :: "nat \<Rightarrow> nat \<Rightarrow> byte list \<Rightarrow> byte list list \<Rightarrow> (byte list \<times> byte list list) option" where
  "pump_loop n offset out cs =
     (if offset < n then
        (case cs of
           [] \<Rightarrow> None
         | head # rest \<Rightarrow>
             (let t = min (length head) (n - offset)
              in pump_loop n (offset + t) (out @ take t head)
                   (if t = length head then rest else drop t head # rest)))
      else Some (out, cs))"
  by pat_completeness auto
termination
  by (relation "measure (\<lambda>(n, offset, out, cs). length cs + (n - offset))") (auto simp: min_def split: if_splits)

declare pump_loop.simps [simp del]

definition pump :: "byte_buffer \<Rightarrow> byte_buffer \<times> settlement list" where
  "pump b = (case bwaiter b of
     None \<Rightarrow> (b, [])
   | Some w \<Rightarrow>
       if blength b < int (w_n w) then (b, [])
       else (case pump_loop (w_n w) 0 [] (chunks b) of
               None \<Rightarrow> (b\<lparr>bwaiter := None\<rparr>, [Rejected (w_id w) TypeError])
             | Some (out, cs) \<Rightarrow>
                 (b\<lparr>bwaiter := None, chunks := cs, blength := blength b - int (w_n w)\<rparr>,
                  [Resolved (w_id w) out])))"

definition feed :: "byte list \<Rightarrow> byte_buffer \<Rightarrow> byte_buffer \<times> settlement list" where
  "feed d b = pump (b\<lparr>chunks := chunks b @ [d], blength := blength b + int (length d)\<rparr>)"

definition end_buffer :: "byte_buffer \<Rightarrow> byte_buffer \<times> settlement list" where
  "end_buffer b = (case bwaiter b of
     None \<Rightarrow> (b\<lparr>bclosed := True\<rparr>, [])
   | Some w \<Rightarrow> (b\<lparr>bclosed := True, bwaiter := None\<rparr>, [Rejected (w_id w) PipeClosed]))"

definition buffered :: "byte_buffer \<Rightarrow> int" where
  "buffered b = blength b"

definition hasPendingRead :: "byte_buffer \<Rightarrow> bool" where
  "hasPendingRead b \<longleftrightarrow> bwaiter b \<noteq> None"

definition readExact :: "nat \<Rightarrow> nat \<Rightarrow> nat option \<Rightarrow> byte_buffer \<Rightarrow> byte_buffer \<times> settlement list" where
  "readExact i n timeoutMs b =
     (if bwaiter b \<noteq> None then (b, [Rejected i ConcurrentReadExact])
      else
        (let b1 = b\<lparr>bwaiter := Some \<lparr>w_n = n, w_id = i, w_timer = timeoutMs\<rparr>\<rparr>
         in if bclosed b1 \<and> blength b1 < int n then end_buffer b1 else pump b1))"

text \<open>The callback of \<open>setTimeout\<close>: it can only fire while the read it belongs to is pending.\<close>

definition timer_fires :: "byte_buffer \<Rightarrow> byte_buffer \<times> settlement list" where
  "timer_fires b = (case bwaiter b of
     None \<Rightarrow> (b, [])
   | Some w \<Rightarrow> (case w_timer w of
        None \<Rightarrow> (b, [])
      | Some ms \<Rightarrow> (b\<lparr>bwaiter := None\<rparr>, [Rejected (w_id w) (ReadTimeout ms)])))"

datatype buffer_event = Feed "byte list" | Read nat nat "nat option" | Timer | End

fun buffer_step :: "byte_buffer \<Rightarrow> buffer_event \<Rightarrow> byte_buffer \<times> settlement list" where
  "buffer_step b (Feed d) = feed d b"
| "buffer_step b (Read i n t) = readExact i n t b"
| "buffer_step b Timer = timer_fires b"
| "buffer_step b End = end_buffer b"

text \<open>A buffer with the log of everything it settled.\<close>

definition logged_step :: "byte_buffer \<times> settlement list \<Rightarrow> buffer_event \<Rightarrow> byte_buffer \<times> settlement list" where
  "logged_step s e = (let (b, out) = buffer_step (fst s) e in (b, snd s @ out))"

section \<open>The in-memory pipe\<close>

datatype side = SideA | SideB

record mem_pair =
  buf_a :: byte_buffer
  buf_b :: byte_buffer

definition mem_new :: mem_pair where
  "mem_new = \<lparr>buf_a = new_buffer, buf_b = new_buffer\<rparr>"

fun mem_readExact :: "side \<Rightarrow> nat \<Rightarrow> nat \<Rightarrow> nat option \<Rightarrow> mem_pair \<Rightarrow> mem_pair \<times> settlement list" where
  "mem_readExact SideA i n t p = (let (b, out) = readExact i n t (buf_a p) in (p\<lparr>buf_a := b\<rparr>, out))"
| "mem_readExact SideB i n t p = (let (b, out) = readExact i n t (buf_b p) in (p\<lparr>buf_b := b\<rparr>, out))"

fun mem_write :: "side \<Rightarrow> byte list \<Rightarrow> mem_pair \<Rightarrow> mem_pair \<times> settlement list" where
  "mem_write SideA d p = (let (b, out) = feed d (buf_b p) in (p\<lparr>buf_b := b\<rparr>, out))"
| "mem_write SideB d p = (let (b, out) = feed d (buf_a p) in (p\<lparr>buf_a := b\<rparr>, out))"

definition mem_close :: "mem_pair \<Rightarrow> mem_pair \<times> settlement list" where
  "mem_close p =
     (let (a, out1) = end_buffer (buf_a p); (b, out2) = end_buffer (buf_b p)
      in (\<lparr>buf_a = a, buf_b = b\<rparr>, out1 @ out2))"

section \<open>Abstraction and invariant\<close>

definition contents :: "byte_buffer \<Rightarrow> byte list" where
  "contents b = concat (chunks b)"

text \<open>
  The counter agrees with the chunks, and a read waits only while the buffer is open and
  holds too few bytes for it.
\<close>

definition buffer_inv :: "byte_buffer \<Rightarrow> bool" where
  "buffer_inv b \<longleftrightarrow> blength b = int (length (contents b)) \<and>
     (case bwaiter b of None \<Rightarrow> True | Some w \<Rightarrow> \<not> bclosed b \<and> blength b < int (w_n w))"

fun resolved_bytes :: "settlement \<Rightarrow> byte list" where
  "resolved_bytes (Resolved i bs) = bs"
| "resolved_bytes (Rejected i e) = []"

fun fed_bytes :: "buffer_event \<Rightarrow> byte list" where
  "fed_bytes (Feed d) = d"
| "fed_bytes _ = []"

fun is_read :: "buffer_event \<Rightarrow> bool" where
  "is_read (Read i n t) = True"
| "is_read _ = False"

definition delivered :: "settlement list \<Rightarrow> byte list" where
  "delivered out = concat (map resolved_bytes out)"

definition pending_count :: "byte_buffer \<Rightarrow> nat" where
  "pending_count b = (if bwaiter b = None then 0 else 1)"

lemma contents_update [simp]:
  "contents (b\<lparr>chunks := cs\<rparr>) = concat cs"
  "contents (b\<lparr>blength := l\<rparr>) = contents b"
  "contents (b\<lparr>bwaiter := w\<rparr>) = contents b"
  "contents (b\<lparr>bclosed := c\<rparr>) = contents b"
  by (simp_all add: contents_def)

lemma concat_chunks: "concat (chunks b) = contents b"
  by (simp add: contents_def)

lemma buffer_inv_new [simp]: "buffer_inv new_buffer"
  by (simp add: buffer_inv_def new_buffer_def contents_def)

lemma delivered_simps [simp]:
  "delivered [] = []"
  "delivered (x # xs) = resolved_bytes x @ delivered xs"
  "delivered (xs @ ys) = delivered xs @ delivered ys"
  by (simp_all add: delivered_def)

text \<open>The loop copies exactly the next \<open>n - offset\<close> bytes and leaves the rest in order.\<close>

lemma pump_loop_correct:
  assumes "offset \<le> n" and "n - offset \<le> length (concat cs)"
  shows "\<exists>cs'. pump_loop n offset out cs = Some (out @ take (n - offset) (concat cs), cs')
    \<and> concat cs' = drop (n - offset) (concat cs)"
  using assms
proof (induction n offset out cs rule: pump_loop.induct)
  case (1 n offset out cs)
  show ?case
  proof (cases "offset < n")
    case False
    with "1.prems" have "offset = n" by simp
    then show ?thesis by (simp add: pump_loop.simps [of n n])
  next
    case True
    with "1.prems" obtain head rest where cs: "cs = head # rest"
      by (cases cs) auto
    define t where "t = min (length head) (n - offset)"
    let ?cs = "if t = length head then rest else drop t head # rest"
    have split: "concat cs = take t head @ concat ?cs"
      by (simp add: cs)
    have t: "offset + t \<le> n" "t \<le> n - offset" "length (take t head) = t"
      using True by (auto simp: t_def)
    have "n - (offset + t) \<le> length (concat ?cs)"
      using "1.prems" t arg_cong [OF split, of length] by simp
    from "1.IH" [OF True cs t_def t(1) this] obtain cs' where
      ih: "pump_loop n (offset + t) (out @ take t head) ?cs =
          Some ((out @ take t head) @ take (n - (offset + t)) (concat ?cs), cs')"
        "concat cs' = drop (n - (offset + t)) (concat ?cs)"
      by blast
    have "pump_loop n offset out cs = pump_loop n (offset + t) (out @ take t head) ?cs"
      using True by (simp add: pump_loop.simps [of n offset] cs t_def Let_def)
    moreover have "take (n - offset) (concat cs) = take t head @ take (n - (offset + t)) (concat ?cs)"
      using t by (simp only: split take_append) simp
    moreover have "drop (n - offset) (concat cs) = drop (n - (offset + t)) (concat ?cs)"
      using t by (simp only: split drop_append) simp
    ultimately show ?thesis using ih by simp
  qed
qed

text \<open>What each operation does to the contents, in one lemma per operation.\<close>

lemma pump_spec:
  assumes "blength b = int (length (contents b))"
  shows "case bwaiter b of
      None \<Rightarrow> pump b = (b, [])
    | Some w \<Rightarrow>
        if length (contents b) < w_n w then pump b = (b, [])
        else \<exists>b'. pump b = (b', [Resolved (w_id w) (take (w_n w) (contents b))])
          \<and> contents b' = drop (w_n w) (contents b) \<and> bwaiter b' = None
          \<and> bclosed b' = bclosed b \<and> buffer_inv b'"
proof (cases "bwaiter b")
  case None
  then show ?thesis by (simp add: pump_def)
next
  case (Some w)
  show ?thesis
  proof (cases "length (contents b) < w_n w")
    case True
    with Some assms show ?thesis by (simp add: pump_def)
  next
    case False
    then obtain cs where "pump_loop (w_n w) 0 [] (chunks b) = Some (take (w_n w) (contents b), cs)"
      "concat cs = drop (w_n w) (contents b)"
      using pump_loop_correct [of 0 "w_n w" "chunks b" "[]"] by (auto simp: contents_def)
    with Some False assms show ?thesis
      by (auto simp: pump_def contents_def buffer_inv_def)
  qed
qed

lemma feed_spec:
  assumes "buffer_inv b"
  shows "buffer_inv (fst (feed d b))
    \<and> contents b @ d = delivered (snd (feed d b)) @ contents (fst (feed d b))
    \<and> length (snd (feed d b)) + pending_count (fst (feed d b)) = pending_count b"
proof -
  let ?b = "b\<lparr>chunks := chunks b @ [d], blength := blength b + int (length d)\<rparr>"
  have "blength ?b = int (length (contents ?b))"
    using assms by (simp add: buffer_inv_def concat_chunks)
  from pump_spec [OF this] assms show ?thesis
    by (cases "bwaiter b")
      (auto simp: feed_def concat_chunks pending_count_def buffer_inv_def split: if_splits)
qed

lemma end_buffer_spec:
  assumes "buffer_inv b"
  shows "buffer_inv (fst (end_buffer b)) \<and> contents (fst (end_buffer b)) = contents b
    \<and> delivered (snd (end_buffer b)) = []
    \<and> length (snd (end_buffer b)) + pending_count (fst (end_buffer b)) = pending_count b"
  using assms
  by (cases "bwaiter b") (auto simp: end_buffer_def buffer_inv_def contents_def pending_count_def)

lemma timer_fires_spec:
  assumes "buffer_inv b"
  shows "buffer_inv (fst (timer_fires b)) \<and> contents (fst (timer_fires b)) = contents b
    \<and> delivered (snd (timer_fires b)) = []
    \<and> length (snd (timer_fires b)) + pending_count (fst (timer_fires b)) = pending_count b"
  using assms
  by (auto simp: timer_fires_def buffer_inv_def contents_def pending_count_def split: option.splits)

lemma readExact_idle:
  assumes "buffer_inv b" "bwaiter b = None"
  shows "if n \<le> length (contents b)
    then \<exists>b'. readExact i n t b = (b', [Resolved i (take n (contents b))])
      \<and> contents b' = drop n (contents b) \<and> bwaiter b' = None \<and> bclosed b' = bclosed b \<and> buffer_inv b'
    else if bclosed b then readExact i n t b = (b, [Rejected i PipeClosed])
    else readExact i n t b = (b\<lparr>bwaiter := Some \<lparr>w_n = n, w_id = i, w_timer = t\<rparr>\<rparr>, [])"
proof -
  let ?b = "b\<lparr>bwaiter := Some \<lparr>w_n = n, w_id = i, w_timer = t\<rparr>\<rparr>"
  have c: "contents ?b = contents b" by (simp add: contents_def)
  have len: "blength b = int (length (contents b))" using assms by (simp add: buffer_inv_def)
  have "blength ?b = int (length (contents ?b))" by (simp add: c len)
  from pump_spec [OF this] show ?thesis
    using assms len by (auto simp: readExact_def c end_buffer_def split: if_splits)
qed

lemma readExact_spec:
  assumes "buffer_inv b"
  shows "buffer_inv (fst (readExact i n t b))
    \<and> contents b = delivered (snd (readExact i n t b)) @ contents (fst (readExact i n t b))
    \<and> length (snd (readExact i n t b)) + pending_count (fst (readExact i n t b)) = Suc (pending_count b)"
proof (cases "bwaiter b")
  case None
  with assms have len: "blength b = int (length (contents b))" by (simp add: buffer_inv_def)
  with readExact_idle [OF assms None, of n i t] assms None show ?thesis
    by (auto simp: pending_count_def buffer_inv_def contents_def split: if_splits)
next
  case (Some w)
  with assms show ?thesis by (auto simp: readExact_def pending_count_def)
qed

lemma buffer_step_spec:
  assumes "buffer_inv b" "buffer_step b e = (b', out)"
  shows "buffer_inv b' \<and> contents b @ fed_bytes e = delivered out @ contents b'
    \<and> length out + pending_count b' = pending_count b + (if is_read e then 1 else 0)"
  using assms feed_spec [of b] readExact_spec [of b] timer_fires_spec [of b] end_buffer_spec [of b]
  by (cases e) (auto simp: prod_eq_iff)

text \<open>The invariant of a logged run, relative to the events that led to it.\<close>

lemma logged_run:
  "buffer_inv b \<Longrightarrow> run_steps logged_step (b, out) es = (b', out') \<Longrightarrow>
     buffer_inv b' \<and> delivered out @ contents b @ concat (map fed_bytes es) = delivered out' @ contents b'
     \<and> length out' + pending_count b' = length out + pending_count b + length (filter is_read es)"
proof (induction es arbitrary: b out)
  case Nil
  then show ?case by simp
next
  case (Cons e es)
  obtain b1 out1 where s: "buffer_step b e = (b1, out1)" by fastforce
  from buffer_step_spec [OF Cons.prems(1) s]
  have one: "buffer_inv b1" "contents b @ fed_bytes e = delivered out1 @ contents b1"
    "length out1 + pending_count b1 = pending_count b + (if is_read e then 1 else 0)" by auto
  have "run_steps logged_step (b1, out @ out1) es = (b', out')"
    using Cons.prems(2) by (simp add: logged_step_def [of "(b, out)"] s)
  from Cons.IH [OF one(1) this] one(2,3) show ?case
    by (auto simp flip: append_assoc)
qed

interpretation buffer_system: invariant_system "\<lambda>s e. logged_step s e" "\<lambda>_ _. True" "\<lambda>s. buffer_inv (fst s)"
proof
  fix s :: "byte_buffer \<times> settlement list" and e
  assume "buffer_inv (fst s)"
  then show "buffer_inv (fst (logged_step s e))"
    using buffer_step_spec [of "fst s" e] by (auto simp: logged_step_def split: prod.splits)
qed

section \<open>The interface of a byte pipe\<close>

text \<open>
  \<open>rd\<close> is an awaited \<open>readExact\<close>, \<open>wr\<close> the arrival of bytes the peer wrote, \<open>bytes\<close> what
  has arrived and was not read, \<open>ready\<close> that no read is outstanding.
\<close>

locale ordered_pipe =
  fixes rd :: "nat \<Rightarrow> 'p \<Rightarrow> pipe_error + (byte list \<times> 'p)"
    and wr :: "byte list \<Rightarrow> 'p \<Rightarrow> 'p"
    and bytes :: "'p \<Rightarrow> byte list"
    and ready :: "'p \<Rightarrow> bool"
  assumes rd_enough: "ready p \<Longrightarrow> n \<le> length (bytes p) \<Longrightarrow>
      \<exists>p'. rd n p = Inr (take n (bytes p), p') \<and> bytes p' = drop n (bytes p) \<and> ready p'"
    and rd_short: "ready p \<Longrightarrow> length (bytes p) < n \<Longrightarrow> \<exists>e. rd n p = Inl e"
    and wr_bytes: "ready p \<Longrightarrow> bytes (wr d p) = bytes p @ d"
    and wr_ready: "ready p \<Longrightarrow> ready (wr d p)"
begin

lemma rd_prefix:
  assumes "ready p" "bytes p = xs @ ys"
  shows "\<exists>p'. rd (length xs) p = Inr (xs, p') \<and> bytes p' = ys \<and> ready p'"
  using rd_enough [OF assms(1), of "length xs"] assms(2) by simp

lemma rd_prefixE:
  assumes "ready p" "bytes p = xs @ ys" "n = length xs"
  obtains p' where "rd n p = Inr (xs, p')" "bytes p' = ys" "ready p'"
  using rd_prefix [OF assms(1,2)] assms(3) by blast

lemma wr_chunks: "ready p \<Longrightarrow> ready (fold wr ds p) \<and> bytes (fold wr ds p) = bytes p @ concat ds"
  by (induction ds arbitrary: p) (simp_all add: wr_bytes wr_ready)

lemma rd_after_chunks:
  assumes "ready p" "bytes p = []" "concat ds = xs @ ys"
  shows "\<exists>p'. rd (length xs) (fold wr ds p) = Inr (xs, p') \<and> bytes p' = ys \<and> ready p'"
  using wr_chunks [OF assms(1), of ds] assms by (intro rd_prefix) simp_all

end

definition buffer_read :: "nat \<Rightarrow> byte_buffer \<Rightarrow> pipe_error + (byte list \<times> byte_buffer)" where
  "buffer_read n b = (case readExact 0 n None b of
     (b', [Resolved i bs]) \<Rightarrow> Inr (bs, b')
   | (b', [Rejected i e]) \<Rightarrow> Inl e
   | _ \<Rightarrow> Inl StillPending)"

definition buffer_idle :: "byte_buffer \<Rightarrow> bool" where
  "buffer_idle b \<longleftrightarrow> buffer_inv b \<and> bwaiter b = None"

lemma feed_idle:
  assumes "buffer_idle b"
  shows "buffer_idle (fst (feed d b)) \<and> contents (fst (feed d b)) = contents b @ d"
proof -
  from assms have "buffer_inv b" "bwaiter b = None" by (simp_all add: buffer_idle_def)
  from feed_spec [OF this(1), of d] this(2) show ?thesis
    by (auto simp: buffer_idle_def feed_def pump_def contents_def)
qed

interpretation buffer_pipe: ordered_pipe buffer_read "\<lambda>d b. fst (feed d b)" contents buffer_idle
proof
  fix b n
  assume idle: "buffer_idle b" and enough: "n \<le> length (contents b)"
  then obtain b' where "readExact 0 n None b = (b', [Resolved 0 (take n (contents b))])"
    "contents b' = drop n (contents b)" "bwaiter b' = None" "buffer_inv b'"
    using readExact_idle [of b n 0 None] by (auto simp: buffer_idle_def)
  then show "\<exists>p'. buffer_read n b = Inr (take n (contents b), p') \<and> contents p' = drop n (contents b) \<and> buffer_idle p'"
    by (auto simp: buffer_read_def buffer_idle_def)
next
  fix b n
  assume "buffer_idle b" "length (contents b) < n"
  then show "\<exists>e. buffer_read n b = Inl e"
    using readExact_idle [of b n 0 None]
    by (cases "bclosed b") (auto simp: buffer_read_def buffer_idle_def)
qed (simp_all add: feed_idle)

section \<open>Properties\<close>

text \<open>
  C18: in every run of a fresh buffer (any interleaving of arrivals, reads, timeouts and
  closing) the bytes that arrived are, in order, the bytes handed to resolved reads
  followed by the bytes still buffered: nothing is lost, duplicated or reordered.
\<close>

theorem buffer_stream_fifo:
  assumes "run_steps logged_step (new_buffer, []) es = (b, out)"
  shows "concat (map fed_bytes es) = delivered out @ contents b"
  using logged_run [OF buffer_inv_new assms] by (simp add: new_buffer_def contents_def)

theorem buffer_stream_fifo_witness:
  "\<exists>b out. run_steps logged_step (new_buffer, [])
       [Read 1 3 None, Feed [1, 2], Feed [3, 4, 5], Read 2 1 (Some 9), Read 3 9 (Some 7), Timer] = (b, out)
     \<and> out = [Resolved 1 [1, 2, 3], Resolved 2 [4], Rejected 3 (ReadTimeout 7)]
     \<and> concat (map fed_bytes
       [Read 1 3 None, Feed [1, 2], Feed [3, 4, 5], Read 2 1 (Some 9), Read 3 9 (Some 7), Timer])
       = delivered out @ contents b"
proof -
  let ?es = "[Read 1 3 None, Feed [1, 2], Feed [3, 4, 5], Read 2 1 (Some 9), Read 3 9 (Some 7), Timer]"
  obtain b out where r: "run_steps logged_step (new_buffer, []) ?es = (b, out)" by fastforce
  moreover have "out = [Resolved 1 [1, 2, 3], Resolved 2 [4], Rejected 3 (ReadTimeout 7)]"
    using r by (simp add: logged_step_def new_buffer_def readExact_def feed_def pump_def pump_loop.simps
        timer_fires_def)
  ultimately show ?thesis using buffer_stream_fifo [OF r] by blast
qed



end
