(* ===== verification/Framing.thy ===== *)
theory Framing
  imports Pipe JsonText
begin

text \<open>
  \<open>packages/netsu/src/protocol/states.ts\<close>, \<open>cookie.ts\<close> and \<open>framing.ts\<close>: the control
  channel of the speed test.  A session opens with a 37 byte cookie; after it the channel
  carries one-byte states and JSON values behind a 32-bit big-endian length.  The readers
  take the \<open>readExact\<close> of the pipe they run on as their argument, as the code takes a
  \<open>BytePipe\<close>.
\<close>

section \<open>Control states\<close>

definition TEST_START :: int where "TEST_START = 1"
definition TEST_RUNNING :: int where "TEST_RUNNING = 2"
definition TEST_END :: int where "TEST_END = 4"
definition PARAM_EXCHANGE :: int where "PARAM_EXCHANGE = 9"
definition CREATE_STREAMS :: int where "CREATE_STREAMS = 10"
definition SERVER_TERMINATE :: int where "SERVER_TERMINATE = 11"
definition CLIENT_TERMINATE :: int where "CLIENT_TERMINATE = 12"
definition EXCHANGE_RESULTS :: int where "EXCHANGE_RESULTS = 13"
definition DISPLAY_RESULTS :: int where "DISPLAY_RESULTS = 14"
definition IPERF_START :: int where "IPERF_START = 15"
definition IPERF_DONE :: int where "IPERF_DONE = 16"
definition ACCESS_DENIED :: int where "ACCESS_DENIED = -1"
definition SERVER_ERROR :: int where "SERVER_ERROR = -2"
definition COOKIE_SIZE :: nat where "COOKIE_SIZE = 37"

lemmas state_defs = TEST_START_def TEST_RUNNING_def TEST_END_def PARAM_EXCHANGE_def
  CREATE_STREAMS_def SERVER_TERMINATE_def CLIENT_TERMINATE_def EXCHANGE_RESULTS_def
  DISPLAY_RESULTS_def IPERF_START_def IPERF_DONE_def ACCESS_DENIED_def SERVER_ERROR_def

section \<open>Cookies\<close>

definition ALPHABET :: js_string where
  "ALPHABET = js ''abcdefghijklmnopqrstuvwxyz234567''"

text \<open>\<open>raw\<close> is the result of \<open>randomBytes(COOKIE_SIZE - 1)\<close>.\<close>

definition cookie_char :: "byte \<Rightarrow> nat" where
  "cookie_char b = ALPHABET ! (unat b mod length ALPHABET)"

definition makeCookie :: "byte list \<Rightarrow> js_string" where
  "makeCookie raw = map cookie_char raw"

text \<open>\<open>TextEncoder.encodeInto\<close> stops before the first code point that does not fit.\<close>

fun encodeInto :: "nat \<Rightarrow> js_string \<Rightarrow> byte list" where
  "encodeInto room [] = []"
| "encodeInto room (c # cs) =
     (let u = utf8_encode [c]
      in if length u \<le> room then u @ encodeInto (room - length u) cs else [])"

definition cookieToBytes :: "js_string \<Rightarrow> byte list" where
  "cookieToBytes cookie =
     (let u = encodeInto COOKIE_SIZE cookie in u @ replicate (COOKIE_SIZE - length u) 0)"

definition bytesToCookie :: "byte list \<Rightarrow> js_string" where
  "bytesToCookie bs = utf8_decode (takeWhile (\<lambda>b. b \<noteq> 0) bs)"

section \<open>Frames\<close>

datatype frame_error =
  PipeError pipe_error
| JsonFrameTooLarge nat nat
| JsonSyntaxError

type_synonym 'p reader = "nat \<Rightarrow> 'p \<Rightarrow> pipe_error + (byte list \<times> 'p)"

text \<open>\<open>state & 0xff\<close> on write; \<open>(b[0] << 24) >> 24\<close> on read.\<close>

definition writeState :: "int \<Rightarrow> byte list" where
  "writeState state = [word_of_int state]"

definition sign_extend :: "byte \<Rightarrow> int" where
  "sign_extend b = sint (signed_drop_bit 24 (push_bit 24 (ucast b :: 32 word)))"

definition readState :: "'p reader \<Rightarrow> 'p \<Rightarrow> frame_error + (int \<times> 'p)" where
  "readState rd p = (case rd 1 p of
     Inl e \<Rightarrow> Inl (PipeError e)
   | Inr (bs, p') \<Rightarrow> Inr (sign_extend (hd bs), p'))"

definition writeJson :: "(rat \<Rightarrow> js_string) \<Rightarrow> json \<Rightarrow> byte list" where
  "writeJson num v =
     (let body = utf8_encode (JSON_stringify num v) in u32_be (of_nat (length body)) @ body)"

definition DEFAULT_MAX_SIZE :: nat where
  "DEFAULT_MAX_SIZE = 65536"

definition readJson :: "nat \<Rightarrow> 'p reader \<Rightarrow> 'p \<Rightarrow> frame_error + (json \<times> 'p)" where
  "readJson maxSize rd p = (case rd 4 p of
     Inl e \<Rightarrow> Inl (PipeError e)
   | Inr (hdr, p1) \<Rightarrow> (case be_u32 hdr of
        None \<Rightarrow> Inl (PipeError TypeError)
      | Some w \<Rightarrow>
          if unat w = 0 \<or> maxSize < unat w then Inl (JsonFrameTooLarge (unat w) maxSize)
          else (case rd (unat w) p1 of
                  Inl e \<Rightarrow> Inl (PipeError e)
                | Inr (body, p2) \<Rightarrow> (case JSON_parse (utf8_decode body) of
                     None \<Rightarrow> Inl JsonSyntaxError
                   | Some v \<Rightarrow> Inr (v, p2)))))"

text \<open>A conversation: what one side writes in order, and the reads the other side makes.\<close>

datatype frame = StateFrame int | JsonFrame json

fun write_frame :: "(rat \<Rightarrow> js_string) \<Rightarrow> frame \<Rightarrow> byte list" where
  "write_frame num (StateFrame s) = writeState s"
| "write_frame num (JsonFrame v) = writeJson num v"

fun read_like :: "nat \<Rightarrow> 'p reader \<Rightarrow> frame list \<Rightarrow> 'p \<Rightarrow> frame_error + (frame list \<times> 'p)" where
  "read_like maxSize rd [] p = Inr ([], p)"
| "read_like maxSize rd (StateFrame _ # fs) p =
     andThen (readState rd p) (\<lambda>(s, p1).
     andThen (read_like maxSize rd fs p1) (\<lambda>(gs, p2). Inr (StateFrame s # gs, p2)))"
| "read_like maxSize rd (JsonFrame _ # fs) p =
     andThen (readJson maxSize rd p) (\<lambda>(v, p1).
     andThen (read_like maxSize rd fs p1) (\<lambda>(gs, p2). Inr (JsonFrame v # gs, p2)))"

text \<open>
  The frames a sender may write and a reader with limit \<open>maxSize\<close> accepts: states fit in
  a signed byte; a JSON value has scalar text, distinct keys and finite numbers, and its
  text is within the limit.
\<close>

fun frame_ok :: "(rat \<Rightarrow> js_string) \<Rightarrow> nat \<Rightarrow> frame \<Rightarrow> bool" where
  "frame_ok num maxSize (StateFrame s) \<longleftrightarrow> - 128 \<le> s \<and> s < 128"
| "frame_ok num maxSize (JsonFrame v) \<longleftrightarrow>
     json_ok num v \<and> utf8_length (JSON_stringify num v) \<le> maxSize"

section \<open>Lemmas\<close>

lemma sign_extend_eq: "sign_extend b = sint b"
proof -
  have "signed_drop_bit 24 (push_bit 24 (ucast b :: 32 word)) = scast b"
  proof (rule bit_word_eqI)
    fix n assume n: "n < LENGTH(32)"
    then show "bit (signed_drop_bit 24 (push_bit 24 (ucast b :: 32 word))) n = bit (scast b :: 32 word) n"
      by (cases n "7 :: nat" rule: linorder_cases) (auto simp: bit_simps min_def)
  qed
  moreover have "- (2 ^ 31) \<le> sint b" "sint b < 2 ^ 31"
    using sint_greater_eq [of b] sint_less [of b] by simp_all
  ultimately show ?thesis
    by (simp add: sign_extend_def signed_scast_eq signed_take_bit_int_eq_self)
qed

lemma sign_extend_writeState: "- 128 \<le> s \<Longrightarrow> s < 128 \<Longrightarrow> sign_extend (word_of_int s) = s"
  by (simp add: sign_extend_eq signed_of_int signed_take_bit_int_eq_self)

lemma length_writeState [simp]: "length (writeState s) = 1"
  by (simp add: writeState_def)

lemma length_ALPHABET [simp]: "length ALPHABET = 32"
  by (simp add: ALPHABET_def)

lemma ALPHABET_ascii: "c \<in> set ALPHABET \<Longrightarrow> 0 < c \<and> c < 128"
  by (auto simp: ALPHABET_def)

lemma cookie_char_in: "cookie_char b \<in> set ALPHABET"
  by (simp add: cookie_char_def)

lemma ascii_makeCookie: "ascii (makeCookie raw)"
  using ALPHABET_ascii cookie_char_in by (auto simp: ascii_def makeCookie_def list_all_iff)

lemma encodeInto_ascii: "ascii s \<Longrightarrow> length s \<le> room \<Longrightarrow> encodeInto room s = map of_nat s"
  by (induction s arbitrary: room) (auto simp: ascii_def utf8_encode_def utf8_point.simps)

lemma length_encodeInto: "length (encodeInto room s) \<le> room"
proof (induction s arbitrary: room)
  case (Cons c s)
  have "length (encodeInto (room - length (utf8_encode [c])) s) \<le> room - length (utf8_encode [c])"
    by (rule Cons)
  then show ?case by (simp add: Let_def) linarith
qed simp

lemma length_cookieToBytes [simp]: "length (cookieToBytes c) = COOKIE_SIZE"
  using length_encodeInto [of COOKIE_SIZE c] by (simp add: cookieToBytes_def Let_def)

lemma takeWhile_nonzero_pad:
  "(\<And>b. b \<in> set xs \<Longrightarrow> b \<noteq> 0) \<Longrightarrow> takeWhile (\<lambda>b. b \<noteq> (0::byte)) (xs @ replicate k 0) = xs"
  by (induction xs) (cases k; simp)+

lemma of_nat_byte_nonzero: "0 < c \<Longrightarrow> c < 128 \<Longrightarrow> (of_nat c :: byte) \<noteq> 0"
  by (auto simp: word_of_nat_eq_0_iff dest: dvd_imp_le)

lemma bytesToCookie_ascii:
  assumes "ascii s" "\<And>c. c \<in> set s \<Longrightarrow> 0 < c"
  shows "bytesToCookie (map of_nat s @ replicate k 0) = s"
proof -
  have "takeWhile (\<lambda>b. b \<noteq> 0) (map of_nat s @ replicate k 0) = (map of_nat s :: byte list)"
    using assms by (intro takeWhile_nonzero_pad) (auto simp: ascii_def list_all_iff of_nat_byte_nonzero)
  then show ?thesis
    using assms(1) by (simp add: bytesToCookie_def flip: utf8_encode_ascii)
      (simp add: utf8_roundtrip ascii_text_ok)
qed

lemma distinct_ALPHABET: "distinct ALPHABET"
  by (simp add: ALPHABET_def)

text \<open>256 is a multiple of the alphabet's length: taking the remainder introduces no bias.\<close>

lemma card_byte_residue:
  assumes "i < 32"
  shows "card {b :: byte. unat b mod 32 = i} = 8"
proof -
  have "bij_betw (\<lambda>k. of_nat (32 * k + i) :: byte) {..<8} {b. unat b mod 32 = i}"
  proof (rule bij_betw_byWitness [where f' = "\<lambda>b. unat b div 32"])
    show "\<forall>k \<in> {..<8}. unat (of_nat (32 * k + i) :: byte) div 32 = k"
      using assms by (auto simp: unat_of_nat_byte simp del: of_nat_add of_nat_mult)
    show "\<forall>b \<in> {b :: byte. unat b mod 32 = i}. of_nat (32 * (unat b div 32) + i) = b"
      by (auto simp del: of_nat_add of_nat_mult)
    show "(\<lambda>k. of_nat (32 * k + i) :: byte) ` {..<8} \<subseteq> {b. unat b mod 32 = i}"
      using assms by (auto simp: unat_of_nat_byte simp del: of_nat_add of_nat_mult)
    show "(\<lambda>b :: byte. unat b div 32) ` {b. unat b mod 32 = i} \<subseteq> {..<8}"
    proof clarsimp
      fix b :: byte
      have "unat b < 256" using unsigned_less [of b] by simp
      then show "unat b div 32 < 8" by simp
    qed
  qed
  then show ?thesis using bij_betw_same_card by fastforce
qed

lemma cookie_char_unbiased:
  assumes "c \<in> set ALPHABET"
  shows "card {b. cookie_char b = c} = 8"
proof -
  from assms obtain i where i: "i < 32" "c = ALPHABET ! i"
    by (metis in_set_conv_nth length_ALPHABET)
  then have "{b. cookie_char b = c} = {b. unat b mod 32 = i}"
    using nth_eq_iff_index_eq [OF distinct_ALPHABET, of _ i] by (auto simp: cookie_char_def)
  with i card_byte_residue show ?thesis by simp
qed

context ordered_pipe
begin

lemma readState_write:
  assumes "ready p" "bytes p = writeState s @ rest" "- 128 \<le> s" "s < 128"
  obtains p' where "readState rd p = Inr (s, p')" "bytes p' = rest" "ready p'"
proof -
  obtain p' where "rd 1 p = Inr (writeState s, p')" "bytes p' = rest" "ready p'"
    using rd_prefixE [OF assms(1,2)] by (metis length_writeState)
  then show thesis
    using assms(3,4) by (intro that [of p']) (simp_all add: readState_def writeState_def sign_extend_writeState)
qed

lemma readJson_write:
  assumes "ready p" "bytes p = writeJson num v @ rest"
    and "frame_ok num maxSize (JsonFrame v)" "maxSize < 2 ^ 32"
  obtains p' where "readJson maxSize rd p = Inr (v, p')" "bytes p' = rest" "ready p'"
proof -
  let ?t = "JSON_stringify num v"
  let ?body = "utf8_encode ?t"
  have len: "0 < length ?body" "length ?body \<le> maxSize"
    using assms(3) utf8_length_ge [of ?t] stringify_text_ok [of num v] by (auto simp: utf8_length_def)
  obtain p1 where p1: "rd 4 p = Inr (u32_be (of_nat (length ?body)), p1)"
    "bytes p1 = ?body @ rest" "ready p1"
    using rd_prefixE [OF assms(1), of "u32_be (of_nat (length ?body))" "?body @ rest" 4] assms(2)
    by (auto simp: writeJson_def Let_def)
  obtain p2 where p2: "rd (length ?body) p1 = Inr (?body, p2)" "bytes p2 = rest" "ready p2"
    using rd_prefixE [OF p1(3,2)] by blast
  have "unat (of_nat (length ?body) :: 32 word) = length ?body"
    using len assms(4) by (intro unat_of_nat_u32) simp
  with p1 p2 len assms(3) show thesis
    by (intro that [of p2]) (simp_all add: readJson_def utf8_roundtrip stringify_text_ok JSON_roundtrip)
qed

lemma read_like_write:
  assumes "ready p" "bytes p = concat (map (write_frame num) fs) @ rest"
    and "list_all (frame_ok num maxSize) fs" "maxSize < 2 ^ 32"
  shows "\<exists>p'. read_like maxSize rd fs p = Inr (fs, p') \<and> bytes p' = rest \<and> ready p'"
  using assms(1-3)
proof (induction fs arbitrary: p)
  case Nil
  then show ?case by simp
next
  case (Cons f fs)
  show ?case
  proof (cases f)
    case (StateFrame s)
    with Cons.prems obtain p1 where "readState rd p = Inr (s, p1)"
      "bytes p1 = concat (map (write_frame num) fs) @ rest" "ready p1"
      using readState_write [of p s "concat (map (write_frame num) fs) @ rest"] by auto
    with Cons.IH [of p1] Cons.prems(3) StateFrame show ?thesis by auto
  next
    case (JsonFrame v)
    with Cons.prems obtain p1 where "readJson maxSize rd p = Inr (v, p1)"
      "bytes p1 = concat (map (write_frame num) fs) @ rest" "ready p1"
      using readJson_write [of p num v "concat (map (write_frame num) fs) @ rest" maxSize] assms(4)
      by auto
    with Cons.IH [of p1] Cons.prems(3) JsonFrame show ?thesis by auto
  qed
qed

text \<open>A length field outside \<open>1..maxSize\<close> is refused before any byte of the body is read.\<close>

lemma readJson_refuses:
  assumes "ready p" "bytes p = u32_be w @ rest" "unat w = 0 \<or> maxSize < unat w"
  shows "readJson maxSize rd p = Inl (JsonFrameTooLarge (unat w) maxSize)"
proof -
  obtain p1 where "rd 4 p = Inr (u32_be w, p1)"
    using rd_prefixE [OF assms(1,2), of 4] by auto
  with assms(3) show ?thesis by (simp add: readJson_def)
qed

end

section \<open>Properties\<close>

text \<open>
  C20: whatever frames one side writes (states that fit a signed byte, JSON values within
  the reader's size limit), and however the transport cuts the bytes into chunks, the
  reader that makes the matching \<open>readState\<close> and \<open>readJson\<close> calls gets exactly these frames
  back and leaves nothing unread.
\<close>

theorem control_channel_roundtrip:
  assumes "list_all (frame_ok num maxSize) fs" and "maxSize < 2 ^ 32"
    and "concat ds = concat (map (write_frame num) fs)"
  shows "\<exists>b. read_like maxSize buffer_read fs (fold (\<lambda>d b. fst (feed d b)) ds new_buffer) = Inr (fs, b)
    \<and> contents b = []"
proof -
  have "buffer_idle new_buffer" by (simp add: buffer_idle_def) (simp add: new_buffer_def)
  from buffer_pipe.wr_chunks [OF this, of ds] assms(3)
  have "buffer_idle (fold (\<lambda>d b. fst (feed d b)) ds new_buffer)"
    "contents (fold (\<lambda>d b. fst (feed d b)) ds new_buffer) = concat (map (write_frame num) fs) @ []"
    by (simp_all add: new_buffer_def contents_def)
  from buffer_pipe.read_like_write [OF this assms(1,2)] show ?thesis by auto
qed

theorem control_channel_roundtrip_witness:
  "\<exists>b. read_like DEFAULT_MAX_SIZE buffer_read
      [StateFrame SERVER_ERROR, JsonFrame (JArr [JBool True])]
      (fold (\<lambda>d b. fst (feed d b)) [[254, 0, 0], [0], [6, 91, 116], [114, 117, 101, 93]] new_buffer)
    = Inr ([StateFrame SERVER_ERROR, JsonFrame (JArr [JBool True])], b) \<and> contents b = []"
proof -
  let ?fs = "[StateFrame SERVER_ERROR, JsonFrame (JArr [JBool True])]"
  have t: "JSON_stringify int_num (JArr [JBool True]) = js ''[true]''" by simp
  have a: "ascii (js ''[true]'')" "js ''[true]'' \<noteq> []" by (simp_all add: ascii_def)
  have 1: "list_all (frame_ok int_num DEFAULT_MAX_SIZE) ?fs"
    using a(2) ascii_text_ok [OF a(1)] utf8_length_ascii [OF a(1)] t
    by (simp add: SERVER_ERROR_def DEFAULT_MAX_SIZE_def del: js_simps)
  have 2: "DEFAULT_MAX_SIZE < 2 ^ 32" by (simp add: DEFAULT_MAX_SIZE_def)
  have 3: "concat [[254, 0, 0], [0], [6, 91, 116], [114, 117, 101, 93]] = concat (map (write_frame int_num) ?fs)"
    using utf8_encode_ascii [OF a(1)] t
    by (simp add: writeState_def writeJson_def SERVER_ERROR_def u32_be_def)
  show ?thesis by (rule control_channel_roundtrip [OF 1 2 3])
qed

lemma cookie_recovered:
  assumes "length raw = COOKIE_SIZE - 1"
  shows "bytesToCookie (cookieToBytes (makeCookie raw)) = makeCookie raw"
proof -
  let ?c = "makeCookie raw"
  have "cookieToBytes ?c = map of_nat ?c @ replicate (COOKIE_SIZE - length ?c) 0"
    using assms encodeInto_ascii [OF ascii_makeCookie, of raw COOKIE_SIZE]
    by (simp add: cookieToBytes_def Let_def makeCookie_def)
  then show ?thesis
    using ALPHABET_ascii cookie_char_in
    by (simp only:) (intro bytesToCookie_ascii ascii_makeCookie, auto simp: makeCookie_def)
qed

text \<open>
  The server recovers exactly the cookie the client sent: for every draw of 36 random
  bytes the wire form has 37 bytes and decodes to the cookie it was made from, and every
  character of the alphabet is drawn from the same number (eight) of byte values.
\<close>

theorem cookie_roundtrip:
  assumes "length raw = COOKIE_SIZE - 1"
  shows "length (cookieToBytes (makeCookie raw)) = COOKIE_SIZE
    \<and> bytesToCookie (cookieToBytes (makeCookie raw)) = makeCookie raw
    \<and> (\<forall>c \<in> set ALPHABET. card {b :: byte. cookie_char b = c} = 8)"
  using cookie_recovered [OF assms] by (simp add: cookie_char_unbiased)

theorem cookie_roundtrip_witness:
  "length (replicate 36 (200 :: byte)) = COOKIE_SIZE - 1
    \<and> bytesToCookie (cookieToBytes (makeCookie (replicate 36 200))) = makeCookie (replicate 36 200)"
  using cookie_roundtrip [of "replicate 36 200"] by (simp add: COOKIE_SIZE_def)

text \<open>
  A JSON frame whose length field is zero or above the reader's limit is refused with
  that length, whatever follows it, before any byte of its body is read.
\<close>

theorem readJson_refuses_length:
  assumes "unat w = 0 \<or> maxSize < unat w"
  shows "readJson maxSize buffer_read (fst (feed (u32_be w @ rest) new_buffer))
    = Inl (JsonFrameTooLarge (unat w) maxSize)"
proof -
  have idle: "buffer_idle new_buffer" by (simp add: buffer_idle_def) (simp add: new_buffer_def)
  have c: "contents (fst (feed (u32_be w @ rest) new_buffer)) = u32_be w @ rest"
    using buffer_pipe.wr_bytes [OF idle] by (simp add: new_buffer_def contents_def)
  show ?thesis by (rule buffer_pipe.readJson_refuses [OF buffer_pipe.wr_ready [OF idle] c assms])
qed

theorem readJson_refuses_length_witness:
  "readJson DEFAULT_MAX_SIZE buffer_read (fst (feed (u32_be 65537 @ [1, 2, 3]) new_buffer))
    = Inl (JsonFrameTooLarge 65537 DEFAULT_MAX_SIZE)"
  using readJson_refuses_length [of 65537 DEFAULT_MAX_SIZE "[1, 2, 3]"]
  by (simp add: DEFAULT_MAX_SIZE_def)

end
