(* ===== verification/Params.thy ===== *)
theory Params
  imports Framing
begin

text \<open>
  \<open>packages/netsu/src/protocol/params.ts\<close> and \<open>results.ts\<close>: the two JSON payloads of a
  test.  A number read from JSON is finite or an infinity (a literal past the finite
  range), which \<open>v.number()\<close> accepts; \<open>NaN\<close> cannot come from JSON.  A validator returns
  \<open>None\<close> where the library throws.
\<close>

datatype js_num = Fin rat | Inf bool

fun num_json :: "js_num \<Rightarrow> json" where
  "num_json (Fin r) = JNum r"
| "num_json (Inf neg) = JInf neg"

fun json_num :: "json \<Rightarrow> js_num option" where
  "json_num (JNum r) = Some (Fin r)"
| "json_num (JInf neg) = Some (Inf neg)"
| "json_num _ = None"

text \<open>The order of the numbers: \<open>v.minValue\<close> and \<open>v.maxValue\<close>.\<close>

fun num_le :: "js_num \<Rightarrow> js_num \<Rightarrow> bool" where
  "num_le (Fin a) (Fin b) = (a \<le> b)"
| "num_le (Fin a) (Inf neg) = (\<not> neg)"
| "num_le (Inf neg) (Fin b) = neg"
| "num_le (Inf n) (Inf m) = (n \<or> \<not> m)"

definition num_in :: "rat \<Rightarrow> rat \<Rightarrow> js_num \<Rightarrow> bool" where
  "num_in lo hi x \<longleftrightarrow> num_le (Fin lo) x \<and> num_le x (Fin hi)"

fun num_integer :: "js_num \<Rightarrow> int option" where
  "num_integer (Fin r) = (if of_int \<lfloor>r\<rfloor> = r then Some \<lfloor>r\<rfloor> else None)"
| "num_integer (Inf neg) = None"

section \<open>Parameters\<close>

definition DEFAULT_TCP_LEN :: int where "DEFAULT_TCP_LEN = 131072"
definition DEFAULT_UDP_LEN :: int where "DEFAULT_UDP_LEN = 1460"
definition DEFAULT_UDP_BANDWIDTH :: rat where "DEFAULT_UDP_BANDWIDTH = 1048576"
definition MAX_PARALLEL :: int where "MAX_PARALLEL = 128"
definition MAX_LEN :: int where "MAX_LEN = 1048576"

text \<open>The version of \<open>package.json\<close>.\<close>

definition VERSION :: js_string where
  "VERSION = js ''0.2.7''"

record TestParams =
  tp_udp :: bool
  tp_time :: rat
  tp_parallel :: int
  tp_len :: int
  tp_reverse :: bool
  tp_bandwidth :: js_num

definition encodeParams :: "TestParams \<Rightarrow> json" where
  "encodeParams p = JObj (
     [if tp_udp p then (js ''udp'', JBool True) else (js ''tcp'', JBool True),
      (js ''omit'', JNum 0), (js ''time'', JNum (tp_time p)), (js ''num'', JNum 0), (js ''blockcount'', JNum 0),
      (js ''parallel'', JNum (of_int (tp_parallel p)))]
     @ (if tp_reverse p then [(js ''reverse'', JBool True)] else [])
     @ [(js ''len'', JNum (of_int (tp_len p)))]
     @ (if tp_udp p then [(js ''bandwidth'', num_json (tp_bandwidth p))] else [])
     @ [(js ''pacing_timer'', JNum 1000), (js ''client_version'', JStr (js ''netsu-'' @ VERSION))])"

datatype params_error = ValiError | NeitherTcpNorUdp | BothTcpAndUdp

text \<open>\<open>v.optional(v.boolean())\<close>: the outer \<open>None\<close> is a validation error.\<close>

definition opt_bool :: "string \<Rightarrow> json \<Rightarrow> bool option option" where
  "opt_bool k j = (case json_field k j of
     None \<Rightarrow> Some None
   | Some (JBool b) \<Rightarrow> Some (Some b)
   | Some _ \<Rightarrow> None)"

definition req_num :: "string \<Rightarrow> json \<Rightarrow> js_num option" where
  "req_num k j = Option.bind (json_field k j) json_num"

definition opt_num :: "string \<Rightarrow> json \<Rightarrow> js_num option option" where
  "opt_num k j = (case json_field k j of None \<Rightarrow> Some None | Some v \<Rightarrow> map_option Some (json_num v))"

record WireParams =
  wp_tcp :: "bool option"
  wp_udp :: "bool option"
  wp_time :: rat
  wp_parallel :: int
  wp_reverse :: "bool option"
  wp_len :: int
  wp_bandwidth :: "js_num option"

definition parse_WireParams :: "json \<Rightarrow> WireParams option" where
  "parse_WireParams j =
     Option.bind (opt_bool ''tcp'' j) (\<lambda>tcp.
     Option.bind (opt_bool ''udp'' j) (\<lambda>udp.
     Option.bind (req_num ''time'' j) (\<lambda>tm.
     Option.bind (if num_in 1 86400 tm then (case tm of Fin r \<Rightarrow> Some r | _ \<Rightarrow> None) else None) (\<lambda>t.
     Option.bind (req_num ''parallel'' j) (\<lambda>pn.
     Option.bind (if num_in 1 (of_int MAX_PARALLEL) pn then num_integer pn else None) (\<lambda>par.
     Option.bind (opt_bool ''reverse'' j) (\<lambda>rev.
     Option.bind (req_num ''len'' j) (\<lambda>ln.
     Option.bind (if num_in 4 (of_int MAX_LEN) ln then num_integer ln else None) (\<lambda>len.
     Option.bind (opt_num ''bandwidth'' j) (\<lambda>bw.
       if (case bw of None \<Rightarrow> True | Some b \<Rightarrow> num_le (Fin 0) b)
       then Some \<lparr>wp_tcp = tcp, wp_udp = udp, wp_time = t, wp_parallel = par, wp_reverse = rev, wp_len = len,
              wp_bandwidth = bw\<rparr>
       else None))))))))))"

definition decodeParams :: "json \<Rightarrow> params_error + TestParams" where
  "decodeParams v = (case parse_WireParams v of
     None \<Rightarrow> Inl ValiError
   | Some p \<Rightarrow>
       if wp_tcp p \<noteq> Some True \<and> wp_udp p \<noteq> Some True then Inl NeitherTcpNorUdp
       else if wp_tcp p = Some True \<and> wp_udp p = Some True then Inl BothTcpAndUdp
       else Inr \<lparr>tp_udp = (wp_udp p = Some True), tp_time = wp_time p, tp_parallel = wp_parallel p, tp_len = wp_len p,
              tp_reverse = (wp_reverse p = Some True),
              tp_bandwidth = (case wp_bandwidth p of None \<Rightarrow> Fin 0 | Some b \<Rightarrow> b)\<rparr>)"

section \<open>Results\<close>

record StreamResult =
  sr_id :: js_num
  sr_bytes :: js_num
  sr_retransmits :: js_num
  sr_jitter :: js_num
  sr_errors :: js_num
  sr_packets :: js_num
  sr_startTime :: js_num
  sr_endTime :: js_num

record EndResults =
  er_senderHasRetransmits :: js_num
  er_streams :: "StreamResult list"

definition stream_json :: "StreamResult \<Rightarrow> json" where
  "stream_json s = JObj
     [(js ''id'', num_json (sr_id s)), (js ''bytes'', num_json (sr_bytes s)),
      (js ''retransmits'', num_json (sr_retransmits s)), (js ''jitter'', num_json (sr_jitter s)),
      (js ''errors'', num_json (sr_errors s)), (js ''omitted_errors'', JNum 0),
      (js ''packets'', num_json (sr_packets s)), (js ''omitted_packets'', JNum 0),
      (js ''start_time'', num_json (sr_startTime s)), (js ''end_time'', num_json (sr_endTime s))]"

definition encodeResults :: "EndResults \<Rightarrow> json" where
  "encodeResults r = JObj
     [(js ''cpu_util_total'', JNum 0), (js ''cpu_util_user'', JNum 0), (js ''cpu_util_system'', JNum 0),
      (js ''sender_has_retransmits'', num_json (er_senderHasRetransmits r)),
      (js ''streams'', JArr (map stream_json (er_streams r)))]"

text \<open>\<open>v.optional(v.number(), d)\<close>.\<close>

definition default_num :: "string \<Rightarrow> rat \<Rightarrow> json \<Rightarrow> js_num option" where
  "default_num k d j = map_option (\<lambda>x. case x of None \<Rightarrow> Fin d | Some y \<Rightarrow> y) (opt_num k j)"

definition parse_WireStream :: "json \<Rightarrow> StreamResult option" where
  "parse_WireStream j =
     Option.bind (req_num ''id'' j) (\<lambda>i.
     Option.bind (req_num ''bytes'' j) (\<lambda>b.
     Option.bind (default_num ''retransmits'' (- 1) j) (\<lambda>r.
     Option.bind (default_num ''jitter'' 0 j) (\<lambda>jt.
     Option.bind (default_num ''errors'' 0 j) (\<lambda>e.
     Option.bind (default_num ''packets'' 0 j) (\<lambda>p.
     Option.bind (default_num ''start_time'' 0 j) (\<lambda>s.
     Option.bind (default_num ''end_time'' 0 j) (\<lambda>t.
       Some \<lparr>sr_id = i, sr_bytes = b, sr_retransmits = r, sr_jitter = jt, sr_errors = e, sr_packets = p,
         sr_startTime = s, sr_endTime = t\<rparr>))))))))"

fun all_some :: "'a option list \<Rightarrow> 'a list option" where
  "all_some [] = Some []"
| "all_some (x # xs) = (case x of None \<Rightarrow> None | Some y \<Rightarrow> map_option (\<lambda>ys. y # ys) (all_some xs))"

definition decodeResults :: "json \<Rightarrow> EndResults option" where
  "decodeResults v =
     Option.bind (default_num ''sender_has_retransmits'' (- 1) v) (\<lambda>h.
     Option.bind (json_field ''streams'' v) (\<lambda>st.
       case st of
         JArr vs \<Rightarrow> map_option (\<lambda>ss. \<lparr>er_senderHasRetransmits = h, er_streams = ss\<rparr>) (all_some (map parse_WireStream vs))
       | _ \<Rightarrow> None))"

section \<open>Lemmas\<close>

lemma json_num_num_json [simp]: "json_num (num_json x) = Some x"
  by (cases x) simp_all

definition params_ok :: "TestParams \<Rightarrow> bool" where
  "params_ok p \<longleftrightarrow> 1 \<le> tp_time p \<and> tp_time p \<le> 86400 \<and> 1 \<le> tp_parallel p \<and> tp_parallel p \<le> MAX_PARALLEL
     \<and> 4 \<le> tp_len p \<and> tp_len p \<le> MAX_LEN \<and> num_le (Fin 0) (tp_bandwidth p)
     \<and> (\<not> tp_udp p \<longrightarrow> tp_bandwidth p = Fin 0)"

lemma decode_encodeParams: "params_ok p \<Longrightarrow> decodeParams (encodeParams p) = Inr p"
proof -
  assume ok: "params_ok p"
  have b: "num_in 1 86400 (Fin (tp_time p))" "num_in 1 (of_int MAX_PARALLEL) (Fin (of_int (tp_parallel p)))"
    "num_in 4 (of_int MAX_LEN) (Fin (of_int (tp_len p)))"
    using ok by (simp_all add: params_ok_def num_in_def)
  have "parse_WireParams (encodeParams p) = Some \<lparr>wp_tcp = (if tp_udp p then None else Some True),
      wp_udp = (if tp_udp p then Some True else None), wp_time = tp_time p, wp_parallel = tp_parallel p,
      wp_reverse = (if tp_reverse p then Some True else None), wp_len = tp_len p,
      wp_bandwidth = (if tp_udp p then Some (tp_bandwidth p) else None)\<rparr>"
    using ok b
    by (cases "tp_udp p"; cases "tp_reverse p")
      (simp_all add: parse_WireParams_def encodeParams_def opt_bool_def req_num_def opt_num_def js_inject params_ok_def
        del: js_simps)
  then show ?thesis using ok by (cases p) (auto simp: decodeParams_def params_ok_def)
qed

lemma decodeParams_ok: "decodeParams j = Inr p \<Longrightarrow>
    1 \<le> tp_time p \<and> tp_time p \<le> 86400 \<and> 1 \<le> tp_parallel p \<and> tp_parallel p \<le> MAX_PARALLEL
     \<and> 4 \<le> tp_len p \<and> tp_len p \<le> MAX_LEN \<and> num_le (Fin 0) (tp_bandwidth p)"
proof -
  have int: "num_in lo (of_int hi) x \<Longrightarrow> num_integer x = Some i \<Longrightarrow> lo \<le> of_int i \<and> i \<le> hi" for lo hi x i
    by (cases x) (auto simp: num_in_def split: if_splits)
  show "decodeParams j = Inr p \<Longrightarrow> ?thesis"
    using int [of 1 MAX_PARALLEL] int [of 4 MAX_LEN]
    by (auto simp: decodeParams_def parse_WireParams_def bind_eq_Some_conv num_in_def
        split: option.splits if_splits js_num.splits)
qed

lemma opt_bool_true: "opt_bool k j = Some v \<Longrightarrow> json_field k j = Some (JBool True) \<longleftrightarrow> v = Some True"
  by (auto simp: opt_bool_def split: option.splits json.splits)

lemma parse_stream_json: "parse_WireStream (stream_json s) = Some s"
  by (simp add: parse_WireStream_def stream_json_def req_num_def default_num_def opt_num_def js_inject del: js_simps)

lemma all_some_map: "(\<And>x. x \<in> set xs \<Longrightarrow> f (g x) = Some x) \<Longrightarrow> all_some (map f (map g xs)) = Some xs"
  by (induction xs) simp_all

lemma decode_encodeResults: "decodeResults (encodeResults r) = Some r"
proof -
  have "all_some (map parse_WireStream (map stream_json (er_streams r))) = Some (er_streams r)"
    by (rule all_some_map) (rule parse_stream_json)
  then show ?thesis
    by (simp add: decodeResults_def encodeResults_def default_num_def opt_num_def js_inject del: js_simps map_map)
qed

interpretation results_codec: codec encodeResults decodeResults "\<lambda>_. True"
  by unfold_locales (rule decode_encodeResults)

interpretation params_codec: codec encodeParams "\<lambda>j. case decodeParams j of Inr p \<Rightarrow> Some p | Inl _ \<Rightarrow> None" params_ok
  by unfold_locales (simp add: decode_encodeParams)

text \<open>The numbers of a payload print exactly.\<close>

fun num_prints :: "(rat \<Rightarrow> js_string) \<Rightarrow> js_num \<Rightarrow> bool" where
  "num_prints num (Fin r) = num_ok num r"
| "num_prints num (Inf neg) = False"

lemma json_ok_num_json: "num_prints num x \<Longrightarrow> json_ok num (num_json x)"
  by (cases x) simp_all

definition params_print :: "(rat \<Rightarrow> js_string) \<Rightarrow> TestParams \<Rightarrow> bool" where
  "params_print num p \<longleftrightarrow> num_ok num 0 \<and> num_ok num 1000 \<and> num_ok num (tp_time p) \<and> num_ok num (of_int (tp_parallel p))
     \<and> num_ok num (of_int (tp_len p)) \<and> num_prints num (tp_bandwidth p)"

definition results_print :: "(rat \<Rightarrow> js_string) \<Rightarrow> EndResults \<Rightarrow> bool" where
  "results_print num r \<longleftrightarrow> num_ok num 0 \<and> num_prints num (er_senderHasRetransmits r)
     \<and> list_all (\<lambda>s. list_all (num_prints num) [sr_id s, sr_bytes s, sr_retransmits s, sr_jitter s, sr_errors s,
          sr_packets s, sr_startTime s, sr_endTime s]) (er_streams r)"

lemma json_ok_params: "params_print num p \<Longrightarrow> json_ok num (encodeParams p)"
proof -
  have v: "js ''netsu-'' @ VERSION = js (''netsu-'' @ ''0.2.7'')" by (simp add: VERSION_def)
  show "params_print num p \<Longrightarrow> ?thesis"
    unfolding encodeParams_def v
    by (cases "tp_udp p"; cases "tp_reverse p")
      (simp_all add: params_print_def js_scalar js_inject json_ok_num_json del: js_simps)
qed

lemma json_ok_results: "results_print num r \<Longrightarrow> json_ok num (encodeResults r)"
proof -
  have s: "json_ok num (stream_json s)" if "num_ok num 0" "list_all (num_prints num) [sr_id s, sr_bytes s, sr_retransmits s,
          sr_jitter s, sr_errors s, sr_packets s, sr_startTime s, sr_endTime s]" for s
    using that by (simp add: stream_json_def js_scalar js_inject json_ok_num_json del: js_simps)
  assume r: "results_print num r"
  then have "list_all (json_ok num) (map stream_json (er_streams r))"
    using s unfolding results_print_def list.pred_map comp_def by (blast intro: list.pred_mono_strong)
  with r show ?thesis
    by (simp add: results_print_def encodeResults_def js_scalar js_inject json_ok_num_json del: js_simps)
qed

section \<open>Properties\<close>

text \<open>
  C21: what the two sides of a test tell each other arrives: parameters and results written
  as JSON frames, in whatever chunks the transport delivers, are read and decoded to exactly
  the values that were encoded.  Of number printing only that each number of the payload is
  printed exactly is assumed, and that the frame fits the reader's limit.
\<close>

theorem payloads_roundtrip:
  assumes "params_ok p" and "params_print num p" and "results_print num r"
    and "utf8_length (JSON_stringify num (encodeParams p)) \<le> maxSize"
    and "utf8_length (JSON_stringify num (encodeResults r)) \<le> maxSize" and "maxSize < 2 ^ 32"
    and "concat ds = writeJson num (encodeParams p) @ writeJson num (encodeResults r)"
  shows "\<exists>v1 v2 b. read_like maxSize buffer_read [JsonFrame JNull, JsonFrame JNull] (fold (\<lambda>d b. fst (feed d b)) ds new_buffer)
      = Inr ([JsonFrame v1, JsonFrame v2], b)
    \<and> decodeParams v1 = Inr p \<and> decodeResults v2 = Some r \<and> contents b = []"
proof -
  let ?fs = "[JsonFrame (encodeParams p), JsonFrame (encodeResults r)]"
  have ok: "list_all (frame_ok num maxSize) ?fs"
    using assms(2-5) json_ok_params json_ok_results by simp
  have idle: "buffer_idle new_buffer" by (simp add: buffer_idle_def) (simp add: new_buffer_def)
  have "contents (fold (\<lambda>d b. fst (feed d b)) ds new_buffer) = concat (map (write_frame num) ?fs) @ []"
    using buffer_pipe.wr_chunks [OF idle, of ds] assms(7) by (simp add: new_buffer_def contents_def)
  from buffer_pipe.read_like_write [OF _ this ok assms(6)] buffer_pipe.wr_chunks [OF idle, of ds]
  obtain b where "read_like maxSize buffer_read ?fs (fold (\<lambda>d b. fst (feed d b)) ds new_buffer) = Inr (?fs, b)"
    "contents b = []" by auto
  with decode_encodeParams [OF assms(1)] decode_encodeResults [of r] show ?thesis by auto
qed

text \<open>A concrete exchange: integer valued parameters and one stream result.\<close>

definition witness_params :: TestParams where
  "witness_params = \<lparr>tp_udp = True, tp_time = 10, tp_parallel = 2, tp_len = 1460, tp_reverse = True, tp_bandwidth = Fin 1048576\<rparr>"

definition witness_results :: EndResults where
  "witness_results = \<lparr>er_senderHasRetransmits = Fin (- 1), er_streams = [\<lparr>sr_id = Fin 1, sr_bytes = Fin 1460, sr_retransmits = Fin (- 1),
     sr_jitter = Fin 0, sr_errors = Fin 3, sr_packets = Fin 4, sr_startTime = Fin 0, sr_endTime = Fin 10\<rparr>]\<rparr>"

lemma witness_numbers: "num_ok int_num 0" "num_ok int_num 1" "num_ok int_num (- 1)"
    "numeral n < (2 :: int) ^ 1000 \<Longrightarrow> num_ok int_num (numeral n)"
  using num_ok_int [of 0] num_ok_int [of 1] num_ok_int [of "- 1"] num_ok_int [of "numeral n"] by simp_all

lemma length_quote_le: "length (quote_string s) \<le> 6 * length s + 2"
proof -
  have "length (concat (map quote_char s)) \<le> 6 * length s"
    by (induction s) (simp_all add: quote_char_def escape_u_def)
  then show ?thesis by (simp add: quote_string_def)
qed

lemma length_nat_digits_le: "n < 10 ^ Suc k \<Longrightarrow> length (nat_digits n) \<le> Suc k"
proof (induction k arbitrary: n)
  case 0
  then show ?case by (simp add: nat_digits.simps)
next
  case (Suc k)
  then have "n div 10 < 10 ^ Suc k" by (simp add: less_mult_imp_div_less)
  from Suc.IH [OF this] show ?case by (subst nat_digits.simps) simp
qed

lemma length_int_digits_le: "i < 10 ^ 16 \<Longrightarrow> - (10 ^ 16) < i \<Longrightarrow> length (int_digits i) \<le> 17"
  using length_nat_digits_le [of "nat i" 15] length_nat_digits_le [of "nat (- i)" 15]
  by (auto simp: int_digits_def nat_less_iff)

lemma length_int_num_le: "\<lfloor>r\<rfloor> < 10 ^ 16 \<Longrightarrow> - (10 ^ 16) < \<lfloor>r\<rfloor> \<Longrightarrow> length (int_num r) \<le> 17"
  unfolding int_num_def by (rule length_int_digits_le)

text \<open>An upper bound of the printed length that needs no text.\<close>

fun json_bound :: "json \<Rightarrow> nat" where
  "json_bound JNull = 4"
| "json_bound (JBool b) = 5"
| "json_bound (JNum r) = 17"
| "json_bound (JInf neg) = 4"
| "json_bound (JStr s) = 6 * length s + 2"
| "json_bound (JArr vs) = 2 + sum_list (map (\<lambda>v. 1 + json_bound v) vs)"
| "json_bound (JObj fs) = 2 + sum_list (map (\<lambda>(k, v). 6 * length k + 4 + json_bound v) fs)"

fun json_small :: "json \<Rightarrow> bool" where
  "json_small (JNum r) = (\<lfloor>r\<rfloor> < 10 ^ 16 \<and> - (10 ^ 16) < \<lfloor>r\<rfloor>)"
| "json_small (JArr vs) = list_all json_small vs"
| "json_small (JObj fs) = list_all (\<lambda>(k, v). json_small v) fs"
| "json_small _ = True"

lemma length_join_le: "length (join [c] ss) \<le> sum_list (map (\<lambda>s. 1 + length s) ss)"
  by (induction "[c]" ss rule: join.induct) auto

lemma length_stringify_le: "json_small j \<Longrightarrow> length (JSON_stringify int_num j) \<le> json_bound j"
proof (induction j rule: json_bound.induct)
  case (6 vs)
  then have "sum_list (map (\<lambda>v. 1 + length (JSON_stringify int_num v)) vs) \<le> sum_list (map (\<lambda>v. 1 + json_bound v) vs)"
    by (intro sum_list_mono) (auto simp: list_all_iff)
  with length_join_le [of 44 "map (JSON_stringify int_num) vs"] show ?case by (simp add: comp_def)
next
  case (7 fs)
  let ?f = "\<lambda>(k, v). quote_string k @ [58] @ JSON_stringify int_num v"
  have "1 + length (?f kv) \<le> (case kv of (k, v) \<Rightarrow> 6 * length k + 4 + json_bound v)" if "kv \<in> set fs" for kv
    using 7 that length_quote_le [of "fst kv"] by (cases kv) (fastforce simp: list_all_iff)
  then have "sum_list (map (\<lambda>kv. 1 + length (?f kv)) fs) \<le> sum_list (map (\<lambda>(k, v). 6 * length k + 4 + json_bound v) fs)"
    by (intro sum_list_mono) auto
  with length_join_le [of 44 "map ?f fs"] show ?case by (simp add: comp_def)
qed (use length_quote_le in \<open>auto intro: length_int_num_le\<close>)

lemma utf8_length_le: "utf8_length s \<le> 4 * length s"
proof (induction s)
  case (Cons c s)
  have "length (utf8_point c) \<le> 4" by (simp add: utf8_point.simps)
  with Cons show ?case by (simp add: utf8_length_def utf8_encode_def)
qed (simp add: utf8_length_def utf8_encode_def)

lemma utf8_stringify_le: "json_small j \<Longrightarrow> 4 * json_bound j \<le> n \<Longrightarrow> utf8_length (JSON_stringify int_num j) \<le> n"
  using utf8_length_le [of "JSON_stringify int_num j"] length_stringify_le [of j] by simp

lemmas witness_text = witness_params_def witness_results_def encodeParams_def encodeResults_def stream_json_def VERSION_def

theorem payloads_roundtrip_witness:
  "\<exists>v1 v2 b. read_like 65536 buffer_read [JsonFrame JNull, JsonFrame JNull]
       (fold (\<lambda>d b. fst (feed d b))
         [writeJson int_num (encodeParams witness_params), writeJson int_num (encodeResults witness_results)] new_buffer)
      = Inr ([JsonFrame v1, JsonFrame v2], b)
    \<and> decodeParams v1 = Inr witness_params \<and> decodeResults v2 = Some witness_results \<and> contents b = []"
proof (rule payloads_roundtrip)
  show "params_ok witness_params"
    by (simp add: params_ok_def witness_params_def MAX_PARALLEL_def MAX_LEN_def)
  show "params_print int_num witness_params"
    using num_ok_int [of 2] by (simp add: params_print_def witness_params_def witness_numbers)
  show "results_print int_num witness_results"
    by (simp add: results_print_def witness_results_def witness_numbers)
  show "utf8_length (JSON_stringify int_num (encodeParams witness_params)) \<le> 65536"
    by (rule utf8_stringify_le) (simp_all add: witness_text del: js_simps)
  show "utf8_length (JSON_stringify int_num (encodeResults witness_results)) \<le> 65536"
    by (rule utf8_stringify_le) (simp_all add: witness_text del: js_simps)
qed simp_all

text \<open>
  C22: a server is safe from hostile parameters: whatever JSON value is decoded, the accepted
  parameters have between 1 and 128 streams, blocks of 4 bytes to 1 MiB, at most one day and
  a bandwidth that is not negative; and exactly one of the two protocols was requested.
\<close>

theorem decodeParams_bounds:
  assumes "decodeParams j = Inr p"
  shows "1 \<le> tp_parallel p \<and> tp_parallel p \<le> 128 \<and> 4 \<le> tp_len p \<and> tp_len p \<le> 1048576
    \<and> 1 \<le> tp_time p \<and> tp_time p \<le> 86400 \<and> num_le (Fin 0) (tp_bandwidth p)
    \<and> (json_field ''tcp'' j = Some (JBool True) \<longleftrightarrow> \<not> tp_udp p) \<and> (json_field ''udp'' j = Some (JBool True) \<longleftrightarrow> tp_udp p)"
proof -
  from assms obtain w where w: "parse_WireParams j = Some w"
    and p: "(wp_tcp w = Some True) = (\<not> tp_udp p)" "(wp_udp w = Some True) = tp_udp p"
    by (auto simp: decodeParams_def split: option.splits if_splits)
  from w have "opt_bool ''tcp'' j = Some (wp_tcp w)" "opt_bool ''udp'' j = Some (wp_udp w)"
    by (auto simp: parse_WireParams_def bind_eq_Some_conv simp del: js_simps split: if_splits)
  from this [THEN opt_bool_true] p
  have "(json_field ''tcp'' j = Some (JBool True) \<longleftrightarrow> \<not> tp_udp p) \<and> (json_field ''udp'' j = Some (JBool True) \<longleftrightarrow> tp_udp p)"
    by simp
  with decodeParams_ok [OF assms] show ?thesis by (simp add: MAX_PARALLEL_def MAX_LEN_def)
qed

theorem decodeParams_bounds_witness:
  "decodeParams (encodeParams witness_params) = Inr witness_params \<and> tp_parallel witness_params \<le> 128
    \<and> json_field ''udp'' (encodeParams witness_params) = Some (JBool True)"
proof -
  have "decodeParams (encodeParams witness_params) = Inr witness_params"
    by (rule decode_encodeParams) (simp add: params_ok_def witness_params_def MAX_PARALLEL_def MAX_LEN_def)
  with decodeParams_bounds [OF this] show ?thesis by (simp add: witness_params_def)
qed

end
