(* ===== verification/Stats.thy ===== *)
theory Stats
  imports Params
begin

text \<open>
  \<open>packages/netsu/src/stats.ts\<close>: throughput, the interval meter of a running test and the
  jitter and loss accounting of a UDP receiver.  Byte counts are \<open>nat\<close>; instants are
  milliseconds as exact rationals.  The methods of the two classes are functions on records
  of their private fields.
\<close>

section \<open>Interval meter\<close>

definition bitsPerSecond :: "rat \<Rightarrow> rat \<Rightarrow> rat" where
  "bitsPerSecond bytes seconds = (if seconds > 0 then (bytes * 8) / seconds else 0)"

record IntervalReport =
  ir_start :: rat
  ir_end :: rat
  ir_bytes :: nat
  ir_bitsPerSecond :: rat

record IntervalMeter =
  im_total :: nat
  im_intervalBytes :: nat
  im_startMs :: rat
  im_lastSnapMs :: rat

definition new_meter :: "rat \<Rightarrow> IntervalMeter" where
  "new_meter startMs = \<lparr>im_total = 0, im_intervalBytes = 0, im_startMs = startMs, im_lastSnapMs = startMs\<rparr>"

definition meter_add :: "nat \<Rightarrow> IntervalMeter \<Rightarrow> IntervalMeter" where
  "meter_add bytes m = m\<lparr>im_total := im_total m + bytes, im_intervalBytes := im_intervalBytes m + bytes\<rparr>"

definition totalBytes :: "IntervalMeter \<Rightarrow> nat" where
  "totalBytes m = im_total m"

definition snap :: "rat \<Rightarrow> IntervalMeter \<Rightarrow> IntervalReport \<times> IntervalMeter" where
  "snap nowMs m =
     (let seconds = (nowMs - im_lastSnapMs m) / 1000;
          report = \<lparr>ir_start = (im_lastSnapMs m - im_startMs m) / 1000, ir_end = (nowMs - im_startMs m) / 1000,
            ir_bytes = im_intervalBytes m, ir_bitsPerSecond = bitsPerSecond (of_nat (im_intervalBytes m)) seconds\<rparr>
      in (report, m\<lparr>im_lastSnapMs := nowMs, im_intervalBytes := 0\<rparr>))"

section \<open>Jitter tracker\<close>

record JitterTracker =
  jt_jitterMs :: rat
  jt_prevTransit :: "rat option"
  jt_maxSeq :: nat
  jt_received :: nat
  jt_outOfOrder :: nat

definition new_tracker :: JitterTracker where
  "new_tracker = \<lparr>jt_jitterMs = 0, jt_prevTransit = None, jt_maxSeq = 0, jt_received = 0, jt_outOfOrder = 0\<rparr>"

definition onPacket :: "nat \<Rightarrow> rat \<Rightarrow> rat \<Rightarrow> JitterTracker \<Rightarrow> JitterTracker" where
  "onPacket pcount sentMs nowMs t =
     (let t1 = t\<lparr>jt_received := jt_received t + 1\<rparr>;
          t2 = (if pcount > jt_maxSeq t1 then t1\<lparr>jt_maxSeq := pcount\<rparr> else t1\<lparr>jt_outOfOrder := jt_outOfOrder t1 + 1\<rparr>);
          transit = nowMs - sentMs;
          t3 = (case jt_prevTransit t2 of
                  None \<Rightarrow> t2
                | Some prev \<Rightarrow>
                    (let d = \<bar>transit - prev\<bar> in t2\<lparr>jt_jitterMs := jt_jitterMs t2 + (d - jt_jitterMs t2) / 16\<rparr>))
      in t3\<lparr>jt_prevTransit := Some transit\<rparr>)"

definition lost :: "JitterTracker \<Rightarrow> nat" where
  "lost t = nat (max 0 (int (jt_maxSeq t) - int (jt_received t)))"

section \<open>Runs of the meter\<close>

datatype meter_event = Add nat | Snap rat

fun meter_run :: "meter_event list \<Rightarrow> IntervalMeter \<Rightarrow> IntervalReport list \<times> IntervalMeter" where
  "meter_run [] m = ([], m)"
| "meter_run (Add n # es) m = meter_run es (meter_add n m)"
| "meter_run (Snap t # es) m = (case snap t m of (r, m') \<Rightarrow> case meter_run es m' of (rs, m'') \<Rightarrow> (r # rs, m''))"

fun event_bytes :: "meter_event \<Rightarrow> nat" where
  "event_bytes (Add n) = n"
| "event_bytes (Snap t) = 0"

text \<open>Reports that tile the time from \<open>a\<close>, each starting where the one before it ended.\<close>

fun tiles :: "rat \<Rightarrow> IntervalReport list \<Rightarrow> bool" where
  "tiles a [] = True"
| "tiles a (r # rs) = (ir_start r = a \<and> tiles (ir_end r) rs)"

definition rate_exact :: "IntervalReport \<Rightarrow> bool" where
  "rate_exact r \<longleftrightarrow> ir_start r < ir_end r \<longrightarrow> ir_bitsPerSecond r * (ir_end r - ir_start r) = 8 * of_nat (ir_bytes r)"

lemma snap_rate_exact: "rate_exact (fst (snap t m))"
proof -
  have "ir_end (fst (snap t m)) - ir_start (fst (snap t m)) = (t - im_lastSnapMs m) / 1000"
    by (simp add: snap_def Let_def diff_divide_distrib)
  then show ?thesis
    by (auto simp: rate_exact_def) (auto simp: snap_def Let_def bitsPerSecond_def field_simps)
qed

lemma snap_fields [simp]:
  "im_total (snd (snap t m)) = im_total m" "im_intervalBytes (snd (snap t m)) = 0"
  "im_startMs (snd (snap t m)) = im_startMs m" "im_lastSnapMs (snd (snap t m)) = t"
  "ir_start (fst (snap t m)) = (im_lastSnapMs m - im_startMs m) / 1000"
  "ir_end (fst (snap t m)) = (t - im_startMs m) / 1000" "ir_bytes (fst (snap t m)) = im_intervalBytes m"
  by (simp_all add: snap_def Let_def)

lemma meter_add_fields [simp]:
  "im_total (meter_add n m) = im_total m + n" "im_intervalBytes (meter_add n m) = im_intervalBytes m + n"
  "im_startMs (meter_add n m) = im_startMs m" "im_lastSnapMs (meter_add n m) = im_lastSnapMs m"
  by (simp_all add: meter_add_def)

lemma meter_run_Snap [simp]:
  "fst (meter_run (Snap t # es) m) = fst (snap t m) # fst (meter_run es (snd (snap t m)))"
  "snd (meter_run (Snap t # es) m) = snd (meter_run es (snd (snap t m)))"
  by (simp_all split: prod.split)

declare meter_run.simps(3) [simp del]

lemma meter_run_spec:
  "im_total (snd (meter_run es m)) = im_total m + sum_list (map event_bytes es)
   \<and> sum_list (map ir_bytes (fst (meter_run es m))) + im_intervalBytes (snd (meter_run es m))
       = im_intervalBytes m + sum_list (map event_bytes es)
   \<and> tiles ((im_lastSnapMs m - im_startMs m) / 1000) (fst (meter_run es m))
   \<and> list_all rate_exact (fst (meter_run es m))"
proof (induction es arbitrary: m)
  case (Cons e es)
  show ?case
  proof (cases e)
    case (Add n)
    with Cons [of "meter_add n m"] show ?thesis by simp
  next
    case (Snap t)
    with Cons [of "snd (snap t m)"] snap_rate_exact [of t m] show ?thesis by simp
  qed
qed simp

section \<open>Runs of the tracker\<close>

text \<open>A packet is its sequence number, the sender's time stamp and the time it arrived.\<close>

type_synonym packet = "nat \<times> rat \<times> rat"

definition track :: "packet list \<Rightarrow> JitterTracker \<Rightarrow> JitterTracker" where
  "track ps t = fold (\<lambda>(pcount, sent, now). onPacket pcount sent now) ps t"

lemma onPacket_counts:
  "jt_received (onPacket p s n t) = Suc (jt_received t)"
  "jt_maxSeq (onPacket p s n t) = max (jt_maxSeq t) p"
  "jt_outOfOrder (onPacket p s n t) = (if jt_maxSeq t < p then jt_outOfOrder t else Suc (jt_outOfOrder t))"
  "jt_prevTransit (onPacket p s n t) = Some (n - s)"
  "jt_jitterMs (onPacket p s n t) = (case jt_prevTransit t of None \<Rightarrow> jt_jitterMs t
     | Some q \<Rightarrow> jt_jitterMs t + (\<bar>(n - s) - q\<bar> - jt_jitterMs t) / 16)"
  by (auto simp: onPacket_def Let_def split: option.split)

lemma track_counts:
  "jt_received (track ps t) = jt_received t + length ps
   \<and> jt_maxSeq (track ps t) = Max (insert (jt_maxSeq t) (fst ` set ps))"
proof (induction ps arbitrary: t)
  case (Cons p ps)
  obtain c s n where p: "p = (c, s, n)" by (cases p)
  have "track (p # ps) t = track ps (onPacket c s n t)" by (simp add: track_def p)
  with Cons [of "onPacket c s n t"] show ?case
    by (cases "ps = []") (simp_all add: p onPacket_counts Max_insert max.assoc max.commute max.left_commute)
qed (simp add: track_def)

text \<open>The jitter is a running average, so it never leaves the range of the differences it averages.\<close>

fun transit_bound :: "rat \<Rightarrow> rat option \<Rightarrow> packet list \<Rightarrow> bool" where
  "transit_bound B prev [] = True"
| "transit_bound B prev ((c, s, n) # ps) =
     ((case prev of None \<Rightarrow> True | Some q \<Rightarrow> \<bar>(n - s) - q\<bar> \<le> B) \<and> transit_bound B (Some (n - s)) ps)"

lemma track_jitter:
  "0 \<le> jt_jitterMs t \<Longrightarrow> jt_jitterMs t \<le> B \<Longrightarrow> transit_bound B (jt_prevTransit t) ps \<Longrightarrow>
     0 \<le> jt_jitterMs (track ps t) \<and> jt_jitterMs (track ps t) \<le> B"
proof (induction ps arbitrary: t)
  case (Cons p ps)
  obtain c s n where p: "p = (c, s, n)" by (cases p)
  let ?u = "onPacket c s n t"
  have "0 \<le> jt_jitterMs ?u \<and> jt_jitterMs ?u \<le> B"
    using Cons.prems by (auto simp: p onPacket_counts field_simps split: option.splits)
  moreover have "transit_bound B (jt_prevTransit ?u) ps" using Cons.prems by (simp add: p onPacket_counts)
  ultimately show ?case using Cons.IH [of ?u] by (simp add: track_def p)
qed (simp add: track_def)

text \<open>Loss against the sequence numbers that never arrived.\<close>

lemma lost_le_missing:
  assumes "list_all (\<lambda>p. 1 \<le> fst p) ps"
  shows "lost (track ps new_tracker) \<le> card ({1 .. jt_maxSeq (track ps new_tracker)} - fst ` set ps)"
    and "distinct (map fst ps) \<Longrightarrow>
      lost (track ps new_tracker) = card ({1 .. jt_maxSeq (track ps new_tracker)} - fst ` set ps)"
proof -
  let ?M = "jt_maxSeq (track ps new_tracker)"
  have M: "?M = Max (insert 0 (fst ` set ps))" and r: "jt_received (track ps new_tracker) = length ps"
    using track_counts [of ps new_tracker] by (simp_all add: new_tracker_def)
  have "x \<le> ?M" if "x \<in> fst ` set ps" for x unfolding M using that by simp
  moreover have "1 \<le> x" if "x \<in> fst ` set ps" for x using assms that by (auto simp: list_all_iff)
  ultimately have sub: "fst ` set ps \<subseteq> {1 .. ?M}" by (meson atLeastAtMost_iff subsetI)
  then have c: "card ({1 .. ?M} - fst ` set ps) = ?M - card (fst ` set ps)"
    by (simp add: card_Diff_subset)
  have "card (fst ` set ps) \<le> length ps" using card_length [of "map fst ps"] by simp
  then show "lost (track ps new_tracker) \<le> card ({1 .. ?M} - fst ` set ps)"
    using c r by (simp add: lost_def)
  assume "distinct (map fst ps)"
  then have "card (fst ` set ps) = length ps" using distinct_card [of "map fst ps"] by simp
  then show "lost (track ps new_tracker) = card ({1 .. ?M} - fst ` set ps)"
    using c r by (simp add: lost_def)
qed

section \<open>Properties\<close>

text \<open>
  Interval reports lose and invent nothing: whatever bytes are added and whenever
  snapshots are taken, the bytes of all reports and of the open interval add up to the total,
  the reports tile the time from the start of the test without gap or overlap, and the rate
  of every interval of positive length is exactly its bits over its seconds.
\<close>

theorem meter_conservation:
  "totalBytes (snd (meter_run es (new_meter s))) = sum_list (map event_bytes es)
   \<and> sum_list (map ir_bytes (fst (meter_run es (new_meter s)))) + im_intervalBytes (snd (meter_run es (new_meter s)))
       = totalBytes (snd (meter_run es (new_meter s)))
   \<and> tiles 0 (fst (meter_run es (new_meter s))) \<and> list_all rate_exact (fst (meter_run es (new_meter s)))"
  using meter_run_spec [of es "new_meter s"] by (simp add: totalBytes_def new_meter_def)

text \<open>
  The loss a UDP receiver reports is right: when every packet arrives at most once, in
  any order, it is exactly the number of sequence numbers up to the highest one seen that
  never arrived; with duplicates it is at most that number; and the reported jitter stays
  between zero and the largest change of transit time between consecutive packets.
\<close>

theorem tracker_loss_exact:
  assumes "list_all (\<lambda>p. 1 \<le> fst p) ps" and "0 \<le> B" and "transit_bound B None ps"
  shows "lost (track ps new_tracker) \<le> card ({1 .. jt_maxSeq (track ps new_tracker)} - fst ` set ps)
    \<and> (distinct (map fst ps) \<longrightarrow>
         lost (track ps new_tracker) = card ({1 .. jt_maxSeq (track ps new_tracker)} - fst ` set ps))
    \<and> jt_received (track ps new_tracker) = length ps
    \<and> 0 \<le> jt_jitterMs (track ps new_tracker) \<and> jt_jitterMs (track ps new_tracker) \<le> B"
  using lost_le_missing [OF assms(1)] track_jitter [of new_tracker B ps] track_counts [of ps new_tracker] assms(2,3)
  by (simp add: new_tracker_def)

theorem tracker_loss_exact_witness:
  "lost (track [(1, 0, 10), (4, 20, 32), (2, 10, 40)] new_tracker) = 1
   \<and> jt_jitterMs (track [(1, 0, 10), (4, 20, 32), (2, 10, 40)] new_tracker) \<le> 18"
proof -
  let ?ps = "[(1, 0, 10), (4, 20, 32), (2, 10, 40)] :: packet list"
  have s: "jt_maxSeq (track ?ps new_tracker) = 4"
    by (simp add: track_def onPacket_counts new_tracker_def)
  have "{1 .. 4} - {1, 4, 2} = {3 :: nat}" by auto
  then have "card ({1 .. 4} - {1, 4, 2 :: nat}) = 1" by simp
  with tracker_loss_exact [of ?ps 18] show ?thesis unfolding s by simp
qed

end
