(* ===== verification/Runner.thy ===== *)
theory Runner
  imports Stats
begin

text \<open>
  \<open>packages/netsu/src/streams/runner.ts\<close>: the accounting of one data stream that client and
  server share, the stream ids of iperf3 and the send loop.  A turn of the send loop is what
  the environment answers in one iteration: whether the test is still running, whether the
  channel took the chunk, and the clock afterwards.
\<close>

record StreamCounters =
  sc_id :: nat
  sc_bytes :: nat
  sc_packets :: nat
  sc_jitter :: rat
  sc_errors :: nat

definition makeCounters :: "nat \<Rightarrow> StreamCounters" where
  "makeCounters i = \<lparr>sc_id = i, sc_bytes = 0, sc_packets = 0, sc_jitter = 0, sc_errors = 0\<rparr>"

definition nextStreamId :: "nat \<Rightarrow> nat" where
  "nextStreamId existingCount = (if existingCount = 0 then 1 else existingCount + 2)"

text \<open>The callback \<open>attachReceiver\<close> registers: what it does to the counters; its second effect, the
  call of \<open>onBytes\<close> with the same number, is its caller's.\<close>

definition attachReceiver :: "nat \<Rightarrow> StreamCounters \<Rightarrow> StreamCounters" where
  "attachReceiver n c = c\<lparr>sc_bytes := sc_bytes c + n\<rparr>"

definition YIELD_INTERVAL_MS :: rat where "YIELD_INTERVAL_MS = 1"

record turn =
  tu_running :: bool
  tu_written :: bool
  tu_now :: rat

datatype sender_end = Stopped | TornDown | StillSending

record sender =
  sn_counters :: StreamCounters
  sn_lastYield :: rat
  sn_onBytes :: "nat list"
  sn_yields :: "rat list"

fun send_loop :: "nat \<Rightarrow> turn list \<Rightarrow> sender \<Rightarrow> sender_end \<times> sender" where
  "send_loop len [] s = (StillSending, s)"
| "send_loop len (t # ts) s =
     (if \<not> tu_running t then (Stopped, s)
      else if \<not> tu_written t then (TornDown, s)
      else
        let s1 = s\<lparr>sn_counters := (sn_counters s)\<lparr>sc_bytes := sc_bytes (sn_counters s) + len\<rparr>, sn_onBytes := sn_onBytes s @ [len]\<rparr>;
            s2 = (if tu_now t - sn_lastYield s1 \<ge> YIELD_INTERVAL_MS
                  then s1\<lparr>sn_lastYield := tu_now t, sn_yields := sn_yields s1 @ [tu_now t]\<rparr> else s1)
        in send_loop len ts s2)"

definition startSender :: "StreamCounters \<Rightarrow> nat \<Rightarrow> rat \<Rightarrow> turn list \<Rightarrow> sender_end \<times> sender" where
  "startSender c len now ts = send_loop len ts \<lparr>sn_counters = c, sn_lastYield = now, sn_onBytes = [], sn_yields = []\<rparr>"

section \<open>Stream ids\<close>

text \<open>The ids of the first \<open>n\<close> streams, in the order they are added.\<close>

definition stream_ids :: "nat \<Rightarrow> nat list" where
  "stream_ids n = map nextStreamId [0..<n]"

lemma stream_ids_Suc: "stream_ids (Suc n) = stream_ids n @ [nextStreamId n]"
  by (simp add: stream_ids_def)

lemma stream_ids_0 [simp]: "stream_ids 0 = []"
  by (simp add: stream_ids_def)

lemma length_stream_ids [simp]: "length (stream_ids n) = n"
  by (simp add: stream_ids_def)

lemma distinct_stream_ids: "distinct (stream_ids n)"
  by (auto simp: stream_ids_def distinct_map inj_on_def nextStreamId_def split: if_splits)

lemma stream_ids_upt: "stream_ids (Suc n) = 1 # [3..<n + 3]"
proof (induction n)
  case (Suc n)
  have "[3..<Suc n + 3] = [3..<n + 3] @ [n + 3]" using upt_Suc_append [of 3 "n + 3"] by simp
  with Suc show ?case by (subst stream_ids_Suc) (simp add: nextStreamId_def)
qed (simp add: stream_ids_def nextStreamId_def)

section \<open>The send loop\<close>

text \<open>The turns the loop completes: those before the first that stops it.\<close>

definition sent_turns :: "turn list \<Rightarrow> turn list" where
  "sent_turns ts = takeWhile (\<lambda>t. tu_running t \<and> tu_written t) ts"

text \<open>
  Never deaf: a turn that does not yield ended less than one interval after the last yield.
\<close>

fun yields_due :: "rat \<Rightarrow> rat list \<Rightarrow> turn list \<Rightarrow> bool" where
  "yields_due prev ys [] = (ys = [])"
| "yields_due prev ys (t # ts) =
     (if tu_now t - prev \<ge> YIELD_INTERVAL_MS
      then (case ys of [] \<Rightarrow> False | y # ys' \<Rightarrow> y = tu_now t \<and> yields_due y ys' ts)
      else yields_due prev ys ts)"

lemma send_loop_spec:
  "\<exists>ys. snd (send_loop len ts s) = \<lparr>sn_counters = (sn_counters s)\<lparr>sc_bytes := sc_bytes (sn_counters s) + len * length (sent_turns ts)\<rparr>,
       sn_lastYield = last (sn_lastYield s # ys), sn_onBytes = sn_onBytes s @ replicate (length (sent_turns ts)) len,
       sn_yields = sn_yields s @ ys\<rparr>
     \<and> yields_due (sn_lastYield s) ys (sent_turns ts)"
proof (induction len ts s rule: send_loop.induct)
  case (1 len s)
  show ?case by (intro exI [of _ "[]"]) (simp add: sent_turns_def)
next
  case (2 len t ts s)
  show ?case
  proof (cases "tu_running t \<and> tu_written t")
    case False
    then show ?thesis by (intro exI [of _ "[]"]) (auto simp: sent_turns_def)
  next
    case True
    let ?s1 = "s\<lparr>sn_counters := (sn_counters s)\<lparr>sc_bytes := sc_bytes (sn_counters s) + len\<rparr>, sn_onBytes := sn_onBytes s @ [len]\<rparr>"
    let ?due = "tu_now t - sn_lastYield s \<ge> YIELD_INTERVAL_MS"
    let ?s2 = "if ?due then ?s1\<lparr>sn_lastYield := tu_now t, sn_yields := sn_yields ?s1 @ [tu_now t]\<rparr> else ?s1"
    have step: "send_loop len (t # ts) s = send_loop len ts ?s2" using True by (simp add: Let_def)
    have turns: "sent_turns (t # ts) = t # sent_turns ts" using True by (simp add: sent_turns_def)
    from 2 [OF _ _ refl refl] True obtain ys where
      ys: "snd (send_loop len ts ?s2) = \<lparr>sn_counters = (sn_counters ?s2)\<lparr>sc_bytes := sc_bytes (sn_counters ?s2) + len * length (sent_turns ts)\<rparr>,
        sn_lastYield = last (sn_lastYield ?s2 # ys), sn_onBytes = sn_onBytes ?s2 @ replicate (length (sent_turns ts)) len,
        sn_yields = sn_yields ?s2 @ ys\<rparr>" and due: "yields_due (sn_lastYield ?s2) ys (sent_turns ts)"
      by auto
    show ?thesis
      by (intro exI [of _ "if ?due then tu_now t # ys else ys"]) (use ys due in \<open>auto simp: step turns add.assoc simp del: send_loop.simps\<close>)
  qed
qed

lemma send_loop_end:
  "fst (send_loop len ts s) = (case dropWhile (\<lambda>t. tu_running t \<and> tu_written t) ts of
     [] \<Rightarrow> StillSending | t # _ \<Rightarrow> if tu_running t then TornDown else Stopped)"
  by (induction len ts s rule: send_loop.induct) (auto simp: Let_def)

end
