(* ===== verification/Channels.thy ===== *)
theory Channels
  imports Framing Runner
begin

text \<open>
  The connections of \<open>transport/tcp.ts\<close> and \<open>transport/ws.ts\<close> after they are open: as a byte pipe for
  the control channel (\<open>TcpPipe\<close>, \<open>WsPipe\<close>), the switch to bulk payload (\<open>detach\<close>,
  \<open>detachToChannel\<close>), and as a data channel (\<open>TcpDataChannel\<close>, \<open>WsDataChannel\<close>, the interface
  \<open>streams/channel.ts\<close>).  The \<open>i\<close>-th promise of a channel is that of its \<open>i\<close>-th \<open>write\<close>.
\<close>

section \<open>Pipes\<close>

record socket_pipe =
  pp_buffer :: byte_buffer
  pp_detached :: bool
  pp_destroyed :: bool
  pp_listening :: bool

definition TcpPipe :: socket_pipe where
  "TcpPipe = \<lparr>pp_buffer = new_buffer, pp_detached = False, pp_destroyed = False, pp_listening = True\<rparr>"

definition pipe_onData :: "byte list \<Rightarrow> socket_pipe \<Rightarrow> socket_pipe \<times> settlement list" where
  "pipe_onData d p = (if pp_listening p then (case feed d (pp_buffer p) of (b, out) \<Rightarrow> (p\<lparr>pp_buffer := b\<rparr>, out)) else (p, []))"

definition pipe_onClose :: "socket_pipe \<Rightarrow> socket_pipe \<times> settlement list" where
  "pipe_onClose p = (if pp_listening p then (case end_buffer (pp_buffer p) of (b, out) \<Rightarrow> (p\<lparr>pp_buffer := b\<rparr>, out)) else (p, []))"

definition pipe_readExact :: "nat \<Rightarrow> nat \<Rightarrow> nat option \<Rightarrow> socket_pipe \<Rightarrow> socket_pipe \<times> settlement list" where
  "pipe_readExact i n t p = (case readExact i n t (pp_buffer p) of (b, out) \<Rightarrow> (p\<lparr>pp_buffer := b\<rparr>, out))"

datatype pipe_failure = WriteOnDetached | WriteFailed string | DetachWithBufferedBytes | DetachWithPendingRead

text \<open>\<open>sent\<close> is the answer of the socket's write callback.\<close>

definition pipe_write :: "string option \<Rightarrow> byte list \<Rightarrow> socket_pipe \<Rightarrow> pipe_failure + byte list" where
  "pipe_write sent d p = (if pp_detached p then Inl WriteOnDetached
     else case sent of Some e \<Rightarrow> Inl (WriteFailed e) | None \<Rightarrow> Inr d)"

definition detach :: "socket_pipe \<Rightarrow> pipe_failure + socket_pipe" where
  "detach p = (if buffered (pp_buffer p) > 0 then Inl DetachWithBufferedBytes
     else if hasPendingRead (pp_buffer p) then Inl DetachWithPendingRead
     else Inr (p\<lparr>pp_detached := True, pp_listening := False\<rparr>))"

definition pipe_close :: "socket_pipe \<Rightarrow> socket_pipe \<times> settlement list" where
  "pipe_close p = (if pp_detached p then (p, [])
     else case end_buffer (pp_buffer p) of (b, out) \<Rightarrow> (p\<lparr>pp_destroyed := True, pp_buffer := b\<rparr>, out))"

text \<open>The WebSocket pipe differs in how a message becomes bytes.\<close>

datatype RawData = RawBuffer "byte list" | RawFragments "byte list list" | RawArrayBuffer "byte list"

fun toBuffer :: "RawData \<Rightarrow> byte list" where
  "toBuffer (RawBuffer b) = b"
| "toBuffer (RawFragments bs) = concat bs"
| "toBuffer (RawArrayBuffer b) = b"

definition WsPipe :: socket_pipe where
  "WsPipe = \<lparr>pp_buffer = new_buffer, pp_detached = False, pp_destroyed = False, pp_listening = True\<rparr>"

definition ws_onMessage :: "RawData \<Rightarrow> socket_pipe \<Rightarrow> socket_pipe \<times> settlement list" where
  "ws_onMessage d p = pipe_onData (toBuffer d) p"

definition ws_close :: "socket_pipe \<Rightarrow> socket_pipe \<times> settlement list" where
  "ws_close p = (if pp_detached p then (p, [])
     else case end_buffer (pp_buffer p) of (b, out) \<Rightarrow> (p\<lparr>pp_destroyed := True, pp_buffer := b\<rparr>, out))"

definition detachToChannel :: "socket_pipe \<Rightarrow> pipe_failure + socket_pipe" where
  "detachToChannel p = (if buffered (pp_buffer p) > 0 then Inl DetachWithBufferedBytes
     else if hasPendingRead (pp_buffer p) then Inl DetachWithPendingRead
     else Inr (p\<lparr>pp_detached := True, pp_listening := False\<rparr>))"

section \<open>The contract of a data channel\<close>

text \<open>
  Promises of writes are only added, a settled one never changes, and the first failure is
  latched for ever: every later write is rejected with it.
\<close>

type_synonym write_promise = "(string + unit) option"

locale data_channel =
  fixes step :: "'s \<Rightarrow> 'e \<Rightarrow> 's"
    and error :: "'s \<Rightarrow> string option"
    and promises :: "'s \<Rightarrow> write_promise list"
    and wr :: "'e \<Rightarrow> bool"
  assumes error_kept: "error s = Some x \<Longrightarrow> error (step s e) = Some x"
    and promise_kept: "i < length (promises s) \<Longrightarrow> promises s ! i = Some r \<Longrightarrow>
      i < length (promises (step s e)) \<and> promises (step s e) ! i = Some r"
    and promises_grow: "length (promises (step s e)) = length (promises s) + (if wr e then 1 else 0)"
    and write_poisoned: "wr e \<Longrightarrow> error s = Some x \<Longrightarrow> promises (step s e) = promises s @ [Some (Inl x)]"
begin

lemma error_latched: "error s = Some x \<Longrightarrow> error (run_steps step s es) = Some x"
  by (induction es arbitrary: s) (auto intro: error_kept)

lemma promise_final:
  "i < length (promises s) \<Longrightarrow> promises s ! i = Some r \<Longrightarrow>
     i < length (promises (run_steps step s es)) \<and> promises (run_steps step s es) ! i = Some r"
proof (induction es arbitrary: s)
  case (Cons e es)
  from promise_kept [OF Cons.prems, of e] Cons.IH [of "step s e"] show ?case by auto
qed simp

lemma poisoned_run:
  assumes "error s = Some x" and "wr e"
  shows "length (promises (run_steps step s es)) < length (promises (run_steps step s (es @ [e] @ fs)))
    \<and> promises (run_steps step s (es @ [e] @ fs)) ! length (promises (run_steps step s es)) = Some (Inl x)"
proof -
  let ?t = "run_steps step s es"
  have "promises (step ?t e) = promises ?t @ [Some (Inl x)]"
    by (rule write_poisoned [OF assms(2) error_latched [OF assms(1)]])
  with promise_final [of "length (promises ?t)" "step ?t e" "Inl x" fs] show ?thesis by simp
qed

end

section \<open>TCP data channel\<close>

record tcp_channel =
  cx_pendingError :: "string option"
  cx_destroyed :: bool
  cx_listener :: bool
  cx_promises :: "write_promise list"
  cx_drain :: "nat list"
  cx_received :: nat

definition TcpDataChannel :: tcp_channel where
  "TcpDataChannel = \<lparr>cx_pendingError = None, cx_destroyed = False, cx_listener = False, cx_promises = [], cx_drain = [],
     cx_received = 0\<rparr>"

definition latch :: "string \<Rightarrow> tcp_channel \<Rightarrow> tcp_channel" where
  "latch e c = (if cx_pendingError c = None then c\<lparr>cx_pendingError := Some e\<rparr> else c)"

text \<open>\<open>if (!settled)\<close>: settle a promise that is pending.\<close>

definition settle :: "string + unit \<Rightarrow> nat \<Rightarrow> write_promise list \<Rightarrow> write_promise list" where
  "settle r i ps = (if i < length ps \<and> ps ! i = None then ps[i := Some r] else ps)"

text \<open>\<open>ok\<close> is what \<open>socket.write\<close> returns.\<close>

definition tcp_write :: "bool \<Rightarrow> tcp_channel \<Rightarrow> tcp_channel" where
  "tcp_write ok c = (case cx_pendingError c of
     Some e \<Rightarrow> c\<lparr>cx_promises := cx_promises c @ [Some (Inl e)]\<rparr>
   | None \<Rightarrow> if ok then c\<lparr>cx_promises := cx_promises c @ [Some (Inr ())]\<rparr>
             else c\<lparr>cx_promises := cx_promises c @ [None], cx_drain := cx_drain c @ [length (cx_promises c)]\<rparr>)"

definition tcp_write_callback :: "nat \<Rightarrow> string option \<Rightarrow> tcp_channel \<Rightarrow> tcp_channel" where
  "tcp_write_callback i err c = (case err of
     None \<Rightarrow> c
   | Some e \<Rightarrow> let c1 = latch e c in c1\<lparr>cx_promises := settle (Inl e) i (cx_promises c1)\<rparr>)"

definition tcp_drain :: "tcp_channel \<Rightarrow> tcp_channel" where
  "tcp_drain c = c\<lparr>cx_promises := fold (settle (Inr ())) (cx_drain c) (cx_promises c), cx_drain := []\<rparr>"

definition tcp_socket_error :: "string \<Rightarrow> tcp_channel \<Rightarrow> tcp_channel" where
  "tcp_socket_error e c = (latch e c)\<lparr>cx_destroyed := True\<rparr>"

definition tcp_onData :: "tcp_channel \<Rightarrow> string + tcp_channel" where
  "tcp_onData c = (if cx_listener c then Inl ''TcpDataChannel.onData may only be called once'' else Inr (c\<lparr>cx_listener := True\<rparr>))"

definition tcp_data :: "nat \<Rightarrow> tcp_channel \<Rightarrow> tcp_channel" where
  "tcp_data n c = (if cx_listener c then c\<lparr>cx_received := cx_received c + n\<rparr> else c)"

definition tcp_close :: "tcp_channel \<Rightarrow> tcp_channel" where
  "tcp_close c = c\<lparr>cx_destroyed := True\<rparr>"

datatype tcp_channel_event =
  TcpWrite bool
| TcpWriteCallback nat "string option"
| TcpDrain
| TcpSocketError string
| TcpData nat
| TcpClose

fun tcp_channel_step :: "tcp_channel \<Rightarrow> tcp_channel_event \<Rightarrow> tcp_channel" where
  "tcp_channel_step c (TcpWrite ok) = tcp_write ok c"
| "tcp_channel_step c (TcpWriteCallback i err) = tcp_write_callback i err c"
| "tcp_channel_step c TcpDrain = tcp_drain c"
| "tcp_channel_step c (TcpSocketError e) = tcp_socket_error e c"
| "tcp_channel_step c (TcpData n) = tcp_data n c"
| "tcp_channel_step c TcpClose = tcp_close c"

fun is_tcp_write :: "tcp_channel_event \<Rightarrow> bool" where
  "is_tcp_write (TcpWrite ok) = True"
| "is_tcp_write _ = False"

lemma length_settle [simp]: "length (settle r i ps) = length ps"
  by (simp add: settle_def)

lemma settle_kept: "ps ! i = Some x \<Longrightarrow> settle r j ps ! i = Some x"
  by (auto simp: settle_def nth_list_update)

lemma fold_settle [simp]: "length (fold (settle r) is ps) = length ps"
  by (induction "is" arbitrary: ps) simp_all

lemma fold_settle_kept: "ps ! i = Some x \<Longrightarrow> fold (settle r) is ps ! i = Some x"
  by (induction "is" arbitrary: ps) (auto intro: settle_kept)

lemmas tcp_channel_ops = tcp_write_def tcp_write_callback_def tcp_drain_def tcp_socket_error_def tcp_data_def tcp_close_def
  latch_def Let_def

interpretation tcp_channel: data_channel tcp_channel_step cx_pendingError cx_promises is_tcp_write
proof (unfold_locales, goal_cases)
  case (1 s x e)
  then show ?case by (cases e) (auto simp: tcp_channel_ops split: option.split)
next
  case (2 i s r e)
  then show ?case
    by (cases e) (auto simp: tcp_channel_ops nth_append settle_kept fold_settle_kept split: option.split)
next
  case (3 s e)
  then show ?case by (cases e) (auto simp: tcp_channel_ops split: option.split)
next
  case (4 e s x)
  then show ?case by (cases e) (auto simp: tcp_channel_ops)
qed

section \<open>WebSocket data channel\<close>

definition HIGH_WATER :: nat where "HIGH_WATER = 4 * 1024 * 1024"

record ws_channel =
  wx_pendingError :: "string option"
  wx_terminated :: bool
  wx_listener :: bool
  wx_promises :: "write_promise list"
  wx_polling :: "nat list"
  wx_sending :: "nat list"
  wx_received :: nat

definition WsDataChannel :: ws_channel where
  "WsDataChannel = \<lparr>wx_pendingError = None, wx_terminated = False, wx_listener = False, wx_promises = [], wx_polling = [],
     wx_sending = [], wx_received = 0\<rparr>"

definition ws_latch :: "string \<Rightarrow> ws_channel \<Rightarrow> ws_channel" where
  "ws_latch e c = (if wx_pendingError c = None then c\<lparr>wx_pendingError := Some e\<rparr> else c)"

definition ws_write :: "ws_channel \<Rightarrow> ws_channel" where
  "ws_write c = (case wx_pendingError c of
     Some e \<Rightarrow> c\<lparr>wx_promises := wx_promises c @ [Some (Inl e)]\<rparr>
   | None \<Rightarrow> c\<lparr>wx_promises := wx_promises c @ [None], wx_polling := wx_polling c @ [length (wx_promises c)]\<rparr>)"

text \<open>One look of write \<open>i\<close> at the socket: the amount buffered and whether the socket is open.\<close>

definition ws_poll :: "nat \<Rightarrow> nat \<Rightarrow> bool \<Rightarrow> ws_channel \<Rightarrow> ws_channel" where
  "ws_poll i bufferedAmount is_open c =
     (if i \<notin> set (wx_polling c) then c
      else if \<not> is_open then c\<lparr>wx_polling := removeAll i (wx_polling c), wx_promises := settle (Inl ''ws closed'') i (wx_promises c)\<rparr>
      else if bufferedAmount > HIGH_WATER then c
      else c\<lparr>wx_polling := removeAll i (wx_polling c), wx_sending := wx_sending c @ [i]\<rparr>)"

definition ws_sent :: "nat \<Rightarrow> string option \<Rightarrow> ws_channel \<Rightarrow> ws_channel" where
  "ws_sent i err c =
     (if i \<notin> set (wx_sending c) then c
      else let c0 = c\<lparr>wx_sending := removeAll i (wx_sending c)\<rparr> in
        case err of
          Some e \<Rightarrow> let c1 = ws_latch e c0 in c1\<lparr>wx_promises := settle (Inl e) i (wx_promises c1)\<rparr>
        | None \<Rightarrow> c0\<lparr>wx_promises := settle (Inr ()) i (wx_promises c0)\<rparr>)"

definition ws_socket_error :: "string \<Rightarrow> ws_channel \<Rightarrow> ws_channel" where
  "ws_socket_error e c = (ws_latch e c)\<lparr>wx_terminated := True\<rparr>"

definition ws_onData :: "ws_channel \<Rightarrow> string + ws_channel" where
  "ws_onData c = (if wx_listener c then Inl ''WsDataChannel.onData may only be called once'' else Inr (c\<lparr>wx_listener := True\<rparr>))"

definition ws_data :: "RawData \<Rightarrow> ws_channel \<Rightarrow> ws_channel" where
  "ws_data d c = (if wx_listener c then c\<lparr>wx_received := wx_received c + length (toBuffer d)\<rparr> else c)"

definition ws_channel_close :: "ws_channel \<Rightarrow> ws_channel" where
  "ws_channel_close c = c\<lparr>wx_terminated := True\<rparr>"

datatype ws_channel_event =
  WsWrite
| WsPoll nat nat bool
| WsSent nat "string option"
| WsSocketError string
| WsData RawData
| WsClose

fun ws_channel_step :: "ws_channel \<Rightarrow> ws_channel_event \<Rightarrow> ws_channel" where
  "ws_channel_step c WsWrite = ws_write c"
| "ws_channel_step c (WsPoll i amount is_open) = ws_poll i amount is_open c"
| "ws_channel_step c (WsSent i err) = ws_sent i err c"
| "ws_channel_step c (WsSocketError e) = ws_socket_error e c"
| "ws_channel_step c (WsData d) = ws_data d c"
| "ws_channel_step c WsClose = ws_channel_close c"

fun is_ws_write :: "ws_channel_event \<Rightarrow> bool" where
  "is_ws_write WsWrite = True"
| "is_ws_write _ = False"

lemmas ws_channel_ops = ws_write_def ws_poll_def ws_sent_def ws_socket_error_def ws_data_def ws_channel_close_def
  ws_latch_def Let_def

interpretation ws_channel: data_channel ws_channel_step wx_pendingError wx_promises is_ws_write
proof (unfold_locales, goal_cases)
  case (1 s x e)
  then show ?case by (cases e) (auto simp: ws_channel_ops split: option.split)
next
  case (2 i s r e)
  then show ?case by (cases e) (auto simp: ws_channel_ops nth_append settle_kept split: option.split)
next
  case (3 s e)
  then show ?case by (cases e) (auto simp: ws_channel_ops split: option.split)
next
  case (4 e s x)
  then show ?case by (cases e) (auto simp: ws_channel_ops)
qed

section \<open>Every byte has one reader\<close>

text \<open>
  A connection over its life: the pipe, what its reads settled, and the bytes that arrived
  after the switch and went to the data channel.  \<open>pr_arrived\<close> is the ghost record of all bytes.
\<close>

record pipe_run =
  pr_pipe :: socket_pipe
  pr_log :: "settlement list"
  pr_bulk :: "byte list"
  pr_arrived :: "byte list"

datatype pipe_event = PipeData "byte list" | PipeRead nat nat "nat option" | PipeTimer | PipeEof | PipeDetach | PipeClose

definition with_buffer :: "byte_buffer \<times> settlement list \<Rightarrow> pipe_run \<Rightarrow> pipe_run" where
  "with_buffer r s = s\<lparr>pr_pipe := (pr_pipe s)\<lparr>pp_buffer := fst r\<rparr>, pr_log := pr_log s @ snd r\<rparr>"

fun pipe_step :: "pipe_run \<Rightarrow> pipe_event \<Rightarrow> pipe_run" where
  "pipe_step s (PipeData d) =
     (let s1 = s\<lparr>pr_arrived := pr_arrived s @ d\<rparr> in
      if pp_listening (pr_pipe s)
      then (case pipe_onData d (pr_pipe s) of (p, out) \<Rightarrow> s1\<lparr>pr_pipe := p, pr_log := pr_log s @ out\<rparr>)
      else s1\<lparr>pr_bulk := pr_bulk s @ d\<rparr>)"
| "pipe_step s (PipeRead i n t) =
     (case pipe_readExact i n t (pr_pipe s) of (p, out) \<Rightarrow> s\<lparr>pr_pipe := p, pr_log := pr_log s @ out\<rparr>)"
| "pipe_step s PipeTimer = with_buffer (timer_fires (pp_buffer (pr_pipe s))) s"
| "pipe_step s PipeEof = (case pipe_onClose (pr_pipe s) of (p, out) \<Rightarrow> s\<lparr>pr_pipe := p, pr_log := pr_log s @ out\<rparr>)"
| "pipe_step s PipeDetach = (case detach (pr_pipe s) of Inl e \<Rightarrow> s | Inr p \<Rightarrow> s\<lparr>pr_pipe := p\<rparr>)"
| "pipe_step s PipeClose = (case pipe_close (pr_pipe s) of (p, out) \<Rightarrow> s\<lparr>pr_pipe := p, pr_log := pr_log s @ out\<rparr>)"

definition pipe_run_inv :: "pipe_run \<Rightarrow> bool" where
  "pipe_run_inv s \<longleftrightarrow> buffer_inv (pp_buffer (pr_pipe s))
     \<and> pr_arrived s = delivered (pr_log s) @ contents (pp_buffer (pr_pipe s)) @ pr_bulk s
     \<and> (pp_listening (pr_pipe s) \<longleftrightarrow> \<not> pp_detached (pr_pipe s))
     \<and> (if pp_detached (pr_pipe s) then contents (pp_buffer (pr_pipe s)) = [] else pr_bulk s = [])"

text \<open>A step of the buffer alone keeps the account.\<close>

lemma pipe_run_buffer_step:
  assumes "pipe_run_inv s" and "buffer_step (pp_buffer (pr_pipe s)) e = (b, out)" and "fed_bytes e = [] \<or> \<not> pp_detached (pr_pipe s)"
    and "pr_arrived t = pr_arrived s @ fed_bytes e" and "pr_log t = pr_log s @ out" and "pr_bulk t = pr_bulk s"
    and "pp_buffer (pr_pipe t) = b" and "pp_listening (pr_pipe t) = pp_listening (pr_pipe s)"
    and "pp_detached (pr_pipe t) = pp_detached (pr_pipe s)"
  shows "pipe_run_inv t"
proof -
  have inv: "buffer_inv (pp_buffer (pr_pipe s))" using assms(1) by (simp add: pipe_run_inv_def)
  have "buffer_inv b" "contents (pp_buffer (pr_pipe s)) @ fed_bytes e = delivered out @ contents b"
    using buffer_step_spec [OF inv assms(2)] by simp_all
  then show ?thesis using assms by (auto simp: pipe_run_inv_def delivered_def split: if_splits)
qed

interpretation pipe_life: invariant_system pipe_step "\<lambda>_ _. True" pipe_run_inv
proof (unfold_locales, goal_cases)
  case (1 s ev)
  show ?case
  proof (cases ev)
    case (PipeData d)
    show ?thesis
    proof (cases "pp_listening (pr_pipe s)")
      case True
      with 1 have "\<not> pp_detached (pr_pipe s)" by (simp add: pipe_run_inv_def)
      with True PipeData show ?thesis
        by (intro pipe_run_buffer_step [OF 1(1), of "Feed d" "fst (feed d (pp_buffer (pr_pipe s)))" "snd (feed d (pp_buffer (pr_pipe s)))"])
          (simp_all add: pipe_onData_def Let_def split: prod.split)
    next
      case False
      with 1 PipeData show ?thesis by (simp add: pipe_run_inv_def Let_def split: if_splits)
    qed
  next
    case (PipeRead i n t)
    then show ?thesis
      by (intro pipe_run_buffer_step [OF 1(1), of "Read i n t" "fst (readExact i n t (pp_buffer (pr_pipe s)))"
            "snd (readExact i n t (pp_buffer (pr_pipe s)))"])
        (simp_all add: pipe_readExact_def split: prod.split)
  next
    case PipeTimer
    then show ?thesis
      by (intro pipe_run_buffer_step [OF 1(1), of Timer "fst (timer_fires (pp_buffer (pr_pipe s)))"
            "snd (timer_fires (pp_buffer (pr_pipe s)))"])
        (simp_all add: with_buffer_def)
  next
    case PipeEof
    show ?thesis
    proof (cases "pp_listening (pr_pipe s)")
      case True
      with PipeEof show ?thesis
        by (intro pipe_run_buffer_step [OF 1(1), of End "fst (end_buffer (pp_buffer (pr_pipe s)))"
              "snd (end_buffer (pp_buffer (pr_pipe s)))"])
          (simp_all add: pipe_onClose_def split: prod.split)
    next
      case False
      with 1 PipeEof show ?thesis by (simp add: pipe_onClose_def)
    qed
  next
    case PipeDetach
    have "contents (pp_buffer (pr_pipe s)) = []" if "\<not> buffered (pp_buffer (pr_pipe s)) > 0"
      using 1(1) that by (auto simp: pipe_run_inv_def buffer_inv_def buffered_def)
    with 1 PipeDetach show ?thesis by (auto simp: pipe_run_inv_def detach_def split: if_splits)
  next
    case PipeClose
    show ?thesis
    proof (cases "pp_detached (pr_pipe s)")
      case True
      with 1 PipeClose show ?thesis by (simp add: pipe_close_def)
    next
      case False
      with PipeClose show ?thesis
        by (intro pipe_run_buffer_step [OF 1(1), of End "fst (end_buffer (pp_buffer (pr_pipe s)))"
              "snd (end_buffer (pp_buffer (pr_pipe s)))"])
          (simp_all add: pipe_close_def split: prod.split)
    qed
  qed
qed

text \<open>Once detached, always detached, and closing the pipe no longer touches the socket.\<close>

lemma pipe_detached_step:
  "pp_detached (pr_pipe s) \<Longrightarrow> pp_detached (pr_pipe (pipe_step s e))
     \<and> pp_destroyed (pr_pipe (pipe_step s e)) = pp_destroyed (pr_pipe s)"
  by (cases e) (auto simp: Let_def pipe_onData_def pipe_readExact_def with_buffer_def pipe_onClose_def detach_def pipe_close_def
      split: prod.split sum.split)

lemma pipe_detached_run:
  "pp_detached (pr_pipe s) \<Longrightarrow> pp_detached (pr_pipe (run_steps pipe_step s es))
     \<and> pp_destroyed (pr_pipe (run_steps pipe_step s es)) = pp_destroyed (pr_pipe s)"
  by (induction es arbitrary: s) (auto simp: pipe_detached_step)

definition connected_pipe :: pipe_run where
  "connected_pipe = \<lparr>pr_pipe = TcpPipe, pr_log = [], pr_bulk = [], pr_arrived = []\<rparr>"

section \<open>The first failure wins\<close>

fun tcp_failure :: "tcp_channel_event \<Rightarrow> string option" where
  "tcp_failure (TcpWriteCallback i err) = err"
| "tcp_failure (TcpSocketError e) = Some e"
| "tcp_failure _ = None"

fun first_failure :: "('e \<Rightarrow> string option) \<Rightarrow> 'e list \<Rightarrow> string option" where
  "first_failure f [] = None"
| "first_failure f (e # es) = (case f e of None \<Rightarrow> first_failure f es | Some x \<Rightarrow> Some x)"

lemma tcp_error_first: "cx_pendingError (run_steps tcp_channel_step c es) =
    (case cx_pendingError c of Some x \<Rightarrow> Some x | None \<Rightarrow> first_failure tcp_failure es)"
proof (induction es arbitrary: c)
  case (Cons e es)
  have "cx_pendingError (tcp_channel_step c e) = (case cx_pendingError c of Some x \<Rightarrow> Some x | None \<Rightarrow> tcp_failure e)"
    by (cases e) (auto simp: tcp_channel_ops split: option.split)
  with Cons [of "tcp_channel_step c e"] show ?case by (auto split: option.split)
qed (simp split: option.split)

fun ws_failure :: "ws_channel_event \<Rightarrow> string option" where
  "ws_failure (WsSent i err) = err"
| "ws_failure (WsSocketError e) = Some e"
| "ws_failure _ = None"

text \<open>A send callback belongs to a send that was made.\<close>

fun ws_event_ok :: "ws_channel \<Rightarrow> ws_channel_event \<Rightarrow> bool" where
  "ws_event_ok c (WsSent i err) = (i \<in> set (wx_sending c))"
| "ws_event_ok c _ = True"

lemma ws_error_first: "run_ok ws_event_ok ws_channel_step c es \<Longrightarrow> wx_pendingError (run_steps ws_channel_step c es) =
    (case wx_pendingError c of Some x \<Rightarrow> Some x | None \<Rightarrow> first_failure ws_failure es)"
proof (induction es arbitrary: c)
  case (Cons e es)
  have "wx_pendingError (ws_channel_step c e) = (case wx_pendingError c of Some x \<Rightarrow> Some x | None \<Rightarrow> ws_failure e)"
    using Cons.prems by (cases e) (auto simp: ws_channel_ops split: option.split)
  with Cons show ?case by (auto split: option.split)
qed (simp split: option.split)

section \<open>Properties\<close>

text \<open>
  C23: the switch from control to bulk loses nothing.  In every run of a connection the bytes
  that arrived are, in order, those delivered to resolved reads, those still buffered and
  those handed to the data channel; after the switch nothing is left in the buffer, so every
  byte behind the last read reaches the data channel; and closing the detached pipe does not
  destroy the connection that now belongs to the channel.
\<close>

theorem handover_loses_nothing:
  assumes "s = run_steps pipe_step connected_pipe es"
  shows "pr_arrived s = delivered (pr_log s) @ contents (pp_buffer (pr_pipe s)) @ pr_bulk s
    \<and> (pp_detached (pr_pipe s) \<longrightarrow> pr_arrived s = delivered (pr_log s) @ pr_bulk s
         \<and> pp_destroyed (pr_pipe (pipe_step s PipeClose)) = pp_destroyed (pr_pipe s))"
proof -
  have ok: "run_ok (\<lambda>_ _. True) pipe_step c es" for c by (induction es arbitrary: c) simp_all
  have "pipe_run_inv connected_pipe"
    by (simp add: pipe_run_inv_def connected_pipe_def TcpPipe_def buffer_inv_new)
      (simp add: new_buffer_def contents_def delivered_def)
  from pipe_life.inv_run [OF this ok] have "pipe_run_inv s" unfolding assms .
  with pipe_detached_step [of s PipeClose] show ?thesis by (auto simp: pipe_run_inv_def)
qed

theorem handover_loses_nothing_witness:
  "\<exists>s. s = run_steps pipe_step connected_pipe [PipeRead 0 3 None, PipeData [1, 2], PipeData [3], PipeDetach, PipeData [4, 5], PipeClose]
     \<and> pp_detached (pr_pipe s) \<and> pr_arrived s = delivered (pr_log s) @ pr_bulk s \<and> pr_bulk s = [4, 5]"
proof -
  let ?es = "[PipeRead 0 3 None, PipeData [1, 2], PipeData [3], PipeDetach, PipeData [4, 5], PipeClose]"
  have "pp_detached (pr_pipe (run_steps pipe_step connected_pipe ?es)) \<and> pr_bulk (run_steps pipe_step connected_pipe ?es) = [4, 5]"
    by (simp add: connected_pipe_def TcpPipe_def pipe_readExact_def readExact_def new_buffer_def pump_def pipe_onData_def feed_def
        pump_loop.simps detach_def buffered_def hasPendingRead_def pipe_close_def Let_def)
  with handover_loses_nothing [OF refl, of ?es] show ?thesis by blast
qed

text \<open>
  No transfer failure is lost.  In every run of a TCP or WebSocket data channel the error
  it reports is the first failure of a write callback or of the socket, whenever it arrived;
  a settled write never changes; and every write after the failure is rejected with it.
\<close>

theorem channel_error_latched:
  assumes "run_ok ws_event_ok ws_channel_step WsDataChannel fs"
    and "c = run_steps tcp_channel_step TcpDataChannel es" and "w = run_steps ws_channel_step WsDataChannel fs"
  shows "cx_pendingError c = first_failure tcp_failure es \<and> wx_pendingError w = first_failure ws_failure fs
    \<and> (\<forall>i r es'. i < length (cx_promises c) \<longrightarrow> cx_promises c ! i = Some r \<longrightarrow>
         cx_promises (run_steps tcp_channel_step c es') ! i = Some r)
    \<and> (\<forall>i r fs'. i < length (wx_promises w) \<longrightarrow> wx_promises w ! i = Some r \<longrightarrow>
         wx_promises (run_steps ws_channel_step w fs') ! i = Some r)
    \<and> (\<forall>x ok. first_failure tcp_failure es = Some x \<longrightarrow>
         cx_promises (tcp_channel_step c (TcpWrite ok)) = cx_promises c @ [Some (Inl x)])
    \<and> (\<forall>x. first_failure ws_failure fs = Some x \<longrightarrow> wx_promises (ws_channel_step w WsWrite) = wx_promises w @ [Some (Inl x)])"
proof -
  have e: "cx_pendingError c = first_failure tcp_failure es" "wx_pendingError w = first_failure ws_failure fs"
    using tcp_error_first [of TcpDataChannel es] ws_error_first [OF assms(1)] assms(2,3)
    by (simp_all add: TcpDataChannel_def WsDataChannel_def)
  with tcp_channel.promise_final [of _ c] ws_channel.promise_final [of _ w]
    tcp_channel.write_poisoned [of "TcpWrite _" c] ws_channel.write_poisoned [of WsWrite w]
  show ?thesis by (auto simp del: tcp_channel_step.simps ws_channel_step.simps)
qed

theorem channel_error_latched_witness:
  "cx_pendingError (run_steps tcp_channel_step TcpDataChannel
      [TcpWrite True, TcpWrite False, TcpWriteCallback 0 (Some ''EPIPE''), TcpSocketError ''ECONNRESET'', TcpDrain]) = Some ''EPIPE''"
proof -
  let ?es = "[TcpWrite True, TcpWrite False, TcpWriteCallback 0 (Some ''EPIPE''), TcpSocketError ''ECONNRESET'', TcpDrain]"
  have "cx_pendingError (run_steps tcp_channel_step TcpDataChannel ?es) = first_failure tcp_failure ?es"
    using channel_error_latched [OF _ refl refl, of "[]" ?es] by simp
  then show ?thesis by simp
qed

end
