(* ===== verification/Udp.thy ===== *)
theory Udp
  imports Runner
begin

text \<open>
  \<open>packages/netsu/src/transport/udp.ts\<close>, the parts that do not wait for the network: the
  datagram header, the pacer, the buffer pool and the probe for the largest datagram the host
  can send.  The clock, the sleep and the answers of \<open>socket.send\<close> are arguments.
\<close>

definition UDP_CONNECT_MSG :: "32 word" where "UDP_CONNECT_MSG = 0x39383736"
definition UDP_CONNECT_REPLY :: "32 word" where "UDP_CONNECT_REPLY = 0x36373839"
definition LEGACY_UDP_CONNECT_REPLY :: "32 word" where "LEGACY_UDP_CONNECT_REPLY = 0xb168de3a"
definition UDP_HEADER_SIZE :: nat where "UDP_HEADER_SIZE = 12"
definition UDP_SEND_UNAVAILABLE :: int where "UDP_SEND_UNAVAILABLE = - 1"

section \<open>Datagram header\<close>

text \<open>\<open>writeUInt32BE\<close> and \<open>readUInt32BE\<close> at an offset: \<open>None\<close> where they throw a \<open>RangeError\<close>.\<close>

definition writeUInt32BE :: "32 word \<Rightarrow> nat \<Rightarrow> byte list \<Rightarrow> byte list option" where
  "writeUInt32BE w off buf =
     (if off + 4 \<le> length buf then Some (take off buf @ u32_be w @ drop (off + 4) buf) else None)"

definition readUInt32BE :: "nat \<Rightarrow> byte list \<Rightarrow> 32 word option" where
  "readUInt32BE off buf = be_u32 (drop off buf)"

text \<open>The remainder operator on numbers: the sign is that of the dividend.\<close>

definition js_rem :: "rat \<Rightarrow> rat \<Rightarrow> rat" where
  "js_rem a m = a - m * of_int (if 0 \<le> a / m then \<lfloor>a / m\<rfloor> else \<lceil>a / m\<rceil>)"

definition writeUdpHeader :: "nat \<Rightarrow> rat \<Rightarrow> byte list \<Rightarrow> byte list option" where
  "writeUdpHeader pcount nowMs buf =
     (let sec = \<lfloor>nowMs / 1000\<rfloor>; usec = \<lfloor>js_rem nowMs 1000 * 1000\<rfloor> in
      Option.bind (writeUInt32BE (word_of_int sec) 0 buf) (\<lambda>b1.
      Option.bind (writeUInt32BE (word_of_int usec) 4 b1) (\<lambda>b2.
      writeUInt32BE (of_nat pcount) 8 b2)))"

definition readUdpHeader :: "byte list \<Rightarrow> (nat \<times> rat) option" where
  "readUdpHeader buf =
     Option.bind (readUInt32BE 0 buf) (\<lambda>sec.
     Option.bind (readUInt32BE 4 buf) (\<lambda>usec.
     Option.bind (readUInt32BE 8 buf) (\<lambda>pcount.
       Some (unat pcount, of_nat (unat sec) * 1000 + of_nat (unat usec) / 1000))))"

lemma writeUdpHeader_eq:
  assumes "UDP_HEADER_SIZE \<le> length buf"
  shows "writeUdpHeader p t buf = Some (u32_be (word_of_int \<lfloor>t / 1000\<rfloor>) @ u32_be (word_of_int \<lfloor>js_rem t 1000 * 1000\<rfloor>)
    @ u32_be (of_nat p) @ drop 12 buf)"
  using assms by (simp add: writeUdpHeader_def writeUInt32BE_def UDP_HEADER_SIZE_def Let_def)

lemma writeUdpHeader_short: "length buf < UDP_HEADER_SIZE \<Longrightarrow> writeUdpHeader p t buf = None"
  by (auto simp: writeUdpHeader_def writeUInt32BE_def UDP_HEADER_SIZE_def Let_def bind_eq_None_conv)

lemma readUdpHeader_words:
  "readUdpHeader (u32_be s @ u32_be u @ u32_be p @ rest)
     = Some (unat p, of_nat (unat s) * 1000 + of_nat (unat u) / 1000)"
  by (simp add: readUdpHeader_def readUInt32BE_def)

lemma readUdpHeader_short: "length buf < UDP_HEADER_SIZE \<Longrightarrow> readUdpHeader buf = None"
proof -
  assume "length buf < UDP_HEADER_SIZE"
  then have "be_u32 (drop 8 buf) = None" by (intro be_u32_short) (simp add: UDP_HEADER_SIZE_def)
  then show ?thesis by (simp add: readUdpHeader_def readUInt32BE_def bind_eq_None_conv)
qed

lemma readUdpHeader_long: "UDP_HEADER_SIZE \<le> length buf \<Longrightarrow> \<exists>p t. readUdpHeader buf = Some (p, t)"
proof -
  have some: "4 \<le> length b \<Longrightarrow> \<exists>w. be_u32 b = Some w" for b
    by (cases b rule: be_u32.cases) auto
  assume "UDP_HEADER_SIZE \<le> length buf"
  then have "4 \<le> length (drop 0 buf)" "4 \<le> length (drop 4 buf)" "4 \<le> length (drop 8 buf)"
    by (simp_all add: UDP_HEADER_SIZE_def)
  from this [THEN some] show ?thesis by (auto simp: readUdpHeader_def readUInt32BE_def)
qed

lemma unat_word_of_int: "0 \<le> i \<Longrightarrow> i < 2 ^ 32 \<Longrightarrow> unat (word_of_int i :: 32 word) = nat i"
  by (simp add: unsigned_of_int take_bit_int_eq_self)

lemma header_time:
  assumes "0 \<le> t" and "t < 2 ^ 32 * 1000"
  defines "s \<equiv> of_nat (unat (word_of_int \<lfloor>t / 1000\<rfloor> :: 32 word)) * 1000
    + of_nat (unat (word_of_int \<lfloor>js_rem t 1000 * 1000\<rfloor> :: 32 word)) / (1000 :: rat)"
  shows "s \<le> t \<and> t < s + 1 / 1000"
proof -
  let ?q = "\<lfloor>t / 1000\<rfloor>" and ?m = "js_rem t 1000"
  have m: "?m = t - 1000 * of_int ?q" using assms(1) by (simp add: js_rem_def)
  have q: "of_int ?q \<le> t / 1000" "t / 1000 < of_int ?q + 1" by linarith+
  then have r: "0 \<le> ?m" "?m < 1000" using m by (simp_all add: field_simps)
  have "0 \<le> ?q" "?q < 2 ^ 32" using assms(1,2) by (simp_all add: floor_less_iff)
  moreover have "0 \<le> \<lfloor>?m * 1000\<rfloor>" "\<lfloor>?m * 1000\<rfloor> < 2 ^ 32" using r by (simp_all add: floor_less_iff)
  ultimately have "s = of_int ?q * 1000 + of_int \<lfloor>?m * 1000\<rfloor> / 1000"
    unfolding s_def by (simp add: unat_word_of_int of_nat_nat)
  moreover have "of_int \<lfloor>?m * 1000\<rfloor> \<le> ?m * 1000" "?m * 1000 < of_int \<lfloor>?m * 1000\<rfloor> + 1"
    by linarith+
  ultimately show ?thesis using m by (simp add: field_simps)
qed

section \<open>Pacer\<close>

record Pacer =
  pa_rate :: js_num
  pa_startMs :: rat
  pa_bitsSent :: rat
  pa_burstCapMs :: rat

definition new_pacer :: "js_num \<Rightarrow> rat \<Rightarrow> rat \<Rightarrow> Pacer" where
  "new_pacer rate now burstCapMs = \<lparr>pa_rate = rate, pa_startMs = now, pa_bitsSent = 0, pa_burstCapMs = burstCapMs\<rparr>"

definition DEFAULT_BURST_CAP_MS :: rat where "DEFAULT_BURST_CAP_MS = 100"

text \<open>What \<open>gate\<close> awaits before it returns.\<close>

datatype gate_wait = YieldEventLoop | Delay rat

text \<open>\<open>(bits / rate) * 1000\<close>; a quotient by an infinity is zero.\<close>

fun idealMs :: "js_num \<Rightarrow> rat \<Rightarrow> rat" where
  "idealMs (Fin r) bits = (bits / r) * 1000"
| "idealMs (Inf neg) bits = 0"

definition gate :: "rat \<Rightarrow> rat \<Rightarrow> Pacer \<Rightarrow> gate_wait \<times> Pacer" where
  "gate bits nowMs p =
     (let p1 = p\<lparr>pa_bitsSent := pa_bitsSent p + bits\<rparr> in
      if num_le (pa_rate p1) (Fin 0) then (YieldEventLoop, p1)
      else
        let ideal = idealMs (pa_rate p1) (pa_bitsSent p1);
            behindMs = nowMs - pa_startMs p1 - ideal;
            p2 = (if behindMs > pa_burstCapMs p1 then p1\<lparr>pa_startMs := nowMs - ideal - pa_burstCapMs p1\<rparr> else p1);
            aheadMs = ideal - (nowMs - pa_startMs p2)
        in (if aheadMs > 1 then Delay aheadMs else YieldEventLoop, p2))"

text \<open>
  A passage through the gate: the bits, the clock when \<open>gate\<close> was called and when it returned.
  Timers have whole milliseconds: \<open>setTimeout\<close> truncates its delay.
\<close>

type_synonym passage = "rat \<times> rat \<times> rat"

fun woke :: "gate_wait \<Rightarrow> rat \<Rightarrow> rat \<Rightarrow> bool" where
  "woke YieldEventLoop now resumed = (now \<le> resumed)"
| "woke (Delay d) now resumed = (now + of_int \<lfloor>d\<rfloor> \<le> resumed)"

fun paced :: "Pacer \<Rightarrow> passage list \<Rightarrow> bool" where
  "paced p [] = True"
| "paced p ((b, n, r) # gs) = (0 \<le> b \<and> woke (fst (gate b n p)) n r \<and> paced (snd (gate b n p)) gs)"

fun after_gates :: "Pacer \<Rightarrow> passage list \<Rightarrow> Pacer" where
  "after_gates p [] = p"
| "after_gates p ((b, n, r) # gs) = after_gates (snd (gate b n p)) gs"

definition passed_bits :: "passage list \<Rightarrow> rat" where
  "passed_bits gs = sum_list (map fst gs)"

lemma paced_append [simp]: "paced p (xs @ ys) = (paced p xs \<and> paced (after_gates p xs) ys)"
  by (induction p xs rule: paced.induct) simp_all

lemma gate_step:
  assumes "pa_rate p = Fin r" and "0 < r"
  shows "pa_bitsSent (snd (gate b n p)) = pa_bitsSent p + b" "pa_rate (snd (gate b n p)) = Fin r"
    "pa_burstCapMs (snd (gate b n p)) = pa_burstCapMs p" "pa_startMs p \<le> pa_startMs (snd (gate b n p))"
    "n - pa_burstCapMs p \<le> pa_startMs (snd (gate b n p)) + (pa_bitsSent p + b) / r * 1000"
  using assms by (auto simp: gate_def Let_def)

lemma gate_departs:
  assumes "pa_rate p = Fin r" and "0 < r" and "woke (fst (gate b n p)) n t"
  shows "pa_startMs (snd (gate b n p)) + (pa_bitsSent p + b) / r * 1000 - 1 \<le> t"
proof -
  let ?p = "snd (gate b n p)"
  let ?ahead = "(pa_bitsSent p + b) / r * 1000 - (n - pa_startMs ?p)"
  have w: "fst (gate b n p) = (if ?ahead > 1 then Delay ?ahead else YieldEventLoop)"
    using assms(1,2) by (auto simp: gate_def Let_def)
  show ?thesis
  proof (cases "?ahead > 1")
    case True
    with w assms(3) have "n + of_int \<lfloor>?ahead\<rfloor> \<le> t" by simp
    moreover have "?ahead < of_int \<lfloor>?ahead\<rfloor> + 1" by linarith
    ultimately show ?thesis by simp
  next
    case False
    with w assms(3) show ?thesis by simp
  qed
qed

lemma after_gates_spec:
  assumes "pa_rate p = Fin r" and "0 < r"
  shows "pa_rate (after_gates p gs) = Fin r \<and> pa_bitsSent (after_gates p gs) = pa_bitsSent p + passed_bits gs
    \<and> pa_burstCapMs (after_gates p gs) = pa_burstCapMs p \<and> pa_startMs p \<le> pa_startMs (after_gates p gs)"
  using assms(1)
proof (induction p gs rule: after_gates.induct)
  case (2 p b n t gs)
  note step = gate_step [OF 2(2) assms(2), where b = b and n = n]
  from 2(1) [OF step(2)] step show ?case by (simp add: passed_bits_def add.assoc)
qed (simp add: passed_bits_def)

lemma gate_on_schedule:
  assumes "pa_rate p = Fin r" and "0 < r" and "fst (gate b n p) = Delay d"
  shows "n + d = pa_startMs (snd (gate b n p)) + (pa_bitsSent p + b) / r * 1000"
  using assms by (auto simp: gate_def Let_def split: if_splits)

section \<open>Largest sendable datagram\<close>

text \<open>
  The binary search: \<open>canSend\<close> is the answer of the probe socket.  The second component is the
  list of the sizes that were tried.
\<close>

function probe_search :: "(nat \<Rightarrow> bool) \<Rightarrow> nat \<Rightarrow> nat \<Rightarrow> nat \<times> nat list" where
  "probe_search canSend lo hi =
     (if hi - lo > 1 then
        let mid = (lo + hi) div 2 in
        if canSend mid then (case probe_search canSend mid hi of (r, ts) \<Rightarrow> (r, mid # ts))
        else (case probe_search canSend lo mid of (r, ts) \<Rightarrow> (r, mid # ts))
      else (lo, []))"
  by auto
termination by (relation "measure (\<lambda>(c, lo, hi). hi - lo)") auto

declare probe_search.simps [simp del]

text \<open>\<open>setup\<close>: the probe socket could be bound and connected; otherwise the \<open>catch\<close> returns \<open>requested\<close>.\<close>

definition probeMaxUdpSendLen :: "bool \<Rightarrow> (nat \<Rightarrow> bool) \<Rightarrow> nat \<Rightarrow> int \<times> nat list" where
  "probeMaxUdpSendLen setup canSend requested =
     (if requested < UDP_HEADER_SIZE then (UDP_SEND_UNAVAILABLE, [])
      else if requested = UDP_HEADER_SIZE then (int UDP_HEADER_SIZE, [])
      else if \<not> setup then (int requested, [])
      else if canSend requested then (int requested, [requested])
      else if \<not> canSend UDP_HEADER_SIZE then (UDP_SEND_UNAVAILABLE, [requested, UDP_HEADER_SIZE])
      else case probe_search canSend UDP_HEADER_SIZE requested of
             (lo, ts) \<Rightarrow> (int lo, requested # UDP_HEADER_SIZE # ts))"

definition tryRaiseUdpSendBuffer :: "nat \<Rightarrow> nat" where
  "tryRaiseUdpSendBuffer wantBytes = max wantBytes 65536"

lemma probe_search_correct:
  assumes "canSend lo" and "\<not> canSend hi" and "lo < hi"
  shows "canSend (fst (probe_search canSend lo hi)) \<and> \<not> canSend (Suc (fst (probe_search canSend lo hi)))
    \<and> lo \<le> fst (probe_search canSend lo hi) \<and> fst (probe_search canSend lo hi) < hi"
  using assms
proof (induction canSend lo hi rule: probe_search.induct)
  case (1 canSend lo hi)
  let ?mid = "(lo + hi) div 2"
  show ?case
  proof (cases "hi - lo > 1")
    case False
    with "1.prems" have "hi = Suc lo" by simp
    with "1.prems" False show ?thesis by (subst (1 2 3 4) probe_search.simps) simp
  next
    case True
    show ?thesis
    proof (cases "canSend ?mid")
      case yes: True
      have eq: "fst (probe_search canSend lo hi) = fst (probe_search canSend ?mid hi)"
        using True yes by (subst probe_search.simps) (simp add: Let_def split: prod.split)
      have "lo \<le> ?mid" "?mid < hi" using True by auto
      with "1.IH"(1) [OF True refl yes] "1.prems"(2) yes show ?thesis unfolding eq by auto
    next
      case no: False
      have eq: "fst (probe_search canSend lo hi) = fst (probe_search canSend lo ?mid)"
        using True no by (subst probe_search.simps) (simp add: Let_def split: prod.split)
      have "lo < ?mid" "?mid < hi" using True by auto
      with "1.IH"(2) [OF True refl no] "1.prems"(1) no show ?thesis unfolding eq by auto
    qed
  qed
qed

lemma probe_search_calls: "hi - lo \<le> 2 ^ k \<Longrightarrow> length (snd (probe_search canSend lo hi)) \<le> k"
proof (induction k arbitrary: lo hi)
  case 0
  then show ?case by (subst probe_search.simps) simp
next
  case (Suc k)
  then have "hi - (lo + hi) div 2 \<le> 2 ^ k" "(lo + hi) div 2 - lo \<le> 2 ^ k" by auto
  from this [THEN Suc.IH] show ?case
    by (subst probe_search.simps) (auto simp: Let_def split: prod.split)
qed

section \<open>Properties\<close>

text \<open>
  The UDP header survives the wire: for every time of day that fits 32-bit seconds and
  every buffer that can hold a header, the receiver reads the packet number modulo
  \<open>2 ^ 32\<close> and a time stamp at most one microsecond before the sender's clock; the rest of
  the datagram and its length are untouched.  A shorter buffer is refused by both sides.
\<close>

theorem udp_header_roundtrip:
  assumes "UDP_HEADER_SIZE \<le> length buf" and "0 \<le> nowMs" and "nowMs < 2 ^ 32 * 1000"
    and "length short < UDP_HEADER_SIZE"
  shows "(\<exists>buf' sentMs. writeUdpHeader pcount nowMs buf = Some buf' \<and> length buf' = length buf \<and> drop 12 buf' = drop 12 buf
      \<and> readUdpHeader buf' = Some (pcount mod 2 ^ 32, sentMs) \<and> sentMs \<le> nowMs \<and> nowMs < sentMs + 1 / 1000)
    \<and> writeUdpHeader pcount nowMs short = None \<and> readUdpHeader short = None"
proof -
  have p: "unat (of_nat pcount :: 32 word) = pcount mod 2 ^ 32" by (simp add: unat_of_nat)
  show ?thesis
    using header_time [OF assms(2,3)] assms(1) writeUdpHeader_eq [OF assms(1)] writeUdpHeader_short [OF assms(4)]
      readUdpHeader_short [OF assms(4)]
    by (simp add: readUdpHeader_words p UDP_HEADER_SIZE_def)
qed

theorem udp_header_roundtrip_witness:
  "\<exists>sentMs. Option.bind (writeUdpHeader (2 ^ 32 + 7) (86400000 + 1 / 3) (replicate 16 9)) readUdpHeader = Some (7, sentMs)
     \<and> sentMs \<le> 86400000 + 1 / 3"
  using udp_header_roundtrip [of "replicate 16 9" "86400000 + 1 / 3" "[]" "2 ^ 32 + 7"]
  by (auto simp: UDP_HEADER_SIZE_def)





end
