(* ===== verification/Handshake.thy ===== *)
theory Handshake
  imports Udp
begin

text \<open>
  The functions that open a connection and return a promise: \<open>tcpConnect\<close> of
  \<open>transport/tcp.ts\<close>, \<open>wsConnect\<close> of \<open>transport/ws.ts\<close>, and \<open>udpClientConnect\<close>, \<open>udpServerBind\<close> and
  \<open>udpServerAccept\<close> of \<open>transport/udp.ts\<close>.  Each is a state machine over the events of its
  socket and its timer: the state holds the \<open>settled\<close> flag, the listeners that are attached, whether
  the socket is still open, and the settlement of the promise.  An event whose listener is not
  attached does nothing.
\<close>

datatype connect_error =
  ConnectTimeout
| SocketError string
| SocketClosed

type_synonym 'a promise = "(connect_error + 'a) option"

section \<open>The contract of a promise\<close>

text \<open>
  Whatever the environment does, a settled promise keeps its value, and the deadline event
  settles it.
\<close>

locale one_shot =
  fixes step :: "'s \<Rightarrow> 'e \<Rightarrow> 's"
    and outcome :: "'s \<Rightarrow> 'r option"
    and inv :: "'s \<Rightarrow> bool"
  assumes keeps: "inv s \<Longrightarrow> outcome s = Some r \<Longrightarrow> outcome (step s e) = Some r"
    and inv_kept: "inv s \<Longrightarrow> inv (step s e)"
begin

lemma inv_after: "inv s \<Longrightarrow> inv (run_steps step s es)"
  by (induction es arbitrary: s) (auto intro: inv_kept)

lemma outcome_final: "inv s \<Longrightarrow> outcome s = Some r \<Longrightarrow> outcome (run_steps step s es) = Some r"
  by (induction es arbitrary: s) (auto intro: inv_kept keeps)

text \<open>The step of a run at which the promise settles is unique.\<close>

lemma settles_at:
  assumes "inv s" and "outcome s = None" and "outcome (run_steps step s es) = Some r"
  obtains xs e ys where "es = xs @ e # ys" "outcome (run_steps step s xs) = None"
    "outcome (step (run_steps step s xs) e) = Some r" "inv (run_steps step s xs)"
  using assms
proof (induction es arbitrary: s thesis)
  case (Cons e es)
  show ?case
  proof (cases "outcome (step s e)")
    case None
    from Cons.IH [OF _ inv_kept [OF Cons.prems(2)] None] Cons.prems(4) obtain xs e' ys where
      "es = xs @ e' # ys" "outcome (run_steps step (step s e) xs) = None"
      "outcome (step (run_steps step (step s e) xs) e') = Some r" "inv (run_steps step (step s e) xs)" by auto
    then show thesis using Cons.prems(1) [of "e # xs" e' ys] by simp
  next
    case (Some r')
    then have "outcome (run_steps step (step s e) es) = Some r'"
      by (rule outcome_final [OF inv_kept [OF Cons.prems(2)]])
    with Cons.prems(4) Some show thesis using Cons.prems(1) [of "[]" e es] Cons.prems(2,3) by simp
  qed
qed simp

text \<open>A deadline that settles a pending promise has settled it in every run in which it fired.\<close>

lemma deadline:
  assumes "\<And>s. inv s \<Longrightarrow> outcome (step s d) \<noteq> None" and "inv s" and "d \<in> set es"
  shows "outcome (run_steps step s es) \<noteq> None"
proof -
  from assms(3) obtain xs ys where es: "es = xs @ d # ys" by (meson split_list)
  have i: "inv (run_steps step s xs)" by (rule inv_after [OF assms(2)])
  with assms(1) obtain r where "outcome (step (run_steps step s xs) d) = Some r" by blast
  from outcome_final [OF inv_kept [OF i] this, of ys] show ?thesis by (simp add: es)
qed

end

section \<open>TCP\<close>

record tcp_connecting =
  tc_settled :: bool
  tc_destroyed :: bool
  tc_onTimeout :: bool
  tc_onError :: bool
  tc_onConnect :: bool
  tc_promise :: "unit promise"

definition tcpConnect :: tcp_connecting where
  "tcpConnect = \<lparr>tc_settled = False, tc_destroyed = False, tc_onTimeout = True, tc_onError = True, tc_onConnect = True,
     tc_promise = None\<rparr>"

datatype tcp_event = TcpTimeout | TcpError string | TcpConnected

text \<open>All three listeners run at most once; the timeout listener is removed when the connection is made.\<close>

fun tcp_connect_step :: "tcp_connecting \<Rightarrow> tcp_event \<Rightarrow> tcp_connecting" where
  "tcp_connect_step s TcpTimeout =
     (if \<not> tc_onTimeout s then s
      else if tc_settled s then s\<lparr>tc_onTimeout := False\<rparr>
      else s\<lparr>tc_onTimeout := False, tc_settled := True, tc_destroyed := True, tc_promise := Some (Inl ConnectTimeout)\<rparr>)"
| "tcp_connect_step s (TcpError e) =
     (if \<not> tc_onError s then s
      else if tc_settled s then s\<lparr>tc_onError := False\<rparr>
      else s\<lparr>tc_onError := False, tc_settled := True, tc_promise := Some (Inl (SocketError e))\<rparr>)"
| "tcp_connect_step s TcpConnected =
     (if \<not> tc_onConnect s then s
      else if tc_settled s then s\<lparr>tc_onConnect := False\<rparr>
      else s\<lparr>tc_onConnect := False, tc_settled := True, tc_onTimeout := False, tc_onError := False,
             tc_promise := Some (Inr ())\<rparr>)"

definition tcp_connect_inv :: "tcp_connecting \<Rightarrow> bool" where
  "tcp_connect_inv s \<longleftrightarrow> (tc_settled s \<longleftrightarrow> tc_promise s \<noteq> None)
     \<and> (\<not> tc_settled s \<longrightarrow> tc_onTimeout s \<and> tc_onError s \<and> tc_onConnect s \<and> \<not> tc_destroyed s)
     \<and> (tc_promise s = Some (Inl ConnectTimeout) \<longrightarrow> tc_destroyed s)
     \<and> (tc_promise s = Some (Inr ()) \<longrightarrow> \<not> tc_destroyed s \<and> \<not> tc_onTimeout s)"

interpretation tcp_promise: one_shot tcp_connect_step tc_promise tcp_connect_inv
proof (unfold_locales, goal_cases)
  case (1 s r e)
  then show ?case by (cases e) (auto simp: tcp_connect_inv_def)
next
  case (2 s e)
  then show ?case by (cases e) (auto simp: tcp_connect_inv_def)
qed

section \<open>WebSocket\<close>

record ws_connecting =
  wc_settled :: bool
  wc_terminated :: bool
  wc_timer :: bool
  wc_onOpen :: bool
  wc_promise :: "unit promise"

definition wsConnect :: ws_connecting where
  "wsConnect = \<lparr>wc_settled = False, wc_terminated = False, wc_timer = True, wc_onOpen = True, wc_promise = None\<rparr>"

datatype ws_event = WsTimer | WsError string | WsOpen

text \<open>The error listener is never removed.\<close>

fun ws_connect_step :: "ws_connecting \<Rightarrow> ws_event \<Rightarrow> ws_connecting" where
  "ws_connect_step s (WsError e) =
     (if wc_settled s then s
      else s\<lparr>wc_settled := True, wc_timer := False, wc_promise := Some (Inl (SocketError e))\<rparr>)"
| "ws_connect_step s WsTimer =
     (if \<not> wc_timer s then s
      else if wc_settled s then s\<lparr>wc_timer := False\<rparr>
      else s\<lparr>wc_timer := False, wc_settled := True, wc_terminated := True, wc_promise := Some (Inl ConnectTimeout)\<rparr>)"
| "ws_connect_step s WsOpen =
     (if \<not> wc_onOpen s then s
      else if wc_settled s then s\<lparr>wc_onOpen := False\<rparr>
      else s\<lparr>wc_onOpen := False, wc_settled := True, wc_timer := False, wc_promise := Some (Inr ())\<rparr>)"

definition ws_connect_inv :: "ws_connecting \<Rightarrow> bool" where
  "ws_connect_inv s \<longleftrightarrow> (wc_settled s \<longleftrightarrow> wc_promise s \<noteq> None) \<and> (\<not> wc_settled s \<longleftrightarrow> wc_timer s)
     \<and> (\<not> wc_settled s \<longrightarrow> wc_onOpen s \<and> \<not> wc_terminated s)
     \<and> (wc_promise s = Some (Inl ConnectTimeout) \<longleftrightarrow> wc_terminated s)"

interpretation ws_promise: one_shot ws_connect_step wc_promise ws_connect_inv
proof (unfold_locales, goal_cases)
  case (1 s r e)
  then show ?case by (cases e) (auto simp: ws_connect_inv_def)
next
  case (2 s e)
  then show ?case by (cases e) (auto simp: ws_connect_inv_def)
qed

section \<open>UDP client\<close>

text \<open>
  \<open>uc_crashed\<close>: an exception was thrown outside every promise.  That happens when the callback of
  \<open>socket.connect\<close> is called with an error: it sends on a socket that is not connected.
\<close>

record udp_connecting =
  uc_settled :: bool
  uc_closed :: bool
  uc_timer :: bool
  uc_onError :: bool
  uc_onMessage :: bool
  uc_hello :: bool
  uc_crashed :: bool
  uc_promise :: "unit promise"

definition udpClientConnect :: udp_connecting where
  "udpClientConnect = \<lparr>uc_settled = False, uc_closed = False, uc_timer = True, uc_onError = True, uc_onMessage = False,
     uc_hello = False, uc_crashed = False, uc_promise = None\<rparr>"

datatype udp_client_event = UdpError string | UdpTimer | UdpConnected bool | UdpMessage "byte list"

definition is_reply :: "byte list \<Rightarrow> bool" where
  "is_reply msg \<longleftrightarrow> readUInt32BE 0 msg = Some UDP_CONNECT_REPLY \<or> readUInt32BE 0 msg = Some LEGACY_UDP_CONNECT_REPLY"

fun udp_client_step :: "udp_connecting \<Rightarrow> udp_client_event \<Rightarrow> udp_connecting" where
  "udp_client_step s (UdpError e) =
     (if \<not> uc_onError s \<or> uc_settled s then s
      else s\<lparr>uc_settled := True, uc_timer := False, uc_closed := True, uc_promise := Some (Inl (SocketError e))\<rparr>)"
| "udp_client_step s UdpTimer =
     (if \<not> uc_timer s then s
      else if uc_settled s then s\<lparr>uc_timer := False\<rparr>
      else s\<lparr>uc_timer := False, uc_settled := True, uc_onError := False, uc_closed := True,
             uc_promise := Some (Inl ConnectTimeout)\<rparr>)"
| "udp_client_step s (UdpConnected ok) =
     (if uc_closed s then s
      else if ok then s\<lparr>uc_onMessage := True, uc_hello := True\<rparr>
      else s\<lparr>uc_onMessage := True, uc_crashed := True\<rparr>)"
| "udp_client_step s (UdpMessage msg) =
     (if \<not> uc_onMessage s \<or> uc_closed s then s
      else if \<not> is_reply msg then s
      else if uc_settled s then s
      else s\<lparr>uc_settled := True, uc_timer := False, uc_onError := False, uc_onMessage := False, uc_promise := Some (Inr ())\<rparr>)"

definition udp_client_inv :: "udp_connecting \<Rightarrow> bool" where
  "udp_client_inv s \<longleftrightarrow> (uc_settled s \<longleftrightarrow> uc_promise s \<noteq> None) \<and> (uc_settled s \<longleftrightarrow> \<not> uc_timer s)
     \<and> (uc_promise s \<noteq> None \<and> uc_promise s \<noteq> Some (Inr ()) \<longleftrightarrow> uc_closed s)
     \<and> (uc_onMessage s \<longrightarrow> uc_hello s \<or> uc_crashed s) \<and> (uc_promise s = Some (Inr ()) \<longrightarrow> uc_hello s \<or> uc_crashed s)"

interpretation udp_client_promise: one_shot udp_client_step uc_promise udp_client_inv
proof (unfold_locales, goal_cases)
  case (1 s r e)
  then show ?case by (cases e) (auto simp: udp_client_inv_def)
next
  case (2 s e)
  then show ?case by (cases e) (auto simp: udp_client_inv_def)
qed

section \<open>UDP server\<close>

text \<open>\<open>udpServerBind\<close>.\<close>

record udp_binding =
  ub_closed :: bool
  ub_onError :: bool
  ub_promise :: "unit promise"

definition udpServerBind :: udp_binding where
  "udpServerBind = \<lparr>ub_closed = False, ub_onError = True, ub_promise = None\<rparr>"

datatype udp_bind_event = BindError string | Bound

fun udp_bind_step :: "udp_binding \<Rightarrow> udp_bind_event \<Rightarrow> udp_binding" where
  "udp_bind_step s (BindError e) =
     (if \<not> ub_onError s then s
      else s\<lparr>ub_onError := False, ub_closed := True, ub_promise := (if ub_promise s = None then Some (Inl (SocketError e)) else ub_promise s)\<rparr>)"
| "udp_bind_step s Bound =
     (if ub_closed s then s
      else s\<lparr>ub_onError := False, ub_promise := (if ub_promise s = None then Some (Inr ()) else ub_promise s)\<rparr>)"

interpretation udp_bind_promise: one_shot udp_bind_step ub_promise "\<lambda>s. ub_closed s \<longrightarrow> ub_promise s \<noteq> None"
proof (unfold_locales, goal_cases)
  case (1 s r e)
  then show ?case by (cases e) auto
next
  case (2 s e)
  then show ?case by (cases e) auto
qed

text \<open>\<open>udpServerAccept\<close>: a valid hello starts \<open>socket.connect\<close>, whose callback resolves the promise.\<close>

record udp_accepting =
  ua_settled :: bool
  ua_closed :: bool
  ua_timer :: bool
  ua_listening :: bool
  ua_peer :: "string option"
  ua_promise :: "string promise"

definition udpServerAccept :: udp_accepting where
  "udpServerAccept = \<lparr>ua_settled = False, ua_closed = False, ua_timer = True, ua_listening = True, ua_peer = None,
     ua_promise = None\<rparr>"

datatype udp_accept_event = AcceptError string | AcceptClose | AcceptTimer | Hello "byte list" string | PeerConnected

definition cleanup_accept :: "udp_accepting \<Rightarrow> udp_accepting" where
  "cleanup_accept s = s\<lparr>ua_timer := False, ua_listening := False\<rparr>"

definition is_hello :: "byte list \<Rightarrow> bool" where
  "is_hello msg \<longleftrightarrow> readUInt32BE 0 msg = Some UDP_CONNECT_MSG"

fun udp_accept_step :: "udp_accepting \<Rightarrow> udp_accept_event \<Rightarrow> udp_accepting" where
  "udp_accept_step s (AcceptError e) =
     (if \<not> ua_listening s \<or> ua_settled s then s
      else (cleanup_accept s)\<lparr>ua_settled := True, ua_closed := True, ua_promise := Some (Inl (SocketError e))\<rparr>)"
| "udp_accept_step s AcceptClose =
     (let s1 = s\<lparr>ua_closed := True\<rparr> in
      if \<not> ua_listening s1 \<or> ua_settled s1 then s1
      else (cleanup_accept s1)\<lparr>ua_settled := True, ua_promise := Some (Inl SocketClosed)\<rparr>)"
| "udp_accept_step s AcceptTimer =
     (if \<not> ua_timer s \<or> ua_settled s then s
      else (cleanup_accept s)\<lparr>ua_settled := True, ua_closed := True, ua_promise := Some (Inl ConnectTimeout)\<rparr>)"
| "udp_accept_step s (Hello msg peer) =
     (if \<not> ua_listening s \<or> \<not> is_hello msg \<or> ua_settled s then s
      else (cleanup_accept s)\<lparr>ua_settled := True, ua_peer := Some peer\<rparr>)"
| "udp_accept_step s PeerConnected =
     (case ua_peer s of
        None \<Rightarrow> s
      | Some peer \<Rightarrow> if ua_closed s \<or> ua_promise s \<noteq> None then s else s\<lparr>ua_promise := Some (Inr peer)\<rparr>)"

definition udpServerSendReply :: "byte list" where
  "udpServerSendReply = u32_be UDP_CONNECT_REPLY"

definition client_hello :: "byte list" where
  "client_hello = u32_be UDP_CONNECT_MSG"

definition udp_accept_inv :: "udp_accepting \<Rightarrow> bool" where
  "udp_accept_inv s \<longleftrightarrow> (ua_promise s \<noteq> None \<longrightarrow> ua_settled s) \<and> (ua_settled s \<longleftrightarrow> \<not> ua_listening s) \<and> (ua_settled s \<longleftrightarrow> \<not> ua_timer s)
     \<and> (ua_settled s \<and> ua_promise s = None \<longrightarrow> ua_peer s \<noteq> None) \<and> (\<not> ua_settled s \<longrightarrow> ua_peer s = None \<and> \<not> ua_closed s)
     \<and> (\<forall>p. ua_promise s = Some (Inr p) \<longrightarrow> ua_peer s = Some p) \<and> (\<forall>e. ua_promise s = Some (Inl e) \<longrightarrow> ua_closed s \<and> ua_peer s = None)"

interpretation udp_accept_promise: one_shot udp_accept_step ua_promise udp_accept_inv
proof (unfold_locales, goal_cases)
  case (1 s r e)
  then show ?case by (cases e) (auto simp: udp_accept_inv_def cleanup_accept_def Let_def split: option.split)
next
  case (2 s e)
  then show ?case by (cases e) (auto simp: udp_accept_inv_def cleanup_accept_def Let_def split: option.split)
qed

section \<open>Deadlines\<close>

lemma tcp_deadline: "TcpTimeout \<in> set es \<Longrightarrow> tc_promise (run_steps tcp_connect_step tcpConnect es) \<noteq> None"
  by (rule tcp_promise.deadline [where d = TcpTimeout]) (auto simp: tcp_connect_inv_def tcpConnect_def)

lemma ws_deadline: "WsTimer \<in> set es \<Longrightarrow> wc_promise (run_steps ws_connect_step wsConnect es) \<noteq> None"
  by (rule ws_promise.deadline [where d = WsTimer]) (auto simp: ws_connect_inv_def wsConnect_def)

lemma udp_client_start: "udp_client_inv udpClientConnect" "uc_promise udpClientConnect = None"
  by (simp_all add: udp_client_inv_def udpClientConnect_def)

lemma udp_accept_start: "udp_accept_inv udpServerAccept" "ua_promise udpServerAccept = None"
  by (simp_all add: udp_accept_inv_def udpServerAccept_def)

lemma udp_client_deadline: "UdpTimer \<in> set es \<Longrightarrow> uc_promise (run_steps udp_client_step udpClientConnect es) \<noteq> None"
  by (rule udp_client_promise.deadline [where d = UdpTimer]) (auto simp: udp_client_inv_def udpClientConnect_def)

text \<open>The wait for a hello, as opposed to the promise, which also waits for the callback of \<open>connect\<close>.\<close>

interpretation udp_accept_wait: one_shot udp_accept_step "\<lambda>s. if ua_settled s then Some () else None" udp_accept_inv
proof (unfold_locales, goal_cases)
  case (1 s r e)
  then show ?case by (cases e) (auto simp: cleanup_accept_def Let_def split: if_splits option.split)
next
  case (2 s e)
  then show ?case by (rule udp_accept_promise.inv_kept)
qed

lemma udp_accept_deadline:
  assumes "AcceptTimer \<in> set es \<or> AcceptClose \<in> set es"
  shows "ua_settled (run_steps udp_accept_step udpServerAccept es)"
proof -
  have "\<And>s. udp_accept_inv s \<Longrightarrow> ua_settled (udp_accept_step s AcceptTimer) \<and> ua_settled (udp_accept_step s AcceptClose)"
    by (auto simp: udp_accept_inv_def cleanup_accept_def Let_def)
  with assms udp_accept_wait.deadline [OF _ udp_accept_start(1), of AcceptTimer es]
    udp_accept_wait.deadline [OF _ udp_accept_start(1), of AcceptClose es]
  show ?thesis by (auto split: if_splits)
qed

section \<open>The two UDP handshakes meet\<close>

lemma hello_and_reply:
  "is_hello client_hello" "is_reply udpServerSendReply" "\<not> is_hello udpServerSendReply" "\<not> is_reply client_hello"
  by (simp_all add: is_hello_def is_reply_def client_hello_def udpServerSendReply_def readUInt32BE_def UDP_CONNECT_MSG_def
      UDP_CONNECT_REPLY_def LEGACY_UDP_CONNECT_REPLY_def)

lemma udp_client_resolves:
  assumes "udp_client_inv s" and "uc_promise s = None" and "uc_promise (udp_client_step s e) = Some (Inr ())"
  shows "\<exists>msg. e = UdpMessage msg \<and> is_reply msg \<and> (uc_hello s \<or> uc_crashed s)"
  using assms by (cases e) (auto simp: udp_client_inv_def split: if_splits)

lemma udp_client_hello_sent: "uc_hello (run_steps udp_client_step s es) \<Longrightarrow> uc_hello s \<or> UdpConnected True \<in> set es"
proof (induction es arbitrary: s)
  case (Cons e es)
  have "uc_hello (udp_client_step s e) \<Longrightarrow> uc_hello s \<or> e = UdpConnected True" by (cases e) (auto split: if_splits)
  with Cons.IH [of "udp_client_step s e"] Cons.prems show ?case by auto
qed simp

lemma udp_client_crashed: "uc_crashed (run_steps udp_client_step s es) \<Longrightarrow> uc_crashed s \<or> UdpConnected False \<in> set es"
proof (induction es arbitrary: s)
  case (Cons e es)
  have "uc_crashed (udp_client_step s e) \<Longrightarrow> uc_crashed s \<or> e = UdpConnected False" by (cases e) (auto split: if_splits)
  with Cons.IH [of "udp_client_step s e"] Cons.prems show ?case by auto
qed simp

lemma udp_accept_peer: "ua_peer (run_steps udp_accept_step s es) = Some p \<Longrightarrow>
    ua_peer s = Some p \<or> (\<exists>msg. Hello msg p \<in> set es \<and> is_hello msg)"
proof (induction es arbitrary: s)
  case (Cons e es)
  have "ua_peer (udp_accept_step s e) = Some p \<Longrightarrow> ua_peer s = Some p \<or> (\<exists>msg. e = Hello msg p \<and> is_hello msg)"
    by (cases e) (auto simp: cleanup_accept_def Let_def split: if_splits option.splits)
  with Cons.IH [of "udp_accept_step s e"] Cons.prems show ?case by auto
qed simp

text \<open>
  Closing the accept socket while \<open>socket.connect\<close> is in progress: the close listener is gone and the
  callback never comes, so the promise stays pending.
\<close>

lemma accept_closed_while_connecting:
  "ua_promise (run_steps udp_accept_step udpServerAccept (Hello client_hello p # AcceptClose # es)) = None"
proof -
  have stuck: "ua_settled s \<Longrightarrow> \<not> ua_listening s \<Longrightarrow> ua_closed s \<Longrightarrow> ua_promise s = None \<Longrightarrow>
      ua_promise (run_steps udp_accept_step s es) = None" for s
  proof (induction es arbitrary: s)
    case (Cons e es)
    have "ua_settled (udp_accept_step s e) \<and> \<not> ua_listening (udp_accept_step s e) \<and> ua_closed (udp_accept_step s e)
        \<and> ua_promise (udp_accept_step s e) = None"
      using Cons.prems by (cases e) (auto simp: Let_def split: option.split)
    with Cons.IH show ?case by simp
  qed simp
  show ?thesis using hello_and_reply(1) by (simp add: udpServerAccept_def cleanup_accept_def Let_def stuck)
qed

text \<open>The callback of a failed \<open>connect\<close> treats it as a connection.\<close>

lemma udp_connect_failure_crashes:
  "uc_crashed (run_steps udp_client_step udpClientConnect [UdpConnected False])"
  by (simp add: udpClientConnect_def)

section \<open>Properties\<close>



end
