(* ===== verification/UdpStream.thy ===== *)
theory UdpStream
  imports Udp
begin

text \<open>
  One UDP data stream: the buffer pool of \<open>transport/udp.ts\<close>, the send loop \<open>#runUdpSender\<close> that
  \<open>client.ts\<close> and \<open>server.ts\<close> both have, and the message handler of the receiving side.  A buffer
  is an address in an explicit memory, because \<open>socket.send\<close> does not copy: the datagram that
  leaves the host is what the memory holds when the send completes.
\<close>

section \<open>Buffer pool\<close>

record SendBufferPool =
  sp_free :: "nat list"
  sp_len :: nat

definition new_pool :: "nat \<Rightarrow> SendBufferPool" where
  "new_pool len = \<lparr>sp_free = [], sp_len = len\<rparr>"

text \<open>\<open>fresh\<close> is the address of the buffer that \<open>randomBytes\<close> allocates when the pool is empty.\<close>

definition acquire :: "nat \<Rightarrow> SendBufferPool \<Rightarrow> nat \<times> SendBufferPool" where
  "acquire fresh p = (if sp_free p = [] then (fresh, p) else (last (sp_free p), p\<lparr>sp_free := butlast (sp_free p)\<rparr>))"

definition release :: "nat \<Rightarrow> SendBufferPool \<Rightarrow> SendBufferPool" where
  "release buf p = p\<lparr>sp_free := sp_free p @ [buf]\<rparr>"

section \<open>Sender\<close>

text \<open>
  \<open>us_inflight\<close> are the sends whose callback has not run, with the packet number given to
  each; \<open>us_wire\<close> are the datagrams that left the host, with that number.  \<open>us_gate\<close> is what
  the loop awaits, \<open>None\<close> once it has ended.
\<close>

record udp_sender =
  us_len :: nat
  us_pool :: SendBufferPool
  us_pacer :: Pacer
  us_pcount :: nat
  us_counters :: StreamCounters
  us_mem :: "nat \<Rightarrow> byte list"
  us_next :: nat
  us_inflight :: "(nat \<times> nat) list"
  us_wire :: "(nat \<times> byte list) list"
  us_failed :: nat
  us_error :: "string option"
  us_meter :: nat
  us_gate :: "gate_wait option"

definition enter_gate :: "rat \<Rightarrow> udp_sender \<Rightarrow> udp_sender" where
  "enter_gate now s = (case gate (of_nat (us_len s * 8)) now (us_pacer s) of
     (w, p) \<Rightarrow> s\<lparr>us_pacer := p, us_gate := Some w\<rparr>)"

text \<open>The start of the loop: \<open>probed\<close> is the result of \<open>probeMaxUdpSendLen\<close>, \<open>running\<close> the flag of the session.\<close>

definition start_udp_sender :: "int \<Rightarrow> js_num \<Rightarrow> StreamCounters \<Rightarrow> rat \<Rightarrow> bool \<Rightarrow> udp_sender" where
  "start_udp_sender probed bandwidth c now running =
     (let s = \<lparr>us_len = nat probed, us_pool = new_pool (nat probed), us_pacer = new_pacer bandwidth now DEFAULT_BURST_CAP_MS,
            us_pcount = 0, us_counters = c, us_mem = (\<lambda>_. []), us_next = 0, us_inflight = [], us_wire = [], us_failed = 0,
            us_error = None, us_meter = 0, us_gate = None\<rparr>
      in if probed = UDP_SEND_UNAVAILABLE then s\<lparr>us_error := Some ''cannot send any UDP datagram''\<rparr>
         else if running then enter_gate now s else s)"

text \<open>
  An iteration after the gate: the buffer is acquired (\<open>rnd\<close> are the bytes of a fresh one),
  its header written, and it is handed to the socket.  \<open>throws\<close>: the socket was closed and
  \<open>send\<close> throws, which ends the loop without giving the buffer back.
\<close>

definition send_datagram :: "rat \<Rightarrow> byte list \<Rightarrow> bool \<Rightarrow> rat \<Rightarrow> udp_sender \<Rightarrow> udp_sender" where
  "send_datagram time rnd throws now s =
     (case acquire (us_next s) (us_pool s) of (buf, pool) \<Rightarrow>
      let s1 = s\<lparr>us_pool := pool, us_pcount := us_pcount s + 1,
            us_mem := (if sp_free (us_pool s) = [] then (us_mem s)(buf := rnd) else us_mem s),
            us_next := (if sp_free (us_pool s) = [] then us_next s + 1 else us_next s)\<rparr>
      in case writeUdpHeader (us_pcount s1) time (us_mem s1 buf) of
           None \<Rightarrow> s1\<lparr>us_gate := None\<rparr>
         | Some b \<Rightarrow>
             let s2 = s1\<lparr>us_mem := (us_mem s1)(buf := b), us_counters := (us_counters s1)\<lparr>sc_packets := us_pcount s1\<rparr>\<rparr>
             in if throws then s2\<lparr>us_gate := None\<rparr>
                else enter_gate now (s2\<lparr>us_inflight := us_inflight s2 @ [(buf, us_pcount s2)]\<rparr>))"

text \<open>The callback of \<open>send\<close>.\<close>

definition send_done :: "nat \<Rightarrow> nat \<Rightarrow> string option \<Rightarrow> udp_sender \<Rightarrow> udp_sender" where
  "send_done buf k err s =
     (let s1 = s\<lparr>us_pool := release buf (us_pool s), us_inflight := removeAll (buf, k) (us_inflight s)\<rparr>
      in case err of
           Some e \<Rightarrow> s1\<lparr>us_counters := (us_counters s1)\<lparr>sc_errors := sc_errors (us_counters s1) + 1\<rparr>, us_error := Some e,
                        us_failed := us_failed s1 + 1\<rparr>
         | None \<Rightarrow> s1\<lparr>us_counters := (us_counters s1)\<lparr>sc_bytes := sc_bytes (us_counters s1) + us_len s1\<rparr>,
                       us_meter := us_meter s1 + us_len s1, us_wire := us_wire s1 @ [(k, us_mem s1 buf)]\<rparr>)"

datatype sender_event =
  GateReturns bool rat "byte list" bool rat
| SendCallback nat nat "string option"

text \<open>The loop condition and the check after the gate read the same flag.\<close>

fun udp_sender_step :: "udp_sender \<Rightarrow> sender_event \<Rightarrow> udp_sender" where
  "udp_sender_step s (GateReturns running time rnd throws now) =
     (if us_gate s = None then s
      else if \<not> running then s\<lparr>us_gate := None\<rparr>
      else send_datagram time rnd throws now s)"
| "udp_sender_step s (SendCallback buf k err) = send_done buf k err s"

fun sender_event_ok :: "udp_sender \<Rightarrow> sender_event \<Rightarrow> bool" where
  "sender_event_ok s (GateReturns running time rnd throws now) = (length rnd = us_len s)"
| "sender_event_ok s (SendCallback buf k err) = ((buf, k) \<in> set (us_inflight s))"

section \<open>Receiver\<close>

record udp_receiver =
  ur_tracker :: JitterTracker
  ur_counters :: StreamCounters

definition new_receiver :: "nat \<Rightarrow> udp_receiver" where
  "new_receiver i = \<lparr>ur_tracker = new_tracker, ur_counters = makeCounters i\<rparr>"

definition udp_on_message :: "byte list \<Rightarrow> rat \<Rightarrow> udp_receiver \<Rightarrow> udp_receiver" where
  "udp_on_message msg now r =
     (if length msg < UDP_HEADER_SIZE then r
      else case readUdpHeader msg of
             None \<Rightarrow> r
           | Some (pcount, sentMs) \<Rightarrow>
               r\<lparr>ur_tracker := onPacket pcount sentMs now (ur_tracker r),
                 ur_counters := (ur_counters r)\<lparr>sc_bytes := sc_bytes (ur_counters r) + length msg\<rparr>\<rparr>)"

definition finalize_receiver :: "udp_receiver \<Rightarrow> udp_receiver" where
  "finalize_receiver r = r\<lparr>ur_counters := (ur_counters r)\<lparr>sc_packets := jt_maxSeq (ur_tracker r), sc_errors := lost (ur_tracker r),
     sc_jitter := jt_jitterMs (ur_tracker r) / 1000\<rparr>\<rparr>"

definition receive_all :: "(byte list \<times> rat) list \<Rightarrow> udp_receiver \<Rightarrow> udp_receiver" where
  "receive_all ms r = fold (\<lambda>(msg, now). udp_on_message msg now) ms r"

section \<open>Invariant of the sender\<close>

definition numbered :: "nat \<Rightarrow> nat \<Rightarrow> byte list \<Rightarrow> bool" where
  "numbered len k b \<longleftrightarrow> length b = len \<and> map_option fst (readUdpHeader b) = Some (k mod 2 ^ 32)"

definition bufs_ok :: "udp_sender \<Rightarrow> bool" where
  "bufs_ok s \<longleftrightarrow> distinct (map fst (us_inflight s) @ sp_free (us_pool s))
     \<and> list_all (\<lambda>i. i < us_next s \<and> length (us_mem s i) = us_len s) (map fst (us_inflight s) @ sp_free (us_pool s))"

definition numbers_ok :: "udp_sender \<Rightarrow> bool" where
  "numbers_ok s \<longleftrightarrow> list_all (\<lambda>(i, k). numbered (us_len s) k (us_mem s i)) (us_inflight s)
     \<and> list_all (\<lambda>(k, b). numbered (us_len s) k b) (us_wire s)
     \<and> distinct (map fst (us_wire s) @ map snd (us_inflight s))
     \<and> list_all (\<lambda>k. 1 \<le> k \<and> k \<le> us_pcount s) (map fst (us_wire s) @ map snd (us_inflight s))"

definition counts_ok :: "udp_sender \<Rightarrow> bool" where
  "counts_ok s \<longleftrightarrow> sc_bytes (us_counters s) = us_len s * length (us_wire s) \<and> us_meter s = us_len s * length (us_wire s)
   \<and> sc_errors (us_counters s) = us_failed s
   \<and> length (us_wire s) + us_failed s + length (us_inflight s) \<le> us_pcount s
   \<and> (us_gate s \<noteq> None \<longrightarrow> length (us_wire s) + us_failed s + length (us_inflight s) = us_pcount s
        \<and> UDP_HEADER_SIZE \<le> us_len s \<and> sc_packets (us_counters s) = us_pcount s)"

definition udp_sender_inv :: "udp_sender \<Rightarrow> bool" where
  "udp_sender_inv s \<longleftrightarrow> bufs_ok s \<and> numbers_ok s \<and> counts_ok s"

lemma header_numbered:
  assumes "UDP_HEADER_SIZE \<le> length b"
  obtains b' where "writeUdpHeader k t b = Some b'" "numbered (length b) k b'"
  using assms writeUdpHeader_eq [OF assms, of k t]
  by (auto simp: numbered_def readUdpHeader_words unat_of_nat UDP_HEADER_SIZE_def)

lemma enter_gate_fields [simp]:
  "us_len (enter_gate n s) = us_len s" "us_pool (enter_gate n s) = us_pool s" "us_pcount (enter_gate n s) = us_pcount s"
  "us_counters (enter_gate n s) = us_counters s" "us_mem (enter_gate n s) = us_mem s" "us_next (enter_gate n s) = us_next s"
  "us_inflight (enter_gate n s) = us_inflight s" "us_wire (enter_gate n s) = us_wire s" "us_failed (enter_gate n s) = us_failed s"
  "us_meter (enter_gate n s) = us_meter s" "us_gate (enter_gate n s) \<noteq> None" "us_error (enter_gate n s) = us_error s"
  by (simp_all add: enter_gate_def split: prod.split)

text \<open>What a buffer taken from the pool is: not in flight, no longer free, and of full length.\<close>

lemma acquired:
  assumes inv: "udp_sender_inv s" and rnd: "length rnd = us_len s" and acq: "acquire (us_next s) (us_pool s) = (buf, pool)"
  defines "mem \<equiv> if sp_free (us_pool s) = [] then (us_mem s)(buf := rnd) else us_mem s"
    and "nxt \<equiv> if sp_free (us_pool s) = [] then us_next s + 1 else us_next s"
  shows "distinct (buf # map fst (us_inflight s) @ sp_free pool)" "buf < nxt" "us_next s \<le> nxt" "length (mem buf) = us_len s"
    "i \<noteq> buf \<Longrightarrow> mem i = us_mem s i" "set (sp_free pool) \<subseteq> set (sp_free (us_pool s))"
proof -
  have d: "distinct (map fst (us_inflight s) @ sp_free (us_pool s))"
    and lt: "\<And>i. i \<in> fst ` set (us_inflight s) \<union> set (sp_free (us_pool s)) \<Longrightarrow> i < us_next s \<and> length (us_mem s i) = us_len s"
    using inv by (auto simp: udp_sender_inv_def bufs_ok_def list_all_iff)
  have *: "distinct (buf # map fst (us_inflight s) @ sp_free pool) \<and> buf < nxt \<and> us_next s \<le> nxt \<and> length (mem buf) = us_len s
    \<and> (i \<noteq> buf \<longrightarrow> mem i = us_mem s i) \<and> set (sp_free pool) \<subseteq> set (sp_free (us_pool s))"
  proof (cases "sp_free (us_pool s)" rule: rev_cases)
    case Nil
    with acq have "buf = us_next s" "pool = us_pool s" by (auto simp: acquire_def)
    moreover have "us_next s \<notin> fst ` set (us_inflight s)" using lt by blast
    ultimately show ?thesis using d rnd Nil by (simp add: mem_def nxt_def)
  next
    case (snoc fs b)
    with acq have e: "buf = b" "sp_free pool = fs" by (auto simp: acquire_def)
    have "b < us_next s \<and> length (us_mem s b) = us_len s" using lt [of b] snoc by simp
    with d snoc e show ?thesis by (auto simp: mem_def nxt_def)
  qed
  then show "distinct (buf # map fst (us_inflight s) @ sp_free pool)" "buf < nxt" "us_next s \<le> nxt" "length (mem buf) = us_len s"
    "i \<noteq> buf \<Longrightarrow> mem i = us_mem s i" "set (sp_free pool) \<subseteq> set (sp_free (us_pool s))" by simp_all
qed

text \<open>Adding one numbered buffer in flight, or dropping it when the socket throws.\<close>

lemma udp_sender_inv_send:
  assumes inv: "udp_sender_inv s" and open_gate: "us_gate s \<noteq> None"
    and acq: "distinct (buf # map fst (us_inflight s) @ sp_free pool)" "buf < nxt" "us_next s \<le> nxt"
      "set (sp_free pool) \<subseteq> set (sp_free (us_pool s))"
    and mem: "\<And>i. i \<noteq> buf \<Longrightarrow> mem i = us_mem s i" "numbered (us_len s) (Suc (us_pcount s)) (mem buf)"
    and t: "us_len t = us_len s" "us_pool t = pool" "us_pcount t = Suc (us_pcount s)" "us_mem t = mem" "us_next t = nxt"
      "us_wire t = us_wire s" "us_failed t = us_failed s" "us_meter t = us_meter s"
      "us_counters t = (us_counters s)\<lparr>sc_packets := Suc (us_pcount s)\<rparr>"
    and fl: "us_inflight t = us_inflight s @ [(buf, Suc (us_pcount s))] \<or> us_inflight t = us_inflight s \<and> us_gate t = None"
  shows "udp_sender_inv t"
proof -
  have b: "bufs_ok s" and n: "numbers_ok s" and c: "counts_ok s" using inv by (simp_all add: udp_sender_inv_def)
  have len: "length (mem buf) = us_len s" using mem(2) by (simp add: numbered_def)
  have other: "buf \<notin> fst ` set (us_inflight s) \<union> set (sp_free pool)" using acq(1) by auto
  have keep: "list_all (\<lambda>i. i < nxt \<and> length (mem i) = us_len s) (map fst (us_inflight s) @ sp_free pool)"
    using b acq(3,4) mem(1) other unfolding bufs_ok_def list_all_iff by (metis UnCI Un_iff image_set order_less_le_trans set_append subsetD)
  have nums: "list_all (\<lambda>(i, k). numbered (us_len s) k (mem i)) (us_inflight s)"
    using n mem(1) other unfolding numbers_ok_def list_all_iff by (auto simp: image_iff) force
  have le: "list_all (\<lambda>k. 1 \<le> k \<and> k \<le> Suc (us_pcount s)) (map fst (us_wire s) @ map snd (us_inflight s))"
    using n unfolding numbers_ok_def list_all_iff by (meson le_SucI)
  have fresh: "Suc (us_pcount s) \<notin> set (map fst (us_wire s) @ map snd (us_inflight s))"
    using n unfolding numbers_ok_def list_all_iff by fastforce
  from fl show ?thesis
  proof
    assume i: "us_inflight t = us_inflight s @ [(buf, Suc (us_pcount s))]"
    have "bufs_ok t" using keep len acq(1,2) by (simp add: bufs_ok_def t i)
    moreover have "numbers_ok t" using nums le fresh n mem(2) by (auto simp: numbers_ok_def t i)
    moreover have "counts_ok t" using c open_gate by (simp add: counts_ok_def t i)
    ultimately show ?thesis by (simp add: udp_sender_inv_def)
  next
    assume i: "us_inflight t = us_inflight s \<and> us_gate t = None"
    have "bufs_ok t" using keep acq(1) by (simp add: bufs_ok_def t i)
    moreover have "numbers_ok t" using nums le n by (simp add: numbers_ok_def t i)
    moreover have "counts_ok t" using c open_gate by (simp add: counts_ok_def t i)
    ultimately show ?thesis by (simp add: udp_sender_inv_def)
  qed
qed

lemma udp_sender_inv_close: "udp_sender_inv s \<Longrightarrow> udp_sender_inv (s\<lparr>us_gate := None\<rparr>)"
  by (simp add: udp_sender_inv_def bufs_ok_def numbers_ok_def counts_ok_def)

lemma send_datagram_inv:
  assumes inv: "udp_sender_inv s" and g: "us_gate s \<noteq> None" and rnd: "length rnd = us_len s"
  shows "udp_sender_inv (send_datagram time rnd throws now s)"
proof -
  obtain buf pool where acq: "acquire (us_next s) (us_pool s) = (buf, pool)" by fastforce
  let ?mem = "if sp_free (us_pool s) = [] then (us_mem s)(buf := rnd) else us_mem s"
  let ?nxt = "if sp_free (us_pool s) = [] then us_next s + 1 else us_next s"
  note a = acquired [OF inv rnd acq]
  have "UDP_HEADER_SIZE \<le> length (?mem buf)" using inv g a(4) by (simp add: udp_sender_inv_def counts_ok_def)
  from header_numbered [OF this] obtain b where b: "writeUdpHeader (Suc (us_pcount s)) time (?mem buf) = Some b"
    and n: "numbered (us_len s) (Suc (us_pcount s)) b" using a(4) by metis
  have b': "writeUdpHeader (us_pcount s + 1) time (?mem buf) = Some b" using b by simp
  have len: "length (?mem buf) = us_len s" by (rule a(4))
  have mem: "(?mem(buf := b)) i = us_mem s i" if "i \<noteq> buf" for i using that a(5) [OF that] by simp
  show ?thesis
    unfolding send_datagram_def acq
    by (rule udp_sender_inv_send [OF inv g a(1-3,6) mem])
      (use b n in \<open>auto simp: Let_def fun_eq_iff\<close>)
qed

lemma send_done_inv:
  assumes inv: "udp_sender_inv s" and "(buf, k) \<in> set (us_inflight s)"
  shows "udp_sender_inv (send_done buf k err s)"
proof -
  have b: "bufs_ok s" and n: "numbers_ok s" and c: "counts_ok s" using inv by (simp_all add: udp_sender_inv_def)
  from assms(2) obtain xs ys where sp: "us_inflight s = xs @ (buf, k) # ys" by (meson split_list)
  with b have "buf \<notin> fst ` set xs" "buf \<notin> fst ` set ys" by (auto simp: bufs_ok_def)
  then have "(buf, k) \<notin> set xs" "(buf, k) \<notin> set ys" by force+
  then have rm: "removeAll (buf, k) (us_inflight s) = xs @ ys" by (simp add: sp)
  let ?t = "send_done buf k err s"
  have fl: "us_inflight ?t = xs @ ys" by (simp add: send_done_def Let_def rm split: option.split)
  have same: "us_len ?t = us_len s" "us_mem ?t = us_mem s" "us_next ?t = us_next s" "us_pcount ?t = us_pcount s"
    "us_gate ?t = us_gate s" "sp_free (us_pool ?t) = sp_free (us_pool s) @ [buf]"
    by (simp_all add: send_done_def Let_def release_def split: option.split)
  have out: "us_wire ?t = (case err of None \<Rightarrow> us_wire s @ [(k, us_mem s buf)] | Some _ \<Rightarrow> us_wire s)"
    "us_failed ?t = (case err of None \<Rightarrow> us_failed s | Some _ \<Rightarrow> us_failed s + 1)"
    "us_meter ?t = (case err of None \<Rightarrow> us_meter s + us_len s | Some _ \<Rightarrow> us_meter s)"
    "us_counters ?t = (case err of None \<Rightarrow> (us_counters s)\<lparr>sc_bytes := sc_bytes (us_counters s) + us_len s\<rparr>
       | Some _ \<Rightarrow> (us_counters s)\<lparr>sc_errors := sc_errors (us_counters s) + 1\<rparr>)"
    by (simp_all add: send_done_def Let_def split: option.split)
  have "bufs_ok ?t" using b by (auto simp: bufs_ok_def same fl sp)
  moreover have "numbers_ok ?t"
    using n unfolding numbers_ok_def same fl sp out by (cases err) auto
  moreover have "counts_ok ?t"
    using c unfolding counts_ok_def same fl sp out by (cases err) auto
  ultimately show ?thesis by (simp add: udp_sender_inv_def)
qed

interpretation udp_sending: invariant_system udp_sender_step sender_event_ok udp_sender_inv
proof (unfold_locales, goal_cases)
  case (1 s e)
  then show ?case
    by (cases e) (auto intro: send_datagram_inv send_done_inv udp_sender_inv_close)
qed

lemma udp_sender_inv_start:
  assumes "probed = UDP_SEND_UNAVAILABLE \<or> int UDP_HEADER_SIZE \<le> probed"
  shows "udp_sender_inv (start_udp_sender probed bandwidth (makeCounters i) now running)"
  using assms
  by (auto simp: start_udp_sender_def Let_def udp_sender_inv_def bufs_ok_def numbers_ok_def counts_ok_def new_pool_def
      makeCounters_def UDP_HEADER_SIZE_def UDP_SEND_UNAVAILABLE_def)

section \<open>The receiving side\<close>

lemma udp_on_message_full:
  assumes "readUdpHeader msg = Some (p, s)"
  shows "udp_on_message msg now r = r\<lparr>ur_tracker := onPacket p s now (ur_tracker r),
     ur_counters := (ur_counters r)\<lparr>sc_bytes := sc_bytes (ur_counters r) + length msg\<rparr>\<rparr>"
  using assms readUdpHeader_short [of msg] by (auto simp: udp_on_message_def)

definition header_of :: "byte list \<times> rat \<Rightarrow> packet" where
  "header_of m = (case readUdpHeader (fst m) of Some (p, s) \<Rightarrow> (p, s, snd m) | None \<Rightarrow> (0, 0, snd m))"

lemma receive_all_spec:
  assumes "list_all (\<lambda>m. UDP_HEADER_SIZE \<le> length (fst m)) ms"
  shows "ur_tracker (receive_all ms r) = track (map header_of ms) (ur_tracker r)
    \<and> ur_counters (receive_all ms r) = (ur_counters r)\<lparr>sc_bytes := sc_bytes (ur_counters r) + sum_list (map (length \<circ> fst) ms)\<rparr>"
  using assms
proof (induction ms arbitrary: r)
  case (Cons m ms)
  obtain msg now where m: "m = (msg, now)" by (cases m)
  from Cons.prems readUdpHeader_long [of msg] obtain p s where h: "readUdpHeader msg = Some (p, s)" by (auto simp: m)
  have "receive_all (m # ms) r = receive_all ms (udp_on_message msg now r)" by (simp add: receive_all_def m)
  with Cons.IH [of "udp_on_message msg now r"] Cons.prems show ?case
    by (simp add: udp_on_message_full [OF h] m track_def header_of_def h add.assoc)
qed (simp add: receive_all_def track_def)

section \<open>Properties\<close>

text \<open>
  C25: a datagram is never overwritten in flight, and the sender's books balance.  In every
  run of a UDP sender, with any interleaving of loop iterations and send callbacks: each
  datagram that left the host has the agreed length and the packet number written for it,
  each number is used at most once, the bytes credited to the stream and to the interval
  meter are exactly the bytes of the datagrams that left, the errors are the failed sends,
  and while the loop runs every number up to the packet count is sent, failed or in flight.
\<close>

theorem udp_sender_faithful:
  assumes "probed = UDP_SEND_UNAVAILABLE \<or> int UDP_HEADER_SIZE \<le> probed"
    and "run_ok sender_event_ok udp_sender_step (start_udp_sender probed bw (makeCounters i) now running) es"
    and "s = run_steps udp_sender_step (start_udp_sender probed bw (makeCounters i) now running) es"
  shows "list_all (\<lambda>(k, b). length b = us_len s \<and> map_option fst (readUdpHeader b) = Some (k mod 2 ^ 32)) (us_wire s)
    \<and> distinct (map fst (us_wire s)) \<and> list_all (\<lambda>k. 1 \<le> k \<and> k \<le> us_pcount s) (map fst (us_wire s))
    \<and> sc_bytes (us_counters s) = sum_list (map (length \<circ> snd) (us_wire s))
    \<and> us_meter s = sc_bytes (us_counters s) \<and> sc_errors (us_counters s) = us_failed s
    \<and> (us_gate s \<noteq> None \<longrightarrow> length (us_wire s) + us_failed s + length (us_inflight s) = us_pcount s
         \<and> sc_packets (us_counters s) = us_pcount s)"
proof -
  have inv: "udp_sender_inv s"
    unfolding assms(3) by (rule udp_sending.inv_run [OF udp_sender_inv_start [OF assms(1)] assms(2)])
  then have w: "list_all (\<lambda>(k, b). numbered (us_len s) k b) (us_wire s)" by (simp add: udp_sender_inv_def numbers_ok_def)
  have "list_all (\<lambda>(k, b). numbered l k b) ws \<Longrightarrow> sum_list (map (length \<circ> snd) ws) = l * length ws" for l ws
    by (induction ws) (auto simp: numbered_def)
  from this [OF w] inv w show ?thesis
    by (simp add: udp_sender_inv_def numbers_ok_def counts_ok_def numbered_def)
qed

theorem udp_sender_faithful_witness:
  "sc_bytes (us_counters (run_steps udp_sender_step (start_udp_sender 12 (Fin 0) (makeCounters 1) 0 True)
      [GateReturns True 5 (replicate 12 0) False 1, GateReturns True 6 (replicate 12 0) False 2, SendCallback 1 2 None])) = 12"
proof -
  let ?s0 = "start_udp_sender 12 (Fin 0) (makeCounters 1) 0 True"
  let ?es = "[GateReturns True 5 (replicate 12 0) False 1, GateReturns True 6 (replicate 12 0) False 2, SendCallback 1 2 None]"
  have h: "12 = UDP_SEND_UNAVAILABLE \<or> int UDP_HEADER_SIZE \<le> 12" by (simp add: UDP_HEADER_SIZE_def)
  have ev: "run_ok sender_event_ok udp_sender_step ?s0 ?es \<and> length (us_wire (run_steps udp_sender_step ?s0 ?es)) = 1
      \<and> us_len (run_steps udp_sender_step ?s0 ?es) = 12"
    by (simp add: start_udp_sender_def send_datagram_def send_done_def acquire_def new_pool_def release_def Let_def
        writeUdpHeader_eq enter_gate_def gate_def new_pacer_def UDP_SEND_UNAVAILABLE_def UDP_HEADER_SIZE_def)
  then obtain k b where "us_wire (run_steps udp_sender_step ?s0 ?es) = [(k, b)]"
    by (auto simp: length_Suc_conv)
  with udp_sender_faithful [OF h _ refl, of "Fin 0" 1 0 True ?es] ev show ?thesis by auto
qed

text \<open>
  C26: what a UDP receiver reports is the truth about the network: when it gets datagrams with
  full headers, each packet number at most once and in any order, its final counters name the
  highest number seen, exactly the numbers up to it that never arrived as lost, and the bytes
  that did arrive; a datagram too short for a header changes nothing.
\<close>

theorem udp_receiver_report:
  assumes "list_all (\<lambda>m. UDP_HEADER_SIZE \<le> length (fst m)) ms"
    and "list_all (\<lambda>p. 1 \<le> fst p) (map header_of ms)" and "distinct (map fst (map header_of ms))"
    and "length short < UDP_HEADER_SIZE" and "c = ur_counters (finalize_receiver (receive_all ms (new_receiver i)))"
  shows "sc_packets c = Max (insert 0 (fst ` header_of ` set ms))
    \<and> sc_errors c = card ({1 .. sc_packets c} - fst ` header_of ` set ms)
    \<and> sc_bytes c = sum_list (map (length \<circ> fst) ms) \<and> sc_id c = i
    \<and> udp_on_message short now (receive_all ms (new_receiver i)) = receive_all ms (new_receiver i)"
  using receive_all_spec [OF assms(1), of "new_receiver i"] lost_le_missing(2) [OF assms(2,3)]
    track_counts [of "map header_of ms" new_tracker] assms(4)
  by (simp add: assms(5) finalize_receiver_def new_receiver_def makeCounters_def udp_on_message_def new_tracker_def)

theorem udp_receiver_report_witness:
  "sc_errors (ur_counters (finalize_receiver (receive_all
      [(u32_be 0 @ u32_be 0 @ u32_be 3 @ [7], 10), (u32_be 0 @ u32_be 0 @ u32_be 1 @ [], 12)] (new_receiver 1)))) = 1"
proof -
  let ?ms = "[(u32_be 0 @ u32_be 0 @ u32_be 3 @ [7], 10), (u32_be 0 @ u32_be 0 @ u32_be 1 @ [], 12)] :: (byte list \<times> rat) list"
  have h: "header_of (u32_be 0 @ u32_be 0 @ u32_be 3 @ [7], 10) = (3, 0, 10)"
    "header_of (u32_be 0 @ u32_be 0 @ u32_be 1 @ [], 12) = (1, 0, 12)"
    by (simp_all only: header_of_def fst_conv snd_conv readUdpHeader_words) simp_all
  have "{1 .. 3} - {3, 1} = {2 :: nat}" by auto
  then have "card ({1 .. 3} - {3, 1 :: nat}) = 1" by simp
  moreover have "list_all (\<lambda>m. UDP_HEADER_SIZE \<le> length (fst m)) ?ms" by (simp add: UDP_HEADER_SIZE_def)
  moreover have "length [] < UDP_HEADER_SIZE" by (simp add: UDP_HEADER_SIZE_def)
  ultimately show ?thesis
    using udp_receiver_report [of ?ms "[]", OF _ _ _ _ refl] unfolding list.map h by (simp add: h del: append.simps append_Nil2)
qed

end
