(* ===== verification/Server.thy ===== *)
theory Server
  imports Channels UdpStream Handshake
begin

text \<open>
  \<open>packages/netsu/src/server.ts\<close>: the server session.  \<open>ServerSession.run\<close> is an
  asynchronous function; it is modelled as a machine whose program counter \<open>ss_pc\<close> names the \<open>await\<close> it
  stands at, and whose step on the result of that \<open>await\<close> runs the code up to the next one.  What
  else may happen meanwhile (a stream connection, data on a stream, \<open>abort\<close>) are events of their
  own.  A listener of a settled promise runs before the next event, as microtasks do.
\<close>

definition CONTROL_TIMEOUT :: rat where "CONTROL_TIMEOUT = 30000"
definition DEFAULT_MAX_TEST_SECONDS :: rat where "DEFAULT_MAX_TEST_SECONDS = 3600"

text \<open>Options with their defaults: \<open>nullish\<close> is the operator \<open>??\<close>.\<close>

datatype transport = TcpTransport | WsTransport

definition nullish :: "'a option \<Rightarrow> 'a \<Rightarrow> 'a" where
  "nullish x d = (case x of None \<Rightarrow> d | Some y \<Rightarrow> y)"

section \<open>Streams\<close>

text \<open>
  A stream is a TCP (or WebSocket) channel or a UDP socket.  \<open>sv_channelError\<close> is the channel's \<open>error\<close>,
  \<open>sv_transferError\<close> the variable of that name in the closure.
\<close>

record server_stream =
  sv_udp :: bool
  sv_receiver :: udp_receiver
  sv_closed :: bool
  sv_started :: bool
  sv_channelError :: "string option"
  sv_transferError :: "string option"
  sv_socket :: "nat option"

definition sv_counters :: "server_stream \<Rightarrow> StreamCounters" where
  "sv_counters s = ur_counters (sv_receiver s)"

definition make_stream :: "bool \<Rightarrow> nat option \<Rightarrow> nat \<Rightarrow> server_stream" where
  "make_stream udp sock i = \<lparr>sv_udp = udp, sv_receiver = new_receiver i, sv_closed = False, sv_started = False,
     sv_channelError = None, sv_transferError = None, sv_socket = sock\<rparr>"

definition close_stream :: "server_stream \<Rightarrow> server_stream" where
  "close_stream s = (if sv_closed s then s
     else if sv_udp s then s\<lparr>sv_closed := True\<rparr>
     else s\<lparr>sv_closed := True, sv_transferError := sv_channelError s\<rparr>)"

text \<open>A UDP receiver copies its tracker into the counters; every stream returns its latched error.\<close>

definition finalize_stream :: "bool \<Rightarrow> server_stream \<Rightarrow> server_stream" where
  "finalize_stream reverse s = (if sv_udp s \<and> \<not> reverse then s\<lparr>sv_receiver := finalize_receiver (sv_receiver s)\<rparr> else s)"

section \<open>Session\<close>

datatype server_pc =
  WParamWrite | WParamsRead | WProbe | WFirstBind | WCreateWrite | WStreams | WAccept nat | WNextBind nat
| WStartWrite | WRunningWrite | WEndRead | WExchangeWrite | WResultsRead | WResultsWrite | WDisplayWrite | WDoneRead
| WErrorWrite | Ended

record server_session =
  ss_cookie :: js_string
  ss_maxTestSeconds :: rat
  ss_params :: "TestParams option"
  ss_streams :: "server_stream list"
  ss_awaitingStreams :: bool
  ss_streamArrived :: "nat option"
  ss_waitTimer :: bool
  ss_running :: bool
  ss_startMs :: rat
  ss_endMs :: rat
  ss_pendingUdpAccept :: "nat option"
  ss_openUdp :: "nat list"
  ss_pipeClosed :: bool
  ss_written :: "frame list"
  ss_pc :: server_pc

definition wantsStream :: "js_string \<Rightarrow> server_session \<Rightarrow> bool" where
  "wantsStream cookie s \<longleftrightarrow> ss_awaitingStreams s \<and> cookie = ss_cookie s
     \<and> (case ss_params s of Some p \<Rightarrow> \<not> tp_udp p | None \<Rightarrow> True)"

text \<open>A frame is recorded when it is handed to the pipe; the result of the write is an event.\<close>

definition write_frame_to :: "frame \<Rightarrow> server_pc \<Rightarrow> server_session \<Rightarrow> server_session" where
  "write_frame_to f pc s = s\<lparr>ss_written := ss_written s @ [f], ss_pc := pc\<rparr>"

definition new_session :: "js_string \<Rightarrow> rat \<Rightarrow> server_session" where
  "new_session cookie maxT = write_frame_to (StateFrame PARAM_EXCHANGE) WParamWrite
     \<lparr>ss_cookie = cookie, ss_maxTestSeconds = maxT, ss_params = None, ss_streams = [], ss_awaitingStreams = False,
      ss_streamArrived = None, ss_waitTimer = False, ss_running = False, ss_startMs = 0, ss_endMs = 0,
      ss_pendingUdpAccept = None, ss_openUdp = [], ss_pipeClosed = False, ss_written = [], ss_pc = WParamWrite\<rparr>"

text \<open>The \<open>catch\<close> and the \<open>finally\<close> of \<open>run\<close>.\<close>

definition fail :: "server_session \<Rightarrow> server_session" where
  "fail s = write_frame_to (StateFrame SERVER_ERROR) WErrorWrite s"

text \<open>Closing every stream; a UDP stream gives its socket back.\<close>

definition close_streams :: "server_session \<Rightarrow> server_session" where
  "close_streams s = s\<lparr>ss_streams := map close_stream (ss_streams s),
     ss_openUdp := filter (\<lambda>k. Some k \<notin> sv_socket ` set (ss_streams s)) (ss_openUdp s)\<rparr>"

definition finish :: "server_session \<Rightarrow> server_session" where
  "finish s = (close_streams (s\<lparr>ss_running := False\<rparr>))\<lparr>ss_pipeClosed := True, ss_pc := Ended\<rparr>"

definition the_params :: "server_session \<Rightarrow> TestParams" where
  "the_params s = the (ss_params s)"

definition announce_streams :: "server_session \<Rightarrow> server_session" where
  "announce_streams s = write_frame_to (StateFrame CREATE_STREAMS) WCreateWrite s"

definition create_phase :: "server_session \<Rightarrow> server_session" where
  "create_phase s = (let s1 = s\<lparr>ss_awaitingStreams := True\<rparr> in
     if tp_udp (the_params s) then s1\<lparr>ss_pc := WFirstBind\<rparr> else announce_streams s1)"

definition params_received :: "json \<Rightarrow> server_session \<Rightarrow> server_session" where
  "params_received j s = (case decodeParams j of
     Inl e \<Rightarrow> fail s
   | Inr p \<Rightarrow>
       if tp_time p > ss_maxTestSeconds s then fail s
       else let s1 = s\<lparr>ss_params := Some p\<rparr> in
         if tp_udp p \<and> tp_reverse p then s1\<lparr>ss_pc := WProbe\<rparr> else create_phase s1)"

definition streams_ready :: "server_session \<Rightarrow> server_session" where
  "streams_ready s = write_frame_to (StateFrame TEST_START) WStartWrite (s\<lparr>ss_awaitingStreams := False\<rparr>)"

text \<open>The \<open>check\<close> closure of \<open>#waitForStreams\<close>: it resolves the promise once enough streams are there.\<close>

definition check_streams :: "server_session \<Rightarrow> server_session" where
  "check_streams s = (case ss_streamArrived s of
     None \<Rightarrow> s
   | Some n \<Rightarrow>
       if n \<le> length (ss_streams s)
       then let s1 = s\<lparr>ss_waitTimer := False, ss_streamArrived := None\<rparr>
            in if ss_pc s1 = WStreams then streams_ready s1 else s1
       else s)"

definition waitForStreams :: "nat \<Rightarrow> server_session \<Rightarrow> server_session" where
  "waitForStreams n s = check_streams (s\<lparr>ss_waitTimer := True, ss_streamArrived := Some n, ss_pc := WStreams\<rparr>)"

definition addStream :: "server_session \<Rightarrow> server_session" where
  "addStream s = check_streams
     (s\<lparr>ss_streams := ss_streams s @ [make_stream False None (nextStreamId (length (ss_streams s)))]\<rparr>)"

definition parallel_of :: "server_session \<Rightarrow> nat" where
  "parallel_of s = nat (tp_parallel (the_params s))"

text \<open>
  \<open>#acceptUdpStreams\<close>: an accepted socket becomes a stream; before the reply, the next listener is
  bound.  \<open>replied\<close>: sending the reply did not throw.
\<close>

definition udp_accepted :: "nat \<Rightarrow> bool \<Rightarrow> server_session \<Rightarrow> server_session" where
  "udp_accepted i replied s =
     (let s1 = s\<lparr>ss_streams := ss_streams s @ [make_stream True (ss_pendingUdpAccept s) (nextStreamId (length (ss_streams s)))],
            ss_pendingUdpAccept := None\<rparr>
      in if i + 1 < parallel_of s then s1\<lparr>ss_pc := WNextBind i\<rparr>
         else if replied then streams_ready s1 else fail s1)"

definition next_bound :: "nat \<Rightarrow> nat \<Rightarrow> bool \<Rightarrow> server_session \<Rightarrow> server_session" where
  "next_bound i sock replied s =
     (let s1 = s\<lparr>ss_pendingUdpAccept := Some sock, ss_openUdp := ss_openUdp s @ [sock]\<rparr>
      in if replied then s1\<lparr>ss_pc := WAccept (i + 1)\<rparr> else fail s1)"

text \<open>The accept was rejected: its socket is closed (or was closed from outside).\<close>

definition accept_failed :: "server_session \<Rightarrow> server_session" where
  "accept_failed s = fail (s\<lparr>ss_openUdp := (case ss_pendingUdpAccept s of None \<Rightarrow> ss_openUdp s | Some k \<Rightarrow> removeAll k (ss_openUdp s))\<rparr>)"

definition failures :: "server_session \<Rightarrow> string list" where
  "failures s = List.map_filter sv_transferError (ss_streams s)"

definition test_ended :: "int \<Rightarrow> rat \<Rightarrow> server_session \<Rightarrow> server_session" where
  "test_ended state now s =
     (let s1 = s\<lparr>ss_running := False, ss_endMs := now\<rparr> in
      if state \<noteq> TEST_END then fail s1
      else
        let s2 = close_streams s1;
            s3 = s2\<lparr>ss_streams := map (finalize_stream (tp_reverse (the_params s))) (ss_streams s2)\<rparr>
        in if failures s3 \<noteq> [] \<and> \<not> tp_udp (the_params s) then fail s3
           else write_frame_to (StateFrame EXCHANGE_RESULTS) WExchangeWrite s3)"

definition stream_result :: "rat \<Rightarrow> StreamCounters \<Rightarrow> StreamResult" where
  "stream_result endSeconds c = \<lparr>sr_id = Fin (of_nat (sc_id c)), sr_bytes = Fin (of_nat (sc_bytes c)), sr_retransmits = Fin (- 1),
     sr_jitter = Fin (sc_jitter c), sr_errors = Fin (of_nat (sc_errors c)), sr_packets = Fin (of_nat (sc_packets c)),
     sr_startTime = Fin 0, sr_endTime = Fin endSeconds\<rparr>"

definition localResults :: "server_session \<Rightarrow> EndResults" where
  "localResults s = \<lparr>er_senderHasRetransmits = Fin (if tp_reverse (the_params s) then 0 else - 1),
     er_streams = map (\<lambda>st. stream_result ((ss_endMs s - ss_startMs s) / 1000) (sv_counters st)) (ss_streams s)\<rparr>"

definition results_received :: "json \<Rightarrow> server_session \<Rightarrow> server_session" where
  "results_received j s = (case decodeResults j of
     None \<Rightarrow> fail s
   | Some r \<Rightarrow> write_frame_to (JsonFrame (encodeResults (localResults s))) WResultsWrite s)"

definition abort :: "server_session \<Rightarrow> server_session" where
  "abort s =
     (let s1 = s\<lparr>ss_running := False, ss_waitTimer := False\<rparr>;
          s2 = (case ss_pendingUdpAccept s1 of
                  None \<Rightarrow> s1
                | Some k \<Rightarrow> s1\<lparr>ss_pendingUdpAccept := None, ss_openUdp := removeAll k (ss_openUdp s1)\<rparr>)
      in (close_streams s2)\<lparr>ss_pipeClosed := True\<rparr>)"

section \<open>Events of a session\<close>

datatype session_event =
  Wrote bool rat
| GotJson "json option"
| GotState "int option" rat
| Probed int
| BoundUdp "nat option" bool
| AcceptedUdp bool bool
| StreamTimer
| StreamConnected
| StreamData nat nat
| StreamDatagram nat "byte list" rat
| StreamSent nat nat
| StreamAttempt nat nat
| StreamSendDone nat "string + nat"
| StreamFailed nat string
| Abort

definition on_stream :: "nat \<Rightarrow> (server_stream \<Rightarrow> server_stream) \<Rightarrow> server_session \<Rightarrow> server_session" where
  "on_stream i f s = (if i < length (ss_streams s) then s\<lparr>ss_streams := (ss_streams s)[i := f (ss_streams s ! i)]\<rparr> else s)"

text \<open>
  Data, datagrams and errors of an open stream.  \<open>StreamSent\<close> is the progress of a sending TCP stream; a
  UDP sender sets its packet count with each attempt, and the callback of \<open>send\<close> counts the bytes or
  the error.
\<close>

definition stream_data :: "bool \<Rightarrow> nat \<Rightarrow> server_stream \<Rightarrow> server_stream" where
  "stream_data reverse n st = (if sv_closed st \<or> sv_udp st \<or> reverse then st
     else st\<lparr>sv_receiver := (sv_receiver st)\<lparr>ur_counters := attachReceiver n (sv_counters st)\<rparr>\<rparr>)"

definition stream_datagram :: "bool \<Rightarrow> byte list \<Rightarrow> rat \<Rightarrow> server_stream \<Rightarrow> server_stream" where
  "stream_datagram reverse msg now st = (if sv_closed st \<or> \<not> sv_udp st \<or> reverse then st
     else st\<lparr>sv_receiver := udp_on_message msg now (sv_receiver st)\<rparr>)"

definition stream_sent :: "bool \<Rightarrow> nat \<Rightarrow> server_stream \<Rightarrow> server_stream" where
  "stream_sent reverse n st = (if \<not> sv_started st \<or> sv_udp st \<or> \<not> reverse then st
     else st\<lparr>sv_receiver := (sv_receiver st)\<lparr>ur_counters := (sv_counters st)\<lparr>sc_bytes := sc_bytes (sv_counters st) + n\<rparr>\<rparr>\<rparr>)"

definition stream_attempt :: "bool \<Rightarrow> nat \<Rightarrow> server_stream \<Rightarrow> server_stream" where
  "stream_attempt reverse pcount st = (if \<not> sv_started st \<or> \<not> sv_udp st \<or> \<not> reverse then st
     else st\<lparr>sv_receiver := (sv_receiver st)\<lparr>ur_counters := (sv_counters st)\<lparr>sc_packets := pcount\<rparr>\<rparr>\<rparr>)"

definition stream_send_done :: "bool \<Rightarrow> string + nat \<Rightarrow> server_stream \<Rightarrow> server_stream" where
  "stream_send_done reverse r st = (if \<not> sv_started st \<or> \<not> sv_udp st \<or> \<not> reverse then st
     else case r of
       Inl e \<Rightarrow> st\<lparr>sv_receiver := (sv_receiver st)\<lparr>ur_counters := (sv_counters st)\<lparr>sc_errors := sc_errors (sv_counters st) + 1\<rparr>\<rparr>,
                  sv_transferError := Some e\<rparr>
     | Inr len \<Rightarrow> st\<lparr>sv_receiver := (sv_receiver st)\<lparr>ur_counters := (sv_counters st)\<lparr>sc_bytes := sc_bytes (sv_counters st) + len\<rparr>\<rparr>\<rparr>)"

definition stream_failed :: "string \<Rightarrow> server_stream \<Rightarrow> server_stream" where
  "stream_failed e st = (if sv_udp st then st\<lparr>sv_transferError := Some e\<rparr>
     else if sv_channelError st = None then st\<lparr>sv_channelError := Some e\<rparr> else st)"

text \<open>A write that succeeded: the code up to the next \<open>await\<close>.\<close>

fun after_write :: "rat \<Rightarrow> server_session \<Rightarrow> server_session" where
  "after_write now s = (case ss_pc s of
     WParamWrite \<Rightarrow> s\<lparr>ss_pc := WParamsRead\<rparr>
   | WCreateWrite \<Rightarrow> if tp_udp (the_params s) then s\<lparr>ss_pc := WAccept 0\<rparr> else waitForStreams (parallel_of s) s
   | WStartWrite \<Rightarrow> write_frame_to (StateFrame TEST_RUNNING) WRunningWrite (s\<lparr>ss_running := True, ss_startMs := now\<rparr>)
   | WRunningWrite \<Rightarrow> s\<lparr>ss_streams := map (\<lambda>st. st\<lparr>sv_started := True\<rparr>) (ss_streams s), ss_pc := WEndRead\<rparr>
   | WExchangeWrite \<Rightarrow> s\<lparr>ss_pc := WResultsRead\<rparr>
   | WResultsWrite \<Rightarrow> write_frame_to (StateFrame DISPLAY_RESULTS) WDisplayWrite s
   | WDisplayWrite \<Rightarrow> s\<lparr>ss_pc := WDoneRead\<rparr>
   | WErrorWrite \<Rightarrow> finish s
   | _ \<Rightarrow> s)"

definition is_write_pc :: "server_pc \<Rightarrow> bool" where
  "is_write_pc pc \<longleftrightarrow> pc \<in> {WParamWrite, WCreateWrite, WStartWrite, WRunningWrite, WExchangeWrite, WResultsWrite, WDisplayWrite}"

fun session_step :: "server_session \<Rightarrow> session_event \<Rightarrow> server_session" where
  "session_step s (Wrote ok now) =
     (if ok \<or> ss_pc s = WErrorWrite then after_write now s else if is_write_pc (ss_pc s) then fail s else s)"
| "session_step s (GotJson r) =
     (if ss_pc s = WParamsRead then (case r of None \<Rightarrow> fail s | Some j \<Rightarrow> params_received j s)
      else if ss_pc s = WResultsRead then (case r of None \<Rightarrow> fail s | Some j \<Rightarrow> results_received j s) else s)"
| "session_step s (GotState r now) =
     (if ss_pc s = WEndRead then (case r of None \<Rightarrow> fail s | Some st \<Rightarrow> test_ended st now s)
      else if ss_pc s = WDoneRead then (case r of None \<Rightarrow> fail s | Some st \<Rightarrow> finish s) else s)"
| "session_step s (Probed n) =
     (if ss_pc s = WProbe then (if n = UDP_SEND_UNAVAILABLE then fail s else create_phase s) else s)"
| "session_step s (BoundUdp sock replied) =
     (case ss_pc s of
        WFirstBind \<Rightarrow> (case sock of None \<Rightarrow> fail s
          | Some k \<Rightarrow> announce_streams (s\<lparr>ss_pendingUdpAccept := Some k, ss_openUdp := ss_openUdp s @ [k]\<rparr>))
      | WNextBind i \<Rightarrow> (case sock of None \<Rightarrow> fail s | Some k \<Rightarrow> next_bound i k replied s)
      | _ \<Rightarrow> s)"
| "session_step s (AcceptedUdp ok replied) =
     (case ss_pc s of WAccept i \<Rightarrow> if ok then udp_accepted i replied s else accept_failed s | _ \<Rightarrow> s)"
| "session_step s StreamTimer = (if ss_pc s = WStreams \<and> ss_waitTimer s then fail s else s)"
| "session_step s StreamConnected = (if ss_pc s = Ended then s else addStream s)"
| "session_step s (StreamData i n) = on_stream i (stream_data (tp_reverse (the_params s)) n) s"
| "session_step s (StreamDatagram i msg now) = on_stream i (stream_datagram (tp_reverse (the_params s)) msg now) s"
| "session_step s (StreamSent i n) = on_stream i (stream_sent (tp_reverse (the_params s)) n) s"
| "session_step s (StreamAttempt i pcount) = on_stream i (stream_attempt (tp_reverse (the_params s)) pcount) s"
| "session_step s (StreamSendDone i r) = on_stream i (stream_send_done (tp_reverse (the_params s)) r) s"
| "session_step s (StreamFailed i e) = on_stream i (stream_failed e) s"
| "session_step s Abort = abort s"

declare after_write.simps [simp del]

section \<open>Field lemmas\<close>

lemma write_frame_to_fields [simp]:
  "ss_written (write_frame_to f pc s) = ss_written s @ [f]" "ss_pc (write_frame_to f pc s) = pc"
  "ss_params (write_frame_to f pc s) = ss_params s" "ss_streams (write_frame_to f pc s) = ss_streams s"
  "ss_running (write_frame_to f pc s) = ss_running s" "ss_maxTestSeconds (write_frame_to f pc s) = ss_maxTestSeconds s"
  "ss_pendingUdpAccept (write_frame_to f pc s) = ss_pendingUdpAccept s" "ss_openUdp (write_frame_to f pc s) = ss_openUdp s"
  "ss_pipeClosed (write_frame_to f pc s) = ss_pipeClosed s" "ss_cookie (write_frame_to f pc s) = ss_cookie s"
  "ss_awaitingStreams (write_frame_to f pc s) = ss_awaitingStreams s"
  "ss_streamArrived (write_frame_to f pc s) = ss_streamArrived s"
  by (simp_all add: write_frame_to_def)

lemma close_streams_fields [simp]:
  "ss_written (close_streams s) = ss_written s" "ss_pc (close_streams s) = ss_pc s" "ss_params (close_streams s) = ss_params s"
  "ss_streams (close_streams s) = map close_stream (ss_streams s)" "ss_running (close_streams s) = ss_running s"
  "ss_maxTestSeconds (close_streams s) = ss_maxTestSeconds s" "ss_pendingUdpAccept (close_streams s) = ss_pendingUdpAccept s"
  "ss_cookie (close_streams s) = ss_cookie s" "ss_pipeClosed (close_streams s) = ss_pipeClosed s"
  "ss_awaitingStreams (close_streams s) = ss_awaitingStreams s" "ss_streamArrived (close_streams s) = ss_streamArrived s"
  by (simp_all add: close_streams_def)

lemma on_stream_fields [simp]:
  "ss_written (on_stream i f s) = ss_written s" "ss_pc (on_stream i f s) = ss_pc s" "ss_params (on_stream i f s) = ss_params s"
  "length (ss_streams (on_stream i f s)) = length (ss_streams s)" "ss_running (on_stream i f s) = ss_running s"
  "ss_maxTestSeconds (on_stream i f s) = ss_maxTestSeconds s" "ss_pendingUdpAccept (on_stream i f s) = ss_pendingUdpAccept s"
  "ss_openUdp (on_stream i f s) = ss_openUdp s" "ss_pipeClosed (on_stream i f s) = ss_pipeClosed s"
  "ss_cookie (on_stream i f s) = ss_cookie s" "ss_awaitingStreams (on_stream i f s) = ss_awaitingStreams s"
  "ss_streamArrived (on_stream i f s) = ss_streamArrived s"
  by (simp_all add: on_stream_def)

lemmas session_ops = fail_def finish_def create_phase_def announce_streams_def params_received_def streams_ready_def
  check_streams_def waitForStreams_def addStream_def udp_accepted_def next_bound_def accept_failed_def test_ended_def
  results_received_def abort_def after_write.simps is_write_pc_def the_params_def parallel_of_def Let_def

section \<open>The frames a server writes\<close>

text \<open>The script of a complete test; \<open>None\<close> stands for the JSON frame with the results.\<close>

fun frame_tag :: "frame \<Rightarrow> int option" where
  "frame_tag (StateFrame st) = Some st"
| "frame_tag (JsonFrame j) = None"

definition server_script :: "int option list" where
  "server_script = [Some PARAM_EXCHANGE, Some CREATE_STREAMS, Some TEST_START, Some TEST_RUNNING, Some EXCHANGE_RESULTS, None,
     Some DISPLAY_RESULTS]"

fun progress :: "server_pc \<Rightarrow> nat" where
  "progress WCreateWrite = 2" | "progress WStreams = 2" | "progress (WAccept i) = 2" | "progress (WNextBind i) = 2"
| "progress WStartWrite = 3" | "progress WRunningWrite = 4" | "progress WEndRead = 4" | "progress WExchangeWrite = 5"
| "progress WResultsRead = 5" | "progress WResultsWrite = 6" | "progress WDisplayWrite = 7" | "progress WDoneRead = 7"
| "progress _ = 1"

definition erred :: "int option list \<Rightarrow> bool" where
  "erred fs \<longleftrightarrow> (\<exists>k \<in> {1..7}. fs = take k server_script @ [Some SERVER_ERROR])"

definition frames_ok :: "server_session \<Rightarrow> bool" where
  "frames_ok s \<longleftrightarrow> (let fs = map frame_tag (ss_written s) in
     if ss_pc s = WErrorWrite then erred fs
     else if ss_pc s = Ended then erred fs \<or> fs = server_script
     else fs = take (progress (ss_pc s)) server_script)"

lemma progress_range: "progress pc \<in> {1..7}"
  by (cases pc) simp_all

lemma frames_ok_fail: "frames_ok s \<Longrightarrow> ss_pc s \<noteq> WErrorWrite \<Longrightarrow> ss_pc s \<noteq> Ended \<Longrightarrow>
    erred (map frame_tag (ss_written s) @ [Some SERVER_ERROR])"
  using progress_range by (auto simp: frames_ok_def erred_def)

lemma frames_ok_after_write: "frames_ok s \<Longrightarrow> frames_ok (after_write now s)"
  by (cases "ss_pc s")
    (auto simp: session_ops frames_ok_def server_script_def)

lemma session_step_frames: "frames_ok s \<Longrightarrow> frames_ok (session_step s e)"
proof (cases e)
  case (Wrote ok now)
  assume "frames_ok s"
  with Wrote frames_ok_after_write [of s now] frames_ok_fail [of s] show ?thesis
    by (auto simp: frames_ok_def fail_def is_write_pc_def Let_def)
next
  case (GotJson r)
  assume f: "frames_ok s"
  with GotJson frames_ok_fail [of s] show ?thesis
    by (auto simp: session_ops frames_ok_def server_script_def split: option.split sum.split)
next
  case (GotState r now)
  assume f: "frames_ok s"
  with GotState frames_ok_fail [of s] show ?thesis
    by (auto simp: session_ops frames_ok_def server_script_def split: option.split)
next
  case (Probed n)
  assume f: "frames_ok s"
  with Probed frames_ok_fail [of s] show ?thesis
    by (auto simp: session_ops frames_ok_def server_script_def)
next
  case (BoundUdp sock replied)
  assume f: "frames_ok s"
  with BoundUdp frames_ok_fail [of s] show ?thesis
    by (auto simp: session_ops frames_ok_def server_script_def split: option.split server_pc.split)
next
  case (AcceptedUdp ok replied)
  assume f: "frames_ok s"
  with AcceptedUdp frames_ok_fail [of s] show ?thesis
    by (auto simp: session_ops frames_ok_def server_script_def split: server_pc.split)
next
  case StreamTimer
  assume f: "frames_ok s"
  with StreamTimer frames_ok_fail [of s] show ?thesis by (auto simp: frames_ok_def fail_def)
next
  case StreamConnected
  assume f: "frames_ok s"
  with StreamConnected show ?thesis
    by (auto simp: session_ops frames_ok_def server_script_def split: option.split)
next
  case Abort
  assume f: "frames_ok s"
  with Abort show ?thesis by (auto simp: abort_def frames_ok_def Let_def split: option.split)
qed (auto simp: frames_ok_def Let_def)

section \<open>Streams of a session\<close>

definition started_pc :: "server_pc \<Rightarrow> bool" where
  "started_pc pc \<longleftrightarrow> pc \<in> {WStartWrite, WRunningWrite, WEndRead, WExchangeWrite, WResultsRead, WResultsWrite, WDisplayWrite, WDoneRead}"

definition stage_ok :: "server_session \<Rightarrow> bool" where
  "stage_ok s \<longleftrightarrow> (case ss_pc s of
     WParamWrite \<Rightarrow> True | WParamsRead \<Rightarrow> True | WErrorWrite \<Rightarrow> True | Ended \<Rightarrow> True
   | WProbe \<Rightarrow> ss_streams s = []
   | WFirstBind \<Rightarrow> tp_udp (the_params s) \<and> ss_streams s = []
   | WCreateWrite \<Rightarrow> tp_udp (the_params s) \<longrightarrow> ss_streams s = []
   | WStreams \<Rightarrow> \<not> tp_udp (the_params s) \<and> ss_streamArrived s = Some (parallel_of s)
   | WAccept i \<Rightarrow> tp_udp (the_params s) \<and> length (ss_streams s) = i \<and> i < parallel_of s
   | WNextBind i \<Rightarrow> tp_udp (the_params s) \<and> length (ss_streams s) = i + 1 \<and> i + 1 < parallel_of s
   | _ \<Rightarrow> parallel_of s \<le> length (ss_streams s) \<and> (tp_udp (the_params s) \<longrightarrow> length (ss_streams s) = parallel_of s))"

definition params_valid :: "server_session \<Rightarrow> bool" where
  "params_valid s \<longleftrightarrow> (case ss_params s of
     None \<Rightarrow> ss_pc s \<in> {WParamWrite, WParamsRead, WErrorWrite, Ended} \<and> \<not> ss_awaitingStreams s \<and> ss_streams s = []
   | Some p \<Rightarrow> tp_time p \<le> ss_maxTestSeconds s \<and> 1 \<le> tp_parallel p \<and> tp_parallel p \<le> MAX_PARALLEL
       \<and> ss_pc s \<notin> {WParamWrite, WParamsRead})"

definition window_ok :: "server_session \<Rightarrow> bool" where
  "window_ok s \<longleftrightarrow> (ss_awaitingStreams s \<longrightarrow> \<not> started_pc (ss_pc s) \<and> ss_pc s \<noteq> WProbe)"

definition streams_ok :: "server_session \<Rightarrow> bool" where
  "streams_ok s \<longleftrightarrow> map (sc_id \<circ> sv_counters) (ss_streams s) = stream_ids (length (ss_streams s))"

definition session_inv :: "server_session \<Rightarrow> bool" where
  "session_inv s \<longleftrightarrow> params_valid s \<and> stage_ok s \<and> window_ok s \<and> streams_ok s"

text \<open>A stream connection reaches the session only in its window (\<open>wantsStream\<close>).\<close>

fun session_event_ok :: "server_session \<Rightarrow> session_event \<Rightarrow> bool" where
  "session_event_ok s StreamConnected = (\<exists>c. wantsStream c s)"
| "session_event_ok s _ = True"

lemma sc_id_stream_ops [simp]:
  "sc_id (sv_counters (close_stream st)) = sc_id (sv_counters st)"
  "sc_id (sv_counters (finalize_stream r st)) = sc_id (sv_counters st)"
  "sc_id (sv_counters (stream_data r n st)) = sc_id (sv_counters st)"
  "sc_id (sv_counters (stream_datagram r m t st)) = sc_id (sv_counters st)"
  "sc_id (sv_counters (stream_sent r n st)) = sc_id (sv_counters st)"
  "sc_id (sv_counters (stream_attempt r pc st)) = sc_id (sv_counters st)"
  "sc_id (sv_counters (stream_send_done r q st)) = sc_id (sv_counters st)"
  "sc_id (sv_counters (stream_failed e st)) = sc_id (sv_counters st)"
  "sc_id (sv_counters (st\<lparr>sv_started := b\<rparr>)) = sc_id (sv_counters st)"
  "sc_id (sv_counters (make_stream u k i)) = i"
  by (simp_all add: close_stream_def finalize_stream_def finalize_receiver_def stream_data_def stream_datagram_def stream_sent_def
      stream_attempt_def stream_send_done_def stream_failed_def sv_counters_def attachReceiver_def udp_on_message_def make_stream_def
      new_receiver_def makeCounters_def split: option.split prod.split sum.split)

lemma streams_ok_map:
  assumes "streams_ok s" and "ss_streams t = map f (ss_streams s)" and "\<And>st. sc_id (sv_counters (f st)) = sc_id (sv_counters st)"
  shows "streams_ok t"
  using assms by (simp add: streams_ok_def comp_def)

lemma streams_ok_on_stream:
  assumes "streams_ok s" and "\<And>st. sc_id (sv_counters (f st)) = sc_id (sv_counters st)"
  shows "streams_ok (on_stream i f s)"
proof (cases "i < length (ss_streams s)")
  case True
  then have "(sc_id (sv_counters (ss_streams s ! i))) = map (sc_id \<circ> sv_counters) (ss_streams s) ! i" by simp
  with assms True show ?thesis by (simp add: streams_ok_def on_stream_def map_update)
qed (use assms in \<open>simp add: on_stream_def\<close>)

lemma streams_ok_add:
  assumes "streams_ok s" and "ss_streams t = ss_streams s @ [make_stream u k (nextStreamId (length (ss_streams s)))]"
  shows "streams_ok t"
  using assms by (simp add: streams_ok_def stream_ids_Suc)

lemma streams_ok_same: "streams_ok s \<Longrightarrow> ss_streams t = ss_streams s \<Longrightarrow> streams_ok t"
  by (simp add: streams_ok_def)

lemma session_step_streams_ok: "streams_ok s \<Longrightarrow> streams_ok (session_step s e)"
proof -
  assume s: "streams_ok s"
  note ops = session_ops
  show ?thesis
  proof (cases e)
    case (Wrote ok now)
    have "ss_streams (after_write now s) = ss_streams s \<or> ss_streams (after_write now s) = map close_stream (ss_streams s)
        \<or> ss_streams (after_write now s) = map (\<lambda>st. st\<lparr>sv_started := True\<rparr>) (ss_streams s)"
      by (auto simp: ops split: server_pc.split)
    with s Wrote show ?thesis
      by (auto simp: fail_def intro: streams_ok_same streams_ok_map)
  next
    case (GotJson r)
    with s show ?thesis by (auto simp: ops intro: streams_ok_same split: option.split sum.split)
  next
    case (GotState r now)
    with s show ?thesis
      by (auto simp: ops intro: streams_ok_same streams_ok_map [where f = "finalize_stream _ \<circ> close_stream"]
          streams_ok_map [where f = close_stream] split: option.split)
  next
    case (AcceptedUdp ok replied)
    with s show ?thesis by (auto simp: ops intro: streams_ok_same streams_ok_add split: server_pc.split)
  next
    case StreamConnected
    with s show ?thesis by (auto simp: ops intro: streams_ok_add split: option.split)
  next
    case Abort
    with s show ?thesis by (auto simp: ops intro: streams_ok_map [where f = close_stream] split: option.split)
  qed (use s in \<open>auto simp: ops intro: streams_ok_same streams_ok_on_stream split: option.split server_pc.split\<close>)
qed

text \<open>The rest of the invariant, event by event.\<close>

definition flow_ok :: "server_session \<Rightarrow> bool" where
  "flow_ok s \<longleftrightarrow> params_valid s \<and> stage_ok s \<and> window_ok s"

lemmas flow_defs = flow_ok_def params_valid_def stage_ok_def window_ok_def started_pc_def

lemma flow_ok_fail: "flow_ok s \<Longrightarrow> flow_ok (fail s)"
  by (auto simp: flow_defs fail_def split: option.splits)

lemma flow_ok_after_write: "flow_ok s \<Longrightarrow> flow_ok (after_write now s)"
  by (cases "ss_pc s") (auto simp: flow_defs session_ops split: option.splits)

lemma flow_ok_on_stream: "flow_ok s \<Longrightarrow> flow_ok (on_stream i f s)"
proof -
  have e: "ss_streams (on_stream i f s) = [] \<longleftrightarrow> ss_streams s = []" by (auto simp: on_stream_def)
  show "flow_ok s \<Longrightarrow> ?thesis"
    by (cases "ss_pc s") (auto simp: flow_defs e the_params_def parallel_of_def split: option.splits)
qed

lemma flow_ok_params_received:
  assumes "flow_ok s" and "ss_pc s = WParamsRead"
  shows "flow_ok (params_received j s)"
proof (cases "decodeParams j")
  case (Inl e)
  with assms show ?thesis by (simp add: params_received_def flow_ok_fail)
next
  case (Inr p)
  have "ss_params s = None" using assms by (auto simp: flow_defs split: option.splits)
  with assms Inr decodeParams_ok [OF Inr] show ?thesis
    by (auto simp: params_received_def flow_ok_fail Let_def) (auto simp: flow_defs session_ops split: option.splits)
qed

lemma session_step_flow: "flow_ok s \<Longrightarrow> session_event_ok s e \<Longrightarrow> flow_ok (session_step s e)"
proof -
  assume s: "flow_ok s" and ok: "session_event_ok s e"
  show ?thesis
  proof (cases e)
    case (Wrote b now)
    with s show ?thesis by (simp add: flow_ok_fail flow_ok_after_write)
  next
    case (GotJson r)
    have "flow_ok (results_received j s)" if "ss_pc s = WResultsRead" for j
      using s that by (auto simp: results_received_def flow_ok_fail split: option.split) (auto simp: flow_defs session_ops split: option.splits)
    with GotJson s show ?thesis by (auto simp: flow_ok_fail flow_ok_params_received split: option.split)
  next
    case (GotState r now)
    have "flow_ok (test_ended st now s)" if "ss_pc s = WEndRead" for st
      using s that by (auto simp: test_ended_def Let_def) (auto simp: flow_defs session_ops split: option.splits)
    moreover have "flow_ok (finish s)" if "ss_pc s = WDoneRead"
      using s that by (auto simp: flow_defs session_ops split: option.splits)
    ultimately show ?thesis using GotState s by (auto simp: flow_ok_fail split: option.split)
  next
    case (Probed n)
    have "flow_ok (create_phase s)" if "ss_pc s = WProbe"
      using s that by (auto simp: flow_defs session_ops split: option.splits)
    with Probed s show ?thesis by (auto simp: flow_ok_fail)
  next
    case (BoundUdp sock replied)
    with s show ?thesis
      by (cases "ss_pc s") (auto simp: flow_ok_fail split: option.split, auto simp: flow_defs session_ops split: option.splits)
  next
    case (AcceptedUdp acc replied)
    with s show ?thesis
      by (cases "ss_pc s") (auto simp: flow_defs session_ops split: option.splits)
  next
    case StreamTimer
    with s show ?thesis by (simp add: flow_ok_fail)
  next
    case StreamConnected
    from ok StreamConnected have "ss_awaitingStreams s" "\<And>p. ss_params s = Some p \<Longrightarrow> \<not> tp_udp p"
      by (auto simp: wantsStream_def split: option.splits)
    with s StreamConnected show ?thesis
      by (cases "ss_pc s") (auto simp: flow_defs session_ops split: option.splits)
  next
    case Abort
    with s show ?thesis by (cases "ss_pc s") (auto simp: flow_defs session_ops split: option.splits)
  qed (use s in \<open>simp_all add: flow_ok_on_stream\<close>)
qed

interpretation session_system: invariant_system session_step session_event_ok "\<lambda>s. frames_ok s \<and> session_inv s"
proof (unfold_locales, goal_cases)
  case (1 s e)
  then show ?case
    using session_step_flow [of s e] session_step_streams_ok [of s e] session_step_frames [of s e]
    by (simp add: session_inv_def flow_ok_def)
qed

lemma new_session_inv: "frames_ok (new_session c m) \<and> session_inv (new_session c m)"
  by (simp add: session_inv_def flow_defs streams_ok_def new_session_def frames_ok_def server_script_def Let_def)

section \<open>Nothing is left open\<close>

definition socket_state :: "server_stream \<Rightarrow> bool \<times> nat option" where
  "socket_state st = (sv_closed st, sv_socket st)"

definition open_sockets :: "server_stream list \<Rightarrow> nat set" where
  "open_sockets sts = {k. (False, Some k) \<in> set (map socket_state sts)}"

text \<open>Where no accept socket is pending.\<close>

fun no_pending :: "server_pc \<Rightarrow> bool" where
  "no_pending WParamWrite = True" | "no_pending WParamsRead = True" | "no_pending WProbe = True" | "no_pending WFirstBind = True"
| "no_pending (WNextBind i) = True" | "no_pending _ = False"

definition closing_ok :: "server_session \<Rightarrow> bool" where
  "closing_ok s \<longleftrightarrow> set (ss_openUdp s) \<subseteq> set_option (ss_pendingUdpAccept s) \<union> open_sockets (ss_streams s)
     \<and> (ss_pc s = Ended \<longrightarrow> \<not> ss_running s \<and> ss_pipeClosed s \<and> list_all sv_closed (ss_streams s))
     \<and> (ss_running s \<longrightarrow> ss_pc s \<in> {WRunningWrite, WEndRead, WErrorWrite})
     \<and> (no_pending (ss_pc s) \<longrightarrow> ss_pendingUdpAccept s = None)"

lemma close_stream_closed [simp]: "sv_closed (close_stream st)" "sv_socket (close_stream st) = sv_socket st"
  by (simp_all add: close_stream_def)

lemma open_sockets_closed [simp]: "open_sockets (map close_stream sts) = {}"
  by (auto simp: open_sockets_def socket_state_def)

lemma open_sockets_append [simp]: "open_sockets (xs @ ys) = open_sockets xs \<union> open_sockets ys"
  by (auto simp: open_sockets_def)

lemma open_sockets_make [simp]: "open_sockets [make_stream u k i] = set_option k"
  by (auto simp: open_sockets_def socket_state_def make_stream_def)

lemma open_sockets_same: "map socket_state xs = map socket_state ys \<Longrightarrow> open_sockets xs = open_sockets ys"
  by (simp only: open_sockets_def)

lemma open_sockets_socket: "k \<in> open_sockets sts \<Longrightarrow> Some k \<in> sv_socket ` set sts"
  by (force simp: open_sockets_def socket_state_def)

lemma stream_ops_closed [simp]:
  "sv_closed (finalize_stream r st) = sv_closed st" "sv_socket (finalize_stream r st) = sv_socket st"
  "sv_closed (stream_data r n st) = sv_closed st" "sv_socket (stream_data r n st) = sv_socket st"
  "sv_closed (stream_datagram r m t st) = sv_closed st" "sv_socket (stream_datagram r m t st) = sv_socket st"
  "sv_closed (stream_sent r n st) = sv_closed st" "sv_socket (stream_sent r n st) = sv_socket st"
  "sv_closed (stream_attempt r pc st) = sv_closed st" "sv_socket (stream_attempt r pc st) = sv_socket st"
  "sv_closed (stream_send_done r q st) = sv_closed st" "sv_socket (stream_send_done r q st) = sv_socket st"
  "sv_closed (stream_failed e st) = sv_closed st" "sv_socket (stream_failed e st) = sv_socket st"
  by (simp_all add: finalize_stream_def stream_data_def stream_datagram_def stream_sent_def stream_attempt_def
      stream_send_done_def stream_failed_def split: sum.split)

lemma closing_ok_on_stream:
  assumes "closing_ok s" and "\<And>st. sv_closed (f st) = sv_closed st \<and> sv_socket (f st) = sv_socket st"
  shows "closing_ok (on_stream i f s)"
proof -
  have "map socket_state (ss_streams (on_stream i f s)) = map socket_state (ss_streams s)"
    using assms(2) by (auto simp: on_stream_def socket_state_def list_eq_iff_nth_eq nth_list_update)
  from open_sockets_same [OF this]
  have "open_sockets (ss_streams (on_stream i f s)) = open_sockets (ss_streams s)" .
  moreover have "list_all sv_closed (ss_streams s) \<Longrightarrow> list_all sv_closed (ss_streams (on_stream i f s))"
    using assms(2) by (auto simp: on_stream_def list_all_length nth_list_update)
  ultimately show ?thesis using assms(1) by (auto simp: closing_ok_def)
qed

lemma closing_ok_close:
  assumes "closing_ok s"
  shows "set (ss_openUdp (close_streams s)) \<subseteq> set_option (ss_pendingUdpAccept s)"
proof
  fix k assume "k \<in> set (ss_openUdp (close_streams s))"
  then have "k \<in> set (ss_openUdp s)" "k \<notin> open_sockets (ss_streams s)"
    using open_sockets_socket by (auto simp: close_streams_def)
  with assms show "k \<in> set_option (ss_pendingUdpAccept s)" by (auto simp: closing_ok_def)
qed

lemma closing_ok_fail: "closing_ok s \<Longrightarrow> ss_pc s \<noteq> Ended \<Longrightarrow> closing_ok (fail s)"
  by (auto simp: closing_ok_def fail_def)

lemma closing_ok_finish: "closing_ok s \<Longrightarrow> closing_ok (finish s)"
proof -
  assume "closing_ok s"
  then have "closing_ok (s\<lparr>ss_running := False\<rparr>)" by (auto simp: closing_ok_def)
  from closing_ok_close [OF this] show ?thesis
    by (auto simp: finish_def closing_ok_def list_all_iff)
qed

lemma closing_ok_add: "closing_ok s \<Longrightarrow> ss_pc s \<noteq> Ended \<Longrightarrow> closing_ok (addStream s)"
  by (auto simp: closing_ok_def addStream_def check_streams_def streams_ready_def Let_def split: option.splits)

lemma closing_ok_test_ended: "closing_ok s \<Longrightarrow> ss_pc s = WEndRead \<Longrightarrow> closing_ok (test_ended st now s)"
proof -
  assume c: "closing_ok s" and pc: "ss_pc s = WEndRead"
  let ?s1 = "s\<lparr>ss_running := False, ss_endMs := now\<rparr>"
  let ?s2 = "close_streams ?s1"
  let ?s3 = "?s2\<lparr>ss_streams := map (finalize_stream (tp_reverse (the_params s))) (ss_streams ?s2)\<rparr>"
  have c1: "closing_ok ?s1" using c pc by (auto simp: closing_ok_def)
  from closing_ok_close [OF c1] have c3: "closing_ok ?s3" using pc by (auto simp: closing_ok_def)
  have "closing_ok (write_frame_to (StateFrame EXCHANGE_RESULTS) WExchangeWrite ?s3)" using c3 by (auto simp: closing_ok_def)
  with c1 c3 pc show ?thesis by (simp add: test_ended_def Let_def closing_ok_fail del: close_streams_fields(4)) 
qed

lemma closing_ok_abort: "closing_ok s \<Longrightarrow> closing_ok (abort s)"
proof -
  assume c: "closing_ok s"
  let ?s1 = "s\<lparr>ss_running := False, ss_waitTimer := False\<rparr>"
  let ?s2 = "case ss_pendingUdpAccept ?s1 of None \<Rightarrow> ?s1
    | Some k \<Rightarrow> ?s1\<lparr>ss_pendingUdpAccept := None, ss_openUdp := removeAll k (ss_openUdp ?s1)\<rparr>"
  have c2: "closing_ok ?s2" using c by (auto simp: closing_ok_def split: option.split)
  from closing_ok_close [OF c2] c2 have "closing_ok ((close_streams ?s2)\<lparr>ss_pipeClosed := True\<rparr>)"
    by (auto simp: closing_ok_def list_all_iff)
  then show ?thesis by (simp add: abort_def Let_def)
qed

lemma closing_ok_started: "open_sockets (map (\<lambda>st. st\<lparr>sv_started := True\<rparr>) sts) = open_sockets sts"
  by (rule open_sockets_same) (simp add: socket_state_def)

lemma closing_ok_after_write: "closing_ok s \<Longrightarrow> closing_ok (after_write now s)"
proof -
  assume c: "closing_ok s"
  show ?thesis
  proof (cases "ss_pc s = WErrorWrite")
    case True
    with c show ?thesis by (simp add: after_write.simps closing_ok_finish)
  next
    case False
    with c show ?thesis
      by (cases "ss_pc s")
        (auto simp: closing_ok_def after_write.simps waitForStreams_def check_streams_def streams_ready_def Let_def closing_ok_started
          split: option.split)
  qed
qed

lemma session_step_closing: "closing_ok s \<Longrightarrow> closing_ok (session_step s e)"
proof -
  assume c: "closing_ok s"
  show ?thesis
  proof (cases e)
    case (GotJson r)
    with c show ?thesis
      by (auto simp: closing_ok_fail params_received_def results_received_def create_phase_def announce_streams_def Let_def
          split: option.split sum.split) (auto simp: closing_ok_def)
  next
    case (BoundUdp sock replied)
    with c show ?thesis
      by (auto simp: next_bound_def announce_streams_def Let_def fail_def split: option.split server_pc.split)
        (auto simp: closing_ok_def)
  next
    case (AcceptedUdp acc replied)
    with c show ?thesis
      by (auto simp: udp_accepted_def accept_failed_def streams_ready_def Let_def fail_def split: option.split server_pc.split)
        (auto simp: closing_ok_def split: option.splits)
  qed (use c in \<open>auto simp: closing_ok_fail closing_ok_after_write closing_ok_finish closing_ok_test_ended closing_ok_add
      closing_ok_abort closing_ok_on_stream is_write_pc_def create_phase_def announce_streams_def Let_def split: option.split\<close>,
      auto simp: closing_ok_def)
qed

interpretation session_closing: invariant_system session_step "\<lambda>_ _. True" closing_ok
  by unfold_locales (rule session_step_closing)

lemma session_run_closing: "closing_ok s \<Longrightarrow> closing_ok (run_steps session_step s es)"
  by (induction es arbitrary: s) (auto intro: session_step_closing)

lemma new_session_closing: "closing_ok (new_session c m)"
  by (simp add: closing_ok_def new_session_def)

text \<open>
  The client disconnects between the bind of the UDP port and the announcement: the write fails, the
  session ends, and the bound socket stays open because only \<open>abort\<close> closes a pending accept socket.
\<close>

lemma udp_listener_leaked:
  assumes "decodeParams j = Inr p" and "tp_udp p" and "\<not> tp_reverse p" and "tp_time p \<le> m"
    and "s = run_steps session_step (new_session c m)
      [Wrote True 0, GotJson (Some j), BoundUdp (Some sock) True, Wrote False 0, Wrote False 0]"
  shows "ss_pc s = Ended \<and> ss_openUdp s = [sock]"
  using assms(1-4) unfolding assms(5)
  by (simp add: new_session_def session_ops write_frame_to_def close_streams_def)

text \<open>Whatever happens, a session only appends to what it has written, at most one frame a step.\<close>

lemma session_step_writes: "\<exists>out. ss_written (session_step s e) = ss_written s @ out \<and> length out \<le> 1"
  by (cases e) (auto simp: session_ops split: option.split sum.split server_pc.split)

lemma session_step_max [simp]: "ss_maxTestSeconds (session_step s e) = ss_maxTestSeconds s"
  by (cases e) (auto simp: session_ops split: option.split sum.split server_pc.split)

lemma addStream_running: "ss_pc s \<noteq> Ended \<Longrightarrow> ss_pc (session_step s StreamConnected) \<noteq> Ended"
  by (auto simp: session_ops split: option.split)

lemma abort_pc [simp]: "ss_pc (abort s) = ss_pc s" "ss_maxTestSeconds (abort s) = ss_maxTestSeconds s"
  by (auto simp: abort_def Let_def split: option.split)

lemma session_step_cookie [simp]: "ss_cookie (session_step s e) = ss_cookie s"
  by (cases e) (auto simp: session_ops split: option.split sum.split server_pc.split)

lemma ended_absorbing: "ss_pc s = Ended \<Longrightarrow> ss_pc (session_step s e) = Ended"
  by (cases e) (auto simp: session_ops split: option.split)

lemma ended_run: "ss_pc s = Ended \<Longrightarrow> ss_pc (run_steps session_step s es) = Ended"
  by (induction es arbitrary: s) (simp_all add: ended_absorbing del: session_step.simps)

section \<open>A complete test\<close>

definition fresh_streams :: "nat \<Rightarrow> server_stream list" where
  "fresh_streams n = map (make_stream False None) (stream_ids n)"

lemma fresh_streams_Suc: "fresh_streams (Suc k) = fresh_streams k @ [make_stream False None (nextStreamId k)]"
  by (simp add: fresh_streams_def stream_ids_Suc)

lemma length_fresh_streams [simp]: "length (fresh_streams n) = n"
  by (simp add: fresh_streams_def)

text \<open>The streams arrive one by one; the last of them ends the wait.\<close>

lemma streams_arrive:
  assumes "ss_pc s = WStreams" and "ss_streamArrived s = Some n" and "ss_streams s = fresh_streams k" and "k < n"
    and "ss_awaitingStreams s" and "ss_params s = Some p" and "\<not> tp_udp p"
  shows "run_steps session_step s (replicate (n - k) StreamConnected) =
      streams_ready (s\<lparr>ss_streams := fresh_streams n, ss_waitTimer := False, ss_streamArrived := None\<rparr>)
    \<and> run_ok session_event_ok session_step s (replicate (n - k) StreamConnected)"
  using assms
proof (induction "n - k" arbitrary: k s)
  case (Suc d)
  have want: "\<exists>c. wantsStream c s" using Suc.prems by (auto simp: wantsStream_def)
  have rep: "replicate (n - k) StreamConnected = StreamConnected # replicate (n - Suc k) StreamConnected"
    using Suc.hyps(2) Suc.prems(4) by (simp flip: replicate_Suc add: Suc_diff_Suc)
  let ?t = "s\<lparr>ss_streams := fresh_streams (Suc k)\<rparr>"
  show ?case
  proof (cases "Suc k = n")
    case True
    then have "fresh_streams n = fresh_streams k @ [make_stream False None (nextStreamId k)]" using fresh_streams_Suc [of k] by simp
    with Suc.prems want rep True show ?thesis by (simp add: addStream_def check_streams_def Let_def)
  next
    case False
    with Suc.prems have "session_step s StreamConnected = ?t"
      by (simp add: addStream_def check_streams_def fresh_streams_Suc Let_def)
    moreover have "run_steps session_step ?t (replicate (n - Suc k) StreamConnected) =
        streams_ready (?t\<lparr>ss_streams := fresh_streams n, ss_waitTimer := False, ss_streamArrived := None\<rparr>)
      \<and> run_ok session_event_ok session_step ?t (replicate (n - Suc k) StreamConnected)"
      by (rule Suc.hyps(1)) (use Suc.hyps(2) Suc.prems False in auto)
    ultimately show ?thesis using want rep by simp
  qed
qed simp

text \<open>Bytes arriving on the streams of a running forward test.\<close>

definition counted :: "nat \<Rightarrow> nat \<Rightarrow> server_stream" where
  "counted i b = (make_stream False None i)\<lparr>sv_started := True,
     sv_receiver := \<lparr>ur_tracker = new_tracker, ur_counters = (makeCounters i)\<lparr>sc_bytes := b\<rparr>\<rparr>\<rparr>"

definition counted_streams :: "(nat \<Rightarrow> nat) \<Rightarrow> nat \<Rightarrow> server_stream list" where
  "counted_streams f n = map (\<lambda>k. counted (nextStreamId k) (f k)) [0..<n]"

definition bytes_on :: "(nat \<times> nat) list \<Rightarrow> nat \<Rightarrow> nat" where
  "bytes_on ds k = sum_list (map snd (filter (\<lambda>d. fst d = k) ds))"

lemma bytes_on_Cons [simp]: "bytes_on ((i, b) # ds) k = (if i = k then b else 0) + bytes_on ds k"
  by (simp add: bytes_on_def)

lemma bytes_on_Nil [simp]: "bytes_on [] k = 0"
  by (simp add: bytes_on_def)

lemma fresh_started: "map (\<lambda>st. st\<lparr>sv_started := True\<rparr>) (fresh_streams n) = counted_streams (\<lambda>_. 0) n"
  by (simp add: fresh_streams_def counted_streams_def counted_def stream_ids_def make_stream_def new_receiver_def makeCounters_def)

lemma counted_update:
  assumes "k < n"
  shows "(counted_streams f n)[k := stream_data False b (counted_streams f n ! k)] = counted_streams (f(k := f k + b)) n"
proof -
  have "counted_streams f n ! k = counted (nextStreamId k) (f k)" using assms by (simp add: counted_streams_def)
  moreover have "stream_data False b (counted i x) = counted i (x + b)" for i x
    by (simp add: counted_def stream_data_def make_stream_def sv_counters_def attachReceiver_def)
  ultimately show ?thesis using assms by (auto simp: counted_streams_def list_eq_iff_nth_eq nth_list_update)
qed

lemma stream_data_run:
  assumes "ss_streams s = counted_streams f n" and "list_all (\<lambda>d. fst d < n) ds" and "ss_params s = Some p" and "\<not> tp_reverse p"
  shows "run_steps session_step s (map (\<lambda>(i, b). StreamData i b) ds) = s\<lparr>ss_streams := counted_streams (\<lambda>k. f k + bytes_on ds k) n\<rparr>"
  using assms
proof (induction ds arbitrary: s f)
  case Nil
  then show ?case by (simp flip: Nil.prems(1))
next
  case (Cons d ds)
  obtain i b where d: "d = (i, b)" by (cases d)
  obtain g where g: "g = f(i := f i + b)" by simp
  let ?t = "s\<lparr>ss_streams := counted_streams g n\<rparr>"
  have "i < length (counted_streams f n)" using Cons.prems(2) d by (simp add: counted_streams_def)
  then have step: "session_step s (StreamData i b) = ?t"
    using Cons.prems counted_update [of i n f b] d by (simp add: on_stream_def the_params_def g)
  have "(\<lambda>k. g k + bytes_on ds k) = (\<lambda>k. f k + bytes_on (d # ds) k)" by (auto simp: d g)
  with Cons.IH [of ?t g] Cons.prems step show ?case by (simp add: d del: session_step.simps bytes_on_Cons)
qed

text \<open>What the environment does in a complete forward TCP test with parameters \<open>j\<close> and client results \<open>r\<close>.\<close>

definition complete_test :: "nat \<Rightarrow> json \<Rightarrow> json \<Rightarrow> (nat \<times> nat) list \<Rightarrow> rat \<Rightarrow> rat \<Rightarrow> session_event list" where
  "complete_test n j r ds startMs endMs =
     [Wrote True 0, GotJson (Some j), Wrote True 0] @ replicate n StreamConnected @ [Wrote True startMs, Wrote True startMs]
     @ map (\<lambda>(i, b). StreamData i b) ds
     @ [GotState (Some TEST_END) endMs, Wrote True endMs, GotJson (Some r),
        Wrote True endMs, Wrote True endMs, GotState (Some IPERF_DONE) endMs]"

definition expected_results :: "nat \<Rightarrow> (nat \<times> nat) list \<Rightarrow> rat \<Rightarrow> EndResults" where
  "expected_results n ds seconds = \<lparr>er_senderHasRetransmits = Fin (- 1),
     er_streams = map (\<lambda>k. stream_result seconds ((makeCounters (nextStreamId k))\<lparr>sc_bytes := bytes_on ds k\<rparr>)) [0..<n]\<rparr>"

lemma counted_closed:
  "List.map_filter sv_transferError (map (finalize_stream b \<circ> close_stream) (counted_streams f n)) = []"
  by (simp add: counted_streams_def List.map_filter_def make_stream_def close_stream_def finalize_stream_def filter_empty_conv
      counted_def)

lemma counters_closed: "sv_counters (finalize_stream b (close_stream (counted i x))) = (makeCounters i)\<lparr>sc_bytes := x\<rparr>"
  by (simp add: counted_def make_stream_def close_stream_def finalize_stream_def sv_counters_def)

lemma run_ok_data: "run_ok session_event_ok session_step s (map (\<lambda>(i, b). StreamData i b) ds)"
  by (induction ds arbitrary: s) auto

lemma session_completes:
  assumes "decodeParams j = Inr p" and "\<not> tp_udp p" and "\<not> tp_reverse p" and "tp_time p \<le> m" and "decodeResults r = Some cr"
    and "n = nat (tp_parallel p)" and "list_all (\<lambda>d. fst d < n) ds"
  shows "run_ok session_event_ok session_step (new_session c m) (complete_test n j r ds startMs endMs)
    \<and> ss_pc (run_steps session_step (new_session c m) (butlast (complete_test n j r ds startMs endMs))) = WDoneRead
    \<and> ss_pc (run_steps session_step (new_session c m) (complete_test n j r ds startMs endMs)) = Ended
    \<and> ss_written (run_steps session_step (new_session c m) (complete_test n j r ds startMs endMs)) =
        [StateFrame PARAM_EXCHANGE, StateFrame CREATE_STREAMS, StateFrame TEST_START, StateFrame TEST_RUNNING,
         StateFrame EXCHANGE_RESULTS, JsonFrame (encodeResults (expected_results n ds ((endMs - startMs) / 1000))),
         StateFrame DISPLAY_RESULTS]"
proof -
  have n: "0 < n" using decodeParams_ok [OF assms(1)] assms(6) by simp
  let ?s0 = "run_steps session_step (new_session c m) [Wrote True 0, GotJson (Some j), Wrote True 0]"
  have s0: "ss_pc ?s0 = WStreams" "ss_streamArrived ?s0 = Some n" "ss_streams ?s0 = fresh_streams 0" "ss_awaitingStreams ?s0"
    "ss_params ?s0 = Some p" "ss_written ?s0 = [StateFrame PARAM_EXCHANGE, StateFrame CREATE_STREAMS]"
    using assms n by (simp_all add: new_session_def session_ops write_frame_to_def fresh_streams_def)
  note a = streams_arrive [OF s0(1-3) n s0(4,5) assms(2)]
  let ?s1 = "streams_ready (?s0\<lparr>ss_streams := fresh_streams n, ss_waitTimer := False, ss_streamArrived := None\<rparr>)"
  let ?s2 = "run_steps session_step ?s1 [Wrote True startMs, Wrote True startMs]"
  have s2: "ss_pc ?s2 = WEndRead" "ss_streams ?s2 = counted_streams (\<lambda>_. 0) n" "ss_params ?s2 = Some p" "ss_startMs ?s2 = startMs"
    "ss_written ?s2 = [StateFrame PARAM_EXCHANGE, StateFrame CREATE_STREAMS, StateFrame TEST_START, StateFrame TEST_RUNNING]"
    using s0 by (simp_all add: streams_ready_def after_write.simps fresh_started write_frame_to_def)
  let ?s3 = "?s2\<lparr>ss_streams := counted_streams (\<lambda>k. 0 + bytes_on ds k) n\<rparr>"
  let ?tail = "[GotState (Some TEST_END) endMs, Wrote True endMs, GotJson (Some r), Wrote True endMs, Wrote True endMs,
      GotState (Some IPERF_DONE) endMs]"
  obtain pre where pre: "pre = [Wrote True 0, GotJson (Some j), Wrote True 0] @ replicate n StreamConnected
      @ [Wrote True startMs, Wrote True startMs] @ map (\<lambda>(i, b). StreamData i b) ds" by simp
  have test: "complete_test n j r ds startMs endMs = pre @ ?tail" by (simp add: complete_test_def pre)
  have run: "run_steps session_step (new_session c m) pre = ?s3"
    using a stream_data_run [OF s2(2) assms(7) s2(3) assms(3)] by (simp only: pre run_steps_append diff_zero)
  have ok: "run_ok session_event_ok session_step (new_session c m) (complete_test n j r ds startMs endMs)"
    using a by (simp only: complete_test_def run_ok_append diff_zero run_ok_data) simp
  obtain s3 where s3: "s3 = ?s3" by simp
  then have f: "ss_pc s3 = WEndRead" "ss_streams s3 = counted_streams (bytes_on ds) n" "ss_params s3 = Some p" "ss_startMs s3 = startMs"
    "ss_written s3 = [StateFrame PARAM_EXCHANGE, StateFrame CREATE_STREAMS, StateFrame TEST_START, StateFrame TEST_RUNNING]"
    using s2 by simp_all
  have tail: "ss_pc (run_steps session_step s3 (butlast ?tail)) = WDoneRead \<and> ss_pc (run_steps session_step s3 ?tail) = Ended
      \<and> ss_written (run_steps session_step s3 ?tail) = ss_written s3 @ [StateFrame EXCHANGE_RESULTS,
          JsonFrame (encodeResults (expected_results n ds ((endMs - startMs) / 1000))), StateFrame DISPLAY_RESULTS]"
    using f assms(2,3,5) counted_closed [of False "bytes_on ds" n]
    by (simp add: session_ops failures_def localResults_def write_frame_to_def close_streams_def expected_results_def)
      (simp add: counted_streams_def counters_closed comp_def)
  have "run_steps session_step (new_session c m) pre = s3" unfolding run s3 ..
  with ok tail f(5) show ?thesis unfolding test by (simp add: butlast_append del: run_steps.simps session_step.simps)
qed

section \<open>Properties\<close>

text \<open>The abstract server: it advances through the script one frame at a time, or fails once, for good.\<close>

datatype abstract_server = AtStage nat | FailedAt nat

inductive abstract_step :: "abstract_server \<Rightarrow> abstract_server \<Rightarrow> bool" where
  stutter: "abstract_step a a"
| advance: "k < 7 \<Longrightarrow> abstract_step (AtStage k) (AtStage (Suc k))"
| failing: "abstract_step (AtStage k) (FailedAt k)"

inductive_simps abstract_from_failed: "abstract_step (FailedAt k) a"

definition abstracts :: "abstract_server \<Rightarrow> server_session \<Rightarrow> bool" where
  "abstracts a s \<longleftrightarrow> (case a of
     AtStage k \<Rightarrow> 1 \<le> k \<and> k \<le> 7 \<and> map frame_tag (ss_written s) = take k server_script
   | FailedAt k \<Rightarrow> 1 \<le> k \<and> k \<le> 7 \<and> map frame_tag (ss_written s) = take k server_script @ [Some SERVER_ERROR])"

lemma abstracts_exists: "frames_ok s \<Longrightarrow> \<exists>a. abstracts a s"
proof -
  assume f: "frames_ok s"
  consider "erred (map frame_tag (ss_written s))" | "map frame_tag (ss_written s) = server_script"
    | "map frame_tag (ss_written s) = take (progress (ss_pc s)) server_script"
    using f by (auto simp: frames_ok_def Let_def split: if_splits)
  then show ?thesis
  proof cases
    case 1
    then show ?thesis by (auto simp: erred_def abstracts_def intro: exI [of _ "FailedAt _"])
  next
    case 2
    then show ?thesis by (intro exI [of _ "AtStage 7"]) (simp add: abstracts_def server_script_def)
  next
    case 3
    then show ?thesis using progress_range [of "ss_pc s"] by (intro exI [of _ "AtStage (progress (ss_pc s))"]) (simp add: abstracts_def)
  qed
qed

lemma length_script [simp]: "length server_script = 7"
  by (simp add: server_script_def)

lemma script_no_error: "Some SERVER_ERROR \<notin> set server_script"
  by (simp add: server_script_def state_defs)

text \<open>Frame lists that the abstraction relates determine the abstract step.\<close>

lemma abstracts_step:
  assumes "abstracts a s" and "abstracts b t" and "ss_written t = ss_written s @ out" and "length out \<le> 1"
  shows "abstract_step a b"
proof -
  let ?f = "map frame_tag (ss_written s)" and ?g = "map frame_tag (ss_written t)"
  have g: "?g = ?f @ map frame_tag out" using assms(3) by simp
  have no: "Some SERVER_ERROR \<notin> set (take k server_script)" for k using script_no_error by (meson in_set_takeD)
  show ?thesis
  proof (cases a; cases b)
    fix k l assume ab: "a = AtStage k" "b = AtStage l"
    with assms(1,2) have k: "?f = take k server_script" "k \<le> 7" and l: "?g = take l server_script" "l \<le> 7" by (auto simp: abstracts_def)
    then have "length ?f = k" "length ?g = l" by simp_all
    with g assms(4) have "l = k \<or> l = Suc k" by (cases out) auto
    with ab l(2) show ?thesis by (auto intro: stutter advance)
  next
    fix k l assume ab: "a = AtStage k" "b = FailedAt l"
    with assms(1,2) have k: "?f = take k server_script" "k \<le> 7" and l: "?g = take l server_script @ [Some SERVER_ERROR]" "l \<le> 7"
      by (auto simp: abstracts_def)
    then have len: "length ?f = k" "length ?g = Suc l" by simp_all
    have "out \<noteq> []" using g k l no [of k] by (metis append_Nil2 in_set_conv_decomp list.simps(8))
    with g len assms(4) have "k = l" by (cases out) auto
    with ab show ?thesis by (auto intro: failing)
  next
    fix k l assume ab: "a = FailedAt k" "b = AtStage l"
    with assms(1,2) have "Some SERVER_ERROR \<in> set ?f" "?g = take l server_script" by (auto simp: abstracts_def)
    with g no [of l] show ?thesis by auto
  next
    fix k l assume ab: "a = FailedAt k" "b = FailedAt l"
    with assms(1,2) have k: "?f = take k server_script @ [Some SERVER_ERROR]" "k \<le> 7"
      and l: "?g = take l server_script @ [Some SERVER_ERROR]" "l \<le> 7" by (auto simp: abstracts_def)
    have "out = []"
    proof (rule ccontr)
      assume "out \<noteq> []"
      with assms(4) obtain x where "out = [x]" by (cases out) auto
      with g l(1) have "take l server_script = ?f" by simp
      with k(1) no [of l] show False by (metis in_set_conv_decomp)
    qed
    with g k l have "length (take k server_script) = length (take l server_script)" by simp
    with k(2) l(2) have "k = l" by simp
    with ab show ?thesis by (auto intro: stutter)
  qed
qed

text \<open>
  C2: the server refines the protocol.  In every run of a session, whatever the peer, the
  network and the timers do, the session simulates the abstract server: each event writes at
  most one control frame, and that is the next frame of the script (parameters, streams,
  start, running, exchange, results, display) or a single \<open>SERVER_ERROR\<close> after which nothing is written;
  and a session that has ended has written the whole script or failed.
\<close>

theorem server_refines_protocol:
  assumes "run_ok session_event_ok session_step (new_session c m) es"
    and "s = run_steps session_step (new_session c m) es" and "session_event_ok s e"
  shows "(\<exists>a b. abstracts a s \<and> abstracts b (session_step s e) \<and> abstract_step a b)
    \<and> (ss_pc s = Ended \<longrightarrow> abstracts (AtStage 7) s \<or> (\<exists>k. abstracts (FailedAt k) s))"
proof -
  have inv: "frames_ok s \<and> session_inv s" unfolding assms(2) by (rule session_system.inv_run [OF new_session_inv assms(1)])
  obtain a where a: "abstracts a s" using abstracts_exists inv by blast
  obtain b where b: "abstracts b (session_step s e)" using abstracts_exists session_step_frames inv by blast
  have "abstracts (AtStage 7) s \<or> (\<exists>k. abstracts (FailedAt k) s)" if "ss_pc s = Ended"
    using inv that by (auto simp: frames_ok_def abstracts_def erred_def)
  with session_step_writes [of s e] abstracts_step [OF a b] a b show ?thesis by blast
qed

theorem server_refines_protocol_witness:
  "\<exists>a b. abstracts a (run_steps session_step (new_session [] 3600) [Wrote True 0])
     \<and> abstracts b (session_step (run_steps session_step (new_session [] 3600) [Wrote True 0]) (GotJson (Some JNull))) \<and> abstract_step a b"
  by (rule conjunct1 [OF server_refines_protocol [OF _ refl]]) simp_all

text \<open>
  C4: a test starts only with what it needs, and a session cleans up.  In every run of a
  session the streams carry the ids 1, 3, 4, \<open>...\<close> in order of arrival; once the start is announced the
  parameters are within the bounds and the server's time limit and at least the requested
  number of streams is there, for UDP exactly that number; and when the session ends it is not
  running, the control pipe and all streams are closed, and the only UDP socket that can
  still be open is a listener that was bound and never accepted.
\<close>

theorem session_streams_and_cleanup:
  assumes "run_ok session_event_ok session_step (new_session c m) es" and "s = run_steps session_step (new_session c m) es"
  shows "map (sc_id \<circ> sv_counters) (ss_streams s) = stream_ids (length (ss_streams s))
    \<and> (started_pc (ss_pc s) \<longrightarrow> (\<exists>p. ss_params s = Some p \<and> tp_time p \<le> m \<and> 1 \<le> tp_parallel p \<and> tp_parallel p \<le> 128
         \<and> nat (tp_parallel p) \<le> length (ss_streams s) \<and> (tp_udp p \<longrightarrow> length (ss_streams s) = nat (tp_parallel p))))
    \<and> (ss_pc s = Ended \<longrightarrow> \<not> ss_running s \<and> ss_pipeClosed s \<and> list_all sv_closed (ss_streams s)
         \<and> set (ss_openUdp s) \<subseteq> set_option (ss_pendingUdpAccept s))"
proof -
  have inv: "frames_ok s \<and> session_inv s" unfolding assms(2) by (rule session_system.inv_run [OF new_session_inv assms(1)])
  have cl: "closing_ok s" unfolding assms(2) by (rule session_run_closing [OF new_session_closing])
  have m: "ss_maxTestSeconds s = m"
    unfolding assms(2) by (induction es rule: rev_induct) (simp_all add: new_session_def)
  have st: "started_pc (ss_pc s) \<longrightarrow> (\<exists>p. ss_params s = Some p \<and> tp_time p \<le> m \<and> 1 \<le> tp_parallel p \<and> tp_parallel p \<le> 128
         \<and> nat (tp_parallel p) \<le> length (ss_streams s) \<and> (tp_udp p \<longrightarrow> length (ss_streams s) = nat (tp_parallel p)))"
    using inv m by (cases "ss_pc s") (auto simp: session_inv_def params_valid_def stage_ok_def started_pc_def the_params_def
        parallel_of_def MAX_PARALLEL_def split: option.splits)
  have "open_sockets (ss_streams s) = {}" if "list_all sv_closed (ss_streams s)"
    using that by (auto simp: open_sockets_def socket_state_def list_all_iff)
  with inv cl st show ?thesis by (auto simp: session_inv_def streams_ok_def closing_ok_def)
qed

theorem session_streams_and_cleanup_witness:
  "\<not> ss_running (run_steps session_step (new_session [] 3600) [Wrote False 0, Wrote False 0])
    \<and> ss_pipeClosed (run_steps session_step (new_session [] 3600) [Wrote False 0, Wrote False 0])"
proof -
  have "ss_pc (run_steps session_step (new_session [] 3600) [Wrote False 0, Wrote False 0]) = Ended"
    by (simp add: new_session_def session_ops)
  with session_streams_and_cleanup [OF _ refl, of "[]" 3600 "[Wrote False 0, Wrote False 0]"] show ?thesis by simp
qed

end
