(* ===== verification/Client.thy ===== *)
theory Client
  imports Server
begin

text \<open>
  \<open>packages/netsu/src/client.ts\<close>: the client session.  As for the server, \<open>ClientSession.run\<close> is a machine
  whose program counter names the \<open>await\<close> it stands at.  The streams are those of the theory
  \<open>Server\<close>: the two files build them in the same way.  Timers, the clock and the arrival of data are
  events.
\<close>

section \<open>Numbers of a peer\<close>

text \<open>
  The results of the other side are whatever JSON numbers it sent, so sums over them may be
  infinite or not a number (\<open>None\<close>).
\<close>

type_synonym js_val = "js_num option"

fun num_add :: "js_num \<Rightarrow> js_num \<Rightarrow> js_val" where
  "num_add (Fin a) (Fin b) = Some (Fin (a + b))"
| "num_add (Inf n) (Fin b) = Some (Inf n)"
| "num_add (Fin a) (Inf n) = Some (Inf n)"
| "num_add (Inf n) (Inf k) = (if n = k then Some (Inf n) else None)"

definition val_add :: "js_val \<Rightarrow> js_num \<Rightarrow> js_val" where
  "val_add v x = Option.bind v (\<lambda>a. num_add a x)"

definition val_sum :: "js_num list \<Rightarrow> js_val" where
  "val_sum xs = foldl val_add (Some (Fin 0)) xs"

text \<open>Multiplication by a positive rational, and division.\<close>

definition val_scale :: "rat \<Rightarrow> js_val \<Rightarrow> js_val" where
  "val_scale q v = map_option (\<lambda>x. case x of Fin a \<Rightarrow> Fin (q * a) | Inf n \<Rightarrow> Inf n) v"

definition val_positive :: "js_val \<Rightarrow> bool" where
  "val_positive v = (case v of Some (Fin a) \<Rightarrow> 0 < a | Some (Inf n) \<Rightarrow> \<not> n | None \<Rightarrow> False)"

text \<open>\<open>x / y\<close> for a positive \<open>y\<close>.\<close>

definition val_div :: "js_val \<Rightarrow> js_val \<Rightarrow> js_val" where
  "val_div v w = (case (v, w) of
     (Some (Fin a), Some (Fin b)) \<Rightarrow> Some (Fin (a / b))
   | (Some (Fin a), Some (Inf n)) \<Rightarrow> Some (Fin 0)
   | (Some (Inf n), Some (Fin b)) \<Rightarrow> Some (Inf n)
   | _ \<Rightarrow> None)"

definition bits_per_second_of :: "js_val \<Rightarrow> rat \<Rightarrow> js_val" where
  "bits_per_second_of bytes seconds = (if seconds > 0 then val_scale (8 / seconds) bytes else Some (Fin 0))"

section \<open>Results\<close>

record UdpStats =
  ud_jitterMs :: js_val
  ud_lost :: js_val
  ud_packets :: js_val
  ud_lostPercent :: js_val

record TestResult =
  re_udp :: bool
  re_reverse :: bool
  re_durationSeconds :: rat
  re_sentBytes :: js_val
  re_receivedBytes :: js_val
  re_sendBitsPerSecond :: js_val
  re_receiveBitsPerSecond :: js_val
  re_local :: EndResults
  re_remote :: EndResults
  re_udpStats :: "UdpStats option"

definition sum_bytes :: "EndResults \<Rightarrow> js_val" where
  "sum_bytes r = val_sum (map sr_bytes (er_streams r))"

definition udp_stats :: "EndResults \<Rightarrow> UdpStats" where
  "udp_stats r =
     (let packets = val_sum (map sr_packets (er_streams r)); lst = val_sum (map sr_errors (er_streams r)) in
      \<lparr>ud_jitterMs = val_scale (1000 / of_nat (max 1 (length (er_streams r)))) (val_sum (map sr_jitter (er_streams r))),
       ud_lost = lst, ud_packets = packets,
       ud_lostPercent = (if val_positive packets then val_div (val_scale 100 lst) packets else Some (Fin 0))\<rparr>)"

definition buildResult :: "TestParams \<Rightarrow> rat \<Rightarrow> EndResults \<Rightarrow> EndResults \<Rightarrow> TestResult" where
  "buildResult p duration local_results remote =
     (let sender = \<not> tp_reverse p;
          sentBytes = (if sender then sum_bytes local_results else sum_bytes remote);
          receivedBytes = (if sender then sum_bytes remote else sum_bytes local_results)
      in \<lparr>re_udp = tp_udp p, re_reverse = tp_reverse p, re_durationSeconds = duration, re_sentBytes = sentBytes,
          re_receivedBytes = receivedBytes, re_sendBitsPerSecond = bits_per_second_of sentBytes duration,
          re_receiveBitsPerSecond = bits_per_second_of receivedBytes duration, re_local = local_results, re_remote = remote,
          re_udpStats = (if tp_udp p then Some (udp_stats (if sender then remote else local_results)) else None)\<rparr>)"

section \<open>Session\<close>

text \<open>\<open>op_onInterval\<close>: a callback is given.\<close>

record ClientOptions =
  op_port :: "int option"
  op_transport :: "transport option"
  op_udp :: "bool option"
  op_reverse :: "bool option"
  op_duration :: "rat option"
  op_parallel :: "int option"
  op_len :: "int option"
  op_bandwidth :: "js_num option"
  op_interval :: "rat option"
  op_onInterval :: bool

text \<open>The parameters \<open>runClient\<close> fills in.\<close>

definition client_params :: "ClientOptions \<Rightarrow> TestParams" where
  "client_params opts =
     (let udp = nullish (op_udp opts) False in
      \<lparr>tp_udp = udp, tp_time = nullish (op_duration opts) 10, tp_parallel = nullish (op_parallel opts) 1,
       tp_len = nullish (op_len opts) (if udp then DEFAULT_UDP_LEN else DEFAULT_TCP_LEN),
       tp_reverse = nullish (op_reverse opts) False,
       tp_bandwidth = nullish (op_bandwidth opts) (Fin (if udp then DEFAULT_UDP_BANDWIDTH else 0))\<rparr>)"

datatype client_error =
  ConnectFailed | ControlFailed | OpenFailed | CannotSendUdp | DataStreamFailed string | InvalidResults | NoResults
| ServerBusy | ServerReportedError | UnexpectedState int

datatype client_pc =
  KConnect | KCookieWrite | KReadState | KParamsWrite | KProbe | KOpening nat | KOpenCookie nat | KResultsWrite | KResultsRead | KDoneWrite | KFinished

record client_session =
  cl_port :: int
  cl_transport :: transport
  cl_params :: TestParams
  cl_opts :: ClientOptions
  cl_cookie :: js_string
  cl_cookies :: "byte list list"
  cl_streams :: "server_stream list"
  cl_meter :: IntervalMeter
  cl_running :: bool
  cl_startMs :: rat
  cl_endMs :: rat
  cl_deadlineMs :: rat
  cl_remote :: "EndResults option"
  cl_endTimer :: bool
  cl_intervalTimer :: bool
  cl_staleInterval :: bool
  cl_endTest :: bool
  cl_written :: "frame list"
  cl_reports :: "IntervalReport list"
  cl_controlOpen :: bool
  cl_result :: "(client_error + TestResult) option"
  cl_pc :: client_pc

text \<open>
  \<open>cl_cookies\<close> are the cookie frames written so far, one for each connection.  A client starts by
  connecting.
\<close>

definition new_client :: "int \<Rightarrow> transport \<Rightarrow> TestParams \<Rightarrow> ClientOptions \<Rightarrow> js_string \<Rightarrow> rat \<Rightarrow> client_session" where
  "new_client port tr p opts cookie now =
     \<lparr>cl_port = port, cl_transport = tr, cl_params = p, cl_opts = opts, cl_cookie = cookie, cl_cookies = [],
      cl_streams = [], cl_meter = new_meter now, cl_running = False, cl_startMs = 0, cl_endMs = 0, cl_deadlineMs = 0,
      cl_remote = None, cl_endTimer = False, cl_intervalTimer = False, cl_staleInterval = False, cl_endTest = False,
      cl_written = [], cl_reports = [], cl_controlOpen = False, cl_result = None, cl_pc = KConnect\<rparr>"

definition runClient :: "ClientOptions \<Rightarrow> js_string \<Rightarrow> rat \<Rightarrow> client_session" where
  "runClient opts cookie now =
     new_client (nullish (op_port opts) 5201) (nullish (op_transport opts) TcpTransport) (client_params opts) opts cookie now"

definition write_cookie :: "client_pc \<Rightarrow> client_session \<Rightarrow> client_session" where
  "write_cookie pc c = c\<lparr>cl_cookies := cl_cookies c @ [cookieToBytes (cl_cookie c)], cl_pc := pc\<rparr>"

definition cleanup :: "client_session \<Rightarrow> client_session" where
  "cleanup c = c\<lparr>cl_running := False, cl_endTimer := False, cl_intervalTimer := False,
     cl_streams := map close_stream (cl_streams c), cl_controlOpen := False\<rparr>"

text \<open>Leaving \<open>run\<close>, with a value or an error: the \<open>finally\<close> runs.\<close>

definition leave :: "client_error + TestResult \<Rightarrow> client_session \<Rightarrow> client_session" where
  "leave r c = (cleanup c)\<lparr>cl_result := Some r, cl_pc := KFinished\<rparr>"

definition client_write :: "frame \<Rightarrow> client_pc \<Rightarrow> client_session \<Rightarrow> client_session" where
  "client_write f pc c = c\<lparr>cl_written := cl_written c @ [f], cl_pc := pc\<rparr>"

definition client_results :: "client_session \<Rightarrow> EndResults" where
  "client_results c = \<lparr>er_senderHasRetransmits = Fin (if tp_reverse (cl_params c) then - 1 else 0),
     er_streams = map (\<lambda>st. stream_result ((cl_endMs c - cl_startMs c) / 1000) (sv_counters st)) (cl_streams c)\<rparr>"

text \<open>
  A second \<open>TEST_RUNNING\<close> overwrites the handle of the interval timer, which then nobody clears:
  \<open>cl_staleInterval\<close>.
\<close>

definition startRunning :: "rat \<Rightarrow> client_session \<Rightarrow> client_session" where
  "startRunning now c = c\<lparr>cl_running := True, cl_startMs := now, cl_deadlineMs := now + tp_time (cl_params c) * 1000,
     cl_meter := new_meter now, cl_streams := map (\<lambda>st. st\<lparr>sv_started := True\<rparr>) (cl_streams c), cl_endTest := True,
     cl_intervalTimer := (nullish (op_interval (cl_opts c)) 1 > 0 \<and> op_onInterval (cl_opts c)), cl_staleInterval := (cl_staleInterval c \<or> cl_intervalTimer c),
     cl_endTimer := True\<rparr>"

definition endTest :: "rat \<Rightarrow> client_session \<Rightarrow> client_session" where
  "endTest now c =
     (if \<not> cl_endTest c \<or> \<not> cl_running c then c
      else
        let c1 = c\<lparr>cl_running := False, cl_endMs := now, cl_endTimer := False, cl_intervalTimer := False,
              cl_written := cl_written c @ [StateFrame TEST_END]\<rparr>
        in if tp_reverse (cl_params c) then c1 else c1\<lparr>cl_streams := map close_stream (cl_streams c1)\<rparr>)"

definition onReverseBytes :: "nat \<Rightarrow> rat \<Rightarrow> client_session \<Rightarrow> client_session" where
  "onReverseBytes n now c =
     (let c1 = c\<lparr>cl_meter := meter_add n (cl_meter c)\<rparr> in
      if cl_running c1 \<and> now \<ge> cl_deadlineMs c1 then endTest now c1 else c1)"

text \<open>\<open>EXCHANGE_RESULTS\<close>.\<close>

definition exchange :: "rat \<Rightarrow> client_session \<Rightarrow> client_session" where
  "exchange now c =
     (let c1 = (if cl_endMs c = 0 then c\<lparr>cl_endMs := now, cl_running := False, cl_endTimer := False\<rparr> else c);
          c2 = c1\<lparr>cl_streams := map (finalize_stream (\<not> tp_reverse (cl_params c1))) (cl_streams c1)\<rparr>
      in case List.map_filter sv_transferError (cl_streams c2) of
           e # _ \<Rightarrow> if tp_udp (cl_params c2) then client_write (JsonFrame (encodeResults (client_results c2))) KResultsWrite c2
                    else leave (Inl (DataStreamFailed e)) c2
         | [] \<Rightarrow> client_write (JsonFrame (encodeResults (client_results c2))) KResultsWrite c2)"

definition on_state :: "int \<Rightarrow> rat \<Rightarrow> client_session \<Rightarrow> client_session" where
  "on_state st now c =
     (if st = IPERF_START then c
      else if st = PARAM_EXCHANGE then client_write (JsonFrame (encodeParams (cl_params c))) KParamsWrite c
      else if st = CREATE_STREAMS then (if tp_parallel (cl_params c) > 0 then c\<lparr>cl_pc := KOpening 0\<rparr> else c)
      else if st = TEST_START then c
      else if st = TEST_RUNNING then startRunning now c
      else if st = EXCHANGE_RESULTS then exchange now c
      else if st = DISPLAY_RESULTS then client_write (StateFrame IPERF_DONE) KDoneWrite c
      else if st = ACCESS_DENIED then leave (Inl ServerBusy) c
      else if st = SERVER_ERROR then leave (Inl ServerReportedError) c
      else leave (Inl (UnexpectedState st)) c)"

definition after_client_write :: "client_session \<Rightarrow> client_session" where
  "after_client_write c = (case cl_pc c of
     KCookieWrite \<Rightarrow> c\<lparr>cl_pc := KReadState\<rparr>
   | KParamsWrite \<Rightarrow> c\<lparr>cl_pc := (if tp_udp (cl_params c) \<and> \<not> tp_reverse (cl_params c) then KProbe else KReadState)\<rparr>
   | KResultsWrite \<Rightarrow> c\<lparr>cl_pc := KResultsRead\<rparr>
   | KDoneWrite \<Rightarrow> (case cl_remote c of
        None \<Rightarrow> leave (Inl NoResults) c
      | Some r \<Rightarrow> leave (Inr (buildResult (cl_params c) ((cl_endMs c - cl_startMs c) / 1000) (client_results c) r)) c)
   | _ \<Rightarrow> c)"

definition client_writing :: "client_pc \<Rightarrow> bool" where
  "client_writing pc \<longleftrightarrow> pc \<in> {KCookieWrite, KParamsWrite, KResultsWrite, KDoneWrite}"

definition open_stream :: "nat \<Rightarrow> client_session \<Rightarrow> client_session" where
  "open_stream i c =
     c\<lparr>cl_streams := cl_streams c @ [make_stream (tp_udp (cl_params c)) None (nextStreamId (length (cl_streams c)))],
       cl_pc := (if int (i + 1) < tp_parallel (cl_params c) then KOpening (i + 1) else KReadState)\<rparr>"

section \<open>Events of a client\<close>

datatype client_event =
  CWrote bool
| CState "int option" rat
| CJson "json option"
| CProbed int
| COpened bool
| CStreamReady bool
| CEndTimer rat
| CIntervalTick rat
| CData nat nat rat
| CDatagram nat "byte list" rat
| CSent nat nat
| CAttempt nat nat
| CSendDone nat "string + nat"
| CFailed nat string

definition on_client_stream :: "nat \<Rightarrow> (server_stream \<Rightarrow> server_stream) \<Rightarrow> client_session \<Rightarrow> client_session" where
  "on_client_stream i f c = (if i < length (cl_streams c) then c\<lparr>cl_streams := (cl_streams c)[i := f (cl_streams c ! i)]\<rparr> else c)"

text \<open>
  \<open>COpened\<close>: the connect of the control connection or of a stream settled.  \<open>CStreamReady\<close>: the cookie is
  written on the stream's connection and its pipe detached.  Data of a stream that is open.  A timer armed for an earlier \<open>TEST_RUNNING\<close> is not cleared by a later
  one, so the end timer may fire whenever \<open>endTest\<close> is installed.
\<close>

definition stream_is_open :: "nat \<Rightarrow> client_session \<Rightarrow> bool" where
  "stream_is_open i c \<longleftrightarrow> i < length (cl_streams c) \<and> \<not> sv_closed (cl_streams c ! i)"

fun client_step :: "client_session \<Rightarrow> client_event \<Rightarrow> client_session" where
  "client_step c (CWrote ok) =
     (if \<not> client_writing (cl_pc c) then c else if ok then after_client_write c else leave (Inl ControlFailed) c)"
| "client_step c (CState r now) =
     (if cl_pc c \<noteq> KReadState then c else case r of None \<Rightarrow> leave (Inl ControlFailed) c | Some st \<Rightarrow> on_state st now c)"
| "client_step c (CJson r) =
     (if cl_pc c \<noteq> KResultsRead then c
      else case r of None \<Rightarrow> leave (Inl ControlFailed) c
         | Some j \<Rightarrow> (case decodeResults j of None \<Rightarrow> leave (Inl InvalidResults) c
             | Some res \<Rightarrow> c\<lparr>cl_remote := Some res, cl_pc := KReadState\<rparr>))"
| "client_step c (CProbed n) =
     (if cl_pc c \<noteq> KProbe then c else if n = UDP_SEND_UNAVAILABLE then leave (Inl CannotSendUdp) c else c\<lparr>cl_pc := KReadState\<rparr>)"
| "client_step c (COpened ok) =
     (case cl_pc c of
        KConnect \<Rightarrow> if ok then write_cookie KCookieWrite (c\<lparr>cl_controlOpen := True\<rparr>)
                     else c\<lparr>cl_result := Some (Inl ConnectFailed), cl_pc := KFinished\<rparr>
      | KOpening i \<Rightarrow>
          if \<not> ok then leave (Inl OpenFailed) c
          else if tp_udp (cl_params c) then open_stream i c
          else write_cookie (KOpenCookie i) c
      | _ \<Rightarrow> c)"
| "client_step c (CStreamReady ok) =
     (case cl_pc c of KOpenCookie i \<Rightarrow> if ok then open_stream i c else leave (Inl OpenFailed) c | _ \<Rightarrow> c)"
| "client_step c (CEndTimer now) = endTest now c"
| "client_step c (CIntervalTick now) =
     (if cl_intervalTimer c \<or> cl_staleInterval c then (case snap now (cl_meter c) of (r, m) \<Rightarrow> c\<lparr>cl_meter := m, cl_reports := cl_reports c @ [r]\<rparr>) else c)"
| "client_step c (CData i n now) =
     (if tp_reverse (cl_params c) \<and> \<not> tp_udp (cl_params c) \<and> stream_is_open i c
      then onReverseBytes n now (on_client_stream i (stream_data False n) c) else c)"
| "client_step c (CDatagram i msg now) =
     (if tp_reverse (cl_params c) \<and> tp_udp (cl_params c) \<and> stream_is_open i c
      then (let c1 = on_client_stream i (stream_datagram False msg now) c in
            if length msg < UDP_HEADER_SIZE then c1 else c1\<lparr>cl_meter := meter_add (length msg) (cl_meter c1)\<rparr>) else c)"
| "client_step c (CSent i n) =
     (if \<not> tp_reverse (cl_params c) \<and> i < length (cl_streams c) \<and> sv_started (cl_streams c ! i)
         \<and> \<not> sv_udp (cl_streams c ! i)
      then (on_client_stream i (stream_sent True n) c)\<lparr>cl_meter := meter_add n (cl_meter c)\<rparr> else c)"
| "client_step c (CAttempt i pcount) =
     (if \<not> tp_reverse (cl_params c) then on_client_stream i (stream_attempt True pcount) c else c)"
| "client_step c (CSendDone i r) =
     (if \<not> tp_reverse (cl_params c) \<and> i < length (cl_streams c) \<and> sv_started (cl_streams c ! i) \<and> sv_udp (cl_streams c ! i)
      then (let c1 = on_client_stream i (stream_send_done True r) c in
            case r of Inl e \<Rightarrow> c1 | Inr len \<Rightarrow> c1\<lparr>cl_meter := meter_add len (cl_meter c1)\<rparr>) else c)"
| "client_step c (CFailed i e) = on_client_stream i (stream_failed e) c"

section \<open>Field lemmas\<close>

lemma leave_fields [simp]:
  "cl_written (leave r c) = cl_written c" "cl_running (leave r c) = False" "cl_pc (leave r c) = KFinished"
  "cl_result (leave r c) = Some r" "cl_streams (leave r c) = map close_stream (cl_streams c)" "cl_controlOpen (leave r c) = False" "cl_cookies (leave r c) = cl_cookies c" "cl_cookie (leave r c) = cl_cookie c"
  "cl_endTimer (leave r c) = False" "cl_intervalTimer (leave r c) = False" "cl_params (leave r c) = cl_params c"
  "cl_endTest (leave r c) = cl_endTest c" "cl_endMs (leave r c) = cl_endMs c" "cl_startMs (leave r c) = cl_startMs c"
  by (simp_all add: leave_def cleanup_def)

lemma on_client_stream_fields [simp]:
  "cl_written (on_client_stream i f c) = cl_written c" "cl_running (on_client_stream i f c) = cl_running c"
  "cl_pc (on_client_stream i f c) = cl_pc c" "cl_result (on_client_stream i f c) = cl_result c"
  "cl_params (on_client_stream i f c) = cl_params c" "cl_controlOpen (on_client_stream i f c) = cl_controlOpen c"
  "cl_cookies (on_client_stream i f c) = cl_cookies c" "cl_cookie (on_client_stream i f c) = cl_cookie c"
  "cl_endTimer (on_client_stream i f c) = cl_endTimer c" "cl_intervalTimer (on_client_stream i f c) = cl_intervalTimer c"
  "cl_endTest (on_client_stream i f c) = cl_endTest c" "cl_meter (on_client_stream i f c) = cl_meter c"
  "length (cl_streams (on_client_stream i f c)) = length (cl_streams c)"
  by (simp_all add: on_client_stream_def)

lemmas client_ops = client_write_def startRunning_def endTest_def onReverseBytes_def exchange_def on_state_def
  after_client_write_def client_writing_def open_stream_def write_cookie_def Let_def

section \<open>The end of the test is signalled once\<close>

text \<open>The end markers written, and one more while the test runs.\<close>

definition ends :: "client_session \<Rightarrow> nat" where
  "ends c = count_list (cl_written c) (StateFrame TEST_END)"

definition ends_due :: "client_session \<Rightarrow> nat" where
  "ends_due c = ends c + (if cl_running c then 1 else 0)"

fun starts :: "client_event \<Rightarrow> bool" where
  "starts (CState (Some st) now) = (st = TEST_RUNNING)"
| "starts _ = False"

lemma endTest_due: "ends_due (endTest now c) \<le> ends_due c"
  by (auto simp: ends_due_def ends_def endTest_def Let_def)

lemma exchange_due: "ends_due (exchange now c) \<le> ends_due c"
  by (auto simp: ends_due_def ends_def exchange_def client_write_def Let_def split: list.split)

lemma on_state_due: "ends_due (on_state st now c) \<le> ends_due c + (if st = TEST_RUNNING then 1 else 0)"
proof (cases "st = EXCHANGE_RESULTS")
  case True
  then have "on_state st now c = exchange now c" by (simp add: on_state_def state_defs)
  with exchange_due [of now c] show ?thesis by simp
next
  case False
  then show ?thesis by (auto simp: on_state_def ends_due_def ends_def client_write_def startRunning_def state_defs)
qed

lemma leave_due: "ends_due (leave r c) \<le> ends_due c"
  by (simp add: ends_due_def ends_def)

lemma client_step_due: "ends_due (client_step c e) \<le> ends_due c + (if starts e then 1 else 0)"
proof (cases e)
  case (CState r now)
  show ?thesis
  proof (cases r)
    case (Some st)
    with CState on_state_due [of st now c] show ?thesis by (auto split: if_splits)
  qed (use CState leave_due [of _ c] in simp)
next
  case (CEndTimer now)
  then show ?thesis using endTest_due by simp
next
  case (CData i n now)
  let ?c = "(on_client_stream i (stream_data False n) c)\<lparr>cl_meter := meter_add n (cl_meter c)\<rparr>"
  have "ends_due ?c = ends_due c" by (simp add: ends_due_def ends_def)
  with endTest_due [of now ?c] CData show ?thesis by (auto simp: onReverseBytes_def Let_def)
qed (auto simp: ends_due_def ends_def after_client_write_def open_stream_def write_cookie_def Let_def
    split: option.split client_pc.split prod.split sum.split)

lemma client_run_due: "ends_due (run_steps client_step c es) \<le> ends_due c + length (filter starts es)"
proof (induction es arbitrary: c)
  case (Cons e es)
  from client_step_due [of c e] Cons [of "client_step c e"] show ?case by (auto split: if_splits)
qed simp

section \<open>Invariant of a client\<close>

definition client_inv :: "client_session \<Rightarrow> bool" where
  "client_inv c \<longleftrightarrow> map (sc_id \<circ> sv_counters) (cl_streams c) = stream_ids (length (cl_streams c))
     \<and> (cl_running c \<longrightarrow> cl_endTest c) \<and> list_all (\<lambda>b. b = cookieToBytes (cl_cookie c)) (cl_cookies c)
     \<and> (cl_pc c = KConnect \<longrightarrow> cl_streams c = [] \<and> \<not> cl_running c \<and> \<not> cl_endTimer c \<and> \<not> cl_intervalTimer c \<and> \<not> cl_controlOpen c)
     \<and> (cl_pc c = KFinished \<longleftrightarrow> cl_result c \<noteq> None)
     \<and> (cl_pc c = KFinished \<longrightarrow> \<not> cl_running c \<and> list_all sv_closed (cl_streams c) \<and> \<not> cl_controlOpen c \<and> \<not> cl_endTimer c
          \<and> \<not> cl_intervalTimer c)"

lemma client_ids_update:
  assumes "map (sc_id \<circ> sv_counters) sts = ids" and "\<And>st. sc_id (sv_counters (f st)) = sc_id (sv_counters st)"
  shows "map (sc_id \<circ> sv_counters) (sts[i := f (sts ! i)]) = ids"
proof (cases "i < length sts")
  case True
  with assms show ?thesis by (auto simp: map_update list_eq_iff_nth_eq nth_list_update)
next
  case False
  then have "sts[i := f (sts ! i)] = sts" by (intro list_update_beyond) simp
  with assms(1) show ?thesis by (simp only:)
qed

lemma client_inv_leave: "client_inv c \<Longrightarrow> client_inv (leave r c)"
  by (simp add: client_inv_def comp_def list_all_iff)

lemma client_inv_on_stream:
  assumes "client_inv c" and "\<And>st. sc_id (sv_counters (f st)) = sc_id (sv_counters st)" and "\<And>st. sv_closed (f st) = sv_closed st"
  shows "client_inv (on_client_stream i f c)"
proof -
  have "list_all sv_closed (cl_streams c) \<Longrightarrow> list_all sv_closed (cl_streams (on_client_stream i f c))"
    using assms(3) by (auto simp: on_client_stream_def list_all_length nth_list_update)
  moreover have "map (sc_id \<circ> sv_counters) (cl_streams (on_client_stream i f c)) = stream_ids (length (cl_streams c))"
    using assms(1,2) by (auto simp: client_inv_def on_client_stream_def intro!: client_ids_update)
  ultimately show ?thesis using assms(1) unfolding client_inv_def by (auto simp: on_client_stream_fields)
qed

lemma client_inv_meter [simp]: "client_inv (c\<lparr>cl_meter := m\<rparr>) = client_inv c"
  by (simp add: client_inv_def)

lemma client_inv_endTest: "client_inv c \<Longrightarrow> client_inv (endTest now c)"
  by (auto simp: client_inv_def endTest_def comp_def Let_def)

lemma client_inv_exchange:
  assumes "client_inv c" and "cl_pc c \<noteq> KFinished"
  shows "client_inv (exchange now c)"
proof -
  let ?c1 = "if cl_endMs c = 0 then c\<lparr>cl_endMs := now, cl_running := False, cl_endTimer := False\<rparr> else c"
  let ?c2 = "?c1\<lparr>cl_streams := map (finalize_stream (\<not> tp_reverse (cl_params ?c1))) (cl_streams ?c1)\<rparr>"
  have "client_inv ?c2" using assms by (simp add: client_inv_def comp_def)
  moreover have "client_inv (client_write f KResultsWrite ?c2)" for f using assms by (simp add: client_inv_def comp_def client_write_def)
  ultimately show ?thesis unfolding exchange_def Let_def by (auto intro: client_inv_leave split: list.split)
qed

lemma client_inv_write: "client_inv c \<Longrightarrow> cl_pc c \<noteq> KFinished \<Longrightarrow> pc \<noteq> KFinished \<Longrightarrow> pc \<noteq> KConnect \<Longrightarrow> client_inv (client_write f pc c)"
  by (simp add: client_inv_def client_write_def)

lemma client_inv_startRunning: "client_inv c \<Longrightarrow> cl_pc c = KReadState \<Longrightarrow> client_inv (startRunning now c)"
  by (simp add: client_inv_def startRunning_def comp_def)

lemma client_inv_on_state: "client_inv c \<Longrightarrow> cl_pc c = KReadState \<Longrightarrow> client_inv (on_state st now c)"
proof -
  assume c: "client_inv c" and pc: "cl_pc c = KReadState"
  then have "client_inv (c\<lparr>cl_pc := KOpening 0\<rparr>)" by (simp add: client_inv_def)
  with c pc show ?thesis
    by (simp add: on_state_def client_inv_leave client_inv_exchange client_inv_write client_inv_startRunning)
qed

lemma client_inv_after_write:
  "client_inv c \<Longrightarrow> client_writing (cl_pc c) \<Longrightarrow> client_inv (after_client_write c)"
  by (auto simp: after_client_write_def client_inv_leave split: client_pc.split option.split)
    (auto simp: client_inv_def client_writing_def)

interpretation client_system: invariant_system client_step "\<lambda>_ _. True" client_inv
proof (unfold_locales, goal_cases)
  case (1 c e)
  show ?case
  proof (cases e)
    case (CJson r)
    with 1 show ?thesis by (auto simp: client_inv_leave split: option.split) (auto simp: client_inv_def)
  next
    case (CProbed n)
    with 1 show ?thesis by (auto simp: client_inv_leave) (auto simp: client_inv_def)
  next
    case (COpened ok)
    have "client_inv (open_stream i c)" if "cl_pc c = KOpening i" for i
      using 1 that by (auto simp: client_inv_def open_stream_def stream_ids_Suc)
    moreover have "client_inv (write_cookie KCookieWrite (c\<lparr>cl_controlOpen := True\<rparr>))"
      "client_inv (c\<lparr>cl_result := Some (Inl ConnectFailed), cl_pc := KFinished\<rparr>)" if "cl_pc c = KConnect"
      using 1 that by (auto simp: client_inv_def write_cookie_def)
    moreover have "client_inv (write_cookie (KOpenCookie i) c)" if "cl_pc c = KOpening i" for i
      using 1 that by (auto simp: client_inv_def write_cookie_def)
    ultimately show ?thesis using COpened 1 by (auto simp: client_inv_leave split: client_pc.split)
  next
    case (CStreamReady ok)
    have "client_inv (open_stream i c)" if "cl_pc c = KOpenCookie i" for i
      using 1 that by (auto simp: client_inv_def open_stream_def stream_ids_Suc)
    with CStreamReady 1 show ?thesis by (auto simp: client_inv_leave split: client_pc.split)
  next
    case (CData i n now)
    have "client_inv ((on_client_stream i (stream_data False n) c)\<lparr>cl_meter := m\<rparr>)" for m
      using client_inv_on_stream [OF 1(1), of "stream_data False n"] by simp
    with CData 1 show ?thesis by (auto simp: onReverseBytes_def Let_def client_inv_endTest)
  next
    case (CIntervalTick now)
    with 1 show ?thesis by (auto simp: client_inv_def split: prod.split)
  qed (use 1 in \<open>auto simp: client_inv_leave client_inv_after_write client_inv_on_state client_inv_endTest Let_def
      intro: client_inv_on_stream split: option.split sum.split\<close>)
qed

lemma new_client_inv: "client_inv (runClient opts cookie now)"
  by (simp add: client_inv_def runClient_def new_client_def)

lemma client_run_inv:
  assumes "c = run_steps client_step (runClient opts cookie t) es"
  shows "client_inv c"
proof -
  have ok: "run_ok (\<lambda>_ _. True) client_step c' es" for c' by (induction es arbitrary: c') simp_all
  show ?thesis unfolding assms by (rule client_system.inv_run [OF new_client_inv ok])
qed

lemma exchange_cookie: "cl_cookie (exchange now c) = cl_cookie c"
  by (auto simp: exchange_def client_write_def Let_def split: list.split)

lemma on_state_cookie: "cl_cookie (on_state st now c) = cl_cookie c"
  by (simp add: on_state_def exchange_cookie client_write_def startRunning_def)

lemma client_step_cookie: "cl_cookie (client_step c e) = cl_cookie c"
  by (cases e) (auto simp: on_state_cookie endTest_def onReverseBytes_def after_client_write_def open_stream_def write_cookie_def Let_def
      split: option.split client_pc.split prod.split sum.split)

lemma client_run_cookie: "cl_cookie (run_steps client_step c es) = cl_cookie c"
  by (induction es arbitrary: c) (simp_all add: client_step_cookie del: client_step.simps)

text \<open>A finished client never changes its result.\<close>

lemma endTest_finished: "\<not> cl_running c \<Longrightarrow> endTest now c = c"
  by (simp add: endTest_def)

lemma client_result_final: "client_inv c \<Longrightarrow> cl_pc c = KFinished \<Longrightarrow>
    cl_pc (client_step c e) = KFinished \<and> cl_result (client_step c e) = cl_result c"
  by (cases e) (auto simp: client_inv_def client_writing_def endTest_finished onReverseBytes_def Let_def split: prod.split sum.split)

text \<open>
  In reverse mode the streams are closed only after the results, so an error latched on the channel of
  a receiving stream is not seen when the results are finalized: the test is reported as clean.
\<close>

lemma reverse_failure_unreported:
  assumes "tp_reverse (cl_params c)" and "\<not> tp_udp (cl_params c)" and "list_all (\<lambda>st. sv_transferError st = None \<and> \<not> sv_udp st) (cl_streams c)"
    and "i < length (cl_streams c)"
  shows "cl_pc (exchange now (on_client_stream i (stream_failed e) c)) = KResultsWrite"
proof -
  let ?c = "on_client_stream i (stream_failed e) c"
  have "list_all (\<lambda>st. sv_transferError st = None \<and> \<not> sv_udp st) (cl_streams ?c)"
    using assms(3,4) by (auto simp: on_client_stream_def stream_failed_def list_all_length nth_list_update)
  then have "List.map_filter sv_transferError (map (finalize_stream b) (cl_streams ?c)) = []" for b
    by (auto simp: List.map_filter_def list_all_iff finalize_stream_def filter_empty_conv)
  then show ?thesis by (auto simp: exchange_def Let_def client_write_def)
qed

text \<open>
  A server that announces \<open>TEST_RUNNING\<close> twice leaves the first interval timer alive: it goes on
  reporting after the client has returned.
\<close>

lemma interval_timer_leaked:
  assumes "0 < nullish (op_interval opts) 1" and "op_onInterval opts"
    and "c = run_steps client_step (runClient opts cookie t)
      [COpened True, CWrote True, CState (Some TEST_RUNNING) a, CState (Some TEST_RUNNING) b, CState (Some SERVER_ERROR) d]"
  shows "cl_pc c = KFinished \<and> length (cl_reports (client_step c (CIntervalTick now))) = Suc (length (cl_reports c))"
  using assms(1,2) unfolding assms(3)
  by (simp add: runClient_def new_client_def client_ops state_defs leave_def cleanup_def split: prod.split)

section \<open>A complete test\<close>

lemma val_sum_append: "val_sum (xs @ [x]) = val_add (val_sum xs) x"
  by (simp add: val_sum_def)

lemma val_sum_Fin: "val_sum (map Fin xs) = Some (Fin (sum_list xs))"
  by (induction xs rule: rev_induct) (simp_all add: val_sum_append val_add_def, simp add: val_sum_def)

text \<open>Opening \<open>n\<close> TCP or WebSocket streams: each is connected, presents the cookie and is detached.\<close>

definition open_events :: "nat \<Rightarrow> client_event list" where
  "open_events n = concat (replicate n [COpened True, CStreamReady True])"

lemma open_events_Suc: "open_events (Suc n) = [COpened True, CStreamReady True] @ open_events n"
  by (simp add: open_events_def)

lemma streams_open:
  assumes "cl_pc c = KOpening k" and "cl_streams c = fresh_streams k" and "k < n" and "tp_parallel (cl_params c) = int n"
    and "\<not> tp_udp (cl_params c)"
  shows "run_steps client_step c (open_events (n - k)) = c\<lparr>cl_streams := fresh_streams n, cl_pc := KReadState,
      cl_cookies := cl_cookies c @ replicate (n - k) (cookieToBytes (cl_cookie c))\<rparr>"
  using assms
proof (induction "n - k" arbitrary: k c)
  case (Suc d)
  let ?cb = "cookieToBytes (cl_cookie c)"
  have nk: "n - k = Suc (n - Suc k)" using Suc.hyps(2) Suc.prems(3) by simp
  have step: "run_steps client_step c [COpened True, CStreamReady True] =
      c\<lparr>cl_streams := fresh_streams (Suc k), cl_pc := (if Suc k < n then KOpening (Suc k) else KReadState), cl_cookies := cl_cookies c @ [?cb]\<rparr>"
    using Suc.prems by (simp add: open_stream_def write_cookie_def fresh_streams_Suc)
  show ?case
  proof (cases "Suc k = n")
    case True
    with step show ?thesis by (simp add: nk open_events_def)
  next
    case False
    let ?t = "c\<lparr>cl_streams := fresh_streams (Suc k), cl_pc := KOpening (Suc k), cl_cookies := cl_cookies c @ [?cb]\<rparr>"
    have "run_steps client_step ?t (open_events (n - Suc k)) = ?t\<lparr>cl_streams := fresh_streams n, cl_pc := KReadState,
        cl_cookies := cl_cookies ?t @ replicate (n - Suc k) (cookieToBytes (cl_cookie ?t))\<rparr>"
      by (rule Suc.hyps(1)) (use Suc.hyps(2) Suc.prems False in auto)
    with step False Suc.prems(3) show ?thesis unfolding nk open_events_Suc run_steps_append by simp
  qed
qed simp

lemma sent_run:
  assumes "cl_streams c = counted_streams f n" and "list_all (\<lambda>d. fst d < n) ds" and "\<not> tp_reverse (cl_params c)"
  shows "\<exists>m. run_steps client_step c (map (\<lambda>(i, b). CSent i b) ds) = c\<lparr>cl_streams := counted_streams (\<lambda>k. f k + bytes_on ds k) n, cl_meter := m\<rparr>
    \<and> im_total m = im_total (cl_meter c) + sum_list (map snd ds)"
  using assms
proof (induction ds arbitrary: c f)
  case Nil
  then show ?case by (intro exI [of _ "cl_meter c"]) (simp flip: Nil.prems(1))
next
  case (Cons d ds)
  obtain i b where d: "d = (i, b)" by (cases d)
  obtain g where g: "g = f(i := f i + b)" by simp
  let ?t = "c\<lparr>cl_streams := counted_streams g n, cl_meter := meter_add b (cl_meter c)\<rparr>"
  have i: "i < n" "i < length (counted_streams f n)" using Cons.prems(2) d by (simp_all add: counted_streams_def)
  have nth: "counted_streams f n ! i = counted (nextStreamId i) (f i)" using i by (simp add: counted_streams_def)
  have sent: "stream_sent True b (counted j x) = counted j (x + b)" for j x
    by (simp add: counted_def stream_sent_def sv_counters_def make_stream_def)
  have upd: "(counted_streams f n)[i := stream_sent True b (counted_streams f n ! i)] = counted_streams g n"
    using i by (auto simp: counted_streams_def list_eq_iff_nth_eq nth_list_update g sent)
  have "sv_started (counted_streams f n ! i)" "\<not> sv_udp (counted_streams f n ! i)" by (simp_all add: nth counted_def make_stream_def)
  then have step: "client_step c (CSent i b) = ?t"
    using Cons.prems i upd by (simp add: on_client_stream_def)
  have "(\<lambda>k. g k + bytes_on ds k) = (\<lambda>k. f k + bytes_on (d # ds) k)" by (auto simp: d g)
  moreover obtain m where "run_steps client_step ?t (map (\<lambda>(i, b). CSent i b) ds)
      = ?t\<lparr>cl_streams := counted_streams (\<lambda>k. g k + bytes_on ds k) n, cl_meter := m\<rparr>"
    "im_total m = im_total (meter_add b (cl_meter c)) + sum_list (map snd ds)"
    using Cons.IH [of ?t g] Cons.prems(2,3) by (auto simp: d)
  ultimately show ?case using step by (intro exI [of _ m]) (simp add: d del: client_step.simps bytes_on_Cons)
qed

text \<open>What the environment does in a complete forward TCP test: \<open>sj\<close> are the server's results.\<close>

definition client_test :: "nat \<Rightarrow> (nat \<times> nat) list \<Rightarrow> json \<Rightarrow> rat \<Rightarrow> rat \<Rightarrow> client_event list" where
  "client_test n sends sj startMs endMs =
     [COpened True, CWrote True, CState (Some PARAM_EXCHANGE) 0, CWrote True, CState (Some CREATE_STREAMS) 0] @ open_events n
     @ [CState (Some TEST_START) 0, CState (Some TEST_RUNNING) startMs] @ map (\<lambda>(i, b). CSent i b) sends
     @ [CEndTimer endMs, CState (Some EXCHANGE_RESULTS) endMs, CWrote True, CJson (Some sj), CState (Some DISPLAY_RESULTS) endMs,
        CWrote True]"

definition sender_results :: "nat \<Rightarrow> (nat \<times> nat) list \<Rightarrow> rat \<Rightarrow> EndResults" where
  "sender_results n ds seconds = (expected_results n ds seconds)\<lparr>er_senderHasRetransmits := Fin 0\<rparr>"

lemma client_completes:
  assumes "p = client_params opts" and "\<not> tp_udp p" and "\<not> tp_reverse p" and "tp_parallel p = int n" and "0 < n" and "list_all (\<lambda>d. fst d < n) sends"
    and "decodeResults sj = Some remote" and "endMs \<noteq> 0"
    and "c = run_steps client_step (runClient opts cookie t) (client_test n sends sj startMs endMs)"
  shows "cl_result c = Some (Inr (buildResult p ((endMs - startMs) / 1000) (sender_results n sends ((endMs - startMs) / 1000)) remote))
    \<and> cl_written c = [JsonFrame (encodeParams p), StateFrame TEST_END,
        JsonFrame (encodeResults (sender_results n sends ((endMs - startMs) / 1000))), StateFrame IPERF_DONE]
    \<and> cl_cookies c = replicate (Suc n) (cookieToBytes cookie)"
proof -
  let ?s0 = "run_steps client_step (runClient opts cookie t) [COpened True, CWrote True, CState (Some PARAM_EXCHANGE) 0, CWrote True, CState (Some CREATE_STREAMS) 0]"
  have s0: "cl_pc ?s0 = KOpening 0" "cl_streams ?s0 = fresh_streams 0" "cl_params ?s0 = p" "cl_written ?s0 = [JsonFrame (encodeParams p)]"
    "cl_running ?s0 = False" "cl_cookies ?s0 = [cookieToBytes cookie]" "cl_cookie ?s0 = cookie"
    using assms(1-5) by (simp_all add: runClient_def new_client_def client_ops state_defs fresh_streams_def)
  let ?s1 = "?s0\<lparr>cl_streams := fresh_streams n, cl_pc := KReadState, cl_cookies := cl_cookies ?s0 @ replicate n (cookieToBytes (cl_cookie ?s0))\<rparr>"
  have open_run: "run_steps client_step ?s0 (open_events n) = ?s1"
    using streams_open [OF s0(1,2) assms(5)] s0(3) assms(2,4) by simp
  obtain s1 where s1: "s1 = ?s1" by simp
  have s1f: "cl_pc s1 = KReadState" "cl_streams s1 = fresh_streams n" "cl_params s1 = p" "cl_written s1 = [JsonFrame (encodeParams p)]"
    "cl_cookies s1 = replicate (Suc n) (cookieToBytes cookie)"
    using s0(3,4,6,7) by (simp_all add: s1 del: run_steps.simps)
  let ?s2 = "run_steps client_step s1 [CState (Some TEST_START) 0, CState (Some TEST_RUNNING) startMs]"
  have s2: "cl_pc ?s2 = KReadState" "cl_streams ?s2 = counted_streams (\<lambda>_. 0) n" "cl_params ?s2 = p" "cl_written ?s2 = [JsonFrame (encodeParams p)]"
    "cl_running ?s2" "cl_startMs ?s2 = startMs" "cl_endTest ?s2" "cl_cookies ?s2 = replicate (Suc n) (cookieToBytes cookie)"
    using s1f by (simp_all add: on_state_def startRunning_def state_defs fresh_started)
  obtain m where run2: "run_steps client_step ?s2 (map (\<lambda>(i, b). CSent i b) sends)
      = ?s2\<lparr>cl_streams := counted_streams (\<lambda>k. 0 + bytes_on sends k) n, cl_meter := m\<rparr>"
    using sent_run [OF s2(2) assms(6)] s2(3) assms(3) by auto
  obtain s3 where s3: "s3 = ?s2\<lparr>cl_streams := counted_streams (\<lambda>k. 0 + bytes_on sends k) n, cl_meter := m\<rparr>" by simp
  then have f: "cl_pc s3 = KReadState" "cl_streams s3 = counted_streams (bytes_on sends) n" "cl_params s3 = p"
    "cl_written s3 = [JsonFrame (encodeParams p)]" "cl_running s3" "cl_startMs s3 = startMs" "cl_endTest s3" "cl_cookies s3 = replicate (Suc n) (cookieToBytes cookie)"
    using s2 by simp_all
  let ?tail = "[CEndTimer endMs, CState (Some EXCHANGE_RESULTS) endMs, CWrote True, CJson (Some sj), CState (Some DISPLAY_RESULTS) endMs,
        CWrote True]"
  have c: "c = run_steps client_step s3 ?tail"
    unfolding assms(9) client_test_def run_steps_append open_run s1 [symmetric] run2 s3 ..
  have res: "List.map_filter sv_transferError (map (finalize_stream True) (map close_stream (counted_streams (bytes_on sends) n))) = []"
    using counted_closed [of True "bytes_on sends" n] by simp
  have cnt: "map (\<lambda>st. stream_result q (sv_counters st)) (map (finalize_stream True) (map close_stream (counted_streams (bytes_on sends) n)))
      = er_streams (expected_results n sends q)" for q
    by (simp add: counted_streams_def counters_closed expected_results_def comp_def)
  show ?thesis
    unfolding c using f res cnt assms(2,3,7,8)
    by (simp add: endTest_def on_state_def exchange_def client_write_def after_client_write_def client_writing_def Let_def state_defs
        client_results_def sender_results_def expected_results_def del: map_map)
qed

section \<open>Statistics of a UDP test\<close>

lemma lost_le_packets: "sc_errors (ur_counters (finalize_receiver r)) \<le> sc_packets (ur_counters (finalize_receiver r))"
  by (simp add: finalize_receiver_def lost_def)

lemma udp_stats_sane:
  assumes "er_streams r = map (stream_result q) cs" and "list_all (\<lambda>c. sc_errors c \<le> sc_packets c) cs"
  shows "ud_packets (udp_stats r) = Some (Fin (of_nat (sum_list (map sc_packets cs))))
    \<and> ud_lost (udp_stats r) = Some (Fin (of_nat (sum_list (map sc_errors cs))))
    \<and> (\<exists>x. ud_lostPercent (udp_stats r) = Some (Fin x) \<and> 0 \<le> x \<and> x \<le> 100)"
proof -
  have s: "val_sum (map (g \<circ> stream_result q) cs) = Some (Fin (of_nat (sum_list (map f cs))))"
    if "\<And>c. g (stream_result q c) = Fin (of_nat (f c))" for g and f :: "StreamCounters \<Rightarrow> nat"
  proof -
    have "map (g \<circ> stream_result q) cs = map Fin (map (of_nat \<circ> f) cs)" by (simp add: that)
    moreover have "sum_list (map (of_nat \<circ> f) xs) = (of_nat (sum_list (map f xs)) :: rat)" for xs
      by (induction xs) simp_all
    ultimately show ?thesis by (simp only: val_sum_Fin)
  qed
  have p: "val_sum (map sr_packets (er_streams r)) = Some (Fin (of_nat (sum_list (map sc_packets cs))))"
    unfolding assms(1) map_map by (rule s) (simp add: stream_result_def)
  have l: "val_sum (map sr_errors (er_streams r)) = Some (Fin (of_nat (sum_list (map sc_errors cs))))"
    unfolding assms(1) map_map by (rule s) (simp add: stream_result_def)
  have "sum_list (map sc_errors cs) \<le> sum_list (map sc_packets cs)"
    using assms(2) by (intro sum_list_mono) (simp add: list_all_iff)
  then have "(of_nat (sum_list (map sc_errors cs)) :: rat) \<le> of_nat (sum_list (map sc_packets cs))" by (simp only: of_nat_le_iff)
  then show ?thesis
    by (simp add: udp_stats_def p l Let_def val_positive_def val_div_def val_scale_def divide_le_eq)
qed

section \<open>Properties\<close>

definition default_options :: ClientOptions where
  "default_options = \<lparr>op_port = None, op_transport = None, op_udp = None, op_reverse = None, op_duration = None, op_parallel = None,
     op_len = None, op_bandwidth = None, op_interval = None, op_onInterval = False\<rparr>"

text \<open>
  C6: the client ends a test exactly once.  In every run, whatever the server sends and
  however timers and data race, the number of \<open>TEST_END\<close> frames written, plus one while the test is
  still running, is at most the number of \<open>TEST_RUNNING\<close> states received; a test that is running ends at
  the timer with one \<open>TEST_END\<close>, and in reverse TCP mode already at the first data past the deadline,
  even when the timer never fires; a trigger when the test is not running changes nothing.
\<close>

theorem client_ends_test_once:
  assumes "c = run_steps client_step (runClient opts cookie t) es"
  shows "count_list (cl_written c) (StateFrame TEST_END) + (if cl_running c then 1 else 0) \<le> length (filter starts es)
    \<and> (\<not> cl_running c \<longrightarrow> client_step c (CEndTimer now) = c)
    \<and> (cl_running c \<longrightarrow> cl_written (client_step c (CEndTimer now)) = cl_written c @ [StateFrame TEST_END]
         \<and> \<not> cl_running (client_step c (CEndTimer now)))
    \<and> (cl_running c \<and> tp_reverse (cl_params c) \<and> \<not> tp_udp (cl_params c) \<and> stream_is_open i c \<and> cl_deadlineMs c \<le> late \<longrightarrow>
         cl_written (client_step c (CData i n late)) = cl_written c @ [StateFrame TEST_END] \<and> \<not> cl_running (client_step c (CData i n late)))"
proof -
  have "ends_due c \<le> length (filter starts es)"
    using client_run_due [of "runClient opts cookie t" es] by (simp add: assms ends_due_def ends_def runClient_def new_client_def)
  moreover have "cl_deadlineMs (on_client_stream i f c) = cl_deadlineMs c" for f by (simp add: on_client_stream_def)
  moreover have "cl_running c \<longrightarrow> cl_endTest c" using client_run_inv [OF assms] by (simp add: client_inv_def)
  ultimately show ?thesis by (auto simp: ends_due_def ends_def endTest_def onReverseBytes_def Let_def)
qed

theorem client_ends_test_once_witness:
  "\<exists>c. c = run_steps client_step (runClient (default_options\<lparr>op_duration := Some 1, op_reverse := Some True\<rparr>) [] 0)
      [COpened True, CWrote True, CState (Some CREATE_STREAMS) 0, COpened True, CStreamReady True, CState (Some TEST_RUNNING) 5]
    \<and> cl_written (client_step c (CData 0 100 1005)) = [StateFrame TEST_END]"
proof -
  let ?o = "default_options\<lparr>op_duration := Some 1, op_reverse := Some True\<rparr>"
  let ?es = "[COpened True, CWrote True, CState (Some CREATE_STREAMS) 0, COpened True, CStreamReady True, CState (Some TEST_RUNNING) 5]"
  let ?c = "run_steps client_step (runClient ?o [] 0) ?es"
  have f: "cl_running ?c \<and> stream_is_open 0 ?c \<and> cl_deadlineMs ?c \<le> 1005
      \<and> cl_written ?c = [] \<and> tp_reverse (cl_params ?c) \<and> \<not> tp_udp (cl_params ?c)"
    by (simp add: runClient_def new_client_def client_params_def default_options_def nullish_def client_ops state_defs make_stream_def stream_is_open_def)
  with client_ends_test_once [OF refl, where es = ?es and i = 0 and late = 1005 and n = 100] show ?thesis
    by (auto simp del: run_steps.simps client_step.simps)
qed



end
