(* ===== verification/Format.thy ===== *)
theory Format
  imports Client
begin

text \<open>
  \<open>packages/netsu/src/format.ts\<close>: the suffixed numbers of the command line and the texts of the
  reports.  \<open>num\<close> is \<open>Number::toString\<close>, whose shortest binary64 digits are an argument; \<open>toFixed\<close> and
  \<open>Math.round\<close> are exact on the rational value.
\<close>

section \<open>Reading\<close>

definition math_round :: "rat \<Rightarrow> int" where
  "math_round x = \<lfloor>x + 1 / 2\<rfloor>"

definition suffix_char :: "nat \<Rightarrow> bool" where
  "suffix_char c \<longleftrightarrow> ascii_lower c \<in> {107, 109, 103}"

text \<open>
  The match of \<open>/^(\d+(?:\.\d+)?)([kKmMgG])?$/\<close>: both quantifiers are greedy, and giving digits back never
  helps, since no suffix is a digit.
\<close>

definition SUFFIXED_NUMBER :: "js_string \<Rightarrow> (js_string \<times> nat option) option" where
  "SUFFIXED_NUMBER s =
     (let ip = takeWhile is_digit s; r = dropWhile is_digit s;
          fp = (case strip_char 46 r of Some t \<Rightarrow> takeWhile is_digit t | None \<Rightarrow> []);
          r2 = (if fp = [] then r else dropWhile is_digit (tl r));
          m1 = (if fp = [] then ip else ip @ [46] @ fp)
      in if ip = [] then None
         else case r2 of
           [] \<Rightarrow> Some (m1, None)
         | [c] \<Rightarrow> if suffix_char c then Some (m1, Some c) else None
         | _ \<Rightarrow> None)"

definition multiplier :: "rat \<Rightarrow> nat option \<Rightarrow> rat" where
  "multiplier base sfx = (case sfx of
     None \<Rightarrow> 1
   | Some c \<Rightarrow> if ascii_lower c = 107 then base else if ascii_lower c = 109 then base ^ 2
       else if ascii_lower c = 103 then base ^ 3 else 1)"

text \<open>\<open>Math.round(Number(m[1]) * mult)\<close>; a product past the finite numbers is infinite.\<close>

definition suffixed_value :: "rat \<Rightarrow> js_string \<Rightarrow> js_num option" where
  "suffixed_value base s = (case SUFFIXED_NUMBER s of
     None \<Rightarrow> None
   | Some (m1, m2) \<Rightarrow> Some (case decimal_value m1 of
        None \<Rightarrow> Inf False
      | Some v \<Rightarrow> (case finite_number (v * multiplier base m2) of
           None \<Rightarrow> Inf False | Some w \<Rightarrow> Fin (of_int (math_round w)))))"

datatype format_error = InvalidBandwidth js_string | InvalidLen js_string

definition parseBandwidth :: "js_string \<Rightarrow> format_error + js_num" where
  "parseBandwidth s = (case suffixed_value 1000 s of None \<Rightarrow> Inl (InvalidBandwidth s) | Some v \<Rightarrow> Inr v)"

definition parseByteSize :: "js_string \<Rightarrow> format_error + js_num" where
  "parseByteSize s = (case suffixed_value 1024 s of
     None \<Rightarrow> Inl (InvalidLen s)
   | Some v \<Rightarrow> if \<not> num_le (Fin 1) v then Inl (InvalidLen s) else Inr v)"

section \<open>Printing\<close>

definition padStart :: "nat \<Rightarrow> nat \<Rightarrow> js_string \<Rightarrow> js_string" where
  "padStart n c s = replicate (n - u16_length s) c @ s"

text \<open>\<open>toFixed\<close> of a non-negative number below \<open>10 ^ 21\<close>.\<close>

definition fixed_text :: "nat \<Rightarrow> rat \<Rightarrow> js_string" where
  "fixed_text f x = (let n = nat (math_round (x * 10 ^ f)) in
     nat_digits (n div 10 ^ f) @ (if f = 0 then [] else [46] @ padStart f 48 (nat_digits (n mod 10 ^ f))))"

definition toFixed :: "(rat \<Rightarrow> js_string) \<Rightarrow> nat \<Rightarrow> js_val \<Rightarrow> js_string" where
  "toFixed num f v = (case v of
     None \<Rightarrow> js ''NaN''
   | Some (Inf neg) \<Rightarrow> if neg then js ''-Infinity'' else js ''Infinity''
   | Some (Fin x) \<Rightarrow> if \<bar>x\<bar> \<ge> 10 ^ 21 then num x else if x < 0 then 45 # fixed_text f (- x) else fixed_text f x)"

text \<open>The loop of \<open>formatBytes\<close> and \<open>formatBits\<close> over the units.\<close>

fun scale :: "rat \<Rightarrow> rat \<Rightarrow> string list \<Rightarrow> rat \<times> string" where
  "scale base v [] = (v, [])"
| "scale base v [u] = (v, u)"
| "scale base v (u # w # us) = (if v \<ge> base then scale base (v / base) (w # us) else (v, u))"

definition format_scaled :: "(rat \<Rightarrow> js_string) \<Rightarrow> rat \<Rightarrow> string list \<Rightarrow> js_val \<Rightarrow> js_string" where
  "format_scaled num base units v = (case v of
     None \<Rightarrow> js ''NaN'' @ [32] @ js (hd units)
   | Some (Inf neg) \<Rightarrow> if neg then js ''-Infinity'' @ [32] @ js (hd units) else js ''Infinity'' @ [32] @ js (last units)
   | Some (Fin n) \<Rightarrow> (let (value, unit_name) = scale base n units in
       (if value \<ge> 100 \<or> of_int \<lfloor>value\<rfloor> = value then num (of_int (math_round value)) else toFixed num 2 (Some (Fin value)))
       @ [32] @ js unit_name))"

definition byte_units :: "string list" where
  "byte_units = [''Bytes'', ''KBytes'', ''MBytes'', ''GBytes'', ''TBytes'']"

definition bit_units :: "string list" where
  "bit_units = [''bits/sec'', ''Kbits/sec'', ''Mbits/sec'', ''Gbits/sec'']"

definition formatBytes :: "(rat \<Rightarrow> js_string) \<Rightarrow> js_val \<Rightarrow> js_string" where
  "formatBytes num v = format_scaled num 1024 byte_units v"

definition formatBits :: "(rat \<Rightarrow> js_string) \<Rightarrow> js_val \<Rightarrow> js_string" where
  "formatBits num v = format_scaled num 1000 bit_units v"

definition intervalLine :: "(rat \<Rightarrow> js_string) \<Rightarrow> IntervalReport \<Rightarrow> js_string" where
  "intervalLine num r =
     js ''[SUM] '' @ padStart 11 32 (toFixed num 2 (Some (Fin (ir_start r))) @ [45] @ toFixed num 2 (Some (Fin (ir_end r))))
     @ js '' sec  '' @ padStart 12 32 (formatBytes num (Some (Fin (of_nat (ir_bytes r)))))
     @ js ''  '' @ padStart 14 32 (formatBits num (Some (Fin (ir_bitsPerSecond r))))"

section \<open>Digits read back\<close>

lemma digits_value_append: "digits_value (s @ t) = digits_value s * 10 ^ length t + digits_value t"
  by (induction t rule: rev_induct) (simp_all add: digits_value_snoc flip: append_assoc, simp add: digits_value_def)

lemma digits_value_zeros: "digits_value (replicate k 48) = 0"
  by (induction k) (simp_all add: digits_value_def)

lemma digits_value_pad: "digits_value (padStart k 48 s) = digits_value s"
  by (simp add: padStart_def digits_value_append digits_value_zeros)

lemma u16_length_digits: "u16_length (nat_digits n) = length (nat_digits n)"
  using nat_digits_digit [of n] by (intro u16_length_ascii) (auto simp: ascii_def list_all_iff is_digit_def)

lemma length_nat_digits: "n < 10 ^ k \<Longrightarrow> 0 < k \<Longrightarrow> length (nat_digits n) \<le> k"
proof (induction k arbitrary: n)
  case (Suc k)
  show ?case
  proof (cases "n < 10")
    case True
    then show ?thesis by (simp add: nat_digits.simps [of n])
  next
    case False
    with Suc.prems have "n div 10 < 10 ^ k" "0 < k" by (cases k; simp add: less_mult_imp_div_less mult.commute)+
    with Suc.IH False show ?thesis by (simp add: nat_digits.simps [of n])
  qed
qed simp

lemma pad_digits:
  assumes "n < 10 ^ k" and "0 < k"
  shows "length (padStart k 48 (nat_digits n)) = k" and "list_all is_digit (padStart k 48 (nat_digits n))"
  using length_nat_digits [OF assms] nat_digits_digit [of n]
  by (simp_all add: padStart_def u16_length_digits list_all_iff) (auto simp: is_digit_def)

lemma digit_strip:
  assumes "list_all is_digit s"
  shows "takeWhile is_digit s = s" and "dropWhile is_digit s = []"
  using assms by (simp_all add: list_all_iff)

lemma digit_strip_append:
  assumes "list_all is_digit s" and "\<not> is_digit c"
  shows "takeWhile is_digit (s @ c # t) = s" and "dropWhile is_digit (s @ c # t) = c # t"
  using assms by (induction s) auto

lemma decimal_integer: "decimal_value (nat_digits n) = finite_number (of_nat n)"
  by (simp add: decimal_value_def digit_strip [OF nat_digits_digit] strip_char_def exponent_value_def Let_def)

lemma decimal_fixed:
  assumes "list_all is_digit fp" and "fp \<noteq> []"
  shows "decimal_value (nat_digits a @ [46] @ fp) = finite_number (of_nat (a * 10 ^ length fp + digits_value fp) / 10 ^ length fp)"
proof -
  have "\<not> is_digit 46" by (simp add: is_digit_def)
  note s = digit_strip_append [OF nat_digits_digit this] digit_strip [OF assms(1)]
  show ?thesis using assms(2)
    by (simp add: decimal_value_def s strip_char_def exponent_value_def Let_def digits_value_append)
qed

text \<open>A fixed-point text is read as the rounded number.\<close>

lemma math_round_near: "\<bar>of_int (math_round x) - x\<bar> \<le> 1 / 2"
  unfolding math_round_def by linarith

lemma finite_small: "\<bar>x\<bar> \<le> 10 ^ 22 \<Longrightarrow> finite_number x = Some x"
proof -
  have "(10 :: rat) ^ 22 < 2 ^ 1024 - 2 ^ 970" by simp
  then show "\<bar>x\<bar> \<le> 10 ^ 22 \<Longrightarrow> ?thesis" unfolding finite_number_def by simp
qed

lemma fixed_text_value:
  assumes "0 \<le> x" and "x < 10 ^ 21" and "0 < f"
  shows "decimal_value (fixed_text f x) = Some (of_int (math_round (x * 10 ^ f)) / 10 ^ f)"
proof -
  let ?n = "nat (math_round (x * 10 ^ f))"
  let ?fp = "padStart f 48 (nat_digits (?n mod 10 ^ f))"
  have pos: "0 \<le> math_round (x * 10 ^ f)" using assms(1) by (simp add: math_round_def)
  have n: "of_nat ?n = (of_int (math_round (x * 10 ^ f)) :: rat)" using pos by simp
  have fp: "length ?fp = f" "list_all is_digit ?fp" "digits_value ?fp = ?n mod 10 ^ f"
    using pad_digits [of "?n mod 10 ^ f" f] assms(3) by (simp_all add: digits_value_pad)
  then have ne: "?fp \<noteq> []" using assms(3) by (metis length_0_conv less_not_refl)
  have "fixed_text f x = nat_digits (?n div 10 ^ f) @ [46] @ ?fp" using assms(3) by (simp add: fixed_text_def Let_def)
  then have "decimal_value (fixed_text f x) = finite_number (of_nat (?n div 10 ^ f * 10 ^ f + ?n mod 10 ^ f) / 10 ^ f)"
    using decimal_fixed [OF fp(2) ne] fp(1,3) by (simp only:)
  also have "?n div 10 ^ f * 10 ^ f + ?n mod 10 ^ f = ?n" by (rule div_mult_mod_eq)
  also have "finite_number (of_nat ?n / 10 ^ f) = Some (of_nat ?n / 10 ^ f)"
  proof (rule finite_small)
    have "1 / 2 \<le> (10 :: rat) ^ f" using one_le_power [of "10 :: rat" f] by linarith
    moreover have "of_nat ?n \<le> x * 10 ^ f + 1 / 2" unfolding n using math_round_near [of "x * 10 ^ f"] by linarith
    ultimately have "of_nat ?n \<le> (x + 1) * 10 ^ f" by (simp only: distrib_right mult_1)
    then have "of_nat ?n / 10 ^ f \<le> x + 1" by (simp add: divide_le_eq)
    with assms(2) show "\<bar>of_nat ?n / 10 ^ f\<bar> \<le> (10 :: rat) ^ 22" by simp
  qed
  finally show ?thesis unfolding n .
qed

lemma scale_spec:
  assumes "us \<noteq> []" and "0 < base"
  shows "\<exists>k < length us. snd (scale base v us) = us ! k \<and> v = fst (scale base v us) * base ^ k
    \<and> (Suc k < length us \<longrightarrow> fst (scale base v us) < base) \<and> (0 < k \<longrightarrow> 1 \<le> fst (scale base v us))"
  using assms
proof (induction base v us rule: scale.induct)
  case (3 base v u w us)
  show ?case
  proof (cases "v \<ge> base")
    case True
    obtain x u' where xu: "scale base (v / base) (w # us) = (x, u')" by fastforce
    with 3 True obtain k where k: "k < length (w # us)" "u' = (w # us) ! k" "v / base = x * base ^ k"
      "Suc k < length (w # us) \<longrightarrow> x < base" "0 < k \<longrightarrow> 1 \<le> x" by auto
    have "v = x * base ^ Suc k" using k(3) 3(3) by (simp add: divide_eq_eq mult_ac)
    moreover have "1 \<le> v / base" using True 3(3) by simp
    then have "1 \<le> x" using k(3,5) by (cases "k = 0") simp_all
    ultimately show ?thesis using True k xu by (intro exI [of _ "Suc k"]) auto
  next
    case False
    then show ?thesis by (intro exI [of _ 0]) auto
  qed
qed auto

text \<open>\<open>Number::toString\<close> prints integers below \<open>10 ^ 21\<close> in decimal.\<close>

definition prints_integers :: "(rat \<Rightarrow> js_string) \<Rightarrow> bool" where
  "prints_integers num \<longleftrightarrow> (\<forall>i :: int. \<bar>i\<bar> < 10 ^ 21 \<longrightarrow> num (of_int i) = int_digits i)"

lemma prints_nat: "prints_integers num \<Longrightarrow> n < 10 ^ 21 \<Longrightarrow> num (of_nat n) = nat_digits n"
proof -
  assume p: "prints_integers num" and n: "n < 10 ^ 21"
  have "int n < 10 ^ 21" using n by (metis of_nat_less_iff of_nat_numeral of_nat_power)
  with p have "num (of_int (int n)) = int_digits (int n)" by (simp only: prints_integers_def abs_of_nat)
  then show ?thesis by (simp add: int_digits_def)
qed

definition value_text :: "(rat \<Rightarrow> js_string) \<Rightarrow> rat \<Rightarrow> js_string" where
  "value_text num x = (if x \<ge> 100 \<or> of_int \<lfloor>x\<rfloor> = x then num (of_int (math_round x)) else toFixed num 2 (Some (Fin x)))"

lemma value_text_near:
  assumes "prints_integers num" and "1 \<le> x" and "x \<le> 10 ^ 20"
  shows "\<exists>d. decimal_value (value_text num x) = Some d \<and> \<bar>d - x\<bar> \<le> x / 200"
proof (cases "x \<ge> 100 \<or> of_int \<lfloor>x\<rfloor> = x")
  case True
  let ?r = "math_round x"
  have r: "0 \<le> ?r" "of_int ?r \<le> (10 ^ 20 + 1 :: rat)"
    using assms(2,3) math_round_near [of x] by (simp add: math_round_def, linarith)
  then have "of_int ?r < (of_int (10 ^ 21) :: rat)" by simp
  then have "?r < 10 ^ 21" by (simp only: of_int_less_iff)
  then have n: "nat ?r < 10 ^ 21" by (simp add: nat_less_iff r(1))
  have "of_int ?r = (of_nat (nat ?r) :: rat)" using r(1) by simp
  then have "decimal_value (value_text num x) = finite_number (of_int ?r)"
    using True prints_nat [OF assms(1) n] by (simp only: value_text_def if_True decimal_integer)
  also have "\<dots> = Some (of_int ?r)" by (rule finite_small) (use r in simp)
  finally have d: "decimal_value (value_text num x) = Some (of_int ?r)" .
  have "\<bar>of_int ?r - x\<bar> \<le> x / 200"
  proof (cases "x \<ge> 100")
    case True
    with math_round_near [of x] show ?thesis by simp
  next
    case False
    with \<open>_ \<or> _\<close> have "of_int \<lfloor>x\<rfloor> = x" by simp
    moreover have "math_round (of_int i) = i" for i unfolding math_round_def by linarith
    ultimately have "of_int ?r = x" by metis
    with assms(2) show ?thesis by simp
  qed
  with d show ?thesis by blast
next
  case False
  then have "value_text num x = fixed_text 2 x" using assms(2) by (auto simp: value_text_def toFixed_def)
  moreover have "decimal_value (fixed_text 2 x) = Some (of_int (math_round (x * 10 ^ 2)) / 10 ^ 2)"
    by (rule fixed_text_value) (use assms in simp_all)
  moreover have "\<bar>of_int (math_round (x * 10 ^ 2)) / 10 ^ 2 - x\<bar> \<le> x / 200"
    using math_round_near [of "x * 10 ^ 2"] assms(2) by (simp add: abs_le_iff field_simps)
  ultimately show ?thesis by (intro exI conjI) (simp_all only:)
qed

lemma format_scaled_near:
  assumes "prints_integers num" and "1 \<le> q" and "q \<le> 10 ^ 20" and "us \<noteq> []" and "1 < base"
  shows "\<exists>k d text. k < length us \<and> format_scaled num base us (Some (Fin q)) = text @ [32] @ js (us ! k) \<and> decimal_value text = Some d
    \<and> \<bar>d * base ^ k - q\<bar> \<le> q / 200 \<and> base ^ k \<le> q \<and> (Suc k < length us \<longrightarrow> q < base ^ Suc k)"
proof -
  obtain x u where xu: "scale base q us = (x, u)" by fastforce
  obtain k where k: "k < length us" "u = us ! k" "q = x * base ^ k" "Suc k < length us \<longrightarrow> x < base" "0 < k \<longrightarrow> 1 \<le> x"
    using scale_spec [of us base q] assms(4,5) xu by auto
  have b: "1 \<le> base ^ k" "0 < base ^ k" using assms(5) by simp_all
  have x: "1 \<le> x" using k(3,5) assms(2) by (cases "k = 0") simp_all
  have "x * 1 \<le> x * base ^ k" using x b(1) by (intro mult_left_mono) simp_all
  then have "x \<le> 10 ^ 20" using k(3) assms(3) by simp
  then obtain d where d: "decimal_value (value_text num x) = Some d" "\<bar>d - x\<bar> \<le> x / 200"
    using value_text_near [OF assms(1) x] by blast
  have "\<bar>d * base ^ k - q\<bar> = \<bar>d - x\<bar> * base ^ k" using b(2) k(3) by (simp add: abs_mult flip: left_diff_distrib)
  also have "\<dots> \<le> x / 200 * base ^ k" using d(2) b(2) by (intro mult_right_mono) simp_all
  also have "\<dots> = q / 200" using k(3) by simp
  finally have "\<bar>d * base ^ k - q\<bar> \<le> q / 200" .
  moreover have "base ^ k \<le> q" "Suc k < length us \<longrightarrow> q < base ^ Suc k" using k(3,4) x b(2) by simp_all
  moreover have "format_scaled num base us (Some (Fin q)) = value_text num x @ [32] @ js (us ! k)"
    using xu k(2) by (simp add: format_scaled_def value_text_def)
  ultimately show ?thesis using k(1) d(1) by blast
qed

section \<open>Suffixes\<close>

definition suffix_power :: "nat \<Rightarrow> nat" where
  "suffix_power c = (if ascii_lower c = 107 then 1 else if ascii_lower c = 109 then 2 else 3)"

lemma suffix_not_digit: "suffix_char c \<Longrightarrow> \<not> is_digit c \<and> c \<noteq> 46"
  by (auto simp: suffix_char_def ascii_lower_def is_digit_def split: if_splits)

lemma suffixed_plain: "SUFFIXED_NUMBER (nat_digits n) = Some (nat_digits n, None)"
  by (simp add: SUFFIXED_NUMBER_def digit_strip [OF nat_digits_digit] strip_char_def Let_def)

lemma suffixed_char: "suffix_char c \<Longrightarrow> SUFFIXED_NUMBER (nat_digits n @ [c]) = Some (nat_digits n, Some c)"
  using suffix_not_digit [of c]
  by (simp add: SUFFIXED_NUMBER_def digit_strip_append [OF nat_digits_digit] strip_char_def Let_def)

lemma math_round_nat: "math_round (of_nat n) = int n"
  unfolding math_round_def by (simp add: floor_eq_iff)

lemma multiplier_power: "suffix_char c \<Longrightarrow> multiplier base (Some c) = base ^ suffix_power c"
  by (auto simp: multiplier_def suffix_power_def suffix_char_def)

lemma suffixed_value_exact:
  assumes "n * b ^ 3 \<le> 10 ^ 22" and "0 < b"
  shows "suffixed_value (of_nat b) (nat_digits n) = Some (Fin (of_nat n))"
    and "suffix_char c \<Longrightarrow> suffixed_value (of_nat b) (nat_digits n @ [c]) = Some (Fin (of_nat (n * b ^ suffix_power c)))"
proof -
  have fin: "finite_number (of_nat m) = Some (of_nat m)" if "m \<le> n * b ^ 3" for m
  proof (rule finite_small)
    have "m \<le> 10 ^ 22" using that assms(1) by linarith
    then have "(of_nat m :: rat) \<le> of_nat (10 ^ 22)" by (simp only: of_nat_le_iff)
    then show "\<bar>of_nat m\<bar> \<le> (10 :: rat) ^ 22" by simp
  qed
  have n: "n \<le> n * b ^ 3" using assms(2) by simp
  show "suffixed_value (of_nat b) (nat_digits n) = Some (Fin (of_nat n))"
    using fin [OF n] by (simp add: suffixed_value_def suffixed_plain decimal_integer multiplier_def math_round_nat)
  show "suffixed_value (of_nat b) (nat_digits n @ [c]) = Some (Fin (of_nat (n * b ^ suffix_power c)))" if "suffix_char c"
  proof -
    have "suffix_power c \<le> 3" by (simp add: suffix_power_def)
    then have "n * b ^ suffix_power c \<le> n * b ^ 3" using assms(2) by (intro mult_left_mono power_increasing) simp_all
    note f = fin [OF this, unfolded of_nat_mult of_nat_power]
    have "math_round (of_nat n * of_nat b ^ suffix_power c) = int (n * b ^ suffix_power c)"
      using math_round_nat [of "n * b ^ suffix_power c"] by simp
    with f fin [OF n] show ?thesis
      by (simp add: suffixed_value_def suffixed_char [OF that] decimal_integer multiplier_power [OF that])
  qed
qed

lemma parseByteSize_range: "parseByteSize s = Inr (Fin v) \<Longrightarrow> \<exists>i \<ge> 1. v = of_int i"
  by (auto simp: parseByteSize_def suffixed_value_def split: option.splits if_splits prod.splits)

section \<open>Properties\<close>

text \<open>
  Sizes and rates are read as documented.  A number without suffix means itself; the
  suffixes of a bandwidth are powers of 1000 and those of a block size powers of 1024, in
  either case, for every number up to \<open>10 ^ 12\<close>; and a block size of zero is refused.
\<close>

theorem suffixed_numbers_exact:
  assumes "n \<le> 10 ^ 12" and "suffix_char c"
  shows "parseBandwidth (nat_digits n) = Inr (Fin (of_nat n))
    \<and> parseBandwidth (nat_digits n @ [c]) = Inr (Fin (of_nat (n * 1000 ^ suffix_power c)))
    \<and> parseByteSize (nat_digits n) = (if n = 0 then Inl (InvalidLen (nat_digits n)) else Inr (Fin (of_nat n)))
    \<and> parseByteSize (nat_digits n @ [c]) =
        (if n = 0 then Inl (InvalidLen (nat_digits n @ [c])) else Inr (Fin (of_nat (n * 1024 ^ suffix_power c))))"
proof -
  have b: "n * 1000 ^ 3 \<le> 10 ^ 22" "n * 1024 ^ 3 \<le> 10 ^ 22" using assms(1) by simp_all
  note v = suffixed_value_exact [OF b(1), simplified] suffixed_value_exact [OF b(2), simplified]
  have "1 \<le> of_nat n * (1024 :: rat) ^ suffix_power c" if "0 < n"
    using that mult_mono [of 1 "of_nat n :: rat" 1 "1024 ^ suffix_power c"] by (simp add: Suc_leI)
  then show ?thesis using assms(2) by (auto simp: parseBandwidth_def parseByteSize_def v)
qed

theorem suffixed_numbers_exact_witness:
  "parseBandwidth (nat_digits 5 @ [77]) = Inr (Fin 5000000) \<and> parseByteSize (nat_digits 128 @ [75]) = Inr (Fin 131072)"
  using suffixed_numbers_exact [of 5 77] suffixed_numbers_exact [of 128 75]
  by (simp add: suffix_char_def suffix_power_def ascii_lower_def)

text \<open>
  What is printed is what was measured.  For every amount from 1 to \<open>10 ^ 20\<close>, the text
  of \<open>formatBytes\<close> (and of \<open>formatBits\<close>) is a number and a unit, the unit is the largest that is not above
  the amount, and the number, read back and multiplied by the unit, is within half a percent of
  the amount.
\<close>

theorem formatted_amount_near:
  assumes "prints_integers num" and "1 \<le> q" and "q \<le> 10 ^ 20"
  shows "(\<exists>k d text. k < length byte_units \<and> formatBytes num (Some (Fin q)) = text @ [32] @ js (byte_units ! k)
      \<and> decimal_value text = Some d \<and> \<bar>d * 1024 ^ k - q\<bar> \<le> q / 200 \<and> 1024 ^ k \<le> q
      \<and> (Suc k < length byte_units \<longrightarrow> q < 1024 ^ Suc k))
    \<and> (\<exists>k d text. k < length bit_units \<and> formatBits num (Some (Fin q)) = text @ [32] @ js (bit_units ! k)
      \<and> decimal_value text = Some d \<and> \<bar>d * 1000 ^ k - q\<bar> \<le> q / 200 \<and> 1000 ^ k \<le> q
      \<and> (Suc k < length bit_units \<longrightarrow> q < 1000 ^ Suc k))"
proof -
  have "byte_units \<noteq> []" "bit_units \<noteq> []" by (simp_all add: byte_units_def bit_units_def)
  then show ?thesis
    unfolding formatBytes_def formatBits_def
    using format_scaled_near [OF assms, of byte_units 1024] format_scaled_near [OF assms, of bit_units 1000] by simp
qed

theorem formatted_amount_near_witness:
  "prints_integers int_num \<and> (\<exists>k d text. k < length byte_units \<and> formatBytes int_num (Some (Fin 1536)) = text @ [32] @ js (byte_units ! k)
      \<and> decimal_value text = Some d \<and> \<bar>d * 1024 ^ k - 1536\<bar> \<le> 1536 / 200)"
proof -
  have p: "prints_integers int_num" by (simp add: prints_integers_def int_num_def)
  then show ?thesis using formatted_amount_near [OF p, of 1536] by simp blast
qed

end
