(* ===== verification/ServerCore.thy ===== *)
theory ServerCore
  imports Server
begin

text \<open>
  \<open>packages/netsu/src/server.ts\<close>: the accept rule \<open>ServerCore\<close>, and \<open>startServer\<close> with its listening socket.  At
  most one session is active; \<open>core_inv\<close> and \<open>core_wire\<close> are its invariants, and a run of a session is
  replayed as a run of the server.
\<close>

section \<open>The accept rule\<close>

text \<open>\<open>co_out\<close> records every frame handed to a connection, in order.\<close>

datatype conn_state = ReadingCookie | Denied | Control | DataStream | ClosedConn

record server_core =
  co_maxTestSeconds :: rat
  co_active :: "(nat \<times> server_session) option"
  co_conns :: "nat \<Rightarrow> conn_state option"
  co_out :: "(nat \<times> frame) list"

definition new_core :: "rat \<Rightarrow> server_core" where
  "new_core m = \<lparr>co_maxTestSeconds = m, co_active = None, co_conns = (\<lambda>_. None), co_out = []\<rparr>"

text \<open>
  \<open>handleConnection\<close>: a connection first reads its cookie.  \<open>detaches\<close>: turning the pipe into a data channel
  did not throw.
\<close>

datatype core_event =
  Connect nat
| CookieRead nat "byte list option" bool
| DenyWrote nat bool
| SessionEvent session_event
| Shutdown

definition emitted :: "nat \<Rightarrow> server_session \<Rightarrow> server_session \<Rightarrow> (nat \<times> frame) list" where
  "emitted owner s s' = map (Pair owner) (drop (length (ss_written s)) (ss_written s'))"

definition cookie_read :: "nat \<Rightarrow> byte list option \<Rightarrow> bool \<Rightarrow> server_core \<Rightarrow> server_core" where
  "cookie_read i r detaches c = (case r of
     None \<Rightarrow> c\<lparr>co_conns := (co_conns c)(i \<mapsto> ClosedConn)\<rparr>
   | Some bs \<Rightarrow> (let cookie = bytesToCookie bs in
       case co_active c of
         Some (owner, s) \<Rightarrow>
           if wantsStream cookie s then
             (if detaches then
                let s' = session_step s StreamConnected in
                c\<lparr>co_conns := (co_conns c)(i \<mapsto> DataStream), co_active := Some (owner, s'), co_out := co_out c @ emitted owner s s'\<rparr>
              else c\<lparr>co_conns := (co_conns c)(i \<mapsto> ClosedConn)\<rparr>)
           else c\<lparr>co_conns := (co_conns c)(i \<mapsto> Denied), co_out := co_out c @ [(i, StateFrame ACCESS_DENIED)]\<rparr>
       | None \<Rightarrow> (let s = new_session cookie (co_maxTestSeconds c) in
           c\<lparr>co_conns := (co_conns c)(i \<mapsto> Control), co_active := Some (i, s), co_out := co_out c @ map (Pair i) (ss_written s)\<rparr>)))"

text \<open>A step of the active session; when \<open>run\<close> returns, the lock is released.\<close>

definition session_continues :: "session_event \<Rightarrow> server_core \<Rightarrow> server_core" where
  "session_continues e c = (case co_active c of
     None \<Rightarrow> c
   | Some (owner, s) \<Rightarrow> (let s' = session_step s e; c1 = c\<lparr>co_out := co_out c @ emitted owner s s'\<rparr> in
       if ss_pc s' = Ended then c1\<lparr>co_active := None, co_conns := (co_conns c)(owner \<mapsto> ClosedConn)\<rparr>
       else c1\<lparr>co_active := Some (owner, s')\<rparr>))"

fun core_step :: "server_core \<Rightarrow> core_event \<Rightarrow> server_core" where
  "core_step c (Connect i) = (if co_conns c i = None then c\<lparr>co_conns := (co_conns c)(i \<mapsto> ReadingCookie)\<rparr> else c)"
| "core_step c (CookieRead i r detaches) = (if co_conns c i = Some ReadingCookie then cookie_read i r detaches c else c)"
| "core_step c (DenyWrote i ok) = (if co_conns c i = Some Denied then c\<lparr>co_conns := (co_conns c)(i \<mapsto> ClosedConn)\<rparr> else c)"
| "core_step c (SessionEvent e) = session_continues e c"
| "core_step c Shutdown = (case co_active c of None \<Rightarrow> c | Some (owner, s) \<Rightarrow> c\<lparr>co_active := Some (owner, abort s)\<rparr>)"

text \<open>Stream connections come only through the accept rule.\<close>

fun core_event_ok :: "server_core \<Rightarrow> core_event \<Rightarrow> bool" where
  "core_event_ok c (SessionEvent e) = (e \<noteq> StreamConnected)"
| "core_event_ok c _ = True"

text \<open>What a connection has been sent, and the conversations the protocol allows.\<close>

definition sent_on :: "nat \<Rightarrow> server_core \<Rightarrow> frame list" where
  "sent_on i c = map snd (filter (\<lambda>x. fst x = i) (co_out c))"

definition wire_ok :: "frame list \<Rightarrow> bool" where
  "wire_ok fs \<longleftrightarrow> fs = [] \<or> fs = [StateFrame ACCESS_DENIED] \<or> erred (map frame_tag fs)
     \<or> map frame_tag fs = take (length fs) server_script"

definition core_inv :: "server_core \<Rightarrow> bool" where
  "core_inv c \<longleftrightarrow> (\<forall>i. co_conns c i = Some Control \<longleftrightarrow> (\<exists>s. co_active c = Some (i, s)))
     \<and> (case co_active c of None \<Rightarrow> True
        | Some (i, s) \<Rightarrow> ss_pc s \<noteq> Ended \<and> frames_ok s \<and> session_inv s \<and> closing_ok s \<and> ss_maxTestSeconds s = co_maxTestSeconds c)"

definition silent :: "conn_state option \<Rightarrow> bool" where
  "silent st \<longleftrightarrow> st \<in> {None, Some ReadingCookie, Some DataStream}"

definition core_wire :: "server_core \<Rightarrow> bool" where
  "core_wire c \<longleftrightarrow> (\<forall>i. wire_ok (sent_on i c)) \<and> (\<forall>i. silent (co_conns c i) \<longrightarrow> sent_on i c = [])
     \<and> (case co_active c of None \<Rightarrow> True | Some (i, s) \<Rightarrow> sent_on i c = ss_written s)"

lemma sent_on_append: "co_out c' = co_out c @ xs \<Longrightarrow> sent_on i c' = sent_on i c @ map snd (filter (\<lambda>x. fst x = i) xs)"
  by (simp add: sent_on_def)

lemma sent_on_pairs: "map snd (filter (\<lambda>x. fst x = i) (map (Pair k) fs)) = (if i = k then fs else [])"
  by (induction fs) (auto simp: comp_def)

lemma emitted_written: "ss_written s @ map snd (filter (\<lambda>x. fst x = k) (emitted k s (session_step s e))) = ss_written (session_step s e)"
  using session_step_writes [of s e] by (auto simp: emitted_def sent_on_pairs comp_def simp del: session_step.simps)

lemma emitted_other: "i \<noteq> k \<Longrightarrow> map snd (filter (\<lambda>x. fst x = i) (emitted k s s')) = []"
  by (simp add: emitted_def sent_on_pairs)

lemma frames_ok_wire: "frames_ok s \<Longrightarrow> wire_ok (ss_written s)"
proof -
  assume "frames_ok s"
  then consider "erred (map frame_tag (ss_written s))" | k where "map frame_tag (ss_written s) = take k server_script"
    using that(2) [of 7] by (auto simp: frames_ok_def Let_def server_script_def split: if_splits)
  then show ?thesis
  proof cases
    case (2 k)
    then have "length (ss_written s) = min (length server_script) k" by (metis length_map length_take)
    with 2 show ?thesis by (simp add: wire_ok_def min_def)
  qed (simp add: wire_ok_def)
qed

lemma active_is_control: "core_inv c \<Longrightarrow> co_active c = Some (i, s) \<Longrightarrow> co_conns c i = Some Control"
  unfolding core_inv_def by blast

interpretation core_system: invariant_system core_step core_event_ok core_inv
proof (unfold_locales, goal_cases)
  case (1 c e)
  have step: "frames_ok (session_step s ev) \<and> session_inv (session_step s ev) \<and> closing_ok (session_step s ev)"
    if "frames_ok s \<and> session_inv s" "closing_ok s" "session_event_ok s ev" for s ev
    using session_system.inv_step [OF that(1,3)] session_step_closing [OF that(2)] by simp
  show ?case
  proof (cases e)
    case (CookieRead i r detaches)
    have "core_inv (cookie_read i r detaches c)" if "co_conns c i = Some ReadingCookie"
    proof (cases r)
      case None
      have "co_active c \<noteq> Some (i, s)" for s using 1(1) that by (auto dest: active_is_control)
      with 1 that None show ?thesis by (auto simp: cookie_read_def core_inv_def split: option.splits)
    next
      case (Some bs)
      show ?thesis
      proof (cases "co_active c")
        case None
        with 1 that Some new_session_inv [of "bytesToCookie bs" "co_maxTestSeconds c"] new_session_closing show ?thesis
          by (auto simp: cookie_read_def core_inv_def Let_def) (auto simp: new_session_def)
      next
        case (Some os)
        obtain owner s where os: "os = (owner, s)" by (cases os)
        have "owner \<noteq> i" using 1(1) that Some os by (auto dest: active_is_control)
        have inv: "frames_ok s \<and> session_inv s" "closing_ok s" "ss_pc s \<noteq> Ended" using 1 Some os by (auto simp: core_inv_def)
        have "frames_ok (session_step s StreamConnected) \<and> session_inv (session_step s StreamConnected)
            \<and> closing_ok (session_step s StreamConnected)" if "wantsStream (bytesToCookie bs) s"
          by (rule step [OF inv(1,2)]) (use that in auto)
        with 1 that Some os \<open>owner \<noteq> i\<close> \<open>r = Some bs\<close> addStream_running [OF inv(3)] show ?thesis
          by (auto simp: cookie_read_def core_inv_def Let_def simp del: session_step.simps)
      qed
    qed
    with 1 CookieRead show ?thesis by simp
  next
    case (SessionEvent ev)
    show ?thesis
    proof (cases "co_active c")
      case (Some os)
      obtain owner s where os: "os = (owner, s)" by (cases os)
      have inv: "frames_ok s \<and> session_inv s" "closing_ok s" using 1 Some os by (auto simp: core_inv_def)
      have "session_event_ok s ev" using 1(2) SessionEvent by (cases ev) auto
      with step [OF inv] 1 Some os SessionEvent show ?thesis
        by (auto simp: session_continues_def core_inv_def Let_def)
    qed (use 1 SessionEvent in \<open>simp add: session_continues_def\<close>)
  next
    case Shutdown
    show ?thesis
    proof (cases "co_active c")
      case (Some os)
      obtain owner s where os: "os = (owner, s)" by (cases os)
      have inv: "frames_ok s \<and> session_inv s" "closing_ok s" using 1 Some os by (auto simp: core_inv_def)
      with step [OF inv, of Abort] 1 Some os Shutdown show ?thesis by (auto simp: core_inv_def)
    qed (use 1 Shutdown in simp)
  next
    case (Connect i)
    have "co_active c \<noteq> Some (i, s)" if "co_conns c i = None" for s using 1(1) that by (auto dest: active_is_control)
    with 1 Connect show ?thesis by (auto simp: core_inv_def split: option.splits)
  next
    case (DenyWrote i ok)
    have "co_active c \<noteq> Some (i, s)" if "co_conns c i = Some Denied" for s using 1(1) that by (auto dest: active_is_control)
    with 1 DenyWrote show ?thesis by (auto simp: core_inv_def split: option.splits)
  qed
qed

lemma core_wire_session:
  assumes "core_wire c" and "co_active c = Some (owner, s)" and "frames_ok (session_step s e)"
    and "co_out c' = co_out c @ emitted owner s (session_step s e)"
  shows "sent_on owner c' = ss_written (session_step s e)" and "i \<noteq> owner \<Longrightarrow> sent_on i c' = sent_on i c"
    and "wire_ok (sent_on j c')"
proof -
  have o: "sent_on owner c = ss_written s" using assms(1,2) by (simp add: core_wire_def)
  show 1: "sent_on owner c' = ss_written (session_step s e)"
    unfolding sent_on_append [OF assms(4)] o by (rule emitted_written)
  show 2: "i \<noteq> owner \<Longrightarrow> sent_on i c' = sent_on i c" for i
    unfolding sent_on_append [OF assms(4)] by (simp add: emitted_other)
  show "wire_ok (sent_on j c')"
    using 1 2 [of j] frames_ok_wire [OF assms(3)] assms(1) by (cases "j = owner") (simp_all add: core_wire_def)
qed

lemma core_wire_quiet:
  assumes "core_wire c" and "co_out c' = co_out c" and "co_active c' = co_active c"
    and "\<And>i. silent (co_conns c' i) \<Longrightarrow> silent (co_conns c i)"
  shows "core_wire c'"
proof -
  have "sent_on i c' = sent_on i c" for i by (simp add: sent_on_def assms(2))
  with assms show ?thesis by (auto simp: core_wire_def split: option.splits prod.splits)
qed

lemma core_wire_step:
  assumes "core_inv c" and "core_wire c" and "core_event_ok c e"
  shows "core_wire (core_step c e)"
proof (cases e)
  case (CookieRead i r detaches)
  have "core_wire (cookie_read i r detaches c)" if "co_conns c i = Some ReadingCookie"
  proof (cases r)
    case None
    then show ?thesis by (intro core_wire_quiet [OF assms(2)]) (auto simp: cookie_read_def silent_def that split: if_splits)
  next
    case (Some bs)
    show ?thesis
    proof (cases "co_active c")
      case None
      let ?s = "new_session (bytesToCookie bs) (co_maxTestSeconds c)"
      let ?c = "cookie_read i r detaches c"
      have "sent_on k ?c = sent_on k c @ (if k = i then ss_written ?s else [])" for k
        using None Some by (subst sent_on_append [of _ c "map (Pair i) (ss_written ?s)"]) (simp_all add: cookie_read_def Let_def sent_on_pairs)
      moreover have "sent_on i c = []" using assms(2) that by (simp add: core_wire_def silent_def)
      moreover have "wire_ok (ss_written ?s)" by (rule frames_ok_wire) (use new_session_inv in simp)
      ultimately show ?thesis using assms(2) None Some by (auto simp: core_wire_def cookie_read_def Let_def silent_def)
    next
      case (Some os)
      obtain owner s where os: "os = (owner, s)" by (cases os)
      have "owner \<noteq> i" using assms(1) that Some os by (auto dest: active_is_control)
      have inv: "frames_ok s" using assms(1) Some os by (auto simp: core_inv_def)
      let ?c = "cookie_read i r detaches c"
      consider "wantsStream (bytesToCookie bs) s" detaches | "wantsStream (bytesToCookie bs) s" "\<not> detaches" | "\<not> wantsStream (bytesToCookie bs) s"
        by blast
      then show ?thesis
      proof cases
        case 1
        note c = core_wire_session [OF assms(2), of owner s StreamConnected ?c]
        have "ia \<noteq> owner" if "silent (co_conns c ia)" for ia
          using that active_is_control [OF assms(1), of owner s] Some os by (auto simp: silent_def)
        moreover have "sent_on i c = []" using assms(2) that by (simp add: core_wire_def silent_def)
        ultimately show ?thesis using c 1 Some os inv \<open>r = Some bs\<close> \<open>owner \<noteq> i\<close> assms(2)
          by (auto simp: core_wire_def cookie_read_def Let_def silent_def session_step_frames simp del: session_step.simps)
      next
        case 2
        with Some os \<open>r = Some bs\<close> show ?thesis
          by (intro core_wire_quiet [OF assms(2)]) (auto simp: cookie_read_def silent_def that split: if_splits)
      next
        case 3
        have "sent_on k ?c = sent_on k c @ (if k = i then [StateFrame ACCESS_DENIED] else [])" for k
          using 3 Some os \<open>r = Some bs\<close> by (subst sent_on_append [of _ c "[(i, StateFrame ACCESS_DENIED)]"]) (simp_all add: cookie_read_def Let_def)
        moreover have "sent_on i c = []" using assms(2) that by (simp add: core_wire_def silent_def)
        moreover have "wire_ok [StateFrame ACCESS_DENIED]" by (simp add: wire_ok_def)
        ultimately show ?thesis using assms(2) 3 Some os \<open>r = Some bs\<close> \<open>owner \<noteq> i\<close>
          by (auto simp: core_wire_def cookie_read_def Let_def silent_def)
      qed
    qed
  qed
  with assms(2) CookieRead show ?thesis by simp
next
  case (SessionEvent ev)
  show ?thesis
  proof (cases "co_active c")
    case (Some os)
    obtain owner s where os: "os = (owner, s)" by (cases os)
    have inv: "frames_ok s" using assms(1) Some os by (auto simp: core_inv_def)
    note c = core_wire_session [OF assms(2), of owner s ev "session_continues ev c"]
    have "i \<noteq> owner" if "silent (co_conns c i)" for i
      using that active_is_control [OF assms(1), of owner s] Some os by (auto simp: silent_def)
    with c Some os inv assms(2) SessionEvent show ?thesis
      by (auto simp: session_continues_def core_wire_def Let_def session_step_frames silent_def simp del: session_step.simps)
  qed (use assms(2) SessionEvent in \<open>simp add: session_continues_def\<close>)
next
  case Shutdown
  have "sent_on i (c\<lparr>co_active := a\<rparr>) = sent_on i c" for i a by (simp add: sent_on_def)
  moreover have "ss_written (abort s) = ss_written s" for s by (auto simp: abort_def Let_def split: option.split)
  ultimately show ?thesis using assms(2) Shutdown by (auto simp: core_wire_def split: option.split)
next
  case (Connect i)
  then show ?thesis by (auto intro!: core_wire_quiet [OF assms(2)] simp: silent_def assms(2) split: if_splits)
next
  case (DenyWrote i ok)
  then show ?thesis by (auto intro!: core_wire_quiet [OF assms(2)] simp: silent_def assms(2) split: if_splits)
qed

interpretation core_wire_system: invariant_system core_step core_event_ok "\<lambda>c. core_inv c \<and> core_wire c"
  by unfold_locales (auto intro: core_wire_step core_system.inv_step simp del: core_step.simps)

lemma new_core_wire: "core_wire (new_core m)"
  by (simp add: core_wire_def new_core_def sent_on_def wire_ok_def)

lemma new_core_inv: "core_inv (new_core m)"
  by (simp add: core_inv_def new_core_def)

section \<open>Listening and closing\<close>

record ServerOptions =
  so_port :: "int option"
  so_transport :: "transport option"
  so_maxTestSeconds :: "rat option"

text \<open>
  \<open>startServer\<close>: the listening socket, the set \<open>sockets\<close> of every accepted connection, and \<open>close\<close>.  The two
  transports differ only in the calls they make on their sockets.  \<open>ns_destroyed\<close> are the
  connections destroyed (or terminated) by \<open>close\<close>; the callback of the listening socket's \<open>close\<close> runs when no
  connection is left.
\<close>

datatype listen_state = Starting | Listening | ListenFailed

record netsu_server =
  ns_port :: int
  ns_transport :: transport
  ns_core :: server_core
  ns_state :: listen_state
  ns_sockets :: "nat list"
  ns_destroyed :: "nat list"
  ns_closing :: bool
  ns_closed :: bool

definition startServer :: "ServerOptions \<Rightarrow> netsu_server" where
  "startServer opts = \<lparr>ns_port = nullish (so_port opts) 5201, ns_transport = nullish (so_transport opts) TcpTransport,
     ns_core = new_core (nullish (so_maxTestSeconds opts) DEFAULT_MAX_TEST_SECONDS), ns_state = Starting,
     ns_sockets = [], ns_destroyed = [], ns_closing = False, ns_closed = False\<rparr>"

datatype server_event =
  ListenOk
| ListenError
| Incoming nat
| ConnClosed nat
| OnCore core_event
| CloseCall
| CloseDone

definition close_server :: "netsu_server \<Rightarrow> netsu_server" where
  "close_server n = n\<lparr>ns_core := core_step (ns_core n) Shutdown, ns_destroyed := ns_destroyed n @ ns_sockets n, ns_closing := True\<rparr>"

text \<open>An accepted connection is new, and there is none before the server listens or once it is closing.\<close>

fun server_step :: "netsu_server \<Rightarrow> server_event \<Rightarrow> netsu_server" where
  "server_step n ListenOk = (if ns_state n = Starting then n\<lparr>ns_state := Listening\<rparr> else n)"
| "server_step n ListenError = (if ns_state n = Starting then n\<lparr>ns_state := ListenFailed\<rparr> else n)"
| "server_step n (Incoming i) =
     (if ns_state n = Listening \<and> \<not> ns_closing n \<and> co_conns (ns_core n) i = None
      then n\<lparr>ns_sockets := ns_sockets n @ [i], ns_core := core_step (ns_core n) (Connect i)\<rparr> else n)"
| "server_step n (ConnClosed i) = n\<lparr>ns_sockets := removeAll i (ns_sockets n)\<rparr>"
| "server_step n (OnCore e) = n\<lparr>ns_core := core_step (ns_core n) e\<rparr>"
| "server_step n CloseCall = (if ns_state n = Listening then close_server n else n)"
| "server_step n CloseDone = (if ns_closing n \<and> ns_sockets n = [] then n\<lparr>ns_closed := True\<rparr> else n)"

text \<open>Connections reach the core through \<open>Incoming\<close>, its shutdown through \<open>CloseCall\<close>.\<close>

fun server_event_ok :: "netsu_server \<Rightarrow> server_event \<Rightarrow> bool" where
  "server_event_ok n (OnCore e) = (core_event_ok (ns_core n) e \<and> e \<noteq> Shutdown \<and> (\<forall>i. e \<noteq> Connect i))"
| "server_event_ok n _ = True"

definition server_inv :: "netsu_server \<Rightarrow> bool" where
  "server_inv n \<longleftrightarrow> core_inv (ns_core n) \<and> core_wire (ns_core n) \<and> distinct (ns_sockets n)
     \<and> list_all (\<lambda>i. co_conns (ns_core n) i \<noteq> None) (ns_sockets n)
     \<and> (ns_state n \<noteq> Listening \<longrightarrow> ns_sockets n = [] \<and> \<not> ns_closing n)
     \<and> (ns_closing n \<longrightarrow> set (ns_sockets n) \<subseteq> set (ns_destroyed n))
     \<and> (ns_closed n \<longrightarrow> ns_closing n \<and> ns_sockets n = [])"

lemma core_step_conns: "co_conns c i \<noteq> None \<Longrightarrow> co_conns (core_step c e) i \<noteq> None"
  by (cases e) (auto simp: cookie_read_def session_continues_def Let_def split: option.split)

interpretation server_system: invariant_system server_step server_event_ok server_inv
proof (unfold_locales, goal_cases)
  case (1 n e)
  have core: "core_inv (core_step (ns_core n) ev) \<and> core_wire (core_step (ns_core n) ev)" if "core_event_ok (ns_core n) ev" for ev
    using 1 that core_wire_system.inv_step by (auto simp: server_inv_def simp del: core_step.simps)
  have conns: "list_all (\<lambda>i. co_conns (core_step (ns_core n) ev) i \<noteq> None) (ns_sockets n)" for ev
    using 1 core_step_conns by (auto simp: server_inv_def list_all_iff simp del: core_step.simps)
  show ?case
  proof (cases e)
    case (Incoming i)
    have "i \<notin> set (ns_sockets n)" if "co_conns (ns_core n) i = None" using 1 that by (auto simp: server_inv_def list_all_iff)
    with 1 Incoming core [of "Connect i"] conns [of "Connect i"] show ?thesis
      by (auto simp: server_inv_def list_all_iff)
  next
    case (OnCore ev)
    with 1 core [of ev] conns [of ev] show ?thesis by (auto simp: server_inv_def simp del: core_step.simps)
  next
    case CloseCall
    with 1 core [of Shutdown] conns [of Shutdown] show ?thesis
      by (auto simp: server_inv_def close_server_def simp del: core_step.simps)
  next
    case (ConnClosed i)
    with 1 show ?thesis by (auto simp: server_inv_def list_all_iff distinct_removeAll)
  qed (use 1 in \<open>auto simp: server_inv_def\<close>)
qed

lemma startServer_inv: "server_inv (startServer opts)"
  using new_core_inv new_core_wire by (simp add: server_inv_def startServer_def)

lemma sockets_all_close:
  "run_steps server_step n (map ConnClosed is) = n\<lparr>ns_sockets := filter (\<lambda>i. i \<notin> set is) (ns_sockets n)\<rparr>"
proof (induction "is" arbitrary: n)
  case (Cons i "is")
  have "filter (\<lambda>j. j \<notin> set is) (removeAll i xs) = filter (\<lambda>j. j \<notin> set (i # is)) xs" for xs :: "nat list"
    by (induction xs) auto
  with Cons show ?case by simp
qed simp

section \<open>A session inside the server\<close>

text \<open>
  The events of a session as the server sees them: a stream arrives as a connection that presents
  the cookie, everything else is a continuation of the session.
\<close>

fun on_core :: "byte list \<Rightarrow> nat \<Rightarrow> session_event list \<Rightarrow> core_event list" where
  "on_core cb k [] = []"
| "on_core cb k (StreamConnected # es) = Connect k # CookieRead k (Some cb) True # on_core cb (Suc k) es"
| "on_core cb k (e # es) = SessionEvent e # on_core cb k es"

lemma on_core_other: "e \<noteq> StreamConnected \<Longrightarrow> on_core cb k (e # es) = SessionEvent e # on_core cb k es"
  by (cases e) simp_all

lemma on_core_snoc: "e \<noteq> StreamConnected \<Longrightarrow> on_core cb k (es @ [e]) = on_core cb k es @ [SessionEvent e]"
  by (induction cb k es rule: on_core.induct) (simp_all add: on_core_other)

lemma session_run_on_core:
  assumes "co_active c = Some (owner, s)" and "sent_on owner c = ss_written s" and "owner < k" and "\<And>i. k \<le> i \<Longrightarrow> co_conns c i = None"
    and "bytesToCookie cb = ss_cookie s" and "run_ok session_event_ok session_step s es" and "ss_pc (run_steps session_step s es) \<noteq> Ended"
    and "c' = run_steps core_step c (on_core cb k es)"
  shows "co_active c' = Some (owner, run_steps session_step s es) \<and> sent_on owner c' = ss_written (run_steps session_step s es)
    \<and> run_ok core_event_ok core_step c (on_core cb k es)"
  using assms
proof (induction es arbitrary: c s k c')
  case (Cons e es)
  have run: "ss_pc (session_step s e) \<noteq> Ended" using Cons.prems(7) ended_run by (auto simp del: session_step.simps)
  let ?c = "if e = StreamConnected then core_step (core_step c (Connect k)) (CookieRead k (Some cb) True) else core_step c (SessionEvent e)"
  let ?k = "if e = StreamConnected then Suc k else k"
  have "wantsStream (bytesToCookie cb) s" if "e = StreamConnected" using Cons.prems(5,6) that by (auto simp: wantsStream_def)
  then have c1: "co_active ?c = Some (owner, session_step s e) \<and> co_out ?c = co_out c @ emitted owner s (session_step s e)
      \<and> (\<forall>i. ?k \<le> i \<longrightarrow> co_conns ?c i = None)"
    using Cons.prems(1,3,4) run by (auto simp: cookie_read_def session_continues_def Let_def simp del: session_step.simps)
  have s1: "sent_on owner ?c = ss_written (session_step s e)"
    using sent_on_append [of ?c c] c1 Cons.prems(2) emitted_written [of s owner e] by simp
  have ev: "on_core cb k (e # es) = (if e = StreamConnected then [Connect k, CookieRead k (Some cb) True] else [SessionEvent e]) @ on_core cb ?k es"
    by (simp add: on_core_other)
  have "co_active c' = Some (owner, run_steps session_step (session_step s e) es)
      \<and> sent_on owner c' = ss_written (run_steps session_step (session_step s e) es) \<and> run_ok core_event_ok core_step ?c (on_core cb ?k es)"
    by (rule Cons.IH [of ?c _ ?k]) (use c1 s1 Cons.prems(3,5-8) ev in \<open>auto simp del: session_step.simps core_step.simps\<close>)
  then show ?case unfolding ev by (auto simp del: session_step.simps core_step.simps)
qed simp

text \<open>The same test as the server sees it, on any server that is free: connection \<open>k\<close> is the control connection.\<close>

definition core_test :: "byte list \<Rightarrow> nat \<Rightarrow> session_event list \<Rightarrow> core_event list" where
  "core_test cb k es = Connect k # CookieRead k (Some cb) True # on_core cb (Suc k) es"

lemma core_step_max [simp]: "co_maxTestSeconds (core_step c e) = co_maxTestSeconds c"
  by (cases e) (auto simp: cookie_read_def session_continues_def Let_def split: option.split)

lemma core_run_max: "co_maxTestSeconds (run_steps core_step (new_core m) es) = m"
  by (induction es rule: rev_induct) (simp_all del: core_step.simps, simp add: new_core_def)

lemma core_completes:
  assumes "core_wire c" and "co_active c = None" and "\<And>i. k \<le> i \<Longrightarrow> co_conns c i = None"
    and "es = fs @ [e]" and "e \<noteq> StreamConnected" and "s = new_session (bytesToCookie cb) (co_maxTestSeconds c)"
    and "run_ok session_event_ok session_step s es" and "ss_pc (run_steps session_step s fs) \<noteq> Ended"
    and "ss_pc (run_steps session_step s es) = Ended" and "c' = run_steps core_step c (core_test cb k es)"
  shows "co_active c' = None \<and> sent_on k c' = ss_written (run_steps session_step s es) \<and> run_ok core_event_ok core_step c (core_test cb k es)"
proof -
  let ?c1 = "run_steps core_step c [Connect k, CookieRead k (Some cb) True]"
  have s0: "sent_on k c = []" using assms(1,3) by (simp add: core_wire_def silent_def)
  have c1: "co_active ?c1 = Some (k, s)" "co_out ?c1 = co_out c @ map (Pair k) (ss_written s)" "\<And>i. Suc k \<le> i \<Longrightarrow> co_conns ?c1 i = None"
    using assms(2,3,6) by (simp_all add: cookie_read_def Let_def)
  have s1: "sent_on k ?c1 = ss_written s"
    unfolding sent_on_append [OF c1(2)] by (simp add: s0 sent_on_pairs comp_def)
  have ck: "bytesToCookie cb = ss_cookie s" by (simp add: assms(6) new_session_def)
  let ?c2 = "run_steps core_step ?c1 (on_core cb (Suc k) fs)"
  have c2: "co_active ?c2 = Some (k, run_steps session_step s fs)" "sent_on k ?c2 = ss_written (run_steps session_step s fs)"
    "run_ok core_event_ok core_step ?c1 (on_core cb (Suc k) fs)"
    using session_run_on_core [OF c1(1) s1 _ c1(3) ck _ assms(8) refl] assms(4,7) by simp_all
  have c': "c' = core_step ?c2 (SessionEvent e)" "core_test cb k es = [Connect k, CookieRead k (Some cb) True] @ on_core cb (Suc k) fs @ [SessionEvent e]"
    using assms(4,5,10) by (simp_all add: core_test_def on_core_snoc)
  have fin: "ss_pc (session_step (run_steps session_step s fs) e) = Ended" using assms(4,9) by simp
  then have "co_active c' = None" "co_out c' = co_out ?c2 @ emitted k (run_steps session_step s fs) (session_step (run_steps session_step s fs) e)"
    unfolding c'(1) using c2(1) by (simp_all add: session_continues_def Let_def del: run_steps.simps session_step.simps)
  moreover from this(2) have "sent_on k c' = ss_written (run_steps session_step s es)"
    using c2(2) emitted_written [of "run_steps session_step s fs" k e] assms(4) by (simp add: sent_on_append del: session_step.simps)
  ultimately show ?thesis unfolding c'(2) using c2(3) assms(5) by (auto simp del: session_step.simps core_step.simps)
qed

section \<open>Properties\<close>

text \<open>
  C3: one test at a time, and a clean conversation on every connection.  In every run of the
  server at most one connection is a control connection, the owner of the active session.
  While a session is active, a connection that does not carry its cookie in its stream window
  is answered with exactly one \<open>ACCESS_DENIED\<close> and leaves the session untouched; as soon as the session ends
  the server is free, so that the next cookie starts a new session.  What any connection has
  ever been sent is nothing, one \<open>ACCESS_DENIED\<close>, a prefix of the test script, or such a prefix followed
  by one \<open>SERVER_ERROR\<close>.
\<close>

theorem server_single_session:
  assumes "run_ok core_event_ok core_step (new_core m) es" and "c = run_steps core_step (new_core m) es"
  shows "(\<forall>i j. co_conns c i = Some Control \<and> co_conns c j = Some Control \<longrightarrow> i = j) \<and> (\<forall>i. wire_ok (sent_on i c))
    \<and> (\<forall>i owner s bs d. co_active c = Some (owner, s) \<and> co_conns c i = Some ReadingCookie \<and> \<not> wantsStream (bytesToCookie bs) s \<longrightarrow>
         co_active (core_step c (CookieRead i (Some bs) d)) = co_active c
         \<and> co_out (core_step c (CookieRead i (Some bs) d)) = co_out c @ [(i, StateFrame ACCESS_DENIED)])
    \<and> (\<forall>owner s e. co_active c = Some (owner, s) \<and> ss_pc (session_step s e) = Ended \<longrightarrow>
         co_active (core_step c (SessionEvent e)) = None)
    \<and> (\<forall>i bs d. co_active c = None \<and> co_conns c i = Some ReadingCookie \<longrightarrow>
         co_active (core_step c (CookieRead i (Some bs) d)) = Some (i, new_session (bytesToCookie bs) (co_maxTestSeconds c)))"
proof -
  have inv: "core_inv c \<and> core_wire c"
    unfolding assms(2) by (rule core_wire_system.inv_run [OF _ assms(1)]) (simp add: new_core_inv new_core_wire)
  then have "\<forall>i j. co_conns c i = Some Control \<and> co_conns c j = Some Control \<longrightarrow> i = j" by (auto simp: core_inv_def)
  moreover have "\<forall>i. wire_ok (sent_on i c)" using inv by (simp add: core_wire_def)
  ultimately show ?thesis by (auto simp: cookie_read_def session_continues_def Let_def simp del: session_step.simps)
qed

theorem server_single_session_witness:
  "co_out (core_step (run_steps core_step (new_core 3600) [Connect 1, Connect 2, CookieRead 1 (Some [97]) True]) (CookieRead 2 (Some [98]) True))
     = [(1, StateFrame PARAM_EXCHANGE), (2, StateFrame ACCESS_DENIED)]"
proof -
  let ?es = "[Connect 1, Connect 2, CookieRead 1 (Some [97]) True]"
  let ?c = "run_steps core_step (new_core 3600) ?es"
  have a: "co_active ?c = Some (1, new_session (bytesToCookie [97]) 3600)" "co_conns ?c 2 = Some ReadingCookie"
    "co_out ?c = [(1, StateFrame PARAM_EXCHANGE)]"
    by (simp_all add: new_core_def cookie_read_def Let_def) (simp add: new_session_def)
  moreover have "\<not> wantsStream (bytesToCookie [98]) (new_session (bytesToCookie [97]) 3600)"
    by (simp add: wantsStream_def new_session_def)
  ultimately show ?thesis
    using server_single_session [OF _ refl, of 3600 ?es] by (simp del: run_steps.simps core_step.simps)
qed



end
