(* ===== verification/Cli.thy ===== *)
theory Cli
  imports Format ServerCore "HOL-Library.Log_Nat"
begin

text \<open>
  \<open>packages/netsu/src/cli.ts\<close>: the command line.  The argument parser (the library citty) has already
  split the command line: \<open>client_args\<close> and \<open>server_args\<close> are what it hands to the commands, \<open>rawArgs\<close> the
  tokens themselves.  A command yields what it prints and the exit code; running the test is an
  argument of the client command.
\<close>

section \<open>Arguments\<close>

text \<open>
  A flag given once is a string, a flag repeated a list; \<open>ArgOther\<close> is any other value, with the text
  \<open>String(raw)\<close>.
\<close>

datatype arg_value = ArgStr js_string | ArgList "js_string list" | ArgOther js_string

datatype cli_error =
  SpecifiedTwice string
| InvalidValue string js_string
| MissingValue string js_string
| UnknownOption js_string
| UdpAndWs
| FormatError format_error
| Failed js_string

definition describeError :: "cli_error \<Rightarrow> js_string" where
  "describeError e = (case e of
     SpecifiedTwice n \<Rightarrow> js ''invalid '' @ js n @ js '': specified more than once''
   | InvalidValue n s \<Rightarrow> js ''invalid '' @ js n @ js '': '' @ s
   | MissingValue n hint \<Rightarrow> js ''invalid '' @ js n @ js '': missing value'' @ hint
   | UnknownOption t \<Rightarrow> js ''unknown option: '' @ t
   | UdpAndWs \<Rightarrow> js ''--udp and --ws are mutually exclusive''
   | FormatError (InvalidBandwidth s) \<Rightarrow> js ''invalid bandwidth: '' @ s
   | FormatError (InvalidLen s) \<Rightarrow> js ''invalid len: '' @ s
   | Failed m \<Rightarrow> m)"

definition requireSingleValue :: "arg_value \<Rightarrow> string \<Rightarrow> cli_error + js_string" where
  "requireSingleValue raw name = (case raw of
     ArgStr s \<Rightarrow> Inr s
   | ArgList ss \<Rightarrow> Inl (SpecifiedTwice name)
   | ArgOther s \<Rightarrow> Inl (InvalidValue name s))"

text \<open>
  \<open>Number.parseInt(s, 10)\<close>: sign and leading digits, rounded to the nearest binary64 value (ties to
  even); \<open>None\<close> for NaN and for infinities.
\<close>

definition round53 :: "nat \<Rightarrow> nat" where
  "round53 n = (let k = floorlog 2 n in
     if k \<le> 53 then n
     else let e = k - 53; q = n div 2 ^ e; r = n mod 2 ^ e
          in (if 2 * r > 2 ^ e \<or> 2 * r = 2 ^ e \<and> odd q then q + 1 else q) * 2 ^ e)"

definition parse_int :: "js_string \<Rightarrow> int option" where
  "parse_int s =
     (let neg = (strip_char 45 s \<noteq> None);
          r = (case strip_char 45 s of Some t \<Rightarrow> t | None \<Rightarrow> (case strip_char 43 s of Some t \<Rightarrow> t | None \<Rightarrow> s));
          ds = takeWhile is_digit r; v = round53 (digits_value ds)
      in if ds = [] \<or> v \<ge> 2 ^ 1024 then None else Some (if neg then - int v else int v))"

definition parseIntArg :: "(rat \<Rightarrow> js_string) \<Rightarrow> arg_value \<Rightarrow> string \<Rightarrow> int \<Rightarrow> js_string \<Rightarrow> cli_error + int" where
  "parseIntArg num raw name least hint =
     andThen (requireSingleValue raw name) (\<lambda>s. let trimmed = js_trim s in
       if trimmed = [] then Inl (MissingValue name hint)
       else case parse_int trimmed of
         None \<Rightarrow> Inl (InvalidValue name s)
       | Some v \<Rightarrow> if num (of_int v) \<noteq> trimmed \<or> v < least then Inl (InvalidValue name s) else Inr v)"

definition starts_dash :: "js_string \<Rightarrow> bool" where
  "starts_dash s \<longleftrightarrow> strip_char 45 s \<noteq> None"

definition missingValueLooksLikeFlag :: "js_string list \<Rightarrow> js_string list \<Rightarrow> bool" where
  "missingValueLooksLikeFlag rawArgs flags = (case dropWhile (\<lambda>a. a \<notin> set flags) rawArgs of
     _ # next_arg # _ \<Rightarrow> next_arg \<noteq> js ''--'' \<and> starts_dash next_arg
   | _ \<Rightarrow> False)"

definition negativeHintFor :: "string \<Rightarrow> js_string list \<Rightarrow> js_string list \<Rightarrow> js_string" where
  "negativeHintFor name rawArgs flags =
     (if missingValueLooksLikeFlag rawArgs flags then js '' (use --'' @ js name @ js ''=-N for a negative number)'' else [])"

definition arg_text :: "arg_value \<Rightarrow> js_string" where
  "arg_text raw = (case raw of ArgStr s \<Rightarrow> s | ArgList ss \<Rightarrow> join [44] ss | ArgOther s \<Rightarrow> s)"

definition parsePort :: "(rat \<Rightarrow> js_string) \<Rightarrow> arg_value \<Rightarrow> js_string list \<Rightarrow> cli_error + int" where
  "parsePort num raw rawArgs =
     andThen (parseIntArg num raw ''port'' 1 (negativeHintFor ''port'' rawArgs [js ''-p'', js ''--port'']))
       (\<lambda>v. if v > 65535 then Inl (InvalidValue ''port'' (arg_text raw)) else Inr v)"

section \<open>Unknown flags\<close>

datatype arg_type = Positional | StringArg | BooleanArg

record arg_def =
  ad_key :: string
  ad_type :: arg_type
  ad_alias :: "string option"

definition serverArgsDef :: "arg_def list" where
  "serverArgsDef = [\<lparr>ad_key = ''port'', ad_type = StringArg, ad_alias = Some ''p''\<rparr>,
     \<lparr>ad_key = ''ws'', ad_type = BooleanArg, ad_alias = None\<rparr>]"

definition clientArgsDef :: "arg_def list" where
  "clientArgsDef =
     [\<lparr>ad_key = ''host'', ad_type = Positional, ad_alias = None\<rparr>,
      \<lparr>ad_key = ''port'', ad_type = StringArg, ad_alias = Some ''p''\<rparr>,
      \<lparr>ad_key = ''time'', ad_type = StringArg, ad_alias = Some ''t''\<rparr>,
      \<lparr>ad_key = ''udp'', ad_type = BooleanArg, ad_alias = Some ''u''\<rparr>,
      \<lparr>ad_key = ''ws'', ad_type = BooleanArg, ad_alias = None\<rparr>,
      \<lparr>ad_key = ''parallel'', ad_type = StringArg, ad_alias = Some ''P''\<rparr>,
      \<lparr>ad_key = ''reverse'', ad_type = BooleanArg, ad_alias = Some ''R''\<rparr>,
      \<lparr>ad_key = ''bandwidth'', ad_type = StringArg, ad_alias = Some ''b''\<rparr>,
      \<lparr>ad_key = ''len'', ad_type = StringArg, ad_alias = Some ''l''\<rparr>,
      \<lparr>ad_key = ''interval'', ad_type = StringArg, ad_alias = Some ''i''\<rparr>,
      \<lparr>ad_key = ''json'', ad_type = BooleanArg, ad_alias = None\<rparr>]"

definition flag_tokens :: "arg_def \<Rightarrow> js_string list" where
  "flag_tokens d = (case ad_alias d of
       None \<Rightarrow> [] | Some a \<Rightarrow> [if length a = 1 then js (''-'' @ a) else js (''--'' @ a)]) @ [js (''--'' @ ad_key d)]"

definition known_flags :: "arg_def list \<Rightarrow> js_string list" where
  "known_flags defs = [js ''--help'', js ''-h'', js ''--version''] @ concat (map (\<lambda>d.
     if ad_type d = Positional then []
     else flag_tokens d @ (if ad_type d = BooleanArg then [js (''--no-'' @ ad_key d)] else [])) defs)"

definition string_flags :: "arg_def list \<Rightarrow> js_string list" where
  "string_flags defs = concat (map (\<lambda>d. if ad_type d = StringArg then flag_tokens d else []) defs)"

text \<open>The loop over the tokens; \<open>prev\<close> is the token before.\<close>

definition flag_shaped :: "js_string \<Rightarrow> bool" where
  "flag_shaped t \<longleftrightarrow> starts_dash t \<and> t \<noteq> js ''-'' \<and> t \<noteq> js ''--''"

fun find_unknown :: "js_string list \<Rightarrow> js_string list \<Rightarrow> js_string option \<Rightarrow> js_string list \<Rightarrow> js_string option" where
  "find_unknown known sfs prev [] = None"
| "find_unknown known sfs prev (t # ts) =
     (if \<not> flag_shaped t \<or> (case prev of None \<Rightarrow> False | Some p \<Rightarrow> p \<in> set sfs) \<or> takeWhile (\<lambda>c. c \<noteq> 61) t \<in> set known
      then find_unknown known sfs (Some t) ts else Some t)"

definition findUnknownFlag :: "js_string list \<Rightarrow> arg_def list \<Rightarrow> js_string option" where
  "findUnknownFlag rawArgs defs = find_unknown (known_flags defs) (string_flags defs) None rawArgs"

section \<open>Commands\<close>

record cli_output =
  out_stdout :: "js_string list"
  out_stderr :: "js_string list"
  out_exitCode :: nat

record server_args =
  sa_port :: arg_value
  sa_ws :: bool

definition server_request :: "(rat \<Rightarrow> js_string) \<Rightarrow> server_args \<Rightarrow> js_string list \<Rightarrow> cli_error + ServerOptions" where
  "server_request num args rawArgs = (case findUnknownFlag rawArgs serverArgsDef of
     Some t \<Rightarrow> Inl (UnknownOption t)
   | None \<Rightarrow> andThen (parsePort num (sa_port args) rawArgs) (\<lambda>port.
       Inr \<lparr>so_port = Some port, so_transport = Some (if sa_ws args then WsTransport else TcpTransport), so_maxTestSeconds = None\<rparr>))"

definition transport_text :: "transport \<Rightarrow> js_string" where
  "transport_text tr = (case tr of TcpTransport \<Rightarrow> js ''tcp'' | WsTransport \<Rightarrow> js ''ws'')"

text \<open>\<open>listens\<close>: the outcome of \<open>startServer\<close>, an error with its message.\<close>

definition serverCmd :: "(rat \<Rightarrow> js_string) \<Rightarrow> server_args \<Rightarrow> js_string list \<Rightarrow> (ServerOptions \<Rightarrow> js_string option) \<Rightarrow> cli_output" where
  "serverCmd num args rawArgs listens =
     (let failing = (\<lambda>e. \<lparr>out_stdout = [], out_stderr = [js ''netsu server: '' @ describeError e], out_exitCode = 1\<rparr>) in
      case server_request num args rawArgs of
        Inl e \<Rightarrow> failing e
      | Inr opts \<Rightarrow> (case listens opts of
           Some m \<Rightarrow> failing (Failed m)
         | None \<Rightarrow> \<lparr>out_stdout = [js ''netsu server listening on '' @ num (of_int (ns_port (startServer opts)))
                       @ js '' ('' @ transport_text (ns_transport (startServer opts)) @ js '')''],
                     out_stderr = [], out_exitCode = 0\<rparr>))"

text \<open>\<open>waitForShutdown\<close>: the first signal runs the action, the others are ignored.\<close>

record shutdown =
  sd_handled :: bool
  sd_calls :: nat
  sd_resolved :: bool

datatype shutdown_event = Signal | ActionSettled

definition new_shutdown :: shutdown where
  "new_shutdown = \<lparr>sd_handled = False, sd_calls = 0, sd_resolved = False\<rparr>"

fun shutdown_step :: "shutdown \<Rightarrow> shutdown_event \<Rightarrow> shutdown" where
  "shutdown_step s Signal = (if sd_handled s then s else s\<lparr>sd_handled := True, sd_calls := sd_calls s + 1\<rparr>)"
| "shutdown_step s ActionSettled = (if sd_handled s then s\<lparr>sd_resolved := True\<rparr> else s)"

record client_args =
  ca_port :: arg_value
  ca_time :: arg_value
  ca_udp :: bool
  ca_ws :: bool
  ca_parallel :: arg_value
  ca_reverse :: bool
  ca_bandwidth :: "arg_value option"
  ca_len :: "arg_value option"
  ca_interval :: arg_value
  ca_json :: bool

text \<open>An optional value with a suffix.\<close>

definition optional_size :: "(js_string \<Rightarrow> format_error + js_num) \<Rightarrow> string \<Rightarrow> arg_value option \<Rightarrow> cli_error + js_num option" where
  "optional_size parse name raw = (case raw of
     None \<Rightarrow> Inr None
   | Some v \<Rightarrow> andThen (requireSingleValue v name) (\<lambda>s. case parse s of Inl e \<Rightarrow> Inl (FormatError e) | Inr x \<Rightarrow> Inr (Some x)))"

text \<open>
  The options the client command passes on.  A block size past the finite numbers, which takes more
  than three hundred digits, has no integer value; it is kept as the length 0 here, which like it no
  server accepts.
\<close>

definition size_int :: "js_num \<Rightarrow> int" where
  "size_int x = (case x of Fin v \<Rightarrow> \<lfloor>v\<rfloor> | Inf neg \<Rightarrow> 0)"

definition client_request :: "(rat \<Rightarrow> js_string) \<Rightarrow> client_args \<Rightarrow> js_string list \<Rightarrow> cli_error + ClientOptions" where
  "client_request num args rawArgs = (case findUnknownFlag rawArgs clientArgsDef of
     Some t \<Rightarrow> Inl (UnknownOption t)
   | None \<Rightarrow>
       if ca_udp args \<and> ca_ws args then Inl UdpAndWs
       else
         andThen (parsePort num (ca_port args) rawArgs) (\<lambda>port.
         andThen (parseIntArg num (ca_time args) ''time'' 1 (negativeHintFor ''time'' rawArgs [js ''-t'', js ''--time''])) (\<lambda>duration.
         andThen (parseIntArg num (ca_parallel args) ''parallel'' 1 (negativeHintFor ''parallel'' rawArgs [js ''-P'', js ''--parallel''])) (\<lambda>parallel.
         andThen (parseIntArg num (ca_interval args) ''interval'' 0 (negativeHintFor ''interval'' rawArgs [js ''-i'', js ''--interval''])) (\<lambda>intervalSec.
         andThen (optional_size parseByteSize ''len'' (ca_len args)) (\<lambda>len.
         andThen (optional_size parseBandwidth ''bandwidth'' (ca_bandwidth args)) (\<lambda>bandwidth.
           Inr \<lparr>op_port = Some port, op_transport = Some (if ca_ws args then WsTransport else TcpTransport),
                op_udp = Some (ca_udp args), op_reverse = Some (ca_reverse args), op_duration = Some (of_int duration),
                op_parallel = Some parallel, op_len = map_option size_int len, op_bandwidth = bandwidth,
                op_interval = Some (of_int intervalSec), op_onInterval = True\<rparr>)))))))"

section \<open>Reports\<close>

definition val_json :: "js_val \<Rightarrow> json" where
  "val_json v = (case v of None \<Rightarrow> JNull | Some x \<Rightarrow> num_json x)"

definition val_text :: "(rat \<Rightarrow> js_string) \<Rightarrow> js_val \<Rightarrow> js_string" where
  "val_text num v = (case v of
     None \<Rightarrow> js ''NaN''
   | Some (Inf neg) \<Rightarrow> if neg then js ''-Infinity'' else js ''Infinity''
   | Some (Fin x) \<Rightarrow> num x)"

definition interval_json :: "IntervalReport \<Rightarrow> json" where
  "interval_json i = JObj [(js ''sum'', JObj [(js ''start'', JNum (ir_start i)), (js ''end'', JNum (ir_end i)),
     (js ''bytes'', JNum (of_nat (ir_bytes i))), (js ''bits_per_second'', JNum (ir_bitsPerSecond i))])]"

definition total_json :: "js_val \<Rightarrow> js_val \<Rightarrow> rat \<Rightarrow> json" where
  "total_json bytes bps seconds = JObj [(js ''bytes'', val_json bytes), (js ''bits_per_second'', val_json bps), (js ''seconds'', JNum seconds)]"

definition toJson :: "TestResult \<Rightarrow> IntervalReport list \<Rightarrow> json" where
  "toJson r intervals = JObj
     [(js ''start'', JObj [(js ''version'', JStr (js ''netsu-'' @ VERSION)),
        (js ''test_start'', JObj [(js ''protocol'', JStr (if re_udp r then js ''UDP'' else js ''TCP'')),
           (js ''reverse'', JNum (if re_reverse r then 1 else 0))])]),
      (js ''intervals'', JArr (map interval_json intervals)),
      (js ''end'', JObj ([(js ''sum_sent'', total_json (re_sentBytes r) (re_sendBitsPerSecond r) (re_durationSeconds r)),
        (js ''sum_received'', total_json (re_receivedBytes r) (re_receiveBitsPerSecond r) (re_durationSeconds r))]
        @ (case re_udpStats r of None \<Rightarrow> []
           | Some u \<Rightarrow> [(js ''sum'', JObj [(js ''jitter_ms'', val_json (ud_jitterMs u)), (js ''lost_packets'', val_json (ud_lost u)),
               (js ''packets'', val_json (ud_packets u)), (js ''lost_percent'', val_json (ud_lostPercent u))])])))]"

definition summary_line :: "(rat \<Rightarrow> js_string) \<Rightarrow> rat \<Rightarrow> js_val \<Rightarrow> js_val \<Rightarrow> string \<Rightarrow> js_string" where
  "summary_line num dur bytes bps who =
     js ''[SUM]   0.00-'' @ toFixed num 2 (Some (Fin dur)) @ js '' sec  '' @ padStart 12 32 (formatBytes num bytes) @ js ''  ''
     @ padStart 14 32 (formatBits num bps) @ js ''  '' @ js who"

definition printSummary :: "(rat \<Rightarrow> js_string) \<Rightarrow> TestResult \<Rightarrow> js_string list" where
  "printSummary num r =
     [js ''- - - - - - - - - - - - - - - - - - - - - - - - -'',
      summary_line num (re_durationSeconds r) (re_sentBytes r) (re_sendBitsPerSecond r) ''sender'',
      summary_line num (re_durationSeconds r) (re_receivedBytes r) (re_receiveBitsPerSecond r) ''receiver'']
     @ (case re_udpStats r of None \<Rightarrow> []
        | Some u \<Rightarrow> [js ''[SUM] jitter '' @ toFixed num 3 (ud_jitterMs u) @ js '' ms, lost '' @ val_text num (ud_lost u) @ js ''/''
             @ val_text num (ud_packets u) @ js '' ('' @ toFixed num 2 (ud_lostPercent u) @ js ''%)''])"

text \<open>\<open>run\<close> is the test: the interval reports it makes, and its outcome or the message of its error.\<close>

definition clientCmd :: "(rat \<Rightarrow> js_string) \<Rightarrow> client_args \<Rightarrow> js_string list
    \<Rightarrow> (ClientOptions \<Rightarrow> IntervalReport list \<times> (js_string + TestResult)) \<Rightarrow> cli_output" where
  "clientCmd num args rawArgs run =
     (case client_request num args rawArgs of
        Inl e \<Rightarrow> \<lparr>out_stdout = [], out_stderr = [js ''netsu client: '' @ describeError e], out_exitCode = 1\<rparr>
      | Inr opts \<Rightarrow>
          (let (intervals, outcome) = run opts; lines = (if ca_json args then [] else map (intervalLine num) intervals) in
           case outcome of
             Inl m \<Rightarrow> \<lparr>out_stdout = lines, out_stderr = [js ''netsu client: '' @ describeError (Failed m)], out_exitCode = 1\<rparr>
           | Inr r \<Rightarrow> \<lparr>out_stdout = lines @ (if ca_json args then [JSON_stringify num (toJson r intervals)] else printSummary num r),
                        out_stderr = [], out_exitCode = 0\<rparr>))"

text \<open>Where the usage text goes: with \<open>--json\<close> on the command line, not to the standard output.\<close>

definition showUsage :: "js_string list \<Rightarrow> js_string \<Rightarrow> cli_output" where
  "showUsage argv usage =
     (let jsonMode = list_ex (\<lambda>a. a = js ''--json'' \<or> take 7 a = js ''--json='') argv in
      if jsonMode then \<lparr>out_stdout = [], out_stderr = [usage], out_exitCode = 0\<rparr>
      else \<lparr>out_stdout = [usage], out_stderr = [], out_exitCode = 0\<rparr>)"

section \<open>Integer arguments\<close>

lemma round53_small: "n < 2 ^ 53 \<Longrightarrow> round53 n = n"
  by (simp add: round53_def floorlog_leI Let_def)

lemma int_digits_parts:
  shows "0 \<le> v \<Longrightarrow> strip_char 45 (int_digits v) = None \<and> strip_char 43 (int_digits v) = None"
    and "v < 0 \<Longrightarrow> strip_char 45 (int_digits v) = Some (nat_digits (nat (- v)))"
proof -
  obtain c cs where "nat_digits (nat v) = c # cs" by (cases "nat_digits (nat v)") simp_all
  with nat_digits_digit [of "nat v"] show "0 \<le> v \<Longrightarrow> strip_char 45 (int_digits v) = None \<and> strip_char 43 (int_digits v) = None"
    by (auto simp: int_digits_def strip_char_def is_digit_def)
  show "v < 0 \<Longrightarrow> strip_char 45 (int_digits v) = Some (nat_digits (nat (- v)))"
    by (simp add: int_digits_def strip_char_def)
qed

lemma parse_int_digits:
  assumes "\<bar>v\<bar> < 2 ^ 53"
  shows "parse_int (int_digits v) = Some v"
proof -
  have n: "nat \<bar>v\<bar> < 2 ^ 53" using assms by (simp add: nat_less_iff)
  then have "nat \<bar>v\<bar> < 2 ^ 1024" by (rule less_le_trans) simp
  with n int_digits_parts [of v] show ?thesis
    by (cases "v < 0") (auto simp: parse_int_def int_digits_def digit_strip [OF nat_digits_digit] round53_small Let_def)
qed

lemma int_digits_nonempty: "int_digits v \<noteq> []"
  by (simp add: int_digits_def)

lemma prints_int: "prints_integers num \<Longrightarrow> \<bar>v\<bar> < 2 ^ 53 \<Longrightarrow> num (of_int v) = int_digits v"
proof -
  assume "prints_integers num" and v: "\<bar>v\<bar> < 2 ^ 53"
  moreover from v have "\<bar>v\<bar> < 10 ^ 21" by (rule less_le_trans) simp
  ultimately show ?thesis by (simp only: prints_integers_def)
qed

lemma parseIntArg_least: "parseIntArg num raw name least hint = Inr v \<Longrightarrow> least \<le> v"
  by (auto simp: parseIntArg_def Let_def split: option.splits if_splits)

lemma parseIntArg_iff:
  assumes "prints_integers num" and "\<bar>v\<bar> < 2 ^ 53"
  shows "parseIntArg num (ArgStr s) name least hint = Inr v \<longleftrightarrow> js_trim s = int_digits v \<and> least \<le> v"
  using parse_int_digits [OF assms(2)] prints_int [OF assms] int_digits_nonempty [of v]
  by (auto simp: parseIntArg_def requireSingleValue_def Let_def split: option.splits)

section \<open>Unknown flags\<close>

text \<open>A token is fine after the token before it: no flag, the value of a string flag, or known.\<close>

definition token_fine :: "js_string list \<Rightarrow> js_string list \<Rightarrow> js_string option \<times> js_string \<Rightarrow> bool" where
  "token_fine known sfs = (\<lambda>(prev, t). \<not> flag_shaped t \<or> (case prev of None \<Rightarrow> False | Some p \<Rightarrow> p \<in> set sfs)
     \<or> takeWhile (\<lambda>c. c \<noteq> 61) t \<in> set known)"

lemma find_unknown_None:
  "find_unknown known sfs prev ts = None \<longleftrightarrow> list_all (token_fine known sfs) (zip (prev # map Some ts) ts)"
  by (induction ts arbitrary: prev) (auto simp: token_fine_def)

lemma find_unknown_Some:
  "find_unknown known sfs prev ts = Some t \<Longrightarrow> \<exists>xs ys. ts = xs @ t # ys \<and> find_unknown known sfs prev xs = None
     \<and> \<not> token_fine known sfs (last (prev # map Some xs), t)"
proof (induction ts arbitrary: prev)
  case (Cons u ts)
  show ?case
  proof (cases "token_fine known sfs (prev, u)")
    case True
    then have c: "find_unknown known sfs prev (u # vs) = find_unknown known sfs (Some u) vs" for vs by (simp add: token_fine_def)
    with Cons obtain xs ys where "ts = xs @ t # ys" "find_unknown known sfs (Some u) xs = None"
      "\<not> token_fine known sfs (last (Some u # map Some xs), t)" by (metis (no_types))
    with c show ?thesis by (intro exI [of _ "u # xs"] exI [of _ ys]) (simp del: find_unknown.simps)
  next
    case False
    with Cons.prems show ?thesis by (intro exI [of _ "[]"] exI [of _ ts]) (auto simp: token_fine_def split: if_splits)
  qed
qed simp

section \<open>The client command\<close>

lemma parsePort_range: "parsePort num raw rawArgs = Inr v \<Longrightarrow> 1 \<le> v \<and> v \<le> 65535"
  by (auto simp: parsePort_def dest: parseIntArg_least split: if_splits)

lemma optional_size_Some:
  "optional_size parse name (Some (ArgStr s)) = Inr x \<longleftrightarrow> (\<exists>y. parse s = Inr y \<and> x = Some y)"
  by (auto simp: optional_size_def requireSingleValue_def split: sum.splits)

text \<open>Everything the library is called with is in range.\<close>

definition options_in_range :: "ClientOptions \<Rightarrow> bool" where
  "options_in_range o' \<longleftrightarrow> (\<exists>port duration parallel interval. op_port o' = Some port \<and> 1 \<le> port \<and> port \<le> 65535
     \<and> op_duration o' = Some (of_int duration) \<and> 1 \<le> duration \<and> op_parallel o' = Some parallel \<and> 1 \<le> parallel
     \<and> op_interval o' = Some (of_int interval) \<and> 0 \<le> interval)
     \<and> \<not> (op_udp o' = Some True \<and> op_transport o' = Some WsTransport)"

lemma client_request_range: "client_request num args rawArgs = Inr o' \<Longrightarrow> options_in_range o'"
  by (auto simp: client_request_def options_in_range_def dest!: parsePort_range parseIntArg_least split: option.splits if_splits)

lemma client_request_len:
  assumes "client_request num args rawArgs = Inr o'" and "ca_len args = Some (ArgStr s)" and "parseByteSize s = Inr (Fin v)"
  shows "\<exists>l \<ge> 1. v = of_int l \<and> op_len o' = Some l"
  using assms(1,2) parseByteSize_range [OF assms(3)] assms(3)
  by (auto simp: client_request_def optional_size_Some size_int_def split: option.splits if_splits)



text \<open>\<open>console.log\<close> ends each line with a line feed.\<close>

definition console_text :: "js_string list \<Rightarrow> js_string" where
  "console_text ls = concat (map (\<lambda>l. l @ [10]) ls)"

lemma JSON_parse_line: "json_ok num j \<Longrightarrow> JSON_parse (JSON_stringify num j @ [10]) = Some j"
  using printed_okD [OF stringify_printed, of num j "Suc (Suc (length (JSON_stringify num j)))" "[10]"]
  by (simp add: JSON_parse_def num_end_def num_char_def is_digit_def)

text \<open>The first signal starts the shutdown; there is never a second call.\<close>

lemma shutdown_once:
  assumes "s = run_steps shutdown_step new_shutdown es"
  shows "sd_calls s = (if Signal \<in> set es then 1 else 0) \<and> (sd_resolved s \<longrightarrow> Signal \<in> set es)"
proof -
  have "sd_calls s = (if Signal \<in> set es then 1 else 0) \<and> (sd_handled s \<longleftrightarrow> Signal \<in> set es) \<and> (sd_resolved s \<longrightarrow> Signal \<in> set es)"
    unfolding assms
  proof (induction es rule: rev_induct)
    case (snoc e es)
    then show ?case by (cases e) auto
  qed (simp add: new_shutdown_def)
  then show ?thesis by simp
qed

end
