(* ===== verification/Matrix.thy ===== *)
theory Matrix
  imports Cli
begin

text \<open>
  \<open>interop/run-matrix.ts\<close>: the matrix that runs every client against every server and judges whether the
  two sides agree.  A process is what it leaves behind (exit code and output); \<open>coerce\<close> is \<open>ToNumber\<close> on
  JSON values that are not numbers.
\<close>

section \<open>Cells\<close>

datatype impl = NetsuTs | NetsuRs | Iperf3
datatype cell_transport = CellTcp | CellUdp | CellWs

record cell =
  ce_client :: impl
  ce_server :: impl
  ce_transport :: cell_transport
  ce_reverse :: bool

definition DURATION :: nat where "DURATION = 3"
definition UDP_BANDWIDTH :: js_string where "UDP_BANDWIDTH = js ''20M''"
definition TCP_BYTE_TOLERANCE :: rat where "TCP_BYTE_TOLERANCE = 2 / 100"
definition WS_BYTE_TOLERANCE :: rat where "WS_BYTE_TOLERANCE = 2 / 10"
definition ABSURD_BPS :: rat where "ABSURD_BPS = 10 ^ 12"

definition COMPOSE :: "js_string list" where
  "COMPOSE = [js ''compose'', js ''-f'', js ''interop/docker-compose.yml'']"

definition impl_text :: "impl \<Rightarrow> js_string" where
  "impl_text i = (case i of NetsuTs \<Rightarrow> js ''netsu-ts'' | NetsuRs \<Rightarrow> js ''netsu-rs'' | Iperf3 \<Rightarrow> js ''iperf3'')"

definition cell_transport_text :: "cell_transport \<Rightarrow> js_string" where
  "cell_transport_text t = (case t of CellTcp \<Rightarrow> js ''tcp'' | CellUdp \<Rightarrow> js ''udp'' | CellWs \<Rightarrow> js ''ws'')"

definition ws_flag :: "cell_transport \<Rightarrow> js_string list" where
  "ws_flag t = (if t = CellWs then [js ''--ws''] else [])"

definition udp_flags :: "cell_transport \<Rightarrow> js_string list" where
  "udp_flags t = (if t = CellUdp then [js ''-u'', js ''-b'', UDP_BANDWIDTH] else [])"

definition matrix_serverCmd :: "impl \<Rightarrow> cell_transport \<Rightarrow> nat \<Rightarrow> js_string list" where
  "matrix_serverCmd i t port = (case i of
     NetsuTs \<Rightarrow> [js ''bun'', js ''dist/cli.mjs'', js ''server'', js ''-p'', nat_digits port] @ ws_flag t
   | NetsuRs \<Rightarrow> [js ''/usr/local/bin/netsu'', js ''server'', js ''-p'', nat_digits port] @ ws_flag t
   | Iperf3 \<Rightarrow> [js ''iperf3'', js ''-s'', js ''-p'', nat_digits port, js ''--forceflush''])"

definition netsu_client_args :: "cell_transport \<Rightarrow> js_string \<Rightarrow> nat \<Rightarrow> bool \<Rightarrow> js_string list" where
  "netsu_client_args t host port reverse = [host, js ''-p'', nat_digits port, js ''-t'', nat_digits DURATION]
     @ udp_flags t @ ws_flag t @ (if reverse then [js ''-R''] else []) @ [js ''--json'']"

definition matrix_clientCmd :: "impl \<Rightarrow> cell_transport \<Rightarrow> js_string \<Rightarrow> nat \<Rightarrow> bool \<Rightarrow> js_string list" where
  "matrix_clientCmd i t host port reverse = (case i of
     NetsuTs \<Rightarrow> [js ''bun'', js ''dist/cli.mjs'', js ''client''] @ netsu_client_args t host port reverse
   | NetsuRs \<Rightarrow> [js ''/usr/local/bin/netsu'', js ''client''] @ netsu_client_args t host port reverse
   | Iperf3 \<Rightarrow> [js ''iperf3'', js ''-c'', host, js ''-p'', nat_digits port, js ''-t'', nat_digits DURATION]
       @ udp_flags t @ (if reverse then [js ''-R''] else []) @ [js ''--json''])"

definition buildMatrix :: "cell list" where
  "buildMatrix = concat (map (\<lambda>c. concat (map (\<lambda>s. concat (map (\<lambda>t. map (\<lambda>r.
     \<lparr>ce_client = c, ce_server = s, ce_transport = t, ce_reverse = r\<rparr>) [False, True]) [CellTcp, CellUdp, CellWs]))
     [NetsuTs, NetsuRs, Iperf3])) [NetsuTs, NetsuRs, Iperf3])"

definition skipReason :: "cell \<Rightarrow> js_string option" where
  "skipReason c =
     (if ce_client c = Iperf3 \<and> ce_server c = Iperf3 then Some (js ''iperf3 vs iperf3 proves nothing about netsu (manual control case)'')
      else if ce_transport c = CellWs \<and> (ce_client c = Iperf3 \<or> ce_server c = Iperf3)
      then Some (js ''official iperf3 cannot speak the netsu websocket extension'')
      else None)"

definition label_of :: "cell \<Rightarrow> js_string" where
  "label_of c = impl_text (ce_client c) @ js '' -> '' @ impl_text (ce_server c) @ js '' ['' @ cell_transport_text (ce_transport c)
     @ (if ce_reverse c then js '' -R'' else []) @ js '']''"

section \<open>Reading a report\<close>

text \<open>Optional chaining, \<open>??\<close> and truth of JSON values; \<open>undefined\<close> is \<open>None\<close>.\<close>

definition opt_field :: "string \<Rightarrow> json option \<Rightarrow> json option" where
  "opt_field k x = (case x of None \<Rightarrow> None | Some j \<Rightarrow> if j = JNull then None else json_field k j)"

definition coalesce :: "json option \<Rightarrow> json \<Rightarrow> json" where
  "coalesce x d = (case x of None \<Rightarrow> d | Some j \<Rightarrow> if j = JNull then d else j)"

definition truthy :: "json option \<Rightarrow> bool" where
  "truthy x = (case x of None \<Rightarrow> False | Some j \<Rightarrow> j \<noteq> JNull \<and> j \<noteq> JBool False \<and> j \<noteq> JNum 0 \<and> j \<noteq> JStr [])"

record report =
  rp_sent :: json
  rp_received :: json
  rp_bps :: json

text \<open>\<open>None\<close>: reading a field of \<open>null\<close> throws.\<close>

definition parseResult :: "json \<Rightarrow> report option" where
  "parseResult j =
     (if j = JNull then None
      else
        let end_obj = coalesce (json_field ''end'' j) (JObj []);
            total = json_field ''sum'' end_obj; sum_sent = json_field ''sum_sent'' end_obj; sum_received = json_field ''sum_received'' end_obj
        in if truthy total \<and> \<not> truthy sum_sent
           then (let b = coalesce (opt_field ''bytes'' total) (JNum 0) in
                 Some \<lparr>rp_sent = b, rp_received = b, rp_bps = coalesce (opt_field ''bits_per_second'' total) (JNum 0)\<rparr>)
           else Some \<lparr>rp_sent = coalesce (opt_field ''bytes'' sum_sent) (JNum 0),
                      rp_received = coalesce (opt_field ''bytes'' sum_received) (JNum 0),
                      rp_bps = coalesce (opt_field ''bits_per_second'' sum_sent)
                        (coalesce (opt_field ''bits_per_second'' sum_received) (JNum 0))\<rparr>)"

definition to_number :: "(json \<Rightarrow> js_val) \<Rightarrow> json \<Rightarrow> js_val" where
  "to_number coerce j = (case j of JNum q \<Rightarrow> Some (Fin q) | JInf n \<Rightarrow> Some (Inf n) | _ \<Rightarrow> coerce j)"

text \<open>Comparisons with NaN are false.\<close>

definition val_gt :: "js_val \<Rightarrow> rat \<Rightarrow> bool" where
  "val_gt v q = (case v of None \<Rightarrow> False | Some x \<Rightarrow> \<not> num_le x (Fin q))"

definition val_le :: "js_val \<Rightarrow> rat \<Rightarrow> bool" where
  "val_le v q = (case v of None \<Rightarrow> False | Some x \<Rightarrow> num_le x (Fin q))"

text \<open>\<open>Math.abs(a - b) / Math.max(a, b)\<close> of positive numbers; with an infinity it is not a number.\<close>

definition drift :: "js_val \<Rightarrow> js_val \<Rightarrow> js_val" where
  "drift a b = (case (a, b) of (Some (Fin x), Some (Fin y)) \<Rightarrow> Some (Fin (\<bar>x - y\<bar> / max x y)) | _ \<Rightarrow> None)"

section \<open>Judging a cell\<close>

datatype fail_reason =
  ClientExit int js_string
| StdoutNotJson js_string
| ZeroTransfer js_val js_val
| ImplausibleRate js_val
| BytesDisagree js_val js_val js_val

datatype verdict = Pass js_val js_val js_val | Fail fail_reason | Skip js_string

record client_process =
  cp_code :: int
  cp_stdout :: js_string
  cp_stderr :: js_string
  cp_serverErr :: js_string

definition tolerance_of :: "cell_transport \<Rightarrow> rat" where
  "tolerance_of t = (if t = CellWs then WS_BYTE_TOLERANCE else TCP_BYTE_TOLERANCE)"

definition judge :: "(json \<Rightarrow> js_val) \<Rightarrow> cell \<Rightarrow> client_process \<Rightarrow> verdict" where
  "judge coerce c p =
     (if cp_code p \<noteq> 0 then Fail (ClientExit (cp_code p) (take 300 (if cp_stderr p \<noteq> [] then cp_stderr p else cp_serverErr p)))
      else case Option.bind (JSON_parse (cp_stdout p)) parseResult of
        None \<Rightarrow> Fail (StdoutNotJson (take 200 (cp_stdout p)))
      | Some r \<Rightarrow>
          (let sent = to_number coerce (rp_sent r); received = to_number coerce (rp_received r); bps = to_number coerce (rp_bps r) in
           if val_le sent 0 \<or> val_le received 0 then Fail (ZeroTransfer sent received)
           else if val_le bps 0 \<or> val_gt bps ABSURD_BPS then Fail (ImplausibleRate bps)
           else if ce_transport c \<noteq> CellUdp \<and> val_gt (drift sent received) (tolerance_of (ce_transport c))
           then Fail (BytesDisagree (drift sent received) sent received)
           else Pass sent received bps))"

section \<open>The run\<close>

text \<open>\<open>env port c\<close> is what running the cell on that port leaves; every cell that runs takes a fresh port.\<close>

record matrix_run =
  mx_port :: nat
  mx_results :: "(cell \<times> verdict) list"
  mx_ports :: "nat list"

definition new_run :: matrix_run where
  "new_run = \<lparr>mx_port = 5401, mx_results = [], mx_ports = []\<rparr>"

definition matrix_step :: "(json \<Rightarrow> js_val) \<Rightarrow> (nat \<Rightarrow> cell \<Rightarrow> client_process) \<Rightarrow> matrix_run \<Rightarrow> cell \<Rightarrow> matrix_run" where
  "matrix_step coerce env m c = (case skipReason c of
     Some why \<Rightarrow> m\<lparr>mx_results := mx_results m @ [(c, Skip why)]\<rparr>
   | None \<Rightarrow> m\<lparr>mx_port := mx_port m + 1, mx_ports := mx_ports m @ [mx_port m],
       mx_results := mx_results m @ [(c, judge coerce c (env (mx_port m) c))]\<rparr>)"

definition is_fail :: "verdict \<Rightarrow> bool" where
  "is_fail v = (case v of Fail r \<Rightarrow> True | _ \<Rightarrow> False)"

definition matrix_main :: "(json \<Rightarrow> js_val) \<Rightarrow> (nat \<Rightarrow> cell \<Rightarrow> client_process) \<Rightarrow> matrix_run \<times> nat" where
  "matrix_main coerce env = (let m = run_steps (matrix_step coerce env) new_run buildMatrix in
     (m, if list_ex (is_fail \<circ> snd) (mx_results m) then 1 else 0))"

section \<open>Every cell once\<close>

lemma matrix_step_results: "map fst (mx_results (run_steps (matrix_step coerce env) m cs)) = map fst (mx_results m) @ cs"
  by (induction cs arbitrary: m) (simp_all add: matrix_step_def split: option.split)

definition runs :: "cell \<Rightarrow> bool" where
  "runs c \<longleftrightarrow> skipReason c = None"

lemma matrix_step_ports:
  "mx_ports (run_steps (matrix_step coerce env) m cs) = mx_ports m @ [mx_port m..<mx_port m + length (filter runs cs)]"
proof (induction cs arbitrary: m)
  case (Cons c cs)
  show ?case
  proof (cases "runs c")
    case True
    then have s: "skipReason c = None" by (simp add: runs_def)
    have "[mx_port m..<mx_port m + length (filter runs (c # cs))] = mx_port m # [Suc (mx_port m)..<Suc (mx_port m) + length (filter runs cs)]"
      using True by (subst upt_conv_Cons) simp_all
    with Cons [of "matrix_step coerce env m c"] s show ?thesis by (simp add: matrix_step_def del: upt_Suc)
  next
    case False
    with Cons [of "matrix_step coerce env m c"] show ?thesis by (auto simp: matrix_step_def runs_def)
  qed
qed simp

text \<open>The verdict of a cell is the reason it is skipped or the judgement of its run on one of the ports.\<close>

definition verdict_ok :: "(json \<Rightarrow> js_val) \<Rightarrow> (nat \<Rightarrow> cell \<Rightarrow> client_process) \<Rightarrow> nat list \<Rightarrow> cell \<times> verdict \<Rightarrow> bool" where
  "verdict_ok coerce env ports = (\<lambda>(c, v). case skipReason c of
     Some why \<Rightarrow> v = Skip why | None \<Rightarrow> list_ex (\<lambda>p. v = judge coerce c (env p c)) ports)"

lemma matrix_step_verdicts:
  "list_all (verdict_ok coerce env (mx_ports m)) (mx_results m) \<Longrightarrow>
   list_all (verdict_ok coerce env (mx_ports (run_steps (matrix_step coerce env) m cs))) (mx_results (run_steps (matrix_step coerce env) m cs))"
proof (induction cs arbitrary: m)
  case (Cons c cs)
  have mono: "verdict_ok coerce env (ps @ qs) cv" if "verdict_ok coerce env ps cv" for ps qs cv
    using that by (auto simp: verdict_ok_def split: option.splits prod.splits)
  have "list_all (verdict_ok coerce env (mx_ports (matrix_step coerce env m c))) (mx_results (matrix_step coerce env m c))"
    using Cons.prems mono by (cases "skipReason c") (auto simp: matrix_step_def list_all_iff verdict_ok_def)
  then show ?case using Cons.IH by simp
qed simp

lemma buildMatrix_all: "distinct buildMatrix \<and> length buildMatrix = 54 \<and> length (filter runs buildMatrix) = 40"
  by (simp add: buildMatrix_def runs_def skipReason_def)

lemma cell_in_matrix: "c \<in> set buildMatrix"
  by (cases c, cases "ce_client c"; cases "ce_server c"; cases "ce_transport c"; cases "ce_reverse c") (simp_all add: buildMatrix_def)

text \<open>
  The matrix runs every combination once.  Whatever the processes do, the results name
  each of the 54 combinations of client, server, transport and direction exactly once; the 40
  that are not skipped ran each on its own port, and their verdict is the judgement of that
  run; the exit code is 0 exactly when no cell failed.
\<close>

theorem matrix_runs_every_cell:
  assumes "(m, code) = matrix_main coerce env"
  shows "distinct (map fst (mx_results m)) \<and> (\<forall>c. c \<in> set (map fst (mx_results m))) \<and> length (mx_results m) = 54
    \<and> mx_ports m = [5401..<5441] \<and> list_all (verdict_ok coerce env (mx_ports m)) (mx_results m)
    \<and> (code = 0 \<longleftrightarrow> \<not> list_ex (is_fail \<circ> snd) (mx_results m))"
proof -
  have m: "m = run_steps (matrix_step coerce env) new_run buildMatrix" and code: "code = (if list_ex (is_fail \<circ> snd) (mx_results m) then 1 else 0)"
    using assms by (simp_all add: matrix_main_def Let_def)
  have r: "map fst (mx_results m) = buildMatrix" unfolding m matrix_step_results by (simp add: new_run_def)
  have "mx_ports m = [5401..<5401 + 40]" unfolding m matrix_step_ports using buildMatrix_all by (simp add: new_run_def)
  moreover have "list_all (verdict_ok coerce env (mx_ports m)) (mx_results m)"
    unfolding m by (rule matrix_step_verdicts) (simp add: new_run_def)
  moreover have "length (mx_results m) = 54" using r buildMatrix_all by (metis length_map)
  moreover have "code = 0 \<longleftrightarrow> \<not> list_ex (is_fail \<circ> snd) (mx_results m)" using code by simp
  ultimately show ?thesis using r buildMatrix_all cell_in_matrix by simp
qed

theorem matrix_runs_every_cell_witness:
  "mx_ports (fst (matrix_main (\<lambda>_. None) (\<lambda>_ _. \<lparr>cp_code = 1, cp_stdout = [], cp_stderr = [], cp_serverErr = []\<rparr>))) = [5401..<5441]"
  using matrix_runs_every_cell [OF surjective_pairing [symmetric]] by blast

section \<open>The report of a netsu client\<close>

lemma parseResult_toJson:
  assumes "re_sentBytes r = Some (Fin a)" and "re_receivedBytes r = Some (Fin b)" and "re_sendBitsPerSecond r = Some (Fin q)"
  shows "parseResult (toJson r reports) = Some \<lparr>rp_sent = JNum a, rp_received = JNum b, rp_bps = JNum q\<rparr>"
  using assms
  by (simp add: parseResult_def toJson_def total_json_def val_json_def coalesce_def opt_field_def truthy_def js_def Let_def)

text \<open>What the matrix accepts of a transfer of \<open>a\<close> bytes sent and \<open>b\<close> received.\<close>

definition plausible :: "cell_transport \<Rightarrow> rat \<Rightarrow> rat \<Rightarrow> rat \<Rightarrow> bool" where
  "plausible t a b q \<longleftrightarrow> 0 < a \<and> 0 < b \<and> 0 < q \<and> q \<le> 10 ^ 12 \<and> (t = CellUdp \<or> \<bar>a - b\<bar> \<le> tolerance_of t * max a b)"

lemma drift_le: "0 < a \<Longrightarrow> 0 < b \<Longrightarrow> \<not> val_gt (drift (Some (Fin a)) (Some (Fin b))) tol \<longleftrightarrow> \<bar>a - b\<bar> \<le> tol * max a b"
  using less_max_iff_disj [of 0 a b] by (simp add: drift_def val_gt_def divide_le_eq)

lemma judge_report:
  assumes "cp_code p = 0" and "Option.bind (JSON_parse (cp_stdout p)) parseResult = Some \<lparr>rp_sent = JNum a, rp_received = JNum b, rp_bps = JNum q\<rparr>"
  shows "judge coerce c p = Pass (Some (Fin a)) (Some (Fin b)) (Some (Fin q)) \<longleftrightarrow> plausible (ce_transport c) a b q"
    and "is_fail (judge coerce c p) \<longleftrightarrow> \<not> plausible (ce_transport c) a b q"
  using assms drift_le [of a b "tolerance_of (ce_transport c)"]
  by (auto simp: judge_def to_number_def val_le_def val_gt_def plausible_def ABSURD_BPS_def is_fail_def Let_def)

text \<open>The command lines of the matrix have no flag the client command does not know.\<close>

lemma nat_digits_no_dash: "\<not> flag_shaped (nat_digits n)"
proof -
  obtain c cs where "nat_digits n = c # cs" by (cases "nat_digits n") simp_all
  with nat_digits_digit [of n] show ?thesis by (auto simp: flag_shaped_def starts_dash_def strip_char_def is_digit_def)
qed

lemma flag_shaped_Cons: "c \<noteq> 45 \<Longrightarrow> \<not> flag_shaped (c # cs)"
  by (simp add: flag_shaped_def starts_dash_def strip_char_def)

lemma matrix_flags_known: "findUnknownFlag (netsu_client_args t (impl_text i) port reverse) clientArgsDef = None"
proof -
  have "list_all (token_fine (known_flags clientArgsDef) (string_flags clientArgsDef))
      (zip (None # map Some (netsu_client_args t (impl_text i) port reverse)) (netsu_client_args t (impl_text i) port reverse))"
    by (cases t; cases i; cases reverse)
      (simp_all add: netsu_client_args_def udp_flags_def ws_flag_def token_fine_def nat_digits_no_dash impl_text_def UDP_BANDWIDTH_def
        flag_shaped_Cons js_def known_flags_def string_flags_def flag_tokens_def clientArgsDef_def)
  then show ?thesis by (simp add: findUnknownFlag_def find_unknown_None)
qed

text \<open>
  C40: the matrix reads what the client measured.  When a client command with \<open>--json\<close> succeeds
  with \<open>a\<close> bytes sent, \<open>b\<close> received and a rate of \<open>q\<close>, the cell that runs it passes exactly when both
  amounts and the rate are positive, the rate is at most \<open>10 ^ 12\<close> and, except for UDP, the amounts differ by at
  most the tolerance of the transport; the verdict carries these very numbers, and otherwise
  the cell fails.
\<close>

theorem netsu_report_judged:
  assumes "ca_json args" and "client_request num args rawArgs = Inr o'" and "run o' = (reports, Inr r)"
    and "re_sentBytes r = Some (Fin a)" and "re_receivedBytes r = Some (Fin b)" and "re_sendBitsPerSecond r = Some (Fin q)"
    and "json_ok num (toJson r reports)" and "out = clientCmd num args rawArgs run"
    and "p = \<lparr>cp_code = int (out_exitCode out), cp_stdout = console_text (out_stdout out), cp_stderr = console_text (out_stderr out), cp_serverErr = e\<rparr>"
  shows "(judge coerce c p = Pass (Some (Fin a)) (Some (Fin b)) (Some (Fin q)) \<longleftrightarrow> plausible (ce_transport c) a b q)
    \<and> (is_fail (judge coerce c p) \<longleftrightarrow> \<not> plausible (ce_transport c) a b q)"
proof -
  have "out_exitCode out = 0" "out_stdout out = [JSON_stringify num (toJson r reports)]"
    using assms(1-3) by (simp_all add: assms(8) clientCmd_def)
  then have "cp_code p = 0" "Option.bind (JSON_parse (cp_stdout p)) parseResult = Some \<lparr>rp_sent = JNum a, rp_received = JNum b, rp_bps = JNum q\<rparr>"
    using JSON_parse_line [OF assms(7)] parseResult_toJson [OF assms(4-6)] by (simp_all add: assms(9) console_text_def)
  then show ?thesis using judge_report by blast
qed

definition witness_result :: TestResult where
  "witness_result = \<lparr>re_udp = False, re_reverse = False, re_durationSeconds = 8, re_sentBytes = Some (Fin 100), re_receivedBytes = Some (Fin 99),
     re_sendBitsPerSecond = Some (Fin 100), re_receiveBitsPerSecond = Some (Fin 99), re_local = \<lparr>er_senderHasRetransmits = Fin 0, er_streams = []\<rparr>,
     re_remote = \<lparr>er_senderHasRetransmits = Fin 0, er_streams = []\<rparr>, re_udpStats = None\<rparr>"

definition witness_args :: client_args where
  "witness_args = \<lparr>ca_port = ArgStr (js ''5201''), ca_time = ArgStr (js ''10''), ca_udp = False, ca_ws = False, ca_parallel = ArgStr (js ''1''),
    ca_reverse = False, ca_bandwidth = None, ca_len = None, ca_interval = ArgStr (js ''1''), ca_json = True\<rparr>"

lemma witness_request: "\<exists>o'. client_request int_num witness_args [] = Inr o'"
proof -
  have d: "js_trim (js ''5201'') = int_digits 5201" "js_trim (js ''10'') = int_digits 10" "js_trim (js ''1'') = int_digits 1"
    by (simp_all add: js_trim_def js_space_def int_digits_def nat_digits.simps)
  have p: "prints_integers int_num" by (simp add: prints_integers_def int_num_def)
  have "parseIntArg int_num (ArgStr (js ''5201'')) n 1 h = Inr 5201" "parseIntArg int_num (ArgStr (js ''10'')) n 1 h = Inr 10"
    "parseIntArg int_num (ArgStr (js ''1'')) n 1 h = Inr 1" "parseIntArg int_num (ArgStr (js ''1'')) n 0 h = Inr 1" for n h
    using d by (simp_all add: parseIntArg_iff [OF p])
  then show ?thesis by (simp add: client_request_def witness_args_def findUnknownFlag_def parsePort_def optional_size_def)
qed

theorem netsu_report_judged_witness:
  "\<exists>out. out = clientCmd int_num witness_args [] (\<lambda>_. ([], Inr witness_result))
     \<and> judge (\<lambda>_. None) \<lparr>ce_client = NetsuTs, ce_server = NetsuRs, ce_transport = CellTcp, ce_reverse = False\<rparr>
         \<lparr>cp_code = int (out_exitCode out), cp_stdout = console_text (out_stdout out), cp_stderr = console_text (out_stderr out), cp_serverErr = []\<rparr>
       = Pass (Some (Fin 100)) (Some (Fin 99)) (Some (Fin 100))"
proof -
  obtain o' where o: "client_request int_num witness_args [] = Inr o'" using witness_request by blast
  have j: "json_ok int_num (toJson witness_result [])"
    by (simp add: toJson_def witness_result_def total_json_def val_json_def VERSION_def witness_numbers scalar_value_def)
  have a: "ca_json witness_args" by (simp add: witness_args_def)
  have r: "re_sentBytes witness_result = Some (Fin 100)" "re_receivedBytes witness_result = Some (Fin 99)"
    "re_sendBitsPerSecond witness_result = Some (Fin 100)" by (simp_all add: witness_result_def)
  have "plausible CellTcp 100 99 100" by (simp add: plausible_def tolerance_of_def TCP_BYTE_TOLERANCE_def)
  then show ?thesis
    using netsu_report_judged [OF a o _ r j refl refl, where run = "\<lambda>_. ([], Inr witness_result)" and coerce = "\<lambda>_. None" and e = "[]"
        and c = "\<lparr>ce_client = NetsuTs, ce_server = NetsuRs, ce_transport = CellTcp, ce_reverse = False\<rparr>"] by simp
qed

end
