(* ===== verification/BrowserQueue.thy ===== *)
theory BrowserQueue
  imports Framing
begin

text \<open>
  \<open>interop/transports/browser/browser-peer.js\<close>, the two queues of the browser peer.  An
  \<open>AsyncQueue\<close> hands values to the callers of \<open>next\<close>; a \<open>ByteQueue\<close> holds what arrived on the
  control channel and uses an \<open>AsyncQueue\<close> to wake its reader.  A call of \<open>next\<close> is named by a number, the
  promise of its waiter by the same number.  \<open>withTimeout\<close> races that promise with a timer: when the
  timer wins, the caller fails and the waiter stays in the queue.
\<close>

section \<open>Errors\<close>

text \<open>\<open>OtherError\<close>: any other exception (a \<open>SyntaxError\<close>, an error of the browser), which has no \<open>kind\<close>.\<close>

datatype js_error = NetsuBrowserError string js_string | OtherError js_string

fun error_kind :: "js_error \<Rightarrow> string option" where
  "error_kind (NetsuBrowserError kind message) = Some kind"
| "error_kind (OtherError message) = None"

definition setup_timeout :: "string \<Rightarrow> js_error" where
  "setup_timeout message = NetsuBrowserError ''setup_timeout'' (js message)"

definition queue_closed :: js_error where
  "queue_closed = NetsuBrowserError ''transport_closed'' (js ''queue closed'')"

section \<open>AsyncQueue\<close>

record 'a async_queue =
  aq_values :: "'a list"
  aq_waiters :: "nat list"
  aq_error :: "js_error option"
  aq_closed :: bool

text \<open>A promise that settles: the number of its call and the value or the error.\<close>

type_synonym 'a wake = "nat \<times> (js_error + 'a)"

definition new_queue :: "'a async_queue" where
  "new_queue = \<lparr>aq_values = [], aq_waiters = [], aq_error = None, aq_closed = False\<rparr>"

definition aq_push :: "'a \<Rightarrow> 'a async_queue \<Rightarrow> 'a async_queue \<times> 'a wake list" where
  "aq_push v q =
     (if aq_closed q then (q, [])
      else (case aq_waiters q of
        w # ws \<Rightarrow> (q\<lparr>aq_waiters := ws\<rparr>, [(w, Inr v)])
      | [] \<Rightarrow> (q\<lparr>aq_values := aq_values q @ [v]\<rparr>, [])))"

definition aq_fail :: "js_error \<Rightarrow> 'a async_queue \<Rightarrow> 'a async_queue \<times> 'a wake list" where
  "aq_fail e q =
     (if aq_closed q then (q, [])
      else (q\<lparr>aq_error := Some e, aq_closed := True, aq_waiters := []\<rparr>, map (\<lambda>w. (w, Inl e)) (aq_waiters q)))"

definition aq_close :: "'a async_queue \<Rightarrow> 'a async_queue \<times> 'a wake list" where
  "aq_close q =
     (if aq_closed q then (q, [])
      else (q\<lparr>aq_closed := True, aq_waiters := []\<rparr>, map (\<lambda>w. (w, Inl queue_closed)) (aq_waiters q)))"

definition aq_next :: "nat \<Rightarrow> 'a async_queue \<Rightarrow> 'a async_queue \<times> 'a wake list" where
  "aq_next i q = (case aq_values q of
     v # vs \<Rightarrow> (q\<lparr>aq_values := vs\<rparr>, [(i, Inr v)])
   | [] \<Rightarrow> (case aq_error q of
       Some e \<Rightarrow> (q, [(i, Inl e)])
     | None \<Rightarrow> if aq_closed q then (q, [(i, Inl queue_closed)])
                else (q\<lparr>aq_waiters := aq_waiters q @ [i]\<rparr>, [])))"

section \<open>ByteQueue\<close>

record byte_queue =
  bq_parts :: "byte list list"
  bq_length :: int
  bq_limit :: nat
  bq_changed :: "bool async_queue"
  bq_error :: "js_error option"
  bq_closed :: bool

definition MAX_JSON :: nat where "MAX_JSON = 65536"

definition new_byte_queue :: "nat \<Rightarrow> byte_queue" where
  "new_byte_queue limit = \<lparr>bq_parts = [], bq_length = 0, bq_limit = limit, bq_changed = new_queue, bq_error = None, bq_closed = False\<rparr>"

definition bq_fail :: "js_error \<Rightarrow> byte_queue \<Rightarrow> byte_queue \<times> bool wake list" where
  "bq_fail e q =
     (let (c, out) = aq_fail e (bq_changed q) in (q\<lparr>bq_error := Some e, bq_closed := True, bq_changed := c\<rparr>, out))"

definition bq_close :: "byte_queue \<Rightarrow> byte_queue \<times> bool wake list" where
  "bq_close q = (let (c, out) = aq_close (bq_changed q) in (q\<lparr>bq_closed := True, bq_changed := c\<rparr>, out))"

definition bq_feed :: "byte list \<Rightarrow> byte_queue \<Rightarrow> byte_queue \<times> bool wake list" where
  "bq_feed bytes q =
     (if bq_closed q then (q, [])
      else if bq_length q + int (length bytes) > int (bq_limit q)
      then bq_fail (NetsuBrowserError ''protocol_error'' (js ''control receive queue exceeded limit'')) q
      else
        (let q1 = (if 0 < length bytes then q\<lparr>bq_parts := bq_parts q @ [bytes], bq_length := bq_length q + int (length bytes)\<rparr> else q);
             (c, out) = aq_push True (bq_changed q1)
         in (q1\<lparr>bq_changed := c\<rparr>, out)))"

text \<open>
  The copy loop of \<open>readExact\<close>.  \<open>None\<close>: \<open>parts[0]\<close> of an empty array has no \<open>byteLength\<close>, a \<open>TypeError\<close>.
\<close>

function bq_copy :: "nat \<Rightarrow> nat \<Rightarrow> byte list \<Rightarrow> int \<Rightarrow> byte list list \<Rightarrow> (byte list \<times> int \<times> byte list list) option" where
  "bq_copy count offset out len parts =
     (if offset < count then
        (case parts of
           [] \<Rightarrow> None
         | part # rest \<Rightarrow>
             (let t = min (length part) (count - offset)
              in bq_copy count (offset + t) (out @ take t part) (len - int t)
                   (if t = length part then rest else drop t part # rest)))
      else Some (out, len, parts))"
  by pat_completeness auto
termination
  by (relation "measure (\<lambda>(count, offset, out, len, parts). length parts + (count - offset))") (auto simp: min_def split: if_splits)

declare bq_copy.simps [simp del]

datatype read_result = ReadDone "byte list" | ReadThrew js_error | ReadAwaits "bool wake list"

text \<open>
  The body of \<open>readExact\<close> up to its next \<open>await\<close>: one test of the loop and, if the bytes are
  there, the copy.  \<open>i\<close> names the call of \<open>changed.next\<close> it may make, \<open>now\<close> is \<open>performance.now()\<close>.
\<close>

definition bq_read :: "nat \<Rightarrow> rat \<Rightarrow> rat \<Rightarrow> nat \<Rightarrow> byte_queue \<Rightarrow> byte_queue \<times> read_result" where
  "bq_read count deadline now i q =
     (if bq_length q < int count then
        (case bq_error q of
           Some e \<Rightarrow> (q, ReadThrew e)
         | None \<Rightarrow>
             if bq_closed q then (q, ReadThrew (NetsuBrowserError ''transport_closed'' (js ''control DataChannel closed'')))
             else if deadline - now \<le> 0 then (q, ReadThrew (setup_timeout ''control read timed out''))
             else (let (c, out) = aq_next i (bq_changed q) in (q\<lparr>bq_changed := c\<rparr>, ReadAwaits out)))
      else (case bq_copy count 0 [] (bq_length q) (bq_parts q) of
          None \<Rightarrow> (q, ReadThrew (OtherError (js ''part is undefined'')))
        | Some (out, len, parts) \<Rightarrow> (q\<lparr>bq_parts := parts, bq_length := len\<rparr>, ReadDone out)))"

section \<open>A queue and its reader\<close>

text \<open>
  The peer reads its control channel with one call of \<open>readExact\<close> at a time.  The reader is suspended at
  \<open>await changed.next\<close>, call number \<open>rd_next\<close>; \<open>rd_woken\<close> is the settlement of that promise, once it has one.
\<close>

record bq_reader =
  rd_id :: nat
  rd_count :: nat
  rd_deadline :: rat
  rd_next :: nat
  rd_woken :: "(js_error + bool) option"

record bq_system =
  sy_queue :: byte_queue
  sy_reader :: "bq_reader option"
  sy_nexts :: nat
  sy_reads :: "(nat \<times> (js_error + byte list)) list"

definition new_system :: "nat \<Rightarrow> bq_system" where
  "new_system limit = \<lparr>sy_queue = new_byte_queue limit, sy_reader = None, sy_nexts = 0, sy_reads = []\<rparr>"

datatype bq_event =
  BqFeed "byte list"
| BqFail js_error
| BqClose
| BqRead nat nat rat rat
| BqWake rat
| BqTimer

text \<open>Promises that settle reach the reader if it waits for one of them and has not been woken.\<close>

definition wake_reader :: "bool wake list \<Rightarrow> bq_reader option \<Rightarrow> bq_reader option" where
  "wake_reader out rd = map_option (\<lambda>r. case (rd_woken r, map_of out (rd_next r)) of
     (None, Some x) \<Rightarrow> r\<lparr>rd_woken := Some x\<rparr>
   | _ \<Rightarrow> r) rd"

definition sys_settle :: "byte_queue \<times> bool wake list \<Rightarrow> bq_system \<Rightarrow> bq_system" where
  "sys_settle qo s = s\<lparr>sy_queue := fst qo, sy_reader := wake_reader (snd qo) (sy_reader s)\<rparr>"

definition sys_finish :: "nat \<Rightarrow> js_error + byte list \<Rightarrow> bq_system \<Rightarrow> bq_system" where
  "sys_finish i r s = s\<lparr>sy_reader := None, sy_reads := sy_reads s @ [(i, r)]\<rparr>"

text \<open>A turn of the reader: \<open>bq_read\<close> and what it led to.\<close>

definition sys_turn :: "nat \<Rightarrow> nat \<Rightarrow> rat \<Rightarrow> rat \<Rightarrow> bq_system \<Rightarrow> bq_system" where
  "sys_turn i count deadline now s =
     (let n = sy_nexts s; (q, r) = bq_read count deadline now n (sy_queue s); s1 = s\<lparr>sy_queue := q\<rparr>
      in case r of
           ReadDone bytes \<Rightarrow> sys_finish i (Inr bytes) s1
         | ReadThrew e \<Rightarrow> sys_finish i (Inl e) s1
         | ReadAwaits out \<Rightarrow> s1\<lparr>sy_nexts := Suc n,
             sy_reader := Some \<lparr>rd_id = i, rd_count = count, rd_deadline = deadline, rd_next = n, rd_woken = map_of out n\<rparr>\<rparr>)"

text \<open>
  \<open>BqRead i count timeout now\<close>: the call; \<open>BqWake now\<close>: the reader goes on after its promise settled;
  \<open>BqTimer\<close>: the timer of \<open>withTimeout\<close> fires first.
\<close>

fun bq_step :: "bq_system \<Rightarrow> bq_event \<Rightarrow> bq_system" where
  "bq_step s (BqFeed bytes) = sys_settle (bq_feed bytes (sy_queue s)) s"
| "bq_step s (BqFail e) = sys_settle (bq_fail e (sy_queue s)) s"
| "bq_step s BqClose = sys_settle (bq_close (sy_queue s)) s"
| "bq_step s (BqRead i count timeoutMs now) =
     (if sy_reader s = None then sys_turn i count (now + timeoutMs) now s else s)"
| "bq_step s (BqWake now) = (case sy_reader s of
     None \<Rightarrow> s
   | Some r \<Rightarrow> (case rd_woken r of
       None \<Rightarrow> s
     | Some (Inl e) \<Rightarrow> sys_finish (rd_id r) (Inl e) s
     | Some (Inr v) \<Rightarrow> sys_turn (rd_id r) (rd_count r) (rd_deadline r) now s))"
| "bq_step s BqTimer = (case sy_reader s of
     None \<Rightarrow> s
   | Some r \<Rightarrow> if rd_woken r = None then sys_finish (rd_id r) (Inl (setup_timeout ''control read timed out'')) s else s)"


section \<open>Lemmas\<close>

text \<open>The copy loop is that of the \<open>ByteBuffer\<close>, with the length kept along.\<close>

lemma bq_copy_pump:
  "offset \<le> count \<Longrightarrow> bq_copy count offset out len parts =
     map_option (\<lambda>(o', cs). (o', len - int (count - offset), cs)) (pump_loop count offset out parts)"
proof (induction count offset out len parts rule: bq_copy.induct)
  case (1 count offset out len parts)
  show ?case
  proof (cases "offset < count")
    case True
    then show ?thesis
      using "1.IH" by (subst bq_copy.simps, subst pump_loop.simps) (auto simp: Let_def of_nat_diff algebra_simps split: list.splits)
  qed (use "1.prems" in \<open>simp add: bq_copy.simps pump_loop.simps\<close>)
qed

lemma bq_copy_correct:
  assumes "count \<le> length (concat parts)"
  obtains parts' where "bq_copy count 0 [] len parts = Some (take count (concat parts), len - int count, parts')"
    and "concat parts' = drop count (concat parts)"
  using pump_loop_correct [of 0 count parts "[]"] assms by (auto simp: bq_copy_pump)

definition bq_contents :: "byte_queue \<Rightarrow> byte list" where
  "bq_contents q = concat (bq_parts q)"

text \<open>The fields agree: the length, the limit, and the two closed flags.\<close>

definition bq_inv :: "byte_queue \<Rightarrow> bool" where
  "bq_inv q \<longleftrightarrow> bq_length q = int (length (bq_contents q)) \<and> bq_length q \<le> int (bq_limit q)
     \<and> (bq_closed q \<longleftrightarrow> aq_closed (bq_changed q)) \<and> (bq_error q \<noteq> None \<longrightarrow> bq_closed q)"

lemma aq_closed_fields [simp]:
  "aq_closed (fst (aq_push v q)) = aq_closed q"
  "aq_closed (fst (aq_next i q)) = aq_closed q"
  "aq_closed (fst (aq_fail e q))" "aq_closed (fst (aq_close q))"
  by (auto simp: aq_push_def aq_next_def aq_fail_def aq_close_def split: list.splits option.splits)

lemma bq_inv_fail: "bq_inv q \<Longrightarrow> bq_inv (fst (bq_fail e q)) \<and> bq_contents (fst (bq_fail e q)) = bq_contents q"
  by (simp add: bq_inv_def bq_fail_def bq_contents_def split_beta)

lemma bq_inv_close: "bq_inv q \<Longrightarrow> bq_inv (fst (bq_close q)) \<and> bq_contents (fst (bq_close q)) = bq_contents q"
  by (simp add: bq_inv_def bq_close_def bq_contents_def split_beta)

text \<open>A feed is taken whole, or the queue is closed after it.\<close>

lemma bq_inv_feed:
  assumes "bq_inv q"
  shows "bq_inv (fst (bq_feed bytes q))"
    and "bq_contents (fst (bq_feed bytes q)) = bq_contents q @ bytes \<and> \<not> bq_closed q \<and> \<not> bq_closed (fst (bq_feed bytes q))
      \<or> bq_contents (fst (bq_feed bytes q)) = bq_contents q \<and> bq_closed (fst (bq_feed bytes q))"
  using assms by (auto simp: bq_feed_def bq_inv_def bq_contents_def bq_fail_def Let_def split_beta)


text \<open>One turn of a read: the bytes in order, an error, or a wait for more.\<close>

lemma bq_read_cases:
  assumes "bq_inv q"
  obtains (served) q' where "count \<le> length (bq_contents q)" "bq_read count deadline now i q = (q', ReadDone (take count (bq_contents q)))"
      "bq_contents q' = drop count (bq_contents q)" "bq_inv q'" "bq_changed q' = bq_changed q" "bq_closed q' = bq_closed q"
  | (threw) e where "length (bq_contents q) < count" "bq_read count deadline now i q = (q, ReadThrew e)"
  | (waits) c out where "length (bq_contents q) < count" "\<not> bq_closed q" "aq_next i (bq_changed q) = (c, out)"
      "bq_read count deadline now i q = (q\<lparr>bq_changed := c\<rparr>, ReadAwaits out)" "bq_inv (q\<lparr>bq_changed := c\<rparr>)"
proof (cases "count \<le> length (bq_contents q)")
  case True
  then obtain parts' where "bq_copy count 0 [] (bq_length q) (bq_parts q) = Some (take count (bq_contents q), bq_length q - int count, parts')"
    and "concat parts' = drop count (bq_contents q)"
    by (auto simp: bq_contents_def intro: bq_copy_correct)
  then show thesis using assms True
    by (intro served [of "q\<lparr>bq_parts := parts', bq_length := bq_length q - int count\<rparr>"]) (auto simp: bq_read_def bq_inv_def bq_contents_def)
next
  case False
  show thesis
  proof (cases "bq_error q = None \<and> \<not> bq_closed q \<and> 0 < deadline - now")
    case True
    obtain c out where n: "aq_next i (bq_changed q) = (c, out)" by fastforce
    have "aq_closed c = aq_closed (bq_changed q)" using aq_closed_fields(2) [of i "bq_changed q"] by (simp add: n)
    then show thesis using True False n assms by (intro waits) (auto simp: bq_read_def bq_inv_def bq_contents_def)
  next
    case other: False
    then have "\<exists>e. bq_read count deadline now i q = (q, ReadThrew e)"
      using False assms by (auto simp: bq_read_def bq_inv_def split: option.splits)
    then show thesis using False by (auto intro: threw)
  qed
qed

fun bq_fed :: "bq_event \<Rightarrow> byte list" where
  "bq_fed (BqFeed bytes) = bytes"
| "bq_fed _ = []"

definition read_bytes :: "(nat \<times> (js_error + byte list)) list \<Rightarrow> byte list" where
  "read_bytes rs = concat (map (\<lambda>(i, r). case r of Inl e \<Rightarrow> [] | Inr bytes \<Rightarrow> bytes) rs)"

lemma read_bytes_simps [simp]:
  "read_bytes [] = []" "read_bytes (rs @ [(i, Inl e)]) = read_bytes rs" "read_bytes (rs @ [(i, Inr bytes)]) = read_bytes rs @ bytes"
  by (simp_all add: read_bytes_def)

definition reads_fine :: "bq_system \<Rightarrow> bool" where
  "reads_fine s \<longleftrightarrow> list_all (\<lambda>(i, r). \<exists>bytes. r = Inr bytes) (sy_reads s)"

text \<open>The peer gives up at the first read that fails, so a read begins only after successful ones.\<close>

fun bq_ok :: "bq_system \<Rightarrow> bq_event \<Rightarrow> bool" where
  "bq_ok s (BqRead i count timeoutMs now) \<longleftrightarrow> reads_fine s"
| "bq_ok s _ \<longleftrightarrow> True"

text \<open>
  No wake-up is lost: a reader that has not been woken is the only waiter, and it waits only
  while the queue is open and too short for it.
\<close>

definition wake_inv :: "bq_system \<Rightarrow> bool" where
  "wake_inv s \<longleftrightarrow> (case sy_reader s of
     None \<Rightarrow> reads_fine s \<longrightarrow> aq_waiters (bq_changed (sy_queue s)) = []
   | Some r \<Rightarrow> reads_fine s \<and> (if rd_woken r = None
       then aq_waiters (bq_changed (sy_queue s)) = [rd_next r] \<and> \<not> bq_closed (sy_queue s) \<and> length (bq_contents (sy_queue s)) < rd_count r
       else aq_waiters (bq_changed (sy_queue s)) = []))"

definition sys_inv :: "bq_system \<Rightarrow> bool" where
  "sys_inv s \<longleftrightarrow> bq_inv (sy_queue s) \<and> wake_inv s"


text \<open>What an operation of the queue does to a single waiter.\<close>

definition wakes :: "byte_queue \<Rightarrow> byte_queue \<Rightarrow> bool wake list \<Rightarrow> bool" where
  "wakes q q' out \<longleftrightarrow> (aq_waiters (bq_changed q) = [] \<longrightarrow> aq_waiters (bq_changed q') = [])
     \<and> (\<forall>w. aq_waiters (bq_changed q) = [w] \<and> \<not> bq_closed q \<longrightarrow> aq_waiters (bq_changed q') = [] \<and> map_of out w \<noteq> None)"

lemma bq_wakes:
  assumes "bq_inv q"
  shows "wakes q (fst (bq_feed bytes q)) (snd (bq_feed bytes q))" "wakes q (fst (bq_fail e q)) (snd (bq_fail e q))"
    "wakes q (fst (bq_close q)) (snd (bq_close q))"
  using assms
  by (auto simp: wakes_def bq_inv_def bq_feed_def bq_fail_def bq_close_def aq_push_def aq_fail_def aq_close_def Let_def split_beta split: list.splits)

lemma sys_inv_settle:
  assumes "sys_inv s" and "bq_inv (fst qo)" and "wakes (sy_queue s) (fst qo) (snd qo)"
  shows "sys_inv (sys_settle qo s)"
  using assms
  by (auto simp: sys_inv_def wake_inv_def sys_settle_def wakes_def wake_reader_def reads_fine_def split: option.splits if_splits)

lemma sys_settle_fields [simp]:
  "sy_queue (sys_settle qo s) = fst qo" "sy_reads (sys_settle qo s) = sy_reads s"
  by (simp_all add: sys_settle_def)

lemma sys_finish_fields [simp]:
  "sy_queue (sys_finish i r s) = sy_queue s" "sy_reads (sys_finish i r s) = sy_reads s @ [(i, r)]" "sy_reader (sys_finish i r s) = None"
  by (simp_all add: sys_finish_def)

text \<open>A turn of the reader keeps the invariant and the order of the bytes.\<close>

lemma sys_turn_spec:
  assumes "bq_inv (sy_queue s)" and "reads_fine s" and "aq_waiters (bq_changed (sy_queue s)) = []"
  shows "sys_inv (sys_turn i count deadline now s)
    \<and> read_bytes (sy_reads (sys_turn i count deadline now s)) @ bq_contents (sy_queue (sys_turn i count deadline now s))
        = read_bytes (sy_reads s) @ bq_contents (sy_queue s)
    \<and> bq_closed (sy_queue (sys_turn i count deadline now s)) = bq_closed (sy_queue s)"
  using assms(1)
proof (cases rule: bq_read_cases [of _ count deadline now "sy_nexts s"])
  case (served q')
  then show ?thesis
    using assms by (auto simp: sys_turn_def sys_inv_def wake_inv_def reads_fine_def)
next
  case (threw e)
  then show ?thesis using assms by (auto simp: sys_turn_def sys_inv_def wake_inv_def reads_fine_def)
next
  case (waits c out)
  have "aq_waiters c = (if map_of out (sy_nexts s) = None then [sy_nexts s] else [])"
    using waits(3) assms(3) by (auto simp: aq_next_def split: list.splits option.splits if_splits)
  with waits show ?thesis
    using assms by (auto simp: sys_turn_def sys_inv_def wake_inv_def reads_fine_def bq_contents_def Let_def)
qed

lemma woken_ready:
  assumes "sys_inv s" and "sy_reader s = Some r" and "rd_woken r = Some x"
  shows "bq_inv (sy_queue s)" "reads_fine s" "aq_waiters (bq_changed (sy_queue s)) = []"
  using assms by (simp_all add: sys_inv_def wake_inv_def)

lemma wake_cases:
  obtains (idle) "bq_step s (BqWake now) = s"
  | (failed) r e where "sy_reader s = Some r" "rd_woken r = Some (Inl e)" "bq_step s (BqWake now) = sys_finish (rd_id r) (Inl e) s"
  | (turn) r v where "sy_reader s = Some r" "rd_woken r = Some (Inr v)"
      "bq_step s (BqWake now) = sys_turn (rd_id r) (rd_count r) (rd_deadline r) now s"
proof (cases "sy_reader s")
  case (Some r)
  then show thesis using idle failed turn by (cases "rd_woken r"; cases "the (rd_woken r)") auto
qed (use idle in simp)

lemma sys_inv_step:
  assumes "sys_inv s" and "bq_ok s e"
  shows "sys_inv (bq_step s e)"
proof (cases e)
  case (BqFeed bytes)
  show ?thesis unfolding BqFeed bq_step.simps using assms(1)
    by (intro sys_inv_settle bq_inv_feed(1) bq_wakes(1)) (simp_all add: sys_inv_def)
next
  case (BqFail x)
  show ?thesis unfolding BqFail bq_step.simps using assms(1)
    by (intro sys_inv_settle bq_wakes(2)) (simp_all add: sys_inv_def bq_inv_fail)
next
  case BqClose
  show ?thesis unfolding BqClose bq_step.simps using assms(1)
    by (intro sys_inv_settle bq_wakes(3)) (simp_all add: sys_inv_def bq_inv_close)
next
  case (BqRead i count timeoutMs now)
  then show ?thesis
    using assms sys_turn_spec [of s i count "now + timeoutMs" now] by (auto simp: sys_inv_def wake_inv_def split: option.splits)
next
  case (BqWake now)
  show ?thesis using wake_cases [of s now]
  proof cases
    case (failed r x)
    then show ?thesis unfolding BqWake using assms(1) woken_ready(1) [OF assms(1) failed(1,2)]
      by (simp add: sys_inv_def wake_inv_def reads_fine_def)
  next
    case (turn r v)
    then show ?thesis unfolding BqWake using sys_turn_spec [OF woken_ready [OF assms(1) turn(1,2)]] by simp
  qed (use assms(1) BqWake in simp)
next
  case BqTimer
  then show ?thesis using assms(1) by (auto simp: sys_inv_def wake_inv_def reads_fine_def split: option.splits)
qed

interpretation byte_queue_system: invariant_system bq_step bq_ok sys_inv
  by unfold_locales (rule sys_inv_step)

text \<open>What was read, and then what is held.\<close>

definition bq_held :: "bq_system \<Rightarrow> byte list" where
  "bq_held s = read_bytes (sy_reads s) @ bq_contents (sy_queue s)"

text \<open>A step adds what it was fed at the end, or finds or leaves the queue closed.\<close>

lemma bq_step_bytes:
  assumes "sys_inv s" and "bq_ok s e"
  shows "bq_held (bq_step s e) = bq_held s @ (if bq_closed (sy_queue (bq_step s e)) then [] else bq_fed e)
    \<and> (bq_closed (sy_queue s) \<longrightarrow> bq_closed (sy_queue (bq_step s e)))"
proof (cases e)
  case (BqFeed bytes)
  then show ?thesis using assms(1) bq_inv_feed(2) [of "sy_queue s" bytes] by (auto simp: sys_inv_def bq_held_def)
next
  case (BqFail x)
  then show ?thesis using assms(1) bq_inv_fail [of "sy_queue s" x] by (auto simp: sys_inv_def bq_held_def bq_fail_def split_beta)
next
  case BqClose
  then show ?thesis using assms(1) bq_inv_close [of "sy_queue s"] by (auto simp: sys_inv_def bq_held_def bq_close_def split_beta)
next
  case (BqRead i count timeoutMs now)
  then show ?thesis
    using assms sys_turn_spec [of s i count "now + timeoutMs" now] by (auto simp: sys_inv_def wake_inv_def bq_held_def split: option.splits)
next
  case (BqWake now)
  show ?thesis using wake_cases [of s now]
  proof cases
    case (turn r v)
    then show ?thesis unfolding BqWake using sys_turn_spec [OF woken_ready [OF assms(1) turn(1,2)]] by (simp add: bq_held_def)
  qed (simp_all add: bq_held_def BqWake)
next
  case BqTimer
  then show ?thesis using assms(1) by (auto simp: bq_held_def split: option.splits)
qed

lemma bq_run_bytes:
  assumes "sys_inv s" and "run_ok bq_ok bq_step s es"
  shows "\<exists>n. bq_held (run_steps bq_step s es) = bq_held s @ concat (map bq_fed (take n es))
    \<and> (\<not> bq_closed (sy_queue (run_steps bq_step s es)) \<longrightarrow> n = length es)
    \<and> (bq_closed (sy_queue s) \<longrightarrow> n = 0 \<and> bq_closed (sy_queue (run_steps bq_step s es)))"
  using assms
proof (induction es arbitrary: s)
  case (Cons e es)
  obtain n where n: "bq_held (run_steps bq_step (bq_step s e) es) = bq_held (bq_step s e) @ concat (map bq_fed (take n es))"
    "\<not> bq_closed (sy_queue (run_steps bq_step (bq_step s e) es)) \<longrightarrow> n = length es"
    "bq_closed (sy_queue (bq_step s e)) \<longrightarrow> n = 0 \<and> bq_closed (sy_queue (run_steps bq_step (bq_step s e) es))"
    using Cons.IH [of "bq_step s e"] Cons.prems sys_inv_step [of s e] by auto
  have e: "bq_held (bq_step s e) = bq_held s @ (if bq_closed (sy_queue (bq_step s e)) then [] else bq_fed e)"
    "bq_closed (sy_queue s) \<Longrightarrow> bq_closed (sy_queue (bq_step s e))"
    using bq_step_bytes [of s e] Cons.prems by auto
  show ?case
  proof (cases "bq_closed (sy_queue (bq_step s e))")
    case True
    then show ?thesis using n e by (intro exI [of _ 0]) simp
  next
    case False
    then show ?thesis using n e by (intro exI [of _ "Suc n"]) auto
  qed
qed auto


lemma bq_limit_ops [simp]:
  "bq_limit (fst (bq_fail e q)) = bq_limit q" "bq_limit (fst (bq_close q)) = bq_limit q" "bq_limit (fst (bq_feed bytes q)) = bq_limit q"
  "bq_limit (fst (bq_read count deadline now i q)) = bq_limit q"
  by (auto simp: bq_fail_def bq_close_def bq_feed_def bq_read_def Let_def split_beta split: option.splits)

lemma bq_limit_turn: "bq_limit (sy_queue (sys_turn i count deadline now s)) = bq_limit (sy_queue s)"
  using bq_limit_ops(4) [of count deadline now "sy_nexts s" "sy_queue s"]
  by (auto simp: sys_turn_def Let_def split_beta split: read_result.splits)

lemma bq_limit_step: "bq_limit (sy_queue (bq_step s e)) = bq_limit (sy_queue s)"
  by (cases e) (auto simp: bq_limit_turn split: option.splits sum.splits)

lemma bq_limit_run: "bq_limit (sy_queue (run_steps bq_step s es)) = bq_limit (sy_queue s)"
  by (induction es arbitrary: s) (simp_all add: bq_limit_step)

lemma new_system_inv: "sys_inv (new_system limit)"
  by (simp add: sys_inv_def wake_inv_def new_system_def new_byte_queue_def new_queue_def bq_inv_def bq_contents_def)

text \<open>A woken reader whose bytes are there gets them.\<close>

lemma wake_serves:
  assumes "sys_inv s" and "sy_reader s = Some r" and "rd_woken r = Some (Inr v)" and "rd_count r \<le> length (bq_contents (sy_queue s))"
  shows "sy_reads (bq_step s (BqWake now)) = sy_reads s @ [(rd_id r, Inr (take (rd_count r) (bq_contents (sy_queue s))))]"
  using woken_ready(1) [OF assms(1-3)]
proof (cases rule: bq_read_cases [of _ "rd_count r" "rd_deadline r" now "sy_nexts s"])
  case (served q')
  then show ?thesis using assms by (simp add: sys_turn_def)
qed (use assms in simp_all)

text \<open>
  The control queue of the browser peer keeps the stream.  In every run of feeds, failures,
  closing, reads, wake-ups and timeouts in which no read begins after a failed one, the bytes
  delivered to reads followed by those still held are the bytes fed, in order, up to the moment
  the queue closed; the length field is exact and within the limit; a reader that has not been
  woken waits in an open queue that holds too few bytes for it; and a woken reader whose bytes are there gets
  exactly the next ones.
\<close>

theorem browser_queue_fifo:
  assumes "run_ok bq_ok bq_step (new_system limit) es" and "s = run_steps bq_step (new_system limit) es"
  shows "(\<exists>n. read_bytes (sy_reads s) @ bq_contents (sy_queue s) = concat (map bq_fed (take n es))
        \<and> (\<not> bq_closed (sy_queue s) \<longrightarrow> n = length es))
    \<and> bq_length (sy_queue s) = int (length (bq_contents (sy_queue s))) \<and> length (bq_contents (sy_queue s)) \<le> limit
    \<and> (\<forall>r. sy_reader s = Some r \<and> rd_woken r = None \<longrightarrow> \<not> bq_closed (sy_queue s) \<and> length (bq_contents (sy_queue s)) < rd_count r)
    \<and> (\<forall>r v now. sy_reader s = Some r \<and> rd_woken r = Some (Inr v) \<and> rd_count r \<le> length (bq_contents (sy_queue s)) \<longrightarrow>
        sy_reads (bq_step s (BqWake now)) = sy_reads s @ [(rd_id r, Inr (take (rd_count r) (bq_contents (sy_queue s))))])"
proof -
  have inv: "sys_inv s" unfolding assms(2) by (rule byte_queue_system.inv_run [OF new_system_inv assms(1)])
  have held: "bq_held (new_system limit) = []"
    by (simp add: bq_held_def new_system_def new_byte_queue_def bq_contents_def)
  have "\<exists>n. bq_held s = concat (map bq_fed (take n es)) \<and> (\<not> bq_closed (sy_queue s) \<longrightarrow> n = length es)"
    using bq_run_bytes [OF new_system_inv assms(1)] unfolding assms(2) [symmetric] held by auto
  moreover have "bq_limit (sy_queue s) = limit" unfolding assms(2) bq_limit_run by (simp add: new_system_def new_byte_queue_def)
  moreover have "\<forall>r. sy_reader s = Some r \<and> rd_woken r = None \<longrightarrow> \<not> bq_closed (sy_queue s) \<and> length (bq_contents (sy_queue s)) < rd_count r"
    using inv by (auto simp: sys_inv_def wake_inv_def)
  ultimately show ?thesis using inv wake_serves [OF inv] by (auto simp: sys_inv_def bq_inv_def bq_held_def)
qed

lemmas queue_eval = new_system_def new_byte_queue_def new_queue_def sys_turn_def bq_read_def aq_next_def sys_finish_def sys_settle_def
  bq_feed_def aq_push_def wake_reader_def bq_contents_def reads_fine_def

definition witness_events :: "bq_event list" where
  "witness_events = [BqRead 0 3 100 0, BqFeed [1, 2], BqWake 1, BqFeed [3, 4]]"

theorem browser_queue_fifo_witness:
  "sy_reads (bq_step (run_steps bq_step (new_system 8) witness_events) (BqWake 2)) = [(0, Inr [1, 2, 3])]"
proof -
  define s where "s = run_steps bq_step (new_system 8) witness_events"
  have ok: "run_ok bq_ok bq_step (new_system 8) witness_events"
    by (simp add: witness_events_def queue_eval)
  have r: "sy_reader s = Some \<lparr>rd_id = 0, rd_count = 3, rd_deadline = 100, rd_next = 1, rd_woken = Some (Inr True)\<rparr>"
    and c: "bq_contents (sy_queue s) = [1, 2, 3, 4]" and l: "sy_reads s = []"
    by (simp_all add: s_def witness_events_def queue_eval)
  show ?thesis using browser_queue_fifo [OF ok s_def] r c l unfolding s_def [symmetric] by auto
qed

text \<open>
  Outside that discipline a wake-up can be lost: after a read that timed out its waiter is still in \<open>changed\<close>, and the
  next \<open>push\<close> resolves that one, so a later read sleeps although its bytes are there.
\<close>

lemma wakeup_lost_after_timeout:
  defines "s \<equiv> run_steps bq_step (new_system 8) [BqRead 0 1 10 0, BqTimer, BqRead 1 1 10 20, BqFeed [7]]"
  shows "bq_contents (sy_queue s) = [7] \<and> map_option rd_count (sy_reader s) = Some 1 \<and> map_option rd_woken (sy_reader s) = Some None"
  unfolding s_def
  by (simp add: queue_eval)

end
