(* ===== verification/BrowserSignal.thy ===== *)
theory BrowserSignal
  imports BrowserQueue SignalRoom Code Matrix
begin

text \<open>
  \<open>interop/transports/browser/browser-peer.js\<close>: the configuration of the browser peer and its side of the
  signaling channel.  The parser of URLs (\<open>new URL\<close>), the conversion of objects and texts by \<open>Number\<close> and
  the upper-case mapping outside ASCII are arguments.
\<close>

section \<open>Configuration\<close>

definition config_error :: "string \<Rightarrow> js_error" where
  "config_error message = NetsuBrowserError ''config'' (js message)"

definition normalizeRoomCode :: "(nat \<Rightarrow> js_string) \<Rightarrow> js_string \<Rightarrow> js_error + js_string" where
  "normalizeRoomCode up input =
     (let compact = filter (\<lambda>c. c \<noteq> 45) (toUpperCase up input)
      in if length compact = 8 \<and> list_all (\<lambda>c. c \<in> set (js ''23456789ABCDEFGHJKLMNPQRSTUVWXYZ'')) compact
         then Inr (take 4 compact @ [45] @ drop 4 compact)
         else Inl (config_error ''invalid signaling room code''))"

text \<open>The parts of a URL object the peer reads and sets, and its text.\<close>

record url =
  url_protocol :: js_string
  url_authority :: js_string
  url_pathname :: js_string
  url_search :: js_string
  url_hash :: js_string

definition url_text :: "url \<Rightarrow> js_string" where
  "url_text u = url_protocol u @ js ''//'' @ url_authority u @ url_pathname u @ url_search u @ url_hash u"

text \<open>\<open>replace(/\/+$/, "")\<close>.\<close>

definition strip_slashes :: "js_string \<Rightarrow> js_string" where
  "strip_slashes s = rev (dropWhile (\<lambda>c. c = 47) (rev s))"

definition roomWebSocketUrl :: "(nat \<Rightarrow> js_string) \<Rightarrow> (js_string \<Rightarrow> url option) \<Rightarrow> js_string \<Rightarrow> js_string \<Rightarrow> js_error + js_string" where
  "roomWebSocketUrl up parse signalUrl code = (case parse signalUrl of
     None \<Rightarrow> Inl (OtherError (js ''Invalid URL''))
   | Some u \<Rightarrow>
       if url_protocol u \<noteq> js ''http:'' \<and> url_protocol u \<noteq> js ''https:''
       then Inl (config_error ''signal URL must use HTTP or HTTPS'')
       else andThen (normalizeRoomCode up code) (\<lambda>room.
         Inr (url_text (u\<lparr>url_protocol := (if url_protocol u = js ''https:'' then js ''wss:'' else js ''ws:''),
           url_pathname := strip_slashes (url_pathname u) @ js ''/rooms/'' @ room @ js ''/ws'', url_search := [], url_hash := []\<rparr>))))"

definition starts_with :: "js_string \<Rightarrow> js_string \<Rightarrow> bool" where
  "starts_with p s \<longleftrightarrow> take (length p) s = p"

definition stun_url :: "json \<Rightarrow> bool" where
  "stun_url v = (case v of JStr s \<Rightarrow> starts_with (js ''stun:'') (map ascii_lower s) | _ \<Rightarrow> False)"

definition validateStunUrls :: "json \<Rightarrow> js_error + json list" where
  "validateStunUrls values = (case values of
     JArr vs \<Rightarrow>
       if 4 < length vs then Inl (config_error ''at most 4 STUN URLs are allowed'')
       else if \<not> list_all stun_url vs then Inl (config_error ''only STUN URLs are allowed; TURN relay is unsupported'')
       else Inr vs
   | _ \<Rightarrow> Inl (config_error ''at most 4 STUN URLs are allowed''))"

text \<open>The object given to \<open>run\<close>; a field that is not there is \<open>None\<close>.\<close>

record config_input =
  ci_code :: js_string
  ci_signalUrl :: js_string
  ci_stunUrls :: "json option"
  ci_includeAddresses :: "json option"
  ci_reverse :: "json option"
  ci_parallel :: "json option"
  ci_duration :: "json option"
  ci_length :: "json option"

record browser_config =
  bc_code :: js_string
  bc_signalUrl :: js_string
  bc_stunUrls :: "json list"
  bc_includeAddresses :: bool
  bc_reverse :: bool
  bc_parallel :: int
  bc_duration :: rat
  bc_length :: int

text \<open>\<open>Number.isInteger(x) && lo <= x <= hi\<close>.\<close>

definition integer_between :: "int \<Rightarrow> int \<Rightarrow> js_val \<Rightarrow> int option" where
  "integer_between lo hi v = (case v of
     Some (Fin r) \<Rightarrow> if of_int \<lfloor>r\<rfloor> = r \<and> lo \<le> \<lfloor>r\<rfloor> \<and> \<lfloor>r\<rfloor> \<le> hi then Some \<lfloor>r\<rfloor> else None
   | _ \<Rightarrow> None)"

definition finite_between :: "rat \<Rightarrow> rat \<Rightarrow> js_val \<Rightarrow> rat option" where
  "finite_between lo hi v = (case v of Some (Fin r) \<Rightarrow> if lo \<le> r \<and> r \<le> hi then Some r else None | _ \<Rightarrow> None)"

definition validateConfig :: "(nat \<Rightarrow> js_string) \<Rightarrow> (js_string \<Rightarrow> url option) \<Rightarrow> (json \<Rightarrow> js_val) \<Rightarrow> config_input \<Rightarrow> js_error + browser_config" where
  "validateConfig up parse coerce c =
     (case integer_between 1 128 (to_number coerce (coalesce (ci_parallel c) (JNum 1))) of
        None \<Rightarrow> Inl (config_error ''parallel must be an integer in 1..128'')
      | Some parallel \<Rightarrow>
     (case finite_between 1 86400 (to_number coerce (coalesce (ci_duration c) (JNum 1))) of
        None \<Rightarrow> Inl (config_error ''duration must be in 1..86400 seconds'')
      | Some duration \<Rightarrow>
     (case integer_between 4 1048576 (to_number coerce (coalesce (ci_length c) (JNum 65536))) of
        None \<Rightarrow> Inl (config_error ''length must be an integer in 4..1048576 bytes'')
      | Some len \<Rightarrow>
     (case map_option url_text (parse (ci_signalUrl c)) of
        None \<Rightarrow> Inl (config_error ''signal URL must be a valid HTTP or HTTPS URL'')
      | Some signalUrl \<Rightarrow>
        if \<not> starts_with (js ''http://'') signalUrl \<and> \<not> starts_with (js ''https://'') signalUrl
        then Inl (config_error ''signal URL must use HTTP or HTTPS'')
        else andThen (normalizeRoomCode up (ci_code c)) (\<lambda>code.
             andThen (validateStunUrls (coalesce (ci_stunUrls c) (JArr []))) (\<lambda>stun.
             Inr \<lparr>bc_code = code, bc_signalUrl = signalUrl, bc_stunUrls = stun,
               bc_includeAddresses = (ci_includeAddresses c = Some (JBool True)), bc_reverse = (ci_reverse c = Some (JBool True)),
               bc_parallel = parallel, bc_duration = duration, bc_length = len\<rparr>))))))"

section \<open>Signaling messages\<close>

definition MAX_SIGNAL_FRAME :: nat where "MAX_SIGNAL_FRAME = 65536"
definition MAX_SIGNAL_SDP :: nat where "MAX_SIGNAL_SDP = 60 * 1024"
definition MAX_SIGNAL_CANDIDATE :: nat where "MAX_SIGNAL_CANDIDATE = 4096"
definition MAX_SIGNAL_CANDIDATES :: nat where "MAX_SIGNAL_CANDIDATES = 16"
definition MAX_SIGNAL_BYTES :: nat where "MAX_SIGNAL_BYTES = 1048576"

definition signaling_error :: "string \<Rightarrow> js_error" where
  "signaling_error message = NetsuBrowserError ''signaling'' (js message)"

definition byteLength :: "js_string \<Rightarrow> nat" where
  "byteLength text = utf8_length text"

text \<open>A field that is a text of 1 to \<open>limit\<close> bytes.\<close>

definition bounded_text :: "nat \<Rightarrow> json option \<Rightarrow> bool" where
  "bounded_text limit v = (case v of Some (JStr s) \<Rightarrow> byteLength s \<noteq> 0 \<and> byteLength s \<le> limit | _ \<Rightarrow> False)"

definition is_text :: "json option \<Rightarrow> bool" where
  "is_text v = (case v of Some (JStr s) \<Rightarrow> True | _ \<Rightarrow> False)"

definition validateSignal :: "json \<Rightarrow> js_error + json" where
  "validateSignal message =
     (if \<not> truthy (Some message) \<or> json_field ''v'' message \<noteq> Some (JNum 1) \<or> \<not> is_text (json_field ''type'' message)
      then Inl (signaling_error ''invalid signaling protocol message'')
      else if json_field ''type'' message = Some (JStr (js ''description''))
        \<and> (json_field ''sdp_type'' message \<notin> {Some (JStr (js ''offer'')), Some (JStr (js ''answer''))}
           \<or> \<not> bounded_text MAX_SIGNAL_SDP (json_field ''sdp'' message))
      then Inl (signaling_error ''invalid signaling description'')
      else if json_field ''type'' message = Some (JStr (js ''candidate'')) \<and> \<not> bounded_text MAX_SIGNAL_CANDIDATE (json_field ''candidate'' message)
      then Inl (signaling_error ''invalid signaling candidate'')
      else Inr message)"

text \<open>\<open>{ v: SIGNAL_VERSION, type: "bind", role, secret }\<close>.\<close>

definition makeBind :: "SignalRole \<Rightarrow> js_string option \<Rightarrow> js_error + json" where
  "makeBind role secret =
     (if role = Listener \<and> (case secret of None \<Rightarrow> True | Some s \<Rightarrow> s = []) then Inl (signaling_error ''listener bind requires a non-empty secret'')
      else if role = Joiner \<and> secret \<noteq> None then Inl (signaling_error ''joiner bind must not include a listener secret'')
      else Inr (case secret of
             None \<Rightarrow> typed ''bind'' [(''role'', JStr (role_text role))]
           | Some s \<Rightarrow> typed ''bind'' [(''role'', JStr (role_text role)), (''secret'', JStr s)]))"

section \<open>The signaling socket\<close>

text \<open>
  \<open>ss_socket\<close>: the ready state of the WebSocket once \<open>open\<close> created it; \<open>ss_wire\<close>: the frames handed to it;
  \<open>ss_closeCode\<close>: the code it was closed with.
\<close>

record signal_socket =
  ss_socket :: "ready_state option"
  ss_incoming :: "json async_queue"
  ss_sentCandidates :: nat
  ss_sentBytes :: nat
  ss_wire :: "js_string list"
  ss_closeCode :: "nat option"

definition new_signal_socket :: signal_socket where
  "new_signal_socket = \<lparr>ss_socket = None, ss_incoming = new_queue, ss_sentCandidates = 0, ss_sentBytes = 0, ss_wire = [], ss_closeCode = None\<rparr>"

text \<open>The listener of \<open>message\<close>: any error, also the \<open>SyntaxError\<close> of \<open>JSON.parse\<close>, fails the queue.\<close>

definition signal_received :: "ws_frame \<Rightarrow> js_error + json" where
  "signal_received frame = (case frame of
     BinaryFrame _ \<Rightarrow> Inl (signaling_error ''signaling server sent an invalid frame'')
   | TextFrame s \<Rightarrow>
       if MAX_SIGNAL_FRAME < byteLength s then Inl (signaling_error ''signaling server sent an invalid frame'')
       else (case JSON_parse s of None \<Rightarrow> Inl (OtherError (js ''SyntaxError'')) | Some j \<Rightarrow> validateSignal j))"

definition signal_onmessage :: "ws_frame \<Rightarrow> signal_socket \<Rightarrow> signal_socket \<times> json wake list" where
  "signal_onmessage frame s =
     (let (q, out) = (case signal_received frame of Inl e \<Rightarrow> aq_fail e (ss_incoming s) | Inr j \<Rightarrow> aq_push j (ss_incoming s))
      in (s\<lparr>ss_incoming := q\<rparr>, out))"

text \<open>The listener of \<open>close\<close>; \<open>event.code || 1006\<close>.\<close>

definition signal_onclose :: "nat \<Rightarrow> signal_socket \<Rightarrow> signal_socket \<times> json wake list" where
  "signal_onclose code s =
     (let (q, out) = aq_fail (NetsuBrowserError ''signaling''
            (js ''signaling WebSocket closed ('' @ nat_digits (if code = 0 then 1006 else code) @ js '')'')) (ss_incoming s)
      in (s\<lparr>ss_socket := Some CLOSED, ss_incoming := q\<rparr>, out))"

text \<open>\<open>send\<close>: the counters grow before their limits are tested; \<open>Some\<close> error is thrown.\<close>

definition is_candidate_message :: "json \<Rightarrow> bool" where
  "is_candidate_message message \<longleftrightarrow> json_field ''type'' message = Some (JStr (js ''candidate''))"

definition signal_send :: "json \<Rightarrow> signal_socket \<Rightarrow> signal_socket \<times> js_error option" where
  "signal_send message s = (case validateSignal message of
     Inl e \<Rightarrow> (s, Some e)
   | Inr _ \<Rightarrow>
       let s1 = (if is_candidate_message message then s\<lparr>ss_sentCandidates := ss_sentCandidates s + 1\<rparr> else s) in
       if is_candidate_message message \<and> ss_sentCandidates s1 > MAX_SIGNAL_CANDIDATES
       then (s1, Some (signaling_error ''signaling candidate limit exceeded''))
       else
         let frame = JSON_stringify int_num message; n = byteLength frame in
         if n > MAX_SIGNAL_FRAME then (s1, Some (signaling_error ''signaling frame exceeds 64 KiB''))
         else
           let s2 = s1\<lparr>ss_sentBytes := ss_sentBytes s1 + n\<rparr> in
           if ss_sentBytes s2 > MAX_SIGNAL_BYTES then (s2, Some (signaling_error ''signaling forwarded byte limit exceeded''))
           else if ss_socket s2 \<noteq> Some OPEN then (s2, Some (NetsuBrowserError ''transport_closed'' (js ''signaling WebSocket is closed'')))
           else (s2\<lparr>ss_wire := ss_wire s2 @ [frame]\<rparr>, None))"

definition signal_close :: "signal_socket \<Rightarrow> signal_socket \<times> js_error option" where
  "signal_close s =
     (if ss_socket s = Some OPEN
      then (case signal_send (typed ''leave'' []) s of
              (s1, Some e) \<Rightarrow> (s1, Some e)
            | (s1, None) \<Rightarrow> (s1\<lparr>ss_socket := Some CLOSING, ss_closeCode := Some 1000\<rparr>, None))
      else (s, None))"


section \<open>Lemmas\<close>

text \<open>A room code the peer accepts is one the service knows, in its printed form.\<close>

lemma room_code_known:
  assumes "normalizeRoomCode up input = Inr room"
  shows "\<exists>c. valid_code c \<and> room = formatCode c \<and> normalizeCode up room = Some c"
proof -
  define c where "c = filter (\<lambda>c. c \<noteq> 45) (toUpperCase up input)"
  have c: "length c = 8" "list_all (\<lambda>x. x \<in> set CODE_ALPHABET) c" "room = formatCode c"
    using assms by (auto simp: normalizeRoomCode_def c_def [symmetric] Let_def formatCode_def CODE_ALPHABET_def simp del: js_simps split: if_splits)
  then have v: "valid_code c" by (auto simp: valid_code_def CODE_LENGTH_def list_all_iff)
  show ?thesis using v c(3) normalizeCode_typed [OF formatCode_typed(1) [OF v] v] by blast
qed

lemma utf8_length_0: "utf8_length s = 0 \<longleftrightarrow> s = []"
  using utf8_length_ge [of s] by (auto simp: utf8_length_def)

lemma u16_length_pos: "Suc 0 \<le> u16_length s \<longleftrightarrow> s \<noteq> []"
  by (cases s) (auto simp: u16_length_def)

lemma bounded_text_iff: "bounded_text limit (Some (JStr s)) \<longleftrightarrow> s \<noteq> [] \<and> utf8_length s \<le> limit"
  by (simp add: bounded_text_def byteLength_def utf8_length_0)

lemma truthy_typed: "truthy (Some (typed t fs))"
  by (simp add: truthy_def typed_def)

lemmas signal_eval = validateSignal_def truthy_typed json_field_typed SIGNAL_PROTOCOL_VERSION_def is_text_def bounded_text_iff

text \<open>\<open>validateSignal\<close> tests the description and the candidate as the service does.\<close>

lemma validateSignal_relay:
  "validateSignal (relay_json m) = Inr j \<longleftrightarrow> j = relay_json m \<and> (case m of
     Description t s \<Rightarrow> sdp_ok s | Candidate c \<Rightarrow> cand_ok (cand c) | EndOfCandidates \<Rightarrow> True)"
  by (cases m; cases "case m of Description t s \<Rightarrow> t | _ \<Rightarrow> Offer")
    (auto simp: signal_eval sdp_ok_def cand_ok_def u16_length_pos encodedBytes_def MAX_SIGNAL_SDP_def MAX_SIGNAL_SDP_BYTES_def
      MAX_SIGNAL_CANDIDATE_def MAX_SIGNAL_CANDIDATE_BYTES_def simp del: js_simps)


text \<open>The messages of a joiner: its bind, and relayed messages whose free fields the browser keeps short.\<close>

fun own_message :: "ClientSignalMessage \<Rightarrow> bool" where
  "own_message (BindListener s) = False"
| "own_message (Relay (Candidate c)) = (
     (case sdp_mid c of None \<Rightarrow> True | Some s \<Rightarrow> short_ok s)
     \<and> (case sdp_mline_index c of None \<Rightarrow> True | Some i \<Rightarrow> 0 \<le> i \<and> i \<le> 65535)
     \<and> (case username_fragment c of None \<Rightarrow> True | Some s \<Rightarrow> short_ok s))"
| "own_message _ = True"

lemma makeBind_joiner: "makeBind Joiner None = Inr (client_json BindJoiner)"
  by (simp add: makeBind_def)

lemma validateSignal_client:
  assumes "own_message m" and "validateSignal (client_json m) = Inr j"
  shows "client_ok m"
proof (cases m)
  case (Relay r)
  then have "validateSignal (relay_json r) = Inr j" using assms(2) by simp
  then show ?thesis using assms(1) Relay by (cases r) (simp_all add: validateSignal_relay del: relay_json.simps)
qed (use assms in simp_all)

text \<open>What a send leaves behind: nothing on the wire, or one frame the service reads as the message.\<close>

lemma signal_send_cases:
  assumes "own_message m" and "scalar_client m"
  obtains (thrown) e s' where "signal_send (client_json m) s = (s', Some e)" "ss_wire s' = ss_wire s"
      "ss_sentBytes s \<le> ss_sentBytes s'" "ss_sentCandidates s \<le> ss_sentCandidates s'"
  | (went) frame s' where "signal_send (client_json m) s = (s', None)" "ss_wire s' = ss_wire s @ [frame]"
      "parseSignalFrame (TextFrame frame) = Inr m" "ss_sentBytes s' = ss_sentBytes s + utf8_length frame" "ss_sentBytes s' \<le> MAX_SIGNAL_BYTES"
      "ss_sentCandidates s' = ss_sentCandidates s + (if is_candidate_message (client_json m) then 1 else 0)"
      "is_candidate_message (client_json m) \<Longrightarrow> ss_sentCandidates s' \<le> MAX_SIGNAL_CANDIDATES"
proof (cases "snd (signal_send (client_json m) s)")
  case (Some e)
  then show thesis
    by (intro thrown [where s' = "fst (signal_send (client_json m) s)" and e = e]) (auto simp: signal_send_def Let_def split: sum.splits if_splits)
next
  case None
  define frame where "frame = JSON_stringify int_num (client_json m)"
  obtain j where j: "validateSignal (client_json m) = Inr j" using None by (cases "validateSignal (client_json m)") (auto simp: signal_send_def)
  have ok: "client_ok m" by (rule validateSignal_client [OF assms(1) j])
  have small: "utf8_length frame \<le> MAX_SIGNAL_FRAME_BYTES"
    using None j by (auto simp: signal_send_def frame_def Let_def byteLength_def MAX_SIGNAL_FRAME_def MAX_SIGNAL_FRAME_BYTES_def split: if_splits)
  have "parseSignalFrame (TextFrame frame) = Inr m"
    using small JSON_roundtrip [OF json_ok_client [OF ok assms(2)]] clientSignalMessageSchema_json [OF ok]
    by (simp add: parseSignalFrame_def parseClientSignalMessage_def frame_def encodedBytes_def)
  then show thesis using None j
    by (intro went [where s' = "fst (signal_send (client_json m) s)" and frame = frame])
      (auto simp: signal_send_def frame_def Let_def byteLength_def split: if_splits)
qed

text \<open>A sequence of sends, with the messages that went out.\<close>

definition send_step :: "signal_socket \<times> ClientSignalMessage list \<Rightarrow> ClientSignalMessage \<Rightarrow> signal_socket \<times> ClientSignalMessage list" where
  "send_step s m = (case signal_send (client_json m) (fst s) of (s', None) \<Rightarrow> (s', snd s @ [m]) | (s', Some e) \<Rightarrow> (s', snd s))"

definition wire_inv :: "signal_socket \<times> ClientSignalMessage list \<Rightarrow> bool" where
  "wire_inv s \<longleftrightarrow> map (parseSignalFrame \<circ> TextFrame) (ss_wire (fst s)) = map Inr (snd s)
     \<and> sum_list (map utf8_length (ss_wire (fst s))) \<le> min MAX_SIGNAL_BYTES (ss_sentBytes (fst s))
     \<and> length (filter (is_candidate_message \<circ> client_json) (snd s)) \<le> min MAX_SIGNAL_CANDIDATES (ss_sentCandidates (fst s))"

lemma wire_inv_step:
  assumes "wire_inv s" and "own_message m \<and> scalar_client m"
  shows "wire_inv (send_step s m)"
proof -
  have "own_message m" "scalar_client m" using assms(2) by simp_all
  then show ?thesis
  proof (cases rule: signal_send_cases [where s = "fst s"])
    case (thrown e s')
    then show ?thesis using assms(1) by (auto simp: wire_inv_def send_step_def)
  next
    case (went frame s')
    then show ?thesis using assms(1) by (auto simp: wire_inv_def send_step_def)
  qed
qed

interpretation signal_sends: invariant_system send_step "\<lambda>_ m. own_message m \<and> scalar_client m" wire_inv
  by unfold_locales (rule wire_inv_step)

text \<open>What the service sends reaches the queue of the peer.\<close>

fun scalar_server :: "ServerSignalMessage \<Rightarrow> bool" where
  "scalar_server (Relayed m) = scalar_relay m"
| "scalar_server (ErrorMsg c t) = list_all scalar_value t"
| "scalar_server _ = True"

lemma json_ok_server: "serverSignalMessageSchema m \<Longrightarrow> scalar_server m \<Longrightarrow> json_ok int_num (server_json m)"
proof (induction m)
  case (Bound r n)
  then show ?case by (cases r) (auto intro!: json_ok_typed num_ok_small simp: js_scalar simp del: js_simps)
next
  case (ErrorMsg c t)
  then show ?case by (cases c) (auto intro!: json_ok_typed simp: js_scalar simp del: js_simps)
qed (auto intro!: json_ok_typed simp: json_ok_relay simp del: relay_json.simps)

lemma validateSignal_server: "serverSignalMessageSchema m \<Longrightarrow> validateSignal (server_json m) = Inr (server_json m)"
proof (induction m)
  case (Relayed r)
  then show ?case by (cases r) (simp_all add: validateSignal_relay del: relay_json.simps)
qed (simp_all add: signal_eval del: js_simps)

lemma server_message_received:
  assumes "serializeSignalMessage m = Some t" and "scalar_server m" and "utf8_length t \<le> MAX_SIGNAL_FRAME_BYTES"
  shows "signal_received (TextFrame t) = Inr (server_json m)"
proof -
  have m: "serverSignalMessageSchema m" "t = JSON_stringify int_num (server_json m)"
    using assms(1) by (auto simp: serializeSignalMessage_def split: if_splits)
  then have "JSON_parse t = Some (server_json m)" using JSON_roundtrip json_ok_server assms(2) by blast
  then show ?thesis
    using validateSignal_server [OF m(1)] assms(3) by (simp add: signal_received_def byteLength_def MAX_SIGNAL_FRAME_def MAX_SIGNAL_FRAME_BYTES_def)
qed

definition is_candidate_client :: "ClientSignalMessage \<Rightarrow> bool" where
  "is_candidate_client m = (case m of Relay r \<Rightarrow> is_candidate r | _ \<Rightarrow> False)"

lemma candidate_message_json: "is_candidate_message (client_json m) = is_candidate_client m"
  by (cases m rule: own_message.cases) (simp_all add: is_candidate_message_def is_candidate_client_def is_candidate_def json_field_typed del: js_simps)

text \<open>
  C11: the browser peer and the signaling service understand each other.  Whatever messages of its
  own a joiner sends, every frame that goes out is parsed by the service as the message sent,
  and no more candidates go out than the service takes from a peer, and no more bytes than it forwards; and
  every message the service serializes, if its frame is within the limit of a frame, is taken over unchanged
  by the peer.
\<close>

theorem signaling_compatible:
  assumes "list_all (\<lambda>m. own_message m \<and> scalar_client m) ms"
    and "(s, went_out) = run_steps send_step (new_signal_socket\<lparr>ss_socket := Some OPEN\<rparr>, []) ms"
    and "serializeSignalMessage reply = Some t" and "scalar_server reply" and "utf8_length t \<le> MAX_SIGNAL_FRAME_BYTES"
  shows "map (\<lambda>frame. parseSignalFrame (TextFrame frame)) (ss_wire s) = map Inr went_out
    \<and> length (filter is_candidate_client went_out) \<le> MAX_SIGNAL_CANDIDATES_PER_PEER
    \<and> sum_list (map utf8_length (ss_wire s)) \<le> MAX_SIGNAL_FORWARDED_BYTES
    \<and> fst (signal_onmessage (TextFrame t) s) = s\<lparr>ss_incoming := fst (aq_push (server_json reply) (ss_incoming s))\<rparr>"
proof -
  define s0 :: "signal_socket \<times> ClientSignalMessage list" where "s0 = (new_signal_socket\<lparr>ss_socket := Some OPEN\<rparr>, [])"
  have "run_ok (\<lambda>_ m. own_message m \<and> scalar_client m) send_step s0 ms"
    using assms(1) by (induction ms arbitrary: s0) auto
  moreover have "wire_inv s0" by (simp add: wire_inv_def s0_def new_signal_socket_def)
  ultimately have "wire_inv (run_steps send_step s0 ms)" by (intro signal_sends.inv_run)
  then have "wire_inv (s, went_out)" using assms(2) by (simp add: s0_def)
  then show ?thesis
    using server_message_received [OF assms(3-5)]
    by (auto simp: wire_inv_def comp_def candidate_message_json MAX_SIGNAL_CANDIDATES_def MAX_SIGNAL_CANDIDATES_PER_PEER_def MAX_SIGNAL_BYTES_def
        MAX_SIGNAL_FORWARDED_BYTES_def signal_onmessage_def split_beta)
qed


text \<open>Two frames of a joiner, evaluated.\<close>

lemma sample_frames:
  "JSON_stringify int_num (client_json BindJoiner) = js ''{\"v\":1,\"type\":\"bind\",\"role\":\"joiner\"}''"
  "JSON_stringify int_num (client_json Leave) = js ''{\"v\":1,\"type\":\"leave\"}''"
  by (simp_all add: typed_def SIGNAL_PROTOCOL_VERSION_def quote_string_def quote_char_def int_num_def int_digits_def nat_digits.simps)

lemma sample_sends:
  "run_steps send_step (new_signal_socket\<lparr>ss_socket := Some OPEN\<rparr>, []) [BindJoiner, Leave] =
     (new_signal_socket\<lparr>ss_socket := Some OPEN, ss_sentBytes := 59,
        ss_wire := [JSON_stringify int_num (client_json BindJoiner), JSON_stringify int_num (client_json Leave)]\<rparr>, [BindJoiner, Leave])"
proof -
  have v: "validateSignal (client_json BindJoiner) = Inr (client_json BindJoiner)" "validateSignal (client_json Leave) = Inr (client_json Leave)"
    by (simp_all add: signal_eval del: js_simps)
  have n: "byteLength (JSON_stringify int_num (client_json BindJoiner)) = 37" "byteLength (JSON_stringify int_num (client_json Leave)) = 22"
    unfolding sample_frames byteLength_def by (simp_all add: utf8_length_ascii ascii_def)
  show ?thesis
    by (simp add: send_step_def signal_send_def v n candidate_message_json is_candidate_client_def new_signal_socket_def
        MAX_SIGNAL_FRAME_def MAX_SIGNAL_BYTES_def del: client_json.simps)
qed

theorem signaling_compatible_witness:
  "map (\<lambda>frame. parseSignalFrame (TextFrame frame)) [JSON_stringify int_num (client_json BindJoiner), JSON_stringify int_num (client_json Leave)]
     = [Inr BindJoiner, Inr Leave]"
proof -
  have "serializeSignalMessage PeerReady = Some (js ''{\"v\":1,\"type\":\"peer_ready\"}'')"
    by (simp add: serializeSignalMessage_def typed_def SIGNAL_PROTOCOL_VERSION_def quote_string_def quote_char_def int_num_def int_digits_def nat_digits.simps)
  moreover have "utf8_length (js ''{\"v\":1,\"type\":\"peer_ready\"}'') \<le> MAX_SIGNAL_FRAME_BYTES"
    by (simp add: utf8_length_ascii ascii_def MAX_SIGNAL_FRAME_BYTES_def)
  ultimately show ?thesis
    using signaling_compatible [of "[BindJoiner, Leave]", OF _ sample_sends [symmetric], of PeerReady]
    by (simp del: client_json.simps js_simps)
qed

end
