(* ===== verification/BrowserFrames.thy ===== *)
theory BrowserFrames
  imports BrowserSignal Handshake
begin

text \<open>
  \<open>interop/transports/browser/browser-peer.js\<close>: the control frames of the browser peer, its data channels and the
  choice of the path.  A promise that waits for an event of a channel is a machine that settles
  once; an iteration of a send loop is what the environment answers in it.
\<close>

section \<open>Control frames\<close>

definition protocol_error :: "string \<Rightarrow> js_error" where
  "protocol_error message = NetsuBrowserError ''protocol_error'' (js message)"

definition signedState :: "byte \<Rightarrow> int" where
  "signedState b = (if uint b > 127 then uint b - 256 else uint b)"

definition stateBytes :: "int \<Rightarrow> byte list" where
  "stateBytes state = [word_of_int (state AND 255)]"

definition encodeJson :: "(rat \<Rightarrow> js_string) \<Rightarrow> json \<Rightarrow> js_error + byte list" where
  "encodeJson num v =
     (let body = utf8_encode (JSON_stringify num v)
      in if length body > MAX_JSON then Inl (protocol_error ''JSON exceeds 64 KiB'')
         else Inr (u32_be (of_nat (length body)) @ body))"

text \<open>\<open>readJson\<close> over the \<open>readExact\<close> of a queue.\<close>

definition browser_readJson :: "'q reader \<Rightarrow> 'q \<Rightarrow> (pipe_error + js_error) + json \<times> 'q" where
  "browser_readJson rd q = (case rd 4 q of
     Inl e \<Rightarrow> Inl (Inl e)
   | Inr (prefix, q1) \<Rightarrow> (case be_u32 prefix of
        None \<Rightarrow> Inl (Inl TypeError)
      | Some w \<Rightarrow>
          if unat w > MAX_JSON then Inl (Inr (protocol_error ''JSON exceeds 64 KiB''))
          else (case rd (unat w) q1 of
             Inl e \<Rightarrow> Inl (Inl e)
           | Inr (body, q2) \<Rightarrow> (case JSON_parse (utf8_decode body) of
                None \<Rightarrow> Inl (Inr (protocol_error ''invalid control JSON''))
              | Some v \<Rightarrow> Inr (v, q2)))))"

definition browser_nextStreamId :: "nat \<Rightarrow> nat" where
  "browser_nextStreamId existingCount = (if existingCount = 0 then 1 else existingCount + 2)"

definition buildParams :: "browser_config \<Rightarrow> json" where
  "buildParams c = JObj (
     [(js ''omit'', JNum 0), (js ''time'', JNum (bc_duration c)), (js ''num'', JNum 0), (js ''blockcount'', JNum 0),
      (js ''parallel'', JNum (of_int (bc_parallel c))), (js ''len'', JNum (of_int (bc_length c))), (js ''pacing_timer'', JNum 1000),
      (js ''client_version'', JStr (js ''netsu-browser-0.1.0'')), (js ''tcp'', JBool True)]
     @ (if bc_reverse c then [(js ''reverse'', JBool True)] else []))"

text \<open>\<open>random\<close> is what \<open>crypto.getRandomValues\<close> put into the 36 bytes; the last byte of the cookie stays 0.\<close>

definition browser_makeCookie :: "byte list \<Rightarrow> byte list" where
  "browser_makeCookie random =
     (let alphabet = js ''abcdefghijklmnopqrstuvwxyz234567''
      in map (\<lambda>b. of_nat (alphabet ! (unat b mod length alphabet))) random @ [0])"

text \<open>
  \<open>fill offset n\<close>: the \<open>n\<close> bytes of one call of \<open>getRandomValues\<close>, which takes at most 65536.
\<close>

function randomBytes :: "(nat \<Rightarrow> nat \<Rightarrow> byte list) \<Rightarrow> nat \<Rightarrow> nat \<Rightarrow> byte list" where
  "randomBytes fill len offset =
     (if offset < len then fill offset (min len (offset + 65536) - offset) @ randomBytes fill len (offset + 65536) else [])"
  by pat_completeness auto
termination
  by (relation "measure (\<lambda>(fill, len, offset). len - offset)") auto

declare randomBytes.simps [simp del]

definition stream_entry :: "rat \<Rightarrow> nat \<Rightarrow> nat \<Rightarrow> json" where
  "stream_entry seconds i bytes = JObj
     [(js ''id'', JNum (of_nat (browser_nextStreamId i))), (js ''bytes'', JNum (of_nat bytes)), (js ''retransmits'', JNum (- 1)),
      (js ''jitter'', JNum 0), (js ''errors'', JNum 0), (js ''omitted_errors'', JNum 0), (js ''packets'', JNum 0),
      (js ''omitted_packets'', JNum 0), (js ''start_time'', JNum 0), (js ''end_time'', JNum seconds)]"

definition streamResults :: "nat list \<Rightarrow> rat \<Rightarrow> bool \<Rightarrow> json" where
  "streamResults counters seconds sender = JObj
     [(js ''sender_has_retransmits'', JNum (if sender then 0 else - 1)),
      (js ''streams'', JArr (map2 (stream_entry seconds) [0..<length counters] counters))]"

section \<open>The control channel\<close>

text \<open>
  What the listeners of \<open>attachControl\<close>, of \<open>datachannel\<close> and of the payload channels do to the control queue.  A blob comes with
  what its \<open>arrayBuffer()\<close> settled with.
\<close>

datatype control_event =
  ControlText
| ControlBuffer "byte list"
| ControlBlob "js_error + byte list"
| ControlOther
| ControlClosed
| ControlFailed
| AnswererChannel
| PayloadSentText

fun on_control :: "control_event \<Rightarrow> bq_event" where
  "on_control ControlText = BqFail (protocol_error ''control DataChannel sent text'')"
| "on_control (ControlBuffer bytes) = BqFeed bytes"
| "on_control (ControlBlob r) = (case r of Inr bytes \<Rightarrow> BqFeed bytes | Inl e \<Rightarrow> BqFail e)"
| "on_control ControlOther = BqFail (protocol_error ''unsupported control message'')"
| "on_control ControlClosed = BqClose"
| "on_control ControlFailed = BqFail (NetsuBrowserError ''transport_closed'' (js ''control DataChannel failed''))"
| "on_control AnswererChannel = BqFail (protocol_error ''answerer opened an unexpected DataChannel'')"
| "on_control PayloadSentText = BqFail (protocol_error ''payload DataChannel sent text'')"

text \<open>Anything but bytes closes the queue, and bytes that come later are dropped.\<close>

lemma control_failure_closes:
  assumes "on_control e \<notin> range BqFeed" and "s' = bq_step s (on_control e)"
  shows "bq_closed (sy_queue s') \<and> sy_queue (bq_step s' (on_control (ControlBuffer bytes))) = sy_queue s'"
  using assms
  by (cases e) (auto simp: sys_settle_def bq_fail_def bq_close_def bq_feed_def split: sum.splits prod.splits)

section \<open>Data channels\<close>

definition SUBPROTOCOL :: js_string where "SUBPROTOCOL = js ''netsu/iperf3-webrtc/1''"
definition CONTROL_LABEL :: js_string where "CONTROL_LABEL = js ''netsu-control''"
definition MAX_MESSAGE :: nat where "MAX_MESSAGE = 16 * 1024"
definition SEND_HIGH_WATERMARK :: nat where "SEND_HIGH_WATERMARK = 4 * 1024 * 1024"
definition SEND_LOW_WATERMARK :: nat where "SEND_LOW_WATERMARK = 1 * 1024 * 1024"

record channel_info =
  ch_label :: js_string
  ch_protocol :: js_string
  ch_ordered :: bool
  ch_maxPacketLifeTime :: "nat option"
  ch_maxRetransmits :: "nat option"
  ch_negotiated :: bool

definition validateDataChannel :: "channel_info \<Rightarrow> js_string \<Rightarrow> js_error option" where
  "validateDataChannel ch expectedLabel =
     (if ch_label ch \<noteq> expectedLabel \<or> ch_protocol ch \<noteq> SUBPROTOCOL \<or> \<not> ch_ordered ch \<or> ch_maxPacketLifeTime ch \<noteq> None
         \<or> ch_maxRetransmits ch \<noteq> None \<or> ch_negotiated ch
      then Some (NetsuBrowserError ''protocol_error'' (js ''invalid WebRTC DataChannel '' @ expectedLabel)) else None)"

definition data_label :: "nat \<Rightarrow> js_string" where
  "data_label i = js ''netsu-data/'' @ nat_digits i"

fun manifest_labels :: "js_string list \<Rightarrow> channel_info list \<Rightarrow> js_error + js_string list" where
  "manifest_labels labels [] = Inr labels"
| "manifest_labels labels (ch # chs) = (case validateDataChannel ch (ch_label ch) of
     Some e \<Rightarrow> Inl e
   | None \<Rightarrow> if ch_label ch \<in> set labels then Inl (protocol_error ''duplicate DataChannel label'')
             else manifest_labels (labels @ [ch_label ch]) chs)"

definition validateChannelManifest :: "channel_info list \<Rightarrow> nat \<Rightarrow> js_error option" where
  "validateChannelManifest channels parallel = (case manifest_labels [] channels of
     Inl e \<Rightarrow> Some e
   | Inr labels \<Rightarrow>
       if CONTROL_LABEL \<notin> set labels then Some (NetsuBrowserError ''channels_missing'' (js ''control DataChannel is missing''))
       else (case List.find (\<lambda>i. data_label i \<notin> set labels) [0..<parallel] of
           Some i \<Rightarrow> Some (NetsuBrowserError ''channels_missing'' (js ''payload DataChannel '' @ nat_digits i @ js '' is missing''))
         | None \<Rightarrow> if length labels \<noteq> parallel + 1 then Some (protocol_error ''unexpected DataChannel label'') else None))"

section \<open>Promises of a channel\<close>

datatype settled = Pending | Resolved_ok | Rejected_with js_error

definition settle :: "settled \<Rightarrow> settled \<Rightarrow> settled" where
  "settle now next = (case now of Pending \<Rightarrow> next | _ \<Rightarrow> now)"

definition channel_closed :: js_error where
  "channel_closed = NetsuBrowserError ''transport_closed'' (js ''DataChannel closed'')"

text \<open>\<open>waitForChannelOpen\<close>: \<open>already\<close> is \<open>readyState === "open"\<close> at the call.\<close>

datatype open_event = ChannelOpened | ChannelClosed | OpenTimer

definition waitForChannelOpen :: "bool \<Rightarrow> settled" where
  "waitForChannelOpen already = (if already then Resolved_ok else Pending)"

fun open_step :: "settled \<Rightarrow> open_event \<Rightarrow> settled" where
  "open_step p ChannelOpened = settle p Resolved_ok"
| "open_step p ChannelClosed = settle p (Rejected_with channel_closed)"
| "open_step p OpenTimer = settle p (Rejected_with (setup_timeout ''DataChannel open timed out''))"

definition classifyInitialConnectError :: "js_error \<Rightarrow> js_error" where
  "classifyInitialConnectError e =
     (if error_kind e \<in> {Some ''setup_timeout'', Some ''transport_closed''}
      then NetsuBrowserError ''direct_path_unavailable'' (js ''direct path is unavailable'') else e)"

text \<open>
  \<open>waitForConnected\<close>: each event carries the connection state then; the \<open>catch\<close> turns the timeout into
  \<open>direct_path_unavailable\<close>.
\<close>

definition no_direct_path :: js_error where
  "no_direct_path = NetsuBrowserError ''direct_path_unavailable'' (js ''direct path is unavailable'')"

datatype connection_state = ConnNew | ConnConnecting | ConnConnected | ConnDisconnected | ConnFailed | ConnClosed
datatype connected_event = ConnectionChanged connection_state | ConnectedTimer

definition on_connection_state :: "connection_state \<Rightarrow> settled \<Rightarrow> settled" where
  "on_connection_state st p =
     (let p1 = (if st = ConnConnected then settle p Resolved_ok else p)
      in if st \<in> {ConnFailed, ConnClosed} then settle p1 (Rejected_with no_direct_path) else p1)"

definition waitForConnected :: "connection_state \<Rightarrow> settled" where
  "waitForConnected st = (if st = ConnConnected then Resolved_ok else on_connection_state st Pending)"

fun connected_step :: "settled \<Rightarrow> connected_event \<Rightarrow> settled" where
  "connected_step p (ConnectionChanged st) = on_connection_state st p"
| "connected_step p ConnectedTimer = settle p (Rejected_with no_direct_path)"

text \<open>
  \<open>waitBufferedAtMost\<close>: \<open>dr_listening\<close>, whether its three listeners are registered.  The timer of
  \<open>withTimeout\<close> rejects the race and leaves them registered.
\<close>

record drain =
  dr_maximum :: nat
  dr_promise :: settled
  dr_listening :: bool

datatype drain_event = BufferedLow nat | DrainClosed | DrainTimer

definition waitBufferedAtMost :: "nat \<Rightarrow> nat \<Rightarrow> drain" where
  "waitBufferedAtMost bufferedAmount maximum =
     \<lparr>dr_maximum = maximum, dr_promise = (if bufferedAmount \<le> maximum then Resolved_ok else Pending), dr_listening = (maximum < bufferedAmount)\<rparr>"

fun drain_step :: "drain \<Rightarrow> drain_event \<Rightarrow> drain" where
  "drain_step d (BufferedLow amount) =
     (if dr_listening d \<and> amount \<le> dr_maximum d then d\<lparr>dr_promise := settle (dr_promise d) Resolved_ok, dr_listening := False\<rparr> else d)"
| "drain_step d DrainClosed =
     (if dr_listening d then d\<lparr>dr_promise := settle (dr_promise d) (Rejected_with channel_closed), dr_listening := False\<rparr> else d)"
| "drain_step d DrainTimer = d\<lparr>dr_promise := settle (dr_promise d) (Rejected_with (setup_timeout ''DataChannel drain timed out''))\<rparr>"

section \<open>Sending\<close>

text \<open>
  One iteration of the loop of \<open>sendBytes\<close>: the buffered amount it reads, how the wait for the buffer ends
  if it waits, and what \<open>send\<close> throws.
\<close>

record send_turn =
  st_buffered :: nat
  st_wait :: "js_error option"
  st_throws :: "js_error option"

text \<open>
  The messages sent and the error, if any.  Without an answer for the next iteration the loop is
  still waiting (\<open>None\<close>).
\<close>

function sendBytes_loop :: "send_turn list \<Rightarrow> byte list \<Rightarrow> nat \<Rightarrow> byte list list \<Rightarrow> byte list list \<times> (js_error option) option" where
  "sendBytes_loop turns bytes offset out =
     (if offset < length bytes then
        (case turns of
           [] \<Rightarrow> (out, None)
         | t # ts \<Rightarrow>
             if SEND_HIGH_WATERMARK \<le> st_buffered t \<and> st_wait t \<noteq> None then (out, Some (st_wait t))
             else (case st_throws t of
                 Some e \<Rightarrow> (out, Some (Some e))
               | None \<Rightarrow> sendBytes_loop ts bytes (offset + MAX_MESSAGE)
                   (out @ [take (min (length bytes) (offset + MAX_MESSAGE) - offset) (drop offset bytes)])))
      else (out, Some None))"
  by pat_completeness auto
termination
  by (relation "measure (\<lambda>(turns, bytes, offset, out). length turns)") auto

declare sendBytes_loop.simps [simp del]

definition sendBytes :: "send_turn list \<Rightarrow> byte list \<Rightarrow> byte list list \<times> (js_error option) option" where
  "sendBytes turns bytes = sendBytes_loop turns bytes 0 []"

text \<open>\<open>drainAndFinish\<close>: after the wait, the empty message that marks the end.\<close>

definition drainAndFinish :: "js_error option \<Rightarrow> byte list list \<times> js_error option" where
  "drainAndFinish waited = (case waited of Some e \<Rightarrow> ([], Some e) | None \<Rightarrow> ([[]], None))"


section \<open>The selected path\<close>

text \<open>
  The statistics of a peer connection: a map from identifiers to objects, in the order of \<open>values()\<close>.
  \<open>stats_get\<close> is \<open>stats.get\<close> of whatever value the identifier field holds.
\<close>

type_synonym stats = "(js_string \<times> json) list"

definition stats_get :: "stats \<Rightarrow> json option \<Rightarrow> json option" where
  "stats_get stats key = (case key of Some (JStr k) \<Rightarrow> map_of stats k | _ \<Rightarrow> None)"

definition has_text :: "string \<Rightarrow> string \<Rightarrow> json \<Rightarrow> bool" where
  "has_text k t j \<longleftrightarrow> json_field k j = Some (JStr (js t))"

definition names_pair :: "json \<Rightarrow> bool" where
  "names_pair report \<longleftrightarrow> has_text ''type'' ''transport'' report \<and> truthy (json_field ''selectedCandidatePairId'' report)"

definition nominated_pair :: "json \<Rightarrow> bool" where
  "nominated_pair report \<longleftrightarrow> has_text ''type'' ''candidate-pair'' report \<and> has_text ''state'' ''succeeded'' report
     \<and> (json_field ''nominated'' report = Some (JBool True) \<or> json_field ''selected'' report = Some (JBool True))"

definition selected_pair :: "stats \<Rightarrow> json option" where
  "selected_pair stats =
     (let pair = (case List.find names_pair (map snd stats) of
              None \<Rightarrow> None
            | Some report \<Rightarrow> stats_get stats (json_field ''selectedCandidatePairId'' report))
      in if truthy pair then pair else List.find nominated_pair (map snd stats))"

definition candidate_type_allowed :: "json \<Rightarrow> bool" where
  "candidate_type_allowed j \<longleftrightarrow> json_field ''candidateType'' j \<in> {Some (JStr (js ''host'')), Some (JStr (js ''srflx'')), Some (JStr (js ''prflx''))}"

text \<open>\<open>text\<close> is the conversion of a value by a template literal.\<close>

definition candidateAddress :: "(json \<Rightarrow> js_string) \<Rightarrow> json \<Rightarrow> json" where
  "candidateAddress text j =
     (let address = coalesce (json_field ''address'' j) (coalesce (json_field ''ip'' j) JNull)
      in if address = JNull then JNull
         else JStr (text address @ js '':'' @ text (coalesce (json_field ''port'' j) (JNum 0))))"

definition directPairFromStats :: "(json \<Rightarrow> js_string) \<Rightarrow> stats \<Rightarrow> bool \<Rightarrow> js_error + json" where
  "directPairFromStats text stats includeAddresses = (case selected_pair stats of
     None \<Rightarrow> Inl no_direct_path
   | Some pair \<Rightarrow> (case (stats_get stats (json_field ''localCandidateId'' pair), stats_get stats (json_field ''remoteCandidateId'' pair)) of
       (Some lc, Some rc) \<Rightarrow>
         let protocol = coalesce (json_field ''protocol'' lc) (coalesce (json_field ''protocol'' rc) JNull) in
         if \<not> truthy (Some lc) \<or> \<not> truthy (Some rc) \<or> \<not> candidate_type_allowed lc \<or> \<not> candidate_type_allowed rc
           \<or> protocol \<notin> {JStr (js ''udp''), JStr (js ''tcp'')}
         then Inl no_direct_path
         else Inr (JObj (
           [(js ''transport'', JStr (js ''webrtc'')), (js ''path'', JStr (js ''direct'')),
            (js ''local_candidate_type'', the (json_field ''candidateType'' lc)), (js ''remote_candidate_type'', the (json_field ''candidateType'' rc)),
            (js ''ice_protocol'', protocol), (js ''addresses_included'', JBool includeAddresses)]
           @ (if includeAddresses then [(js ''local_addr'', candidateAddress text lc), (js ''remote_addr'', candidateAddress text rc)] else [])))
     | _ \<Rightarrow> Inl no_direct_path))"

text \<open>
  \<open>waitForDirectPair\<close>: one element of \<open>polls\<close> is the clock at the test of the loop and how \<open>getStats()\<close> settles.
  Statistics without a direct pair lead to the next poll.  \<open>None\<close>: still polling.
\<close>

definition poll_result :: "(json \<Rightarrow> js_string) \<Rightarrow> bool \<Rightarrow> js_error + stats \<Rightarrow> js_error + json" where
  "poll_result text inc r = (case r of Inl e \<Rightarrow> Inl e | Inr stats \<Rightarrow> directPairFromStats text stats inc)"

fun waitForDirectPair :: "(json \<Rightarrow> js_string) \<Rightarrow> bool \<Rightarrow> rat \<Rightarrow> (rat \<times> (js_error + stats)) list \<Rightarrow> (js_error + json) option" where
  "waitForDirectPair text inc deadline [] = None"
| "waitForDirectPair text inc deadline ((now, stats) # polls) =
     (if now < deadline then
        (case poll_result text inc stats of
           Inr connection \<Rightarrow> Some (Inr connection)
         | Inl e \<Rightarrow> if error_kind e \<noteq> Some ''direct_path_unavailable'' then Some (Inl e) else waitForDirectPair text inc deadline polls)
      else Some (Inl no_direct_path))"

fun error_message :: "js_error \<Rightarrow> js_string" where
  "error_message (NetsuBrowserError kind message) = message"
| "error_message (OtherError message) = message"

definition errorResult :: "js_error \<Rightarrow> json" where
  "errorResult e =
     (let kind = (case error_kind e of Some k \<Rightarrow> k | None \<Rightarrow> ''runtime_error'')
      in JObj [(js ''error'', JObj [(js ''transport'', JStr (js ''webrtc'')), (js ''kind'', JStr (js kind)),
           (js ''message'', JStr (if kind = ''direct_path_unavailable''
              then js ''WebRTC direct connection failed; netsu does not use TURN relay, so no throughput test was run''
              else error_message e))])])"

section \<open>Lemmas\<close>

text \<open>The frames are those of the TypeScript implementation.\<close>

lemma signedState_eq: "signedState b = sign_extend b"
proof -
  have u: "0 \<le> uint b" "uint b < 256" using uint_lt2p [of b] by simp_all
  have d: "x div 128 = (if 128 \<le> x then 1 else 0)" if "0 \<le> x" "x < 256" for x :: int using that by presburger
  have "sint b = signed_take_bit 7 (uint b)" by (simp add: sint_uint)
  also have "\<dots> = uint b - 256 * of_bool (128 \<le> uint b)"
    using u by (auto simp: signed_take_bit_eq_take_bit_minus take_bit_eq_mod bit_iff_odd d [OF u])
  finally have "sint b = (if uint b > 127 then uint b - 256 else uint b)" by simp
  then show ?thesis by (simp add: signedState_def sign_extend_eq)
qed

lemma stateBytes_eq: "stateBytes state = writeState state"
proof -
  have "state AND 255 = take_bit 8 state" by (simp add: take_bit_eq_mask mask_eq_exp_minus_1)
  then show ?thesis unfolding stateBytes_def writeState_def by simp (transfer, simp)
qed

lemma encodeJson_eq: "utf8_length (JSON_stringify num v) \<le> DEFAULT_MAX_SIZE \<Longrightarrow> encodeJson num v = Inr (writeJson num v)"
  by (simp add: encodeJson_def writeJson_def utf8_length_def MAX_JSON_def DEFAULT_MAX_SIZE_def Let_def)

lemma makeCookie_eq: "length random = 36 \<Longrightarrow> browser_makeCookie random = cookieToBytes (makeCookie random)"
proof -
  assume len: "length random = 36"
  have "browser_makeCookie random = map of_nat (makeCookie random) @ [0]"
    by (simp add: browser_makeCookie_def makeCookie_def cookie_char_def ALPHABET_def Let_def del: js_simps)
  then show ?thesis
    using len encodeInto_ascii [OF ascii_makeCookie, of random COOKIE_SIZE]
    by (simp add: cookieToBytes_def makeCookie_def COOKIE_SIZE_def Let_def)
qed

lemma nextStreamId_eq: "browser_nextStreamId = nextStreamId"
  by (rule ext) (simp add: browser_nextStreamId_def nextStreamId_def)

text \<open>The parameters of a validated configuration are accepted, and mean what was configured.\<close>

lemma validateConfig_range:
  assumes "validateConfig up parse coerce c = Inr cfg"
  shows "1 \<le> bc_parallel cfg \<and> bc_parallel cfg \<le> 128 \<and> 1 \<le> bc_duration cfg \<and> bc_duration cfg \<le> 86400 \<and> 4 \<le> bc_length cfg \<and> bc_length cfg \<le> 1048576
    \<and> list_all stun_url (bc_stunUrls cfg) \<and> length (bc_stunUrls cfg) \<le> 4 \<and> (\<exists>code. valid_code code \<and> bc_code cfg = formatCode code)"
  using assms room_code_known [of up "ci_code c"]
  by (auto simp: validateConfig_def integer_between_def finite_between_def validateStunUrls_def split: option.splits if_splits js_num.splits json.splits)

lemma buildParams_accepted:
  assumes "1 \<le> bc_parallel c" "bc_parallel c \<le> 128" "1 \<le> bc_duration c" "bc_duration c \<le> 86400" "4 \<le> bc_length c" "bc_length c \<le> 1048576"
  shows "decodeParams (buildParams c) = Inr \<lparr>tp_udp = False, tp_time = bc_duration c, tp_parallel = bc_parallel c, tp_len = bc_length c,
    tp_reverse = bc_reverse c, tp_bandwidth = Fin 0\<rparr>"
proof -
  have b: "num_in 1 86400 (Fin (bc_duration c))" "num_in 1 (of_int MAX_PARALLEL) (Fin (of_int (bc_parallel c)))"
    "num_in 4 (of_int MAX_LEN) (Fin (of_int (bc_length c)))"
    using assms by (simp_all add: num_in_def MAX_PARALLEL_def MAX_LEN_def)
  show ?thesis
    by (cases "bc_reverse c")
      (simp_all add: decodeParams_def parse_WireParams_def buildParams_def opt_bool_def req_num_def opt_num_def js_inject b del: js_simps)
qed

lemma stream_entry_json:
  "stream_entry seconds i n = stream_json \<lparr>sr_id = Fin (of_nat (nextStreamId i)), sr_bytes = Fin (of_nat n), sr_retransmits = Fin (- 1), sr_jitter = Fin 0,
     sr_errors = Fin 0, sr_packets = Fin 0, sr_startTime = Fin 0, sr_endTime = Fin seconds\<rparr>"
  by (simp add: stream_entry_def stream_json_def nextStreamId_eq del: js_simps)

lemma streamResults_accepted:
  "decodeResults (streamResults counters seconds sender) = Some \<lparr>er_senderHasRetransmits = Fin (if sender then 0 else - 1),
     er_streams = map2 (\<lambda>i n. \<lparr>sr_id = Fin (of_nat (nextStreamId i)), sr_bytes = Fin (of_nat n), sr_retransmits = Fin (- 1), sr_jitter = Fin 0,
       sr_errors = Fin 0, sr_packets = Fin 0, sr_startTime = Fin 0, sr_endTime = Fin seconds\<rparr>) [0..<length counters] counters\<rparr>"
proof -
  define results where "results = map2 (\<lambda>i n. \<lparr>sr_id = Fin (of_nat (nextStreamId i)), sr_bytes = Fin (of_nat n), sr_retransmits = Fin (- 1),
    sr_jitter = Fin 0, sr_errors = Fin 0, sr_packets = Fin 0, sr_startTime = Fin 0, sr_endTime = Fin seconds\<rparr>) [0..<length counters] counters"
  have e: "map2 (stream_entry seconds) [0..<length counters] counters = map stream_json results"
    by (simp add: results_def stream_entry_json split_def)
  have "all_some (map parse_WireStream (map stream_json results)) = Some results"
    by (rule all_some_map) (rule parse_stream_json)
  then show ?thesis unfolding results_def [symmetric]
    by (simp add: decodeResults_def streamResults_def e default_num_def opt_num_def js_inject del: js_simps map_map)
qed



section \<open>Lemmas on sending and waiting\<close>

text \<open>The loop of \<open>sendBytes\<close>: the messages are consecutive pieces of at most 16 KiB.\<close>

lemma sendBytes_loop_spec:
  assumes "sendBytes_loop turns bytes offset out = (ms, r)"
  shows "\<exists>new. ms = out @ new \<and> list_all (\<lambda>m. m \<noteq> [] \<and> length m \<le> MAX_MESSAGE) new
    \<and> concat new = take (length (concat new)) (drop offset bytes) \<and> (r = Some None \<longrightarrow> concat new = drop offset bytes)"
  using assms
proof (induction turns bytes offset out arbitrary: ms r rule: sendBytes_loop.induct)
  case (1 turns bytes offset out)
  show ?case
  proof (cases "offset < length bytes \<and> turns \<noteq> [] \<and> \<not> (SEND_HIGH_WATERMARK \<le> st_buffered (hd turns) \<and> st_wait (hd turns) \<noteq> None)
      \<and> st_throws (hd turns) = None")
    case True
    then obtain t ts where t: "turns = t # ts" by (cases turns) auto
    define piece where "piece = take (min (length bytes) (offset + MAX_MESSAGE) - offset) (drop offset bytes)"
    have piece: "piece = take MAX_MESSAGE (drop offset bytes)" by (simp add: piece_def min_def)
    have "sendBytes_loop ts bytes (offset + MAX_MESSAGE) (out @ [piece]) = (ms, r)"
      using "1.prems" True t by (subst (asm) sendBytes_loop.simps) (auto simp: piece_def)
    then obtain new where new: "ms = out @ [piece] @ new" "list_all (\<lambda>m. m \<noteq> [] \<and> length m \<le> MAX_MESSAGE) new"
      "concat new = take (length (concat new)) (drop (offset + MAX_MESSAGE) bytes)" "r = Some None \<longrightarrow> concat new = drop (offset + MAX_MESSAGE) bytes"
      using "1.IH" True t unfolding piece_def by fastforce
    have split: "drop offset bytes = piece @ drop (offset + MAX_MESSAGE) bytes"
      unfolding piece by (metis add.commute append_take_drop_id drop_drop)
    have p: "piece \<noteq> [] \<and> length piece \<le> MAX_MESSAGE" using True by (simp add: piece MAX_MESSAGE_def)
    have c: "concat (piece # new) = take (length (concat (piece # new))) (drop offset bytes)" unfolding split using new(3) by simp
    have d: "r = Some None \<longrightarrow> concat (piece # new) = drop offset bytes" unfolding split using new(4) by simp
    show ?thesis
    proof (intro exI conjI)
      show "ms = out @ (piece # new)" using new(1) by simp
      show "list_all (\<lambda>m. m \<noteq> [] \<and> length m \<le> MAX_MESSAGE) (piece # new)" using p new(2) by simp
    qed (fact c d)+
  next
    case False
    then show ?thesis
      using "1.prems" by (subst (asm) sendBytes_loop.simps) (auto split: list.splits if_splits option.splits)
  qed
qed


lemma sendBytes_pieces:
  assumes "sendBytes turns bytes = (ms, r)"
  shows "list_all (\<lambda>m. m \<noteq> [] \<and> length m \<le> MAX_MESSAGE) ms \<and> concat ms = take (length (concat ms)) bytes \<and> (r = Some None \<longrightarrow> concat ms = bytes)"
  using sendBytes_loop_spec [of turns bytes 0 "[]" ms r] assms by (auto simp: sendBytes_def)

text \<open>With enough good iterations the loop ends.\<close>

definition turn_fine :: "send_turn \<Rightarrow> bool" where
  "turn_fine t \<longleftrightarrow> (st_buffered t < SEND_HIGH_WATERMARK \<or> st_wait t = None) \<and> st_throws t = None"

lemma sendBytes_loop_ends:
  "list_all turn_fine turns \<Longrightarrow> length bytes \<le> offset + length turns * MAX_MESSAGE \<Longrightarrow> snd (sendBytes_loop turns bytes offset out) = Some None"
proof (induction turns bytes offset out rule: sendBytes_loop.induct)
  case (1 turns bytes offset out)
  show ?case
  proof (cases "offset < length bytes")
    case True
    then obtain t ts where t: "turns = t # ts" using "1.prems" by (cases turns) auto
    then show ?thesis using True "1.prems" "1.IH" [OF True t]
      by (subst sendBytes_loop.simps) (auto simp: turn_fine_def algebra_simps)
  qed (simp add: sendBytes_loop.simps)
qed

lemma length_randomBytes:
  "(\<And>o' n. length (fill o' n) = n) \<Longrightarrow> offset \<le> len \<Longrightarrow> length (randomBytes fill len offset) = len - offset"
proof (induction fill len offset rule: randomBytes.induct)
  case (1 fill len offset)
  show ?case
  proof (cases "offset + 65536 \<le> len")
    case True
    then show ?thesis using 1 by (subst randomBytes.simps) (simp add: min_def)
  next
    case False
    then have "randomBytes fill len (offset + 65536) = []" by (simp add: randomBytes.simps)
    then show ?thesis using False 1(2,3) by (subst randomBytes.simps) (simp add: min_def)
  qed
qed

text \<open>Each promise settles once, and its timer settles it.\<close>

definition outcome_of :: "settled \<Rightarrow> settled option" where
  "outcome_of p = (if p = Pending then None else Some p)"

lemma settle_simps [simp]: "settle Pending x = x" "settle Resolved_ok x = Resolved_ok" "settle (Rejected_with e) x = Rejected_with e"
  by (simp_all add: settle_def)

lemma settle_settled: "p \<noteq> Pending \<Longrightarrow> settle p x = p"
  by (cases p) simp_all

interpretation open_promise: one_shot open_step outcome_of "\<lambda>_. True"
proof
  show "outcome_of (open_step s e) = Some r" if "outcome_of s = Some r" for s e r
    using that by (cases e) (auto simp: outcome_of_def settle_settled split: if_splits)
qed

interpretation connected_promise: one_shot connected_step outcome_of "\<lambda>_. True"
proof
  show "outcome_of (connected_step s e) = Some r" if "outcome_of s = Some r" for s e r
    using that by (cases e) (auto simp: outcome_of_def settle_settled on_connection_state_def Let_def split: if_splits)
qed

interpretation drain_promise: one_shot drain_step "\<lambda>d. outcome_of (dr_promise d)" "\<lambda>_. True"
proof
  show "outcome_of (dr_promise (drain_step s e)) = Some r" if "outcome_of (dr_promise s) = Some r" for s e r
    using that by (cases e) (auto simp: outcome_of_def settle_settled split: if_splits)
qed

text \<open>A drain resolves only when the buffer is low, and its listeners are gone once an event settled it.\<close>

definition drain_low :: "nat \<Rightarrow> drain_event \<Rightarrow> bool" where
  "drain_low maximum e = (case e of BufferedLow amount \<Rightarrow> amount \<le> maximum | _ \<Rightarrow> False)"

lemma drain_maximum: "dr_maximum (run_steps drain_step d es) = dr_maximum d"
proof (induction es arbitrary: d)
  case (Cons e es)
  have "dr_maximum (drain_step d e) = dr_maximum d" by (cases e) simp_all
  then show ?case using Cons by simp
qed simp

lemma drain_resolved:
  assumes "dr_promise (run_steps drain_step (waitBufferedAtMost amount maximum) es) = Resolved_ok"
  shows "amount \<le> maximum \<or> list_ex (drain_low maximum) es"
proof (rule ccontr)
  assume n: "\<not> (amount \<le> maximum \<or> list_ex (drain_low maximum) es)"
  then have "outcome_of (dr_promise (waitBufferedAtMost amount maximum)) = None" by (simp add: waitBufferedAtMost_def outcome_of_def)
  moreover have "outcome_of (dr_promise (run_steps drain_step (waitBufferedAtMost amount maximum) es)) = Some Resolved_ok"
    using assms by (simp add: outcome_of_def)
  ultimately obtain xs e ys where x: "es = xs @ e # ys" "outcome_of (dr_promise (run_steps drain_step (waitBufferedAtMost amount maximum) xs)) = None"
    "outcome_of (dr_promise (drain_step (run_steps drain_step (waitBufferedAtMost amount maximum) xs) e)) = Some Resolved_ok"
    using drain_promise.settles_at [OF TrueI] by blast
  have "dr_maximum (run_steps drain_step (waitBufferedAtMost amount maximum) xs) = maximum"
    by (simp add: drain_maximum waitBufferedAtMost_def)
  then show False using x n by (cases e) (auto simp: outcome_of_def drain_low_def split: if_splits)
qed

definition direct_types :: "json list" where
  "direct_types = [JStr (js ''host''), JStr (js ''srflx''), JStr (js ''prflx'')]"

definition direct_connection :: "bool \<Rightarrow> json \<Rightarrow> bool" where
  "direct_connection inc c \<longleftrightarrow> json_field ''transport'' c = Some (JStr (js ''webrtc'')) \<and> json_field ''path'' c = Some (JStr (js ''direct''))
     \<and> json_field ''ice_protocol'' c \<in> {Some (JStr (js ''udp'')), Some (JStr (js ''tcp''))} \<and> json_field ''addresses_included'' c = Some (JBool inc)
     \<and> (\<exists>t u. json_field ''local_candidate_type'' c = Some t \<and> json_field ''remote_candidate_type'' c = Some u \<and> t \<in> set direct_types \<and> u \<in> set direct_types)
     \<and> (inc \<longleftrightarrow> json_field ''local_addr'' c \<noteq> None) \<and> (inc \<longleftrightarrow> json_field ''remote_addr'' c \<noteq> None)"

lemma relay_not_direct: "JStr (js ''relay'') \<notin> set direct_types"
  by (simp add: direct_types_def)

lemma directPair_cases:
  "(\<exists>c. directPairFromStats text stats inc = Inr c) \<or> directPairFromStats text stats inc = Inl no_direct_path"
  by (auto simp: directPairFromStats_def Let_def split: option.splits)

lemma directPair_direct:
  assumes "directPairFromStats text stats inc = Inr c"
  shows "direct_connection inc c"
proof -
  from assms obtain lc rc protocol where t: "candidate_type_allowed lc" "candidate_type_allowed rc" "protocol \<in> {JStr (js ''udp''), JStr (js ''tcp'')}"
    and c: "c = JObj ([(js ''transport'', JStr (js ''webrtc'')), (js ''path'', JStr (js ''direct'')),
            (js ''local_candidate_type'', the (json_field ''candidateType'' lc)), (js ''remote_candidate_type'', the (json_field ''candidateType'' rc)),
            (js ''ice_protocol'', protocol), (js ''addresses_included'', JBool inc)]
           @ (if inc then [(js ''local_addr'', candidateAddress text lc), (js ''remote_addr'', candidateAddress text rc)] else []))"
    unfolding directPairFromStats_def Let_def by (auto split: option.splits if_splits simp del: js_simps)
  have "the (json_field ''candidateType'' lc) \<in> set direct_types" "the (json_field ''candidateType'' rc) \<in> set direct_types"
    using t by (auto simp: candidate_type_allowed_def direct_types_def simp del: js_simps)
  then show ?thesis using t(3) by (cases inc) (simp_all add: direct_connection_def c js_inject del: js_simps)
qed

lemma poll_direct: "poll_result text inc stats = Inr c \<Longrightarrow> direct_connection inc c"
  by (auto simp: poll_result_def intro: directPair_direct split: sum.splits)

lemma wait_direct: "waitForDirectPair text inc deadline polls = Some (Inr c) \<Longrightarrow> direct_connection inc c"
proof (induction polls)
  case (Cons poll polls)
  obtain now stats where poll: "poll = (now, stats)" by fastforce
  show ?case
    using Cons poll_direct [of _ inc stats] by (cases "poll_result text inc stats") (auto simp: poll split: if_splits)
qed simp

lemma wait_gives_up:
  "waitForDirectPair text inc deadline polls = Some (Inl e) \<Longrightarrow>
     e = no_direct_path \<and> list_ex (\<lambda>(now, stats). deadline \<le> now) polls \<or> list_ex (\<lambda>(now, stats). stats = Inl e) polls"
proof (induction polls)
  case (Cons poll polls)
  obtain now stats where poll: "poll = (now, stats)" by fastforce
  have k: "error_kind no_direct_path = Some ''direct_path_unavailable''" by (simp add: no_direct_path_def)
  show ?case
  proof (cases "now < deadline")
    case True
    show ?thesis
    proof (cases "waitForDirectPair text inc deadline polls = Some (Inl e)")
      case False
      then obtain e' where e': "poll_result text inc stats = Inl e'" "e' = e" "error_kind e \<noteq> Some ''direct_path_unavailable''"
        using Cons.prems True by (auto simp: poll split: sum.splits if_splits)
      then have "stats = Inl e" using k directPair_cases by (auto simp: poll_result_def split: sum.splits) (metis Inl_inject sum.simps(4))
      then show ?thesis by (simp add: poll)
    qed (use Cons.IH in \<open>auto simp: poll\<close>)
  qed (use Cons.prems in \<open>auto simp: poll\<close>)
qed simp

text \<open>
  C13: no test over a relay.  The peer gets a connection description only from a pair of candidates of the statistics whose
  types are host, server reflexive or peer reflexive, never relay; it carries addresses exactly if they were asked
  for.  Otherwise it polls until the deadline and gives up with the error that says that no test was
  run, unless the browser refused the statistics.
\<close>

theorem direct_path_only:
  assumes "waitForDirectPair text inc deadline polls = Some r"
  shows "(\<forall>c. r = Inr c \<longrightarrow> direct_connection inc c \<and> json_field ''local_candidate_type'' c \<noteq> Some (JStr (js ''relay''))
        \<and> json_field ''remote_candidate_type'' c \<noteq> Some (JStr (js ''relay'')))
    \<and> (\<forall>e. r = Inl e \<longrightarrow> e = no_direct_path \<and> list_ex (\<lambda>(now, stats). deadline \<le> now) polls \<or> list_ex (\<lambda>(now, stats). stats = Inl e) polls)"
proof -
  have "json_field ''local_candidate_type'' c \<noteq> Some (JStr (js ''relay'')) \<and> json_field ''remote_candidate_type'' c \<noteq> Some (JStr (js ''relay''))"
    if "direct_connection inc c" for c using that relay_not_direct unfolding direct_connection_def by (metis option.inject)
  then show ?thesis using assms wait_direct [of _ inc deadline polls] wait_gives_up [of _ inc deadline polls] by blast
qed

definition witness_stats :: stats where
  "witness_stats = [(js ''T'', JObj [(js ''type'', JStr (js ''transport'')), (js ''selectedCandidatePairId'', JStr (js ''P''))]),
     (js ''P'', JObj [(js ''type'', JStr (js ''candidate-pair'')), (js ''localCandidateId'', JStr (js ''L'')), (js ''remoteCandidateId'', JStr (js ''R''))]),
     (js ''L'', JObj [(js ''candidateType'', JStr (js ''host'')), (js ''protocol'', JStr (js ''udp''))]),
     (js ''R'', JObj [(js ''candidateType'', JStr (js ''srflx''))])]"

theorem direct_path_only_witness:
  "\<exists>c. waitForDirectPair (\<lambda>_. []) False 5000 [(0, Inr []), (50, Inr witness_stats)] = Some (Inr c) \<and> direct_connection False c"
proof -
  have "\<exists>c. directPairFromStats (\<lambda>_. []) witness_stats False = Inr c"
    by (simp add: directPairFromStats_def selected_pair_def names_pair_def has_text_def stats_get_def truthy_def witness_stats_def
        candidate_type_allowed_def coalesce_def js_inject js_def)
  then obtain c where c: "directPairFromStats (\<lambda>_. []) witness_stats False = Inr c" by blast
  have e: "directPairFromStats (\<lambda>_. []) [] False = Inl no_direct_path" "error_kind no_direct_path = Some ''direct_path_unavailable''"
    by (simp_all add: directPairFromStats_def selected_pair_def truthy_def no_direct_path_def)
  have w: "waitForDirectPair (\<lambda>_. []) False 5000 [(0, Inr []), (50, Inr witness_stats)] = Some (Inr c)" using c e by (simp add: poll_result_def)
  then show ?thesis using direct_path_only [OF w] by blast
qed

definition witness_input :: config_input where
  "witness_input = \<lparr>ci_code = js ''2345-6789'', ci_signalUrl = js ''http://h/'', ci_stunUrls = None, ci_includeAddresses = None, ci_reverse = None,
     ci_parallel = None, ci_duration = None, ci_length = None\<rparr>"

definition witness_parse :: "js_string \<Rightarrow> url option" where
  "witness_parse s = Some \<lparr>url_protocol = js ''http:'', url_authority = js ''h'', url_pathname = js ''/'', url_search = [], url_hash = []\<rparr>"

definition witness_config :: browser_config where
  "witness_config = \<lparr>bc_code = js ''2345-6789'', bc_signalUrl = js ''http://h/'', bc_stunUrls = [], bc_includeAddresses = False, bc_reverse = False,
     bc_parallel = 1, bc_duration = 1, bc_length = 65536\<rparr>"

lemma witness_valid: "validateConfig (\<lambda>_. []) witness_parse (\<lambda>_. None) witness_input = Inr witness_config"
proof -
  have "normalizeRoomCode (\<lambda>_. []) (js ''2345-6789'') = Inr (js ''2345-6789'')"
    by (simp add: normalizeRoomCode_def toUpperCase_def ascii_upper_def Let_def)
  then show ?thesis
    by (simp add: validateConfig_def witness_input_def witness_parse_def witness_config_def integer_between_def finite_between_def coalesce_def to_number_def
        url_text_def starts_with_def validateStunUrls_def)
qed


end
