(* ===== verification/BrowserPeer.thy ===== *)
theory BrowserPeer
  imports BrowserFrames
begin

text \<open>
  \<open>interop/transports/browser/browser-peer.js\<close>: the class \<open>BrowserPeer\<close>.  \<open>run\<close> is a machine whose program counter
  names the \<open>await\<close> it stands at; the events are the settlements of those promises and what the
  browser reports in between.  While ICE is exchanged two coroutines run at once: one sends local
  candidates, the other applies the remote ones, and each has its own state.  The values of
  \<open>performance.now()\<close> and what is read from the control channel come with the events: the queue of the channel is
  the theory \<open>BrowserQueue\<close>.

  A server that asks for the payload channels a second time is not followed further (\<open>PStray\<close>).
\<close>

section \<open>Queues of one consumer\<close>

text \<open>
  Each queue of the peer has one consumer.  A value that is pushed while the consumer waits is the one
  a later call of \<open>next\<close> would have found, so here the consumer calls \<open>next\<close> when something is there.
\<close>

lemma next_then_push:
  "aq_values q = [] \<Longrightarrow> aq_waiters q = [] \<Longrightarrow> aq_error q = None \<Longrightarrow> \<not> aq_closed q \<Longrightarrow>
     aq_push v (fst (aq_next i q)) = aq_next i (fst (aq_push v q))"
  "aq_values q = [] \<Longrightarrow> aq_waiters q = [] \<Longrightarrow> aq_error q = None \<Longrightarrow> \<not> aq_closed q \<Longrightarrow>
     aq_fail e (fst (aq_next i q)) = aq_next i (fst (aq_fail e q))"
  by (simp_all add: aq_next_def aq_push_def aq_fail_def)

section \<open>State\<close>

datatype ice_call = SetRemoteDescription js_string | AddIceCandidate json | AddIceEnd

text \<open>
  The coroutine \<open>receiveRemoteIce\<close>: at \<open>signal.next()\<close>, at \<open>setRemoteDescription\<close>, at the \<open>addIceCandidate\<close> of a pending candidate
  with those still to come, of a new one, or of the end; or returned.
\<close>

datatype recv_pc = RNext | RSetRemote | RFlush "json list" | RAdd | REnd | RDone

datatype browser_pc =
  POpening | PBound | PReady | POffer | PIce | PConnecting | PDirect | PCookieWrite | PState | PParamsWrite | PPayloads | PReverse | PSending rat | PDraining
| PEndWrite | PEof | PResultsWrite | PResultsRead | PDoneWrite | PAck | PStray | PFinished

record browser_result =
  br_transport :: js_string
  br_reverse :: bool
  br_parallel :: int
  br_durationSeconds :: rat
  br_sentBytes :: js_val
  br_receivedBytes :: js_val
  br_sendBitsPerSecond :: js_val
  br_receiveBitsPerSecond :: js_val
  br_local :: json
  br_remote :: json
  br_connection :: json

text \<open>
  Of the browser three functions are arguments: the text of a number, \<open>Number\<close> of a value that is no number, and the text of a value
  in a template literal.
\<close>

record browser_env =
  en_num :: "rat \<Rightarrow> js_string"
  en_coerce :: "json \<Rightarrow> js_val"
  en_text :: "json \<Rightarrow> js_string"

text \<open>
  \<open>bp_said\<close>, \<open>bp_remoteIce\<close> and \<open>bp_applied\<close> record the messages sent, the candidates received and the calls made on the peer
  connection.
\<close>

record browser_peer =
  bp_config :: browser_config
  bp_signal :: signal_socket
  bp_said :: "ClientSignalMessage list"
  bp_localIce :: "candidate option async_queue"
  bp_iceSent :: bool
  bp_iceRecv :: recv_pc
  bp_answered :: bool
  bp_pendingIce :: "json list"
  bp_remoteIce :: "json list"
  bp_applied :: "ice_call list"
  bp_peerOpen :: bool
  bp_controlOpen :: bool
  bp_payloads :: "bool list"
  bp_counters :: "nat list"
  bp_eof :: "bool list"
  bp_connection :: "json option"
  bp_startedAt :: rat
  bp_endedAt :: rat
  bp_remoteResults :: "json option"
  bp_cookie :: "byte list option"
  bp_written :: "frame list"
  bp_outcome :: "(js_error + browser_result) option"
  bp_pc :: browser_pc

text \<open>
  The constructor and the entry into \<open>connect\<close>, which creates the WebSocket.  \<open>bp_startedAt\<close> and \<open>bp_endedAt\<close> are \<open>null\<close> in the code until
  set, which counts as 0 in a difference.
\<close>

definition new_peer :: "browser_config \<Rightarrow> browser_peer" where
  "new_peer c = \<lparr>bp_config = c, bp_signal = new_signal_socket\<lparr>ss_socket := Some CONNECTING\<rparr>, bp_said = [], bp_localIce = new_queue, bp_iceSent = False,
     bp_iceRecv = RNext, bp_answered = False, bp_pendingIce = [], bp_remoteIce = [], bp_applied = [], bp_peerOpen = False, bp_controlOpen = False, bp_payloads = [],
     bp_counters = replicate (nat (bc_parallel c)) 0, bp_eof = [], bp_connection = None, bp_startedAt = 0, bp_endedAt = 0, bp_remoteResults = None,
     bp_cookie = None, bp_written = [], bp_outcome = None, bp_pc = POpening\<rparr>"

text \<open>\<open>run(config)\<close>: a peer and the address of its room, or what its constructor or the beginning of \<open>connect\<close> throws.\<close>

definition browser_run :: "(nat \<Rightarrow> js_string) \<Rightarrow> (js_string \<Rightarrow> url option) \<Rightarrow> (json \<Rightarrow> js_val) \<Rightarrow> config_input \<Rightarrow> js_error + js_string \<times> browser_peer" where
  "browser_run up parse coerce input =
     andThen (validateConfig up parse coerce input) (\<lambda>c.
     andThen (roomWebSocketUrl up parse (bc_signalUrl c) (bc_code c)) (\<lambda>room. Inr (room, new_peer c)))"

section \<open>Leaving and sending\<close>

definition say_leave :: "browser_peer \<Rightarrow> browser_peer \<times> js_error option" where
  "say_leave p = (case signal_close (bp_signal p) of
     (sg, e) \<Rightarrow> (p\<lparr>bp_signal := sg, bp_said := bp_said p @ (if ss_wire sg = ss_wire (bp_signal p) then [] else [Leave])\<rparr>, e))"

text \<open>The \<open>finally\<close> of \<open>run\<close>.\<close>

definition bp_cleanup :: "browser_peer \<Rightarrow> browser_peer" where
  "bp_cleanup p = (fst (say_leave p))\<lparr>bp_payloads := map (\<lambda>_. False) (bp_payloads p), bp_controlOpen := False, bp_peerOpen := False\<rparr>"

definition bp_leave :: "js_error + browser_result \<Rightarrow> browser_peer \<Rightarrow> browser_peer" where
  "bp_leave r p = (bp_cleanup p)\<lparr>bp_outcome := Some r, bp_pc := PFinished\<rparr>"

text \<open>\<open>this.signal.send(...)\<close>, and what follows it.\<close>

definition bp_say :: "ClientSignalMessage \<Rightarrow> (browser_peer \<Rightarrow> browser_peer) \<Rightarrow> browser_peer \<Rightarrow> browser_peer" where
  "bp_say m k p = (case signal_send (client_json m) (bp_signal p) of
     (sg, None) \<Rightarrow> k (p\<lparr>bp_signal := sg, bp_said := bp_said p @ [m]\<rparr>)
   | (sg, Some e) \<Rightarrow> bp_leave (Inl e) (p\<lparr>bp_signal := sg\<rparr>))"

text \<open>A control frame; JSON above the limit throws before anything is sent.\<close>

definition bp_write :: "(rat \<Rightarrow> js_string) \<Rightarrow> frame \<Rightarrow> browser_pc \<Rightarrow> browser_peer \<Rightarrow> browser_peer" where
  "bp_write num f pc p = (case f of
     StateFrame st \<Rightarrow> p\<lparr>bp_written := bp_written p @ [f], bp_pc := pc\<rparr>
   | JsonFrame v \<Rightarrow> (case encodeJson num v of
       Inl e \<Rightarrow> bp_leave (Inl e) p
     | Inr bytes \<Rightarrow> p\<lparr>bp_written := bp_written p @ [f], bp_pc := pc\<rparr>))"

section \<open>Signaling\<close>

definition has_type :: "string \<Rightarrow> json \<Rightarrow> bool" where
  "has_type t j \<longleftrightarrow> json_field ''type'' j = Some (JStr (js t))"

definition on_bound :: "json \<Rightarrow> browser_peer \<Rightarrow> browser_peer" where
  "on_bound j p =
     (if \<not> has_type ''bound'' j \<or> json_field ''role'' j \<noteq> Some (JStr (js ''joiner''))
      then bp_leave (Inl (signaling_error ''joiner bind was not acknowledged'')) p else p\<lparr>bp_pc := PReady\<rparr>)"

text \<open>The peer connection and the control channel are created here.\<close>

definition on_ready :: "json \<Rightarrow> browser_peer \<Rightarrow> browser_peer" where
  "on_ready j p =
     (if \<not> has_type ''peer_ready'' j then bp_leave (Inl (signaling_error ''listener was not ready'')) p
      else p\<lparr>bp_peerOpen := True, bp_controlOpen := True, bp_pc := POffer\<rparr>)"

text \<open>\<open>Promise.all\<close> of the two coroutines resolves when both have returned.\<close>

definition ice_joined :: "browser_peer \<Rightarrow> browser_peer" where
  "ice_joined p = (if bp_iceSent p \<and> bp_iceRecv p = RDone then p\<lparr>bp_pc := PConnecting\<rparr> else p)"

definition on_local_ice :: "candidate option \<Rightarrow> browser_peer \<Rightarrow> browser_peer" where
  "on_local_ice c p = (case c of
     None \<Rightarrow> bp_say (Relay EndOfCandidates) (\<lambda>q. ice_joined (q\<lparr>bp_iceSent := True\<rparr>)) p
   | Some cd \<Rightarrow> bp_say (Relay (Candidate cd)) (\<lambda>q. q) p)"

text \<open>The object given to \<open>addIceCandidate\<close>.\<close>

definition ice_init :: "json \<Rightarrow> json" where
  "ice_init j = JObj [(js ''candidate'', coalesce (json_field ''candidate'' j) JNull), (js ''sdpMid'', coalesce (json_field ''sdp_mid'' j) JNull),
     (js ''sdpMLineIndex'', coalesce (json_field ''sdp_mline_index'' j) JNull),
     (js ''usernameFragment'', coalesce (json_field ''username_fragment'' j) JNull)]"

definition apply_ice :: "ice_call \<Rightarrow> recv_pc \<Rightarrow> browser_peer \<Rightarrow> browser_peer" where
  "apply_ice c r p = p\<lparr>bp_applied := bp_applied p @ [c], bp_iceRecv := r\<rparr>"

definition json_text :: "json option \<Rightarrow> js_string" where
  "json_text v = (case v of Some (JStr s) \<Rightarrow> s | _ \<Rightarrow> [])"

definition on_remote_ice :: "json \<Rightarrow> browser_peer \<Rightarrow> browser_peer" where
  "on_remote_ice j p =
     (if has_type ''description'' j \<and> json_field ''sdp_type'' j = Some (JStr (js ''answer'')) \<and> \<not> bp_answered p
      then apply_ice (SetRemoteDescription (json_text (json_field ''sdp'' j))) RSetRemote p
      else if has_type ''candidate'' j
      then (let q = p\<lparr>bp_remoteIce := bp_remoteIce p @ [ice_init j]\<rparr> in
            if bp_answered q then apply_ice (AddIceCandidate (ice_init j)) RAdd q else q\<lparr>bp_pendingIce := bp_pendingIce q @ [ice_init j]\<rparr>)
      else if has_type ''end_of_candidates'' j \<and> bp_answered p then apply_ice AddIceEnd REnd p
      else if has_type ''error'' j \<or> has_type ''peer_left'' j
      then bp_leave (Inl (NetsuBrowserError ''transport_closed'' (js ''signaling peer left during negotiation''))) p
      else bp_leave (Inl (signaling_error ''unexpected signaling message'')) p)"

fun flush_ice :: "json list \<Rightarrow> browser_peer \<Rightarrow> browser_peer" where
  "flush_ice [] p = p\<lparr>bp_iceRecv := RNext\<rparr>"
| "flush_ice (c # cs) p = apply_ice (AddIceCandidate c) (RFlush cs) p"

definition remote_applied :: "browser_peer \<Rightarrow> browser_peer" where
  "remote_applied p = (case bp_iceRecv p of
     RSetRemote \<Rightarrow> flush_ice (bp_pendingIce p) (p\<lparr>bp_answered := True, bp_pendingIce := []\<rparr>)
   | RFlush cs \<Rightarrow> flush_ice cs p
   | RAdd \<Rightarrow> p\<lparr>bp_iceRecv := RNext\<rparr>
   | REnd \<Rightarrow> ice_joined (p\<lparr>bp_iceRecv := RDone\<rparr>)
   | _ \<Rightarrow> p)"

definition applying :: "recv_pc \<Rightarrow> bool" where
  "applying r = (case r of RNext \<Rightarrow> False | RDone \<Rightarrow> False | _ \<Rightarrow> True)"

section \<open>The test\<close>

definition seconds_of :: "browser_peer \<Rightarrow> rat" where
  "seconds_of p = max 0 (bp_endedAt p - bp_startedAt p) / 1000"

definition val_plus :: "js_val \<Rightarrow> js_val \<Rightarrow> js_val" where
  "val_plus v w = Option.bind w (val_add v)"

text \<open>
  The sum over \<open>remoteResults.streams\<close>; the outer \<open>None\<close> is the \<open>TypeError\<close> of a value that is no array or of a
  \<open>null\<close> in it.  \<open>coerce\<close> is \<open>Number\<close> on values that are no numbers; of \<open>undefined\<close> it is NaN.
\<close>

definition stream_bytes :: "(json \<Rightarrow> js_val) \<Rightarrow> json \<Rightarrow> js_val" where
  "stream_bytes coerce s = (case json_field ''bytes'' s of None \<Rightarrow> None | Some b \<Rightarrow> to_number coerce b)"

definition remote_bytes :: "(json \<Rightarrow> js_val) \<Rightarrow> json option \<Rightarrow> js_val option" where
  "remote_bytes coerce results = (case Option.bind results (json_field ''streams'') of
     Some (JArr vs) \<Rightarrow> if JNull \<in> set vs then None else Some (foldl (\<lambda>v s. val_plus v (stream_bytes coerce s)) (Some (Fin 0)) vs)
   | _ \<Rightarrow> None)"

text \<open>\<open>Math.abs(l - r) / Math.max(l, r, 1)\<close>.\<close>

definition browser_drift :: "rat \<Rightarrow> js_val \<Rightarrow> js_val" where
  "browser_drift l r = (case r of
     None \<Rightarrow> None
   | Some (Inf neg) \<Rightarrow> if neg then Some (Inf False) else None
   | Some (Fin b) \<Rightarrow> Some (Fin (\<bar>l - b\<bar> / max (max l b) 1)))"

definition rate_of :: "js_val \<Rightarrow> rat \<Rightarrow> js_val" where
  "rate_of bytes seconds = val_scale (8 / max seconds (1 / 2 ^ 52)) bytes"

text \<open>\<open>{ ...this.connection, streams }\<close>.\<close>

definition with_streams :: "int \<Rightarrow> json \<Rightarrow> json" where
  "with_streams n c = (case c of JObj fs \<Rightarrow> JObj (filter (\<lambda>(k, v). k \<noteq> js ''streams'') fs @ [(js ''streams'', JNum (of_int n))]) | _ \<Rightarrow> JObj [(js ''streams'', JNum (of_int n))])"

definition result_of :: "(json \<Rightarrow> js_val) \<Rightarrow> browser_peer \<Rightarrow> js_error + browser_result" where
  "result_of coerce p = (case remote_bytes coerce (bp_remoteResults p) of
     None \<Rightarrow> Inl (OtherError (js ''TypeError''))
   | Some remoteBytes \<Rightarrow>
       let localBytes = of_nat (sum_list (bp_counters p)); reverse = bc_reverse (bp_config p); seconds = seconds_of p in
       if val_gt (browser_drift localBytes remoteBytes) (5 / 100)
       then Inl (NetsuBrowserError ''byte_drift'' (js ''WebRTC application byte drift exceeded 5%''))
       else
         let sentBytes = (if reverse then remoteBytes else Some (Fin localBytes));
             receivedBytes = (if reverse then Some (Fin localBytes) else remoteBytes)
         in Inr \<lparr>br_transport = js ''webrtc'', br_reverse = reverse, br_parallel = bc_parallel (bp_config p), br_durationSeconds = seconds, br_sentBytes = sentBytes,
              br_receivedBytes = receivedBytes, br_sendBitsPerSecond = rate_of sentBytes seconds, br_receiveBitsPerSecond = rate_of receivedBytes seconds,
              br_local = streamResults (bp_counters p) seconds (\<not> reverse), br_remote = the (bp_remoteResults p), br_connection = with_streams (bc_parallel (bp_config p)) (the (bp_connection p))\<rparr>)"

definition write_results :: "(rat \<Rightarrow> js_string) \<Rightarrow> browser_peer \<Rightarrow> browser_peer" where
  "write_results num p = bp_write num (JsonFrame (streamResults (bp_counters p) (seconds_of p) (\<not> bc_reverse (bp_config p)))) PResultsWrite p"

text \<open>\<open>openPayloads\<close>: the channels are created; those of a reverse test get a receiver and its end marker.\<close>

definition open_payloads :: "browser_peer \<Rightarrow> browser_peer" where
  "open_payloads p =
     (if bp_payloads p \<noteq> [] then p\<lparr>bp_pc := PStray\<rparr>
      else p\<lparr>bp_payloads := replicate (nat (bc_parallel (bp_config p))) True,
             bp_eof := (if bc_reverse (bp_config p) then replicate (nat (bc_parallel (bp_config p))) False else bp_eof p), bp_pc := PPayloads\<rparr>)"

definition start_transfer :: "rat \<Rightarrow> browser_peer \<Rightarrow> browser_peer" where
  "start_transfer now p = p\<lparr>bp_startedAt := now,
     bp_pc := (if bc_reverse (bp_config p) then PReverse else PSending (now + bc_duration (bp_config p) * 1000))\<rparr>"

definition unexpected_state :: "int \<Rightarrow> js_error" where
  "unexpected_state st = NetsuBrowserError ''protocol_error'' (js ''unexpected control state '' @ int_digits st)"

definition on_browser_state :: "(rat \<Rightarrow> js_string) \<Rightarrow> int \<Rightarrow> rat \<Rightarrow> browser_peer \<Rightarrow> browser_peer" where
  "on_browser_state num st now p =
     (if st = PARAM_EXCHANGE then bp_write num (JsonFrame (buildParams (bp_config p))) PParamsWrite p
      else if st = CREATE_STREAMS then open_payloads p
      else if st = TEST_START \<or> st = IPERF_START then p
      else if st = TEST_RUNNING then start_transfer now p
      else if st = EXCHANGE_RESULTS then (if bc_reverse (bp_config p) then p\<lparr>bp_pc := PEof\<rparr> else write_results num p)
      else if st = DISPLAY_RESULTS then bp_write num (StateFrame IPERF_DONE) PDoneWrite p
      else if st = ACCESS_DENIED then bp_leave (Inl (protocol_error ''server denied the WebRTC test'')) p
      else if st = SERVER_ERROR then bp_leave (Inl (protocol_error ''server reported a WebRTC test error'')) p
      else bp_leave (Inl (unexpected_state st)) p)"

definition after_browser_write :: "browser_peer \<Rightarrow> browser_peer" where
  "after_browser_write p = (case bp_pc p of
     PCookieWrite \<Rightarrow> p\<lparr>bp_pc := PState\<rparr>
   | PParamsWrite \<Rightarrow> p\<lparr>bp_pc := PState\<rparr>
   | PEndWrite \<Rightarrow> p\<lparr>bp_pc := PState\<rparr>
   | PResultsWrite \<Rightarrow> p\<lparr>bp_pc := PResultsRead\<rparr>
   | PDoneWrite \<Rightarrow> p\<lparr>bp_pc := PAck\<rparr>
   | _ \<Rightarrow> p)"

definition browser_writing :: "browser_pc \<Rightarrow> bool" where
  "browser_writing pc \<longleftrightarrow> pc \<in> {PCookieWrite, PParamsWrite, PEndWrite, PResultsWrite, PDoneWrite}"

text \<open>
  A message on a payload channel: text, which fails the control queue (\<open>PayloadSentText\<close>), or a number of bytes, of which 0 marks
  the end.
\<close>

datatype payload_message = PayloadText | PayloadBytes nat

definition on_payload :: "nat \<Rightarrow> payload_message \<Rightarrow> browser_peer \<Rightarrow> browser_peer" where
  "on_payload i m p =
     (if bc_reverse (bp_config p) \<and> i < length (bp_eof p) \<and> i < length (bp_payloads p) \<and> bp_payloads p ! i then
        (case m of
           PayloadText \<Rightarrow> p
         | PayloadBytes n \<Rightarrow>
             if n = 0 then p\<lparr>bp_eof := (bp_eof p)[i := True]\<rparr>
             else p\<lparr>bp_counters := (bp_counters p)[i := bp_counters p ! i + n]\<rparr>)
      else p)"

text \<open>
  The loop of one sender: a test of the deadline and a settled \<open>sendBytes\<close>; \<open>Promise.all\<close> of the senders; and that of the drains.
\<close>

definition chunk_sent :: "nat \<Rightarrow> rat \<Rightarrow> js_error option \<Rightarrow> browser_peer \<Rightarrow> browser_peer" where
  [simp]: "chunk_sent i now r p = (case bp_pc p of
     PSending deadline \<Rightarrow>
       if i < length (bp_payloads p) \<and> now < deadline then
         (case r of
            Some e \<Rightarrow> bp_leave (Inl e) p
          | None \<Rightarrow> p\<lparr>bp_counters := (bp_counters p)[i := bp_counters p ! i + nat (bc_length (bp_config p))]\<rparr>)
       else p
   | _ \<Rightarrow> p)"

definition senders_done :: "rat \<Rightarrow> browser_peer \<Rightarrow> browser_peer" where
  [simp]: "senders_done now p = (case bp_pc p of
     PSending deadline \<Rightarrow> if deadline \<le> now \<or> bp_payloads p = [] then p\<lparr>bp_endedAt := now, bp_pc := PDraining\<rparr> else p
   | _ \<Rightarrow> p)"

definition drained :: "(rat \<Rightarrow> js_string) \<Rightarrow> js_error option \<Rightarrow> browser_peer \<Rightarrow> browser_peer" where
  [simp]: "drained num r p =
     (if bp_pc p \<noteq> PDraining then p
      else case r of Some e \<Rightarrow> bp_leave (Inl e) p | None \<Rightarrow> bp_write num (StateFrame TEST_END) PEndWrite p)"

section \<open>Events\<close>

datatype browser_event =
  BOpened "js_error option"
| BFrame ws_frame
| BSignalClosed nat
| BNext
| BNextTimeout
| BOffer "js_error + js_string"
| BLocalIce "candidate option"
| BIceNext
| BIceTimeout
| BRemoteApplied "js_error option"
| BConnected "js_error option"
| BDirect rat "(rat \<times> (js_error + stats)) list" "byte list"
| BWrote "js_error option"
| BState "js_error + int" rat
| BPayloadsOpen "js_error option"
| BPayload nat payload_message
| BChunk nat rat "js_error option"
| BSendersDone rat
| BDrained "js_error option"
| BEndTimer rat
| BEof
| BEofTimer
| BJson "js_error + json"

text \<open>What a call of \<open>signal.next()\<close> that settles leads to.\<close>

definition on_next :: "js_error + json \<Rightarrow> browser_peer \<Rightarrow> browser_peer" where
  "on_next r p = (case r of
     Inl e \<Rightarrow> bp_leave (Inl e) p
   | Inr j \<Rightarrow>
       (case bp_pc p of PBound \<Rightarrow> on_bound j p | PReady \<Rightarrow> on_ready j p | PIce \<Rightarrow> on_remote_ice j p | _ \<Rightarrow> p))"

definition awaits_signal :: "browser_peer \<Rightarrow> bool" where
  "awaits_signal p \<longleftrightarrow> bp_pc p = PBound \<or> bp_pc p = PReady \<or> (bp_pc p = PIce \<and> bp_iceRecv p = RNext)"

fun browser_step :: "browser_env \<Rightarrow> browser_peer \<Rightarrow> browser_event \<Rightarrow> browser_peer" where
  "browser_step env p (BOpened r) =
     (if bp_pc p \<noteq> POpening then p
      else case r of
        Some e \<Rightarrow> bp_leave (Inl e) p
      | None \<Rightarrow> bp_say BindJoiner (\<lambda>q. q\<lparr>bp_pc := PBound\<rparr>) (p\<lparr>bp_signal := (bp_signal p)\<lparr>ss_socket := Some OPEN\<rparr>\<rparr>))"
| "browser_step env p (BFrame f) =
     (if bp_pc p = PFinished \<or> ss_socket (bp_signal p) \<noteq> Some OPEN then p else p\<lparr>bp_signal := fst (signal_onmessage f (bp_signal p))\<rparr>)"
| "browser_step env p (BSignalClosed code) =
     (if bp_pc p = PFinished then p else p\<lparr>bp_signal := fst (signal_onclose code (bp_signal p))\<rparr>)"
| "browser_step env p BNext =
     (if \<not> awaits_signal p then p
      else case aq_next 0 (ss_incoming (bp_signal p)) of
        (q, (i, r) # _) \<Rightarrow> on_next r (p\<lparr>bp_signal := (bp_signal p)\<lparr>ss_incoming := q\<rparr>\<rparr>)
      | (q, []) \<Rightarrow> p)"
| "browser_step env p BNextTimeout =
     (if \<not> awaits_signal p then p else bp_leave (Inl (setup_timeout ''signaling exchange timed out'')) p)"
| "browser_step env p (BOffer r) =
     (if bp_pc p \<noteq> POffer then p
      else case r of Inl e \<Rightarrow> bp_leave (Inl e) p | Inr sdp \<Rightarrow> bp_say (Relay (Description Offer sdp)) (\<lambda>q. q\<lparr>bp_pc := PIce\<rparr>) p)"
| "browser_step env p (BLocalIce c) = (if bp_peerOpen p then p\<lparr>bp_localIce := fst (aq_push c (bp_localIce p))\<rparr> else p)"
| "browser_step env p BIceNext =
     (if bp_pc p \<noteq> PIce \<or> bp_iceSent p then p
      else case aq_next 0 (bp_localIce p) of
        (q, (i, Inr c) # _) \<Rightarrow> on_local_ice c (p\<lparr>bp_localIce := q\<rparr>)
      | (q, (i, Inl e) # _) \<Rightarrow> bp_leave (Inl e) p
      | (q, []) \<Rightarrow> p)"
| "browser_step env p BIceTimeout =
     (if bp_pc p \<noteq> PIce \<or> bp_iceSent p then p else bp_leave (Inl (setup_timeout ''ICE gathering timed out'')) p)"
| "browser_step env p (BRemoteApplied r) =
     (if bp_pc p \<noteq> PIce \<or> \<not> applying (bp_iceRecv p) then p
      else case r of Some e \<Rightarrow> bp_leave (Inl e) p | None \<Rightarrow> remote_applied p)"
| "browser_step env p (BConnected r) =
     (if bp_pc p \<noteq> PConnecting then p
      else case r of Some e \<Rightarrow> bp_leave (Inl (classifyInitialConnectError e)) p | None \<Rightarrow> p\<lparr>bp_pc := PDirect\<rparr>)"
| "browser_step env p (BDirect deadline polls random) =
     (if bp_pc p \<noteq> PDirect then p
      else case waitForDirectPair (en_text env) (bc_includeAddresses (bp_config p)) deadline polls of
        None \<Rightarrow> p
      | Some (Inl e) \<Rightarrow> bp_leave (Inl e) p
      | Some (Inr connection) \<Rightarrow>
          (case say_leave (p\<lparr>bp_connection := Some connection\<rparr>) of
             (q, Some e) \<Rightarrow> bp_leave (Inl e) q
           | (q, None) \<Rightarrow> q\<lparr>bp_cookie := Some (browser_makeCookie random), bp_pc := PCookieWrite\<rparr>))"
| "browser_step env p (BWrote r) =
     (if \<not> browser_writing (bp_pc p) then p else case r of Some e \<Rightarrow> bp_leave (Inl e) p | None \<Rightarrow> after_browser_write p)"
| "browser_step env p (BState r now) =
     (if bp_pc p = PState then (case r of Inl e \<Rightarrow> bp_leave (Inl e) p | Inr st \<Rightarrow> on_browser_state (en_num env) st now p)
      else if bp_pc p = PAck then
        (case r of
           Inl e \<Rightarrow> bp_leave (Inl e) p
         | Inr st \<Rightarrow> if st \<noteq> IPERF_DONE then bp_leave (Inl (protocol_error ''terminal acknowledgement mismatch'')) p
                     else bp_leave (result_of (en_coerce env) p) p)
      else p)"
| "browser_step env p (BPayloadsOpen r) =
     (if bp_pc p \<noteq> PPayloads then p else case r of Some e \<Rightarrow> bp_leave (Inl e) p | None \<Rightarrow> p\<lparr>bp_pc := PState\<rparr>)"
| "browser_step env p (BPayload i m) = on_payload i m p"
| "browser_step env p (BChunk i now r) = chunk_sent i now r p"
| "browser_step env p (BSendersDone now) = senders_done now p"
| "browser_step env p (BDrained r) = drained (en_num env) r p"
| "browser_step env p (BEndTimer now) =
     (if bp_pc p \<noteq> PReverse then p else bp_write (en_num env) (StateFrame TEST_END) PEndWrite (p\<lparr>bp_endedAt := now\<rparr>))"
| "browser_step env p BEof = (if bp_pc p \<noteq> PEof \<or> \<not> list_all id (bp_eof p) then p else write_results (en_num env) p)"
| "browser_step env p BEofTimer =
     (if bp_pc p \<noteq> PEof then p else bp_leave (Inl (setup_timeout ''payload end markers timed out'')) p)"
| "browser_step env p (BJson r) =
     (if bp_pc p \<noteq> PResultsRead then p
      else case r of Inl e \<Rightarrow> bp_leave (Inl e) p | Inr j \<Rightarrow> p\<lparr>bp_remoteResults := Some j, bp_pc := PState\<rparr>)"


section \<open>Leaving\<close>

lemma signal_send_fields:
  "ss_socket (fst (signal_send m s)) = ss_socket s" "ss_incoming (fst (signal_send m s)) = ss_incoming s"
  "ss_closeCode (fst (signal_send m s)) = ss_closeCode s"
  by (auto simp: signal_send_def Let_def split: sum.splits)

lemma signal_send_wire:
  "snd (signal_send m s) = None \<Longrightarrow> ss_wire (fst (signal_send m s)) \<noteq> ss_wire s \<and> ss_socket s = Some OPEN"
  "snd (signal_send m s) \<noteq> None \<Longrightarrow> ss_wire (fst (signal_send m s)) = ss_wire s"
  by (auto simp: signal_send_def Let_def split: sum.splits if_splits)

text \<open>Closing the socket says \<open>leave\<close> once, unless its byte limit is used up.\<close>

lemma leave_frame: "validateSignal (typed ''leave'' []) = Inr (typed ''leave'' [])" "\<not> is_candidate_message (typed ''leave'' [])"
  "byteLength (JSON_stringify int_num (typed ''leave'' [])) = 22"
proof -
  show "byteLength (JSON_stringify int_num (typed ''leave'' [])) = 22"
    using sample_frames(2) by (simp add: byteLength_def utf8_length_ascii ascii_def)
qed (simp_all add: signal_eval is_candidate_message_def del: js_simps)

lemma say_leave_cases:
  obtains (quiet) "say_leave p = (p, None)" "ss_socket (bp_signal p) \<noteq> Some OPEN"
  | (left) sg where "say_leave p = (p\<lparr>bp_signal := sg, bp_said := bp_said p @ [Leave]\<rparr>, None)" "ss_socket (bp_signal p) = Some OPEN"
      "ss_socket sg = Some CLOSING"
  | (full) sg e where "say_leave p = (p\<lparr>bp_signal := sg\<rparr>, Some e)" "ss_socket sg = Some OPEN" "MAX_SIGNAL_BYTES < ss_sentBytes sg"
      "ss_socket (bp_signal p) = Some OPEN"
proof (cases "ss_socket (bp_signal p) = Some OPEN")
  case True
  then show thesis
    using left full leave_frame
    by (cases "MAX_SIGNAL_BYTES < ss_sentBytes (bp_signal p) + 22")
      (auto simp: say_leave_def signal_close_def signal_send_def Let_def MAX_SIGNAL_FRAME_def)
next
  case False
  then show thesis using quiet by (simp add: say_leave_def signal_close_def)
qed


lemma bp_leave_fields [simp]:
  "bp_config (bp_leave r p) = bp_config p" "bp_pc (bp_leave r p) = PFinished" "bp_outcome (bp_leave r p) = Some r"
  "bp_connection (bp_leave r p) = bp_connection p" "bp_written (bp_leave r p) = bp_written p" "bp_cookie (bp_leave r p) = bp_cookie p"
  "bp_counters (bp_leave r p) = bp_counters p" "bp_remoteResults (bp_leave r p) = bp_remoteResults p" "bp_startedAt (bp_leave r p) = bp_startedAt p"
  "bp_endedAt (bp_leave r p) = bp_endedAt p" "bp_iceSent (bp_leave r p) = bp_iceSent p" "bp_iceRecv (bp_leave r p) = bp_iceRecv p"
  "bp_answered (bp_leave r p) = bp_answered p" "bp_pendingIce (bp_leave r p) = bp_pendingIce p" "bp_remoteIce (bp_leave r p) = bp_remoteIce p"
  "bp_applied (bp_leave r p) = bp_applied p" "bp_payloads (bp_leave r p) = map (\<lambda>_. False) (bp_payloads p)" "\<not> bp_controlOpen (bp_leave r p)"
  "\<not> bp_peerOpen (bp_leave r p)" "bp_eof (bp_leave r p) = bp_eof p"
  by (simp_all add: bp_leave_def bp_cleanup_def say_leave_def split_beta)

lemma bp_leave_signal: "bp_signal (bp_leave r p) = bp_signal (fst (say_leave p))" "bp_said (bp_leave r p) = bp_said (fst (say_leave p))"
  by (simp_all add: bp_leave_def bp_cleanup_def)

lemma bp_leave_open: "ss_socket (bp_signal (bp_leave r p)) = Some OPEN \<Longrightarrow> MAX_SIGNAL_BYTES < ss_sentBytes (bp_signal (bp_leave r p))"
  unfolding bp_leave_signal by (cases rule: say_leave_cases [of p]) auto

text \<open>Sending a message: the continuation runs after it went out, or the peer leaves.\<close>

lemma bp_say_cases:
  obtains (went) sg where "bp_say m k p = k (p\<lparr>bp_signal := sg, bp_said := bp_said p @ [m]\<rparr>)" "signal_send (client_json m) (bp_signal p) = (sg, None)"
      "ss_socket sg = Some OPEN" "ss_socket (bp_signal p) = Some OPEN"
  | (threw) sg e where "bp_say m k p = bp_leave (Inl e) (p\<lparr>bp_signal := sg\<rparr>)" "signal_send (client_json m) (bp_signal p) = (sg, Some e)"
      "ss_socket sg = ss_socket (bp_signal p)"
proof (cases "snd (signal_send (client_json m) (bp_signal p))")
  case None
  obtain sg where sg: "signal_send (client_json m) (bp_signal p) = (sg, None)" using None by (cases "signal_send (client_json m) (bp_signal p)") simp
  then show thesis
    using signal_send_wire(1) [of "client_json m" "bp_signal p"] signal_send_fields(1) [of "client_json m" "bp_signal p"]
    by (intro went [of sg]) (simp_all add: bp_say_def)
next
  case (Some e)
  obtain sg where sg: "signal_send (client_json m) (bp_signal p) = (sg, Some e)" using Some by (cases "signal_send (client_json m) (bp_signal p)") simp
  then show thesis
    using signal_send_fields(1) [of "client_json m" "bp_signal p"] by (intro threw [of e sg]) (simp_all add: bp_say_def)
qed

section \<open>The order of the messages\<close>

datatype talk = Silent | BoundTalk | Offered | Ended | LeftTalk

fun talk_next :: "ClientSignalMessage \<Rightarrow> talk \<Rightarrow> talk option" where
  "talk_next BindJoiner Silent = Some BoundTalk"
| "talk_next (Relay (Description Offer sdp)) BoundTalk = Some Offered"
| "talk_next (Relay (Candidate c)) Offered = Some Offered"
| "talk_next (Relay EndOfCandidates) Offered = Some Ended"
| "talk_next Leave LeftTalk = None"
| "talk_next Leave t = Some LeftTalk"
| "talk_next m t = None"

definition talk :: "ClientSignalMessage list \<Rightarrow> talk option" where
  "talk ms = foldl (\<lambda>t m. Option.bind t (talk_next m)) (Some Silent) ms"

lemma talk_simps [simp]: "talk [] = Some Silent" "talk (ms @ [m]) = Option.bind (talk ms) (talk_next m)"
  by (simp_all add: talk_def)

definition talking :: "browser_peer \<Rightarrow> bool" where
  "talking p \<longleftrightarrow> (\<exists>t. talk (bp_said p) = Some t \<and> (t = LeftTalk \<longrightarrow> ss_socket (bp_signal p) \<noteq> Some OPEN))"

definition talk_stage :: "browser_peer \<Rightarrow> talk set" where
  "talk_stage p = (case bp_pc p of
     POpening \<Rightarrow> {Silent}
   | PBound \<Rightarrow> {BoundTalk} | PReady \<Rightarrow> {BoundTalk} | POffer \<Rightarrow> {BoundTalk}
   | PIce \<Rightarrow> {if bp_iceSent p then Ended else Offered}
   | PConnecting \<Rightarrow> {Ended} | PDirect \<Rightarrow> {Ended}
   | PFinished \<Rightarrow> UNIV
   | _ \<Rightarrow> {Ended, LeftTalk})"

definition talk_inv :: "browser_peer \<Rightarrow> bool" where
  "talk_inv p \<longleftrightarrow> (\<exists>t \<in> talk_stage p. talk (bp_said p) = Some t \<and> (t = LeftTalk \<longrightarrow> ss_socket (bp_signal p) \<noteq> Some OPEN))"

lemma talk_Leave: "t \<noteq> LeftTalk \<Longrightarrow> talk_next Leave t = Some LeftTalk"
  by (cases t) simp_all

lemma talking_leave: "talking p \<Longrightarrow> talk_inv (bp_leave r p)"
proof -
  assume t: "talking p"
  have "talk_stage (bp_leave r p) = UNIV" by (simp add: talk_stage_def)
  moreover have "talking (bp_leave r p)"
  proof (cases rule: say_leave_cases [of p])
    case (left sg)
    then show ?thesis using t by (auto simp: talking_def bp_leave_signal talk_Leave)
  qed (use t in \<open>auto simp: talking_def bp_leave_signal\<close>)
  ultimately show ?thesis by (auto simp: talk_inv_def talking_def)
qed

lemma talk_inv_talking: "talk_inv p \<Longrightarrow> talking p"
  by (auto simp: talk_inv_def talking_def)


lemma signal_event_fields:
  "ss_socket (fst (signal_onmessage f s)) = ss_socket s" "ss_socket (fst (signal_onclose code s)) = Some CLOSED"
  by (simp_all add: signal_onmessage_def signal_onclose_def split_beta)

text \<open>A state that differs only in what the order of messages does not depend on.\<close>

lemma talk_inv_cong:
  "talk_inv p \<Longrightarrow> bp_said q = bp_said p \<Longrightarrow> ss_socket (bp_signal q) = ss_socket (bp_signal p) \<or> ss_socket (bp_signal q) \<noteq> Some OPEN \<Longrightarrow>
     talk_stage p \<subseteq> talk_stage q \<Longrightarrow> talk_inv q"
  unfolding talk_inv_def by auto

lemma talk_inv_say:
  assumes "talking p" and "\<And>sg. ss_socket sg = Some OPEN \<Longrightarrow> ss_socket (bp_signal p) = Some OPEN \<Longrightarrow> talk_inv (k (p\<lparr>bp_signal := sg, bp_said := bp_said p @ [m]\<rparr>))"
  shows "talk_inv (bp_say m k p)"
proof (cases rule: bp_say_cases [of m k p])
  case (went sg)
  then show ?thesis using assms(2) by simp
next
  case (threw sg e)
  then have "talking (p\<lparr>bp_signal := sg\<rparr>)" using assms(1) by (simp add: talking_def)
  then show ?thesis using threw talking_leave by simp
qed

lemma bp_write_cases:
  obtains (wrote) "bp_write num f pc p = p\<lparr>bp_written := bp_written p @ [f], bp_pc := pc\<rparr>"
  | (large) e where "bp_write num f pc p = bp_leave (Inl e) p"
proof (cases f)
  case (JsonFrame v)
  then show thesis using wrote large by (cases "encodeJson num v") (simp_all add: bp_write_def)
qed (use wrote in \<open>simp add: bp_write_def\<close>)

definition late_pc :: "browser_pc \<Rightarrow> bool" where
  "late_pc pc \<longleftrightarrow> pc \<notin> {POpening, PBound, PReady, POffer, PIce, PConnecting, PDirect, PFinished}"

lemma talk_stage_late: "late_pc (bp_pc p) \<Longrightarrow> talk_stage p = {Ended, LeftTalk}"
  by (auto simp: late_pc_def talk_stage_def split: browser_pc.splits)

lemma talk_inv_write: "talk_inv p \<Longrightarrow> late_pc (bp_pc p) \<Longrightarrow> late_pc pc \<Longrightarrow> talk_inv (bp_write num f pc p)"
  by (cases rule: bp_write_cases [of num f pc p])
    (auto intro: talk_inv_cong simp: talk_stage_late talking_leave talk_inv_talking)

lemma talk_inv_state:
  assumes "talk_inv p" and "bp_pc p = PState"
  shows "talk_inv (on_browser_state num st now p)"
proof -
  have l: "late_pc (bp_pc p)" using assms(2) by (simp add: late_pc_def)
  have s: "talk_inv (p\<lparr>bp_startedAt := x, bp_pc := pc\<rparr>)" "talk_inv (p\<lparr>bp_pc := pc\<rparr>)" "talk_inv (p\<lparr>bp_payloads := ps, bp_eof := es, bp_pc := pc\<rparr>)"
    if "late_pc pc" for pc x ps es
    using assms(1) l that by (auto intro: talk_inv_cong simp: talk_stage_late)
  show ?thesis
    using assms(1) l s talk_inv_write [OF assms(1) l] talking_leave [OF talk_inv_talking [OF assms(1)]]
    by (auto simp: on_browser_state_def open_payloads_def start_transfer_def write_results_def late_pc_def)
qed


lemma talk_inv_next:
  assumes "talk_inv p" and "awaits_signal p"
  shows "talk_inv (on_next r p)"
proof (cases r)
  case (Inl e)
  then show ?thesis using assms(1) by (simp add: on_next_def talking_leave talk_inv_talking)
next
  case (Inr j)
  have leave: "talk_inv (bp_leave x p)" for x using assms(1) by (simp add: talking_leave talk_inv_talking)
  have q: "bp_said q = bp_said p \<Longrightarrow> bp_signal q = bp_signal p \<Longrightarrow> talk_stage p \<subseteq> talk_stage q \<Longrightarrow> talk_inv q" for q
    using assms(1) by (auto intro: talk_inv_cong)
  have u: "talk_inv (p\<lparr>bp_pc := PReady\<rparr>)" if "bp_pc p = PBound" by (rule q) (simp_all add: talk_stage_def that)
  have v: "talk_inv (p\<lparr>bp_peerOpen := True, bp_controlOpen := True, bp_pc := POffer\<rparr>)" if "bp_pc p = PReady"
    by (rule q) (simp_all add: talk_stage_def that)
  have w: "talk_inv (p\<lparr>bp_applied := xs, bp_iceRecv := ys\<rparr>)" "talk_inv (p\<lparr>bp_remoteIce := is, bp_applied := xs, bp_iceRecv := ys\<rparr>)"
    "talk_inv (p\<lparr>bp_remoteIce := is, bp_pendingIce := js\<rparr>)" if "bp_pc p = PIce" for xs ys "is" js
    by (rule q; simp add: talk_stage_def that)+
  show ?thesis
    using assms(2)
    by (auto simp: Inr on_next_def awaits_signal_def on_bound_def on_ready_def on_remote_ice_def apply_ice_def Let_def leave u v w simp del: js_simps)
qed

lemma talk_inv_open:
  assumes "talk_inv p" and "bp_pc p = POpening"
  shows "talk_inv (bp_say BindJoiner (\<lambda>q. q\<lparr>bp_pc := PBound\<rparr>) (p\<lparr>bp_signal := sg\<rparr>))"
proof (rule talk_inv_say)
  have t: "talk (bp_said p) = Some Silent" using assms by (auto simp: talk_inv_def talk_stage_def)
  then show "talking (p\<lparr>bp_signal := sg\<rparr>)" by (simp add: talking_def)
  show "talk_inv (p\<lparr>bp_signal := sg, bp_signal := sg', bp_said := bp_said (p\<lparr>bp_signal := sg\<rparr>) @ [BindJoiner], bp_pc := PBound\<rparr>)" for sg'
    using t by (simp add: talk_inv_def talk_stage_def)
qed

lemma talk_inv_offer:
  assumes "talk_inv p" and "bp_pc p = POffer" and "\<not> bp_iceSent p"
  shows "talk_inv (bp_say (Relay (Description Offer sdp)) (\<lambda>q. q\<lparr>bp_pc := PIce\<rparr>) p)"
proof (rule talk_inv_say)
  have t: "talk (bp_said p) = Some BoundTalk" using assms by (auto simp: talk_inv_def talk_stage_def)
  show "talk_inv (p\<lparr>bp_signal := sg, bp_said := bp_said p @ [Relay (Description Offer sdp)], bp_pc := PIce\<rparr>)" for sg
    using t assms(3) by (simp add: talk_inv_def talk_stage_def)
qed (use assms(1) in \<open>rule talk_inv_talking\<close>)

lemma talk_inv_local_ice:
  assumes "talk_inv p" and "bp_pc p = PIce" and "\<not> bp_iceSent p"
  shows "talk_inv (on_local_ice c p)"
proof -
  have t: "talk (bp_said p) = Some Offered" using assms by (auto simp: talk_inv_def talk_stage_def)
  note say = talk_inv_say [OF talk_inv_talking [OF assms(1)]]
  show ?thesis
  proof (cases c)
    case None
    have "talk_inv (ice_joined (p\<lparr>bp_signal := sg, bp_said := bp_said p @ [Relay EndOfCandidates], bp_iceSent := True\<rparr>))" for sg
      using t assms(2) by (simp add: talk_inv_def talk_stage_def ice_joined_def)
    then show ?thesis using say by (simp add: None on_local_ice_def)
  next
    case (Some cd)
    have "talk_inv (p\<lparr>bp_signal := sg, bp_said := bp_said p @ [Relay (Candidate cd)]\<rparr>)" for sg
      using t assms(2,3) by (simp add: talk_inv_def talk_stage_def)
    then show ?thesis using say by (simp add: Some on_local_ice_def)
  qed
qed


text \<open>
  The remote description is applied first, then every remote candidate in the order of arrival, those
  that came before the answer included, then the end.  Nothing happens before the offer.
\<close>

definition early_pc :: "browser_pc \<Rightarrow> bool" where
  "early_pc pc \<longleftrightarrow> pc \<in> {POpening, PBound, PReady, POffer}"

definition ordered_calls :: "bool \<Rightarrow> json list \<Rightarrow> json list \<Rightarrow> recv_pc \<Rightarrow> ice_call list \<Rightarrow> bool" where
  "ordered_calls answered waiting arrived pc calls \<longleftrightarrow>
     (if \<not> answered
      then waiting = arrived \<and> (pc = RNext \<and> calls = [] \<or> pc = RSetRemote \<and> (\<exists>sdp. calls = [SetRemoteDescription sdp]))
      else waiting = [] \<and> pc \<noteq> RSetRemote \<and> (\<exists>sdp cs.
        calls = SetRemoteDescription sdp # map AddIceCandidate cs @ (if pc \<in> {REnd, RDone} then [AddIceEnd] else [])
        \<and> arrived = cs @ (case pc of RFlush rest \<Rightarrow> rest | _ \<Rightarrow> [])))"

definition ice_order :: "browser_peer \<Rightarrow> bool" where
  "ice_order p \<longleftrightarrow> ordered_calls (bp_answered p) (bp_pendingIce p) (bp_remoteIce p) (bp_iceRecv p) (bp_applied p)"

definition ice_idle :: "browser_peer \<Rightarrow> bool" where
  "ice_idle p \<longleftrightarrow> (early_pc (bp_pc p) \<longrightarrow> \<not> bp_iceSent p \<and> \<not> bp_answered p \<and> bp_iceRecv p = RNext)"

lemma talk_inv_direct:
  assumes "talk_inv p" and "bp_pc p = PDirect"
  shows "talk_inv (browser_step env p (BDirect deadline polls random))"
proof -
  have t: "talk (bp_said p) = Some Ended" using assms by (auto simp: talk_inv_def talk_stage_def)
  have "talk_inv (case say_leave (p\<lparr>bp_connection := Some c\<rparr>) of
      (q, Some e) \<Rightarrow> bp_leave (Inl e) q | (q, None) \<Rightarrow> q\<lparr>bp_cookie := k, bp_pc := PCookieWrite\<rparr>)" for c k
  proof (cases rule: say_leave_cases [of "p\<lparr>bp_connection := Some c\<rparr>"])
    case quiet
    then show ?thesis using t by (simp add: talk_inv_def talk_stage_def)
  next
    case (left sg)
    then show ?thesis using t by (simp add: talk_inv_def talk_stage_def)
  next
    case (full sg e)
    have "talking (p\<lparr>bp_connection := Some c, bp_signal := sg\<rparr>)" using t by (simp add: talking_def)
    then show ?thesis using full by (simp add: talking_leave)
  qed
  then show ?thesis
    using assms talking_leave [OF talk_inv_talking [OF assms(1)]] by (auto split: option.splits sum.splits)
qed

lemma flush_ice_fields [simp]:
  "bp_said (flush_ice cs p) = bp_said p" "bp_signal (flush_ice cs p) = bp_signal p" "bp_pc (flush_ice cs p) = bp_pc p" "bp_iceSent (flush_ice cs p) = bp_iceSent p"
  "bp_outcome (flush_ice cs p) = bp_outcome p" "bp_config (flush_ice cs p) = bp_config p" "bp_connection (flush_ice cs p) = bp_connection p"
  "bp_cookie (flush_ice cs p) = bp_cookie p" "bp_written (flush_ice cs p) = bp_written p" "bp_payloads (flush_ice cs p) = bp_payloads p"
  "bp_controlOpen (flush_ice cs p) = bp_controlOpen p" "bp_peerOpen (flush_ice cs p) = bp_peerOpen p"
  by (cases cs; simp add: apply_ice_def)+

lemma talk_inv_applied:
  assumes "talk_inv p" and "bp_pc p = PIce"
  shows "talk_inv (remote_applied p)"
proof -
  have same: "talk_inv q" if "bp_said q = bp_said p" "bp_signal q = bp_signal p" "bp_pc q = PIce" "bp_iceSent q = bp_iceSent p" for q
    using assms that by (simp add: talk_inv_def talk_stage_def)
  have j: "talk_inv (ice_joined (p\<lparr>bp_iceRecv := RDone\<rparr>))"
    using assms by (auto simp: ice_joined_def talk_inv_def talk_stage_def split: if_splits)
  show ?thesis
    using assms j by (auto simp: remote_applied_def intro!: same split: recv_pc.splits)
qed

lemma talk_inv_step:
  assumes i: "talk_inv p" and "ice_idle p"
  shows "talk_inv (browser_step env p e)"
proof -
  note leave = talking_leave [OF talk_inv_talking [OF i]]
  have late: "talk_inv q" if "bp_said q = bp_said p" "bp_signal q = bp_signal p" "late_pc (bp_pc p)" "late_pc (bp_pc q)" for q
    using i that by (auto intro: talk_inv_cong simp: talk_stage_late)
  have same: "talk_inv q" if "bp_said q = bp_said p" "ss_socket (bp_signal q) = ss_socket (bp_signal p) \<or> ss_socket (bp_signal q) \<noteq> Some OPEN"
      "bp_pc q = bp_pc p" "bp_iceSent q = bp_iceSent p" for q
    using i that by (intro talk_inv_cong [OF i]) (auto simp: talk_stage_def)
  show ?thesis
  proof (cases e)
    case (BOpened r)
    then show ?thesis using i leave talk_inv_open by (auto split: option.splits)
  next
    case (BFrame f)
    then show ?thesis using i by (auto simp: signal_event_fields intro!: same)
  next
    case (BSignalClosed code)
    then show ?thesis using i by (auto simp: signal_event_fields intro!: same)
  next
    case BNext
    have "talk_inv (p\<lparr>bp_signal := (bp_signal p)\<lparr>ss_incoming := q\<rparr>\<rparr>)" for q by (rule same) simp_all
    then show ?thesis using i by (auto simp: BNext awaits_signal_def intro!: talk_inv_next split: prod.splits list.splits)
  next
    case BNextTimeout
    then show ?thesis using i leave by simp
  next
    case (BOffer r)
    then show ?thesis using assms leave talk_inv_offer by (auto simp: ice_idle_def early_pc_def split: sum.splits)
  next
    case (BLocalIce c)
    then show ?thesis using i by (auto intro!: same)
  next
    case BIceNext
    have q: "talk_inv (p\<lparr>bp_localIce := q\<rparr>)" for q by (rule same) simp_all
    then show ?thesis using i leave by (auto simp: BIceNext intro!: talk_inv_local_ice split: prod.splits list.splits sum.splits)
  next
    case (BRemoteApplied r)
    then show ?thesis using i leave talk_inv_applied by (auto split: option.splits)
  next
    case (BConnected r)
    then show ?thesis using i leave by (auto simp: talk_inv_def talk_stage_def split: option.splits)
  next
    case (BDirect deadline polls random)
    then show ?thesis using i talk_inv_direct [of p] by (cases "bp_pc p = PDirect") auto
  next
    case (BState r now)
    then show ?thesis using i leave talk_inv_state by (auto split: sum.splits)
  next
    case (BPayload k m)
    then show ?thesis using i by (auto simp: on_payload_def intro!: same split: payload_message.splits)
  next
    case (BWrote r)
    then show ?thesis using i leave
      by (auto simp: browser_writing_def after_browser_write_def late_pc_def intro!: late split: option.splits)
  next
    case (BChunk k now r)
    then show ?thesis using i leave by (auto intro!: same split: browser_pc.splits option.splits)
  next
    case (BSendersDone now)
    then show ?thesis using i by (auto simp: late_pc_def intro!: late split: browser_pc.splits)
  next
    case (BDrained r)
    then show ?thesis using i leave talk_inv_write [OF i] by (auto simp: late_pc_def split: option.splits)
  next
    case (BEndTimer now)
    have "talk_inv (p\<lparr>bp_endedAt := now\<rparr>)" by (rule same) simp_all
    then show ?thesis using i talk_inv_write [of "p\<lparr>bp_endedAt := now\<rparr>"] by (auto simp: BEndTimer late_pc_def)
  next
    case BEof
    then show ?thesis using i talk_inv_write [OF i] by (auto simp: write_results_def late_pc_def)
  qed (use i leave late in \<open>auto simp: late_pc_def split: option.splits sum.splits\<close>)
qed


section \<open>The order of the candidates\<close>

text \<open>The fields the two coroutines use, which most steps leave alone.\<close>

definition ice_fields :: "browser_peer \<Rightarrow> bool \<times> json list \<times> json list \<times> recv_pc \<times> ice_call list \<times> bool" where
  "ice_fields p = (bp_answered p, bp_pendingIce p, bp_remoteIce p, bp_iceRecv p, bp_applied p, bp_iceSent p)"

lemma ice_fields_ops:
  "ice_fields (bp_leave r p) = ice_fields p" "ice_fields (fst (say_leave p)) = ice_fields p" "ice_fields (bp_write num f pc p) = ice_fields p"
  "ice_fields (on_payload i m p) = ice_fields p" "ice_fields (after_browser_write p) = ice_fields p" "ice_fields (on_browser_state num st now p) = ice_fields p"
  by (auto simp: ice_fields_def say_leave_def bp_write_def on_payload_def after_browser_write_def on_browser_state_def open_payloads_def
      start_transfer_def write_results_def split_beta split: frame.splits sum.splits payload_message.splits browser_pc.splits)

lemma ice_order_fields: "ice_order p \<Longrightarrow> ice_fields q = ice_fields p \<Longrightarrow> ice_order q"
  by (simp add: ice_order_def ice_fields_def)

lemma ice_fields_say: "(\<And>q. ice_fields (k q) = ice_fields q) \<Longrightarrow> ice_fields (bp_say m k p) = ice_fields p"
  by (auto simp: bp_say_def ice_fields_ops split: prod.splits option.splits) (simp_all add: ice_fields_def)

lemma ice_order_flush:
  assumes "bp_answered p" "bp_pendingIce p = []" "bp_applied p = SetRemoteDescription sdp # map AddIceCandidate cs" "bp_remoteIce p = cs @ rest"
  shows "ice_order (flush_ice rest p)"
  using assms
  by (cases rest) (auto simp: ice_order_def ordered_calls_def apply_ice_def intro: exI [of _ "cs @ [x]" for x])

lemma ice_order_applied:
  assumes "ice_order p" and "applying (bp_iceRecv p)"
  shows "ice_order (remote_applied p)"
proof (cases "bp_iceRecv p")
  case RSetRemote
  then obtain sdp where "bp_applied p = [SetRemoteDescription sdp]" "bp_pendingIce p = bp_remoteIce p"
    using assms(1) by (auto simp: ice_order_def ordered_calls_def split: if_splits)
  then show ?thesis using ice_order_flush [of "p\<lparr>bp_answered := True, bp_pendingIce := []\<rparr>" sdp "[]" "bp_pendingIce p"]
    by (simp add: remote_applied_def RSetRemote)
next
  case (RFlush rest)
  then obtain sdp cs where "bp_answered p" "bp_pendingIce p = []" "bp_applied p = SetRemoteDescription sdp # map AddIceCandidate cs" "bp_remoteIce p = cs @ rest"
    using assms(1) by (auto simp: ice_order_def ordered_calls_def split: if_splits)
  then show ?thesis using ice_order_flush by (simp add: remote_applied_def RFlush)
next
  case RAdd
  then show ?thesis using assms(1) by (auto simp: remote_applied_def ice_order_def ordered_calls_def split: if_splits)
next
  case REnd
  then show ?thesis using assms(1) by (auto simp: remote_applied_def ice_joined_def ice_order_def ordered_calls_def split: if_splits)
qed (use assms in \<open>simp_all add: applying_def\<close>)

lemma ice_order_next:
  assumes "ice_order p" and "bp_iceRecv p = RNext"
  shows "ice_order (on_remote_ice j p)"
proof -
  have l: "ice_order (bp_leave r p)" for r using ice_order_fields [OF assms(1) ice_fields_ops(1)] .
  show ?thesis
  proof (cases "bp_answered p")
    case True
    then obtain sdp where "bp_applied p = SetRemoteDescription sdp # map AddIceCandidate (bp_remoteIce p)" "bp_pendingIce p = []"
      using assms by (auto simp: ice_order_def ordered_calls_def)
    then show ?thesis using True l
      by (auto simp: on_remote_ice_def Let_def apply_ice_def) (auto simp: ice_order_def ordered_calls_def intro: exI [of _ "bp_remoteIce p @ [ice_init j]"])
  next
    case False
    then have "bp_applied p = []" "bp_pendingIce p = bp_remoteIce p" using assms by (auto simp: ice_order_def ordered_calls_def)
    then show ?thesis using False l assms(2) by (auto simp: on_remote_ice_def Let_def apply_ice_def) (auto simp: ice_order_def ordered_calls_def)
  qed
qed


lemma ice_fields_update [simp]:
  "ice_fields (p\<lparr>bp_pc := pc\<rparr>) = ice_fields p" "ice_fields (p\<lparr>bp_signal := sg\<rparr>) = ice_fields p" "ice_fields (p\<lparr>bp_localIce := li\<rparr>) = ice_fields p"
  "ice_fields (p\<lparr>bp_connection := c\<rparr>) = ice_fields p" "ice_fields (p\<lparr>bp_cookie := k\<rparr>) = ice_fields p" "ice_fields (p\<lparr>bp_counters := ns\<rparr>) = ice_fields p"
  "ice_fields (p\<lparr>bp_endedAt := t\<rparr>) = ice_fields p" "ice_fields (p\<lparr>bp_remoteResults := r\<rparr>) = ice_fields p" "ice_fields (p\<lparr>bp_peerOpen := b\<rparr>) = ice_fields p"
  "ice_fields (p\<lparr>bp_controlOpen := b\<rparr>) = ice_fields p" "ice_fields (p\<lparr>bp_said := ms\<rparr>) = ice_fields p"
  by (simp_all add: ice_fields_def)

text \<open>The steps of the exchange of candidates, and all others.\<close>

definition ice_event :: "browser_peer \<Rightarrow> browser_event \<Rightarrow> bool" where
  "ice_event p e \<longleftrightarrow> bp_pc p = PIce \<and> (e = BNext \<or> e = BIceNext \<or> (\<exists>r. e = BRemoteApplied r))"

lemma ice_fields_step: "\<not> ice_event p e \<Longrightarrow> ice_fields (browser_step env p e) = ice_fields p"
proof (cases e)
  case BNext
  assume "\<not> ice_event p e"
  then show ?thesis
    by (auto simp: BNext ice_event_def awaits_signal_def on_next_def on_bound_def on_ready_def ice_fields_ops split: prod.splits list.splits sum.splits)
next
  case (BDirect deadline polls random)
  have "ice_fields q = ice_fields p" if "say_leave (p\<lparr>bp_connection := c\<rparr>) = (q, x)" for c q x
    using ice_fields_ops(2) [of "p\<lparr>bp_connection := c\<rparr>"] that by simp
  then show ?thesis
    by (auto simp: BDirect ice_fields_ops split: option.splits sum.splits prod.splits)
qed (auto simp: ice_event_def ice_fields_ops write_results_def ice_fields_say split: option.splits sum.splits browser_pc.splits prod.splits list.splits)

lemma ice_order_step:
  assumes "ice_order p"
  shows "ice_order (browser_step env p e)"
proof (cases "ice_event p e")
  case True
  then consider "e = BNext" | "e = BIceNext" | r where "e = BRemoteApplied r" by (auto simp: ice_event_def)
  then show ?thesis
  proof cases
    case 1
    have q: "ice_order (p\<lparr>bp_signal := sg\<rparr>)" for sg by (rule ice_order_fields [OF assms]) simp
    have l: "ice_order (bp_leave r (p\<lparr>bp_signal := sg\<rparr>))" for r sg using ice_order_fields [OF q ice_fields_ops(1)] .
    show ?thesis using True assms q l
      by (auto simp: 1 ice_event_def awaits_signal_def on_next_def intro!: ice_order_next split: prod.splits list.splits sum.splits)
  next
    case 2
    have "ice_order (bp_say m (\<lambda>q. q) (p\<lparr>bp_localIce := li\<rparr>))" for m li
      by (rule ice_order_fields [OF assms]) (simp add: ice_fields_say)
    moreover have "ice_order (bp_say m (\<lambda>q. ice_joined (q\<lparr>bp_iceSent := True\<rparr>)) (p\<lparr>bp_localIce := li\<rparr>))" for m li
    proof (cases rule: bp_say_cases [of m "\<lambda>q. ice_joined (q\<lparr>bp_iceSent := True\<rparr>)" "p\<lparr>bp_localIce := li\<rparr>"])
      case (threw sg e)
      then show ?thesis using ice_order_fields [OF assms] by (simp add: ice_fields_ops)
    qed (use assms in \<open>auto simp: ice_joined_def ice_order_def\<close>)
    moreover have "ice_order (bp_leave r p)" for r using ice_order_fields [OF assms ice_fields_ops(1)] .
    ultimately show ?thesis using assms by (auto simp: 2 on_local_ice_def split: prod.splits list.splits sum.splits option.splits)
  next
    case (3 r)
    have "ice_order (bp_leave r p)" for r using ice_order_fields [OF assms ice_fields_ops(1)] .
    then show ?thesis using assms ice_order_applied by (auto simp: 3 split: option.splits)
  qed
next
  case False
  then show ?thesis using ice_order_fields [OF assms ice_fields_step] by blast
qed


section \<open>The path and the end\<close>

definition direct_inv :: "browser_peer \<Rightarrow> bool" where
  "direct_inv p \<longleftrightarrow> (late_pc (bp_pc p) \<or> bp_cookie p \<noteq> None \<or> bp_written p \<noteq> [] \<longrightarrow>
     (\<exists>c. bp_connection p = Some c \<and> direct_connection (bc_includeAddresses (bp_config p)) c))"

definition done_inv :: "browser_env \<Rightarrow> browser_peer \<Rightarrow> bool" where
  "done_inv env p \<longleftrightarrow> (bp_outcome p = None \<longleftrightarrow> bp_pc p \<noteq> PFinished)
     \<and> (bp_pc p = PFinished \<longrightarrow> list_all Not (bp_payloads p) \<and> \<not> bp_controlOpen p \<and> \<not> bp_peerOpen p
          \<and> (ss_socket (bp_signal p) = Some OPEN \<longrightarrow> MAX_SIGNAL_BYTES < ss_sentBytes (bp_signal p)))
     \<and> (bp_pc p \<in> {PDoneWrite, PAck} \<or> (\<exists>r. bp_outcome p = Some (Inr r)) \<longrightarrow> bp_written p \<noteq> [] \<and> last (bp_written p) = StateFrame IPERF_DONE)
     \<and> (\<forall>r. bp_outcome p = Some (Inr r) \<longrightarrow> result_of (en_coerce env) p = Inr r)"

lemma result_of_leave: "result_of coerce (bp_leave r p) = result_of coerce p"
proof -
  have "seconds_of (bp_leave r p) = seconds_of p" by (simp add: seconds_of_def)
  then show ?thesis by (simp only: result_of_def bp_leave_fields)
qed

lemma done_inv_fails: "done_inv env (bp_leave (Inl e) p)"
  using bp_leave_open by (auto simp: done_inv_def list_all_iff)

text \<open>A peer that has finished stays as it is.\<close>

lemma finished_step:
  assumes "done_inv env p" and "bp_pc p = PFinished"
  shows "browser_step env p e = p"
proof (cases e)
  case (BPayload i m)
  then show ?thesis using assms by (auto simp: done_inv_def on_payload_def list_all_length)
qed (use assms in \<open>auto simp: done_inv_def awaits_signal_def browser_writing_def\<close>)

text \<open>The test has begun: the cookie or a frame was written, or the peer stands where it is written.\<close>

definition begun :: "browser_peer \<Rightarrow> bool" where
  "begun p \<longleftrightarrow> late_pc (bp_pc p) \<or> bp_cookie p \<noteq> None \<or> bp_written p \<noteq> []"

text \<open>\<open>q\<close> comes from \<open>p\<close> without choosing a path or beginning the test.\<close>

definition same_path :: "browser_peer \<Rightarrow> browser_peer \<Rightarrow> bool" where
  "same_path p q \<longleftrightarrow> bp_connection q = bp_connection p \<and> bp_config q = bp_config p \<and> (begun q \<longrightarrow> begun p)"

lemma same_path_refl [simp]: "same_path p p"
  by (simp add: same_path_def)

lemma same_path_leave: "same_path p (bp_leave r q)" if "same_path p q \<or> bp_connection q = bp_connection p \<and> bp_config q = bp_config p \<and> bp_cookie q = bp_cookie p \<and> bp_written q = bp_written p"
  using that by (auto simp: same_path_def begun_def late_pc_def)

lemma same_path_write: "late_pc (bp_pc p) \<Longrightarrow> bp_connection q = bp_connection p \<Longrightarrow> bp_config q = bp_config p \<Longrightarrow> same_path p (bp_write num f pc q)"
  by (cases rule: bp_write_cases [of num f pc q]) (auto simp: same_path_def begun_def)

lemma same_path_say:
  assumes "\<And>sg. same_path p (k (q\<lparr>bp_signal := sg, bp_said := bp_said q @ [m]\<rparr>))"
    and "bp_connection q = bp_connection p \<and> bp_config q = bp_config p \<and> bp_cookie q = bp_cookie p \<and> bp_written q = bp_written p"
  shows "same_path p (bp_say m k q)"
  using assms by (cases rule: bp_say_cases [of m k q]) (auto intro: same_path_leave)

lemma same_path_state:
  assumes "bp_pc p = PState"
  shows "same_path p (on_browser_state num st now p)"
proof -
  have l: "late_pc (bp_pc p)" using assms by (simp add: late_pc_def)
  have "same_path p (bp_leave r p)" "same_path p (bp_write num f pc p)" for r f pc
    using l by (simp_all add: same_path_leave same_path_write)
  moreover have "same_path p q" if "bp_connection q = bp_connection p" "bp_config q = bp_config p" for q
    using that l by (simp add: same_path_def begun_def)
  ultimately show ?thesis
    by (simp add: on_browser_state_def write_results_def open_payloads_def start_transfer_def)
qed

lemma same_path_step:
  assumes "\<And>deadline polls random. e \<noteq> BDirect deadline polls random"
  shows "same_path p (browser_step env p e)"
proof (cases e)
  case (BOpened r)
  then show ?thesis
    by (auto intro!: same_path_say same_path_leave split: option.splits) (auto simp: same_path_def begun_def late_pc_def)
next
  case BNext
  have "same_path p (on_next r (p\<lparr>bp_signal := sg\<rparr>))" if "awaits_signal p" for r sg
    using that
    by (auto simp: on_next_def on_bound_def on_ready_def on_remote_ice_def apply_ice_def Let_def awaits_signal_def intro!: same_path_leave split: sum.splits)
      (auto simp: same_path_def begun_def late_pc_def)
  then show ?thesis by (auto simp: BNext split: prod.splits list.splits)
next
  case (BOffer r)
  then show ?thesis
    by (auto intro!: same_path_say same_path_leave split: sum.splits) (auto simp: same_path_def begun_def late_pc_def)
next
  case BIceNext
  then show ?thesis
    by (auto simp: on_local_ice_def intro!: same_path_say same_path_leave split: prod.splits list.splits sum.splits option.splits)
      (auto simp: same_path_def begun_def late_pc_def ice_joined_def)
next
  case (BRemoteApplied r)
  have "same_path p (remote_applied p)" if "bp_pc p = PIce"
    using that by (auto simp: same_path_def begun_def late_pc_def remote_applied_def ice_joined_def split: recv_pc.splits if_splits)
  then show ?thesis by (auto simp: BRemoteApplied intro!: same_path_leave split: option.splits)
next
  case (BState r now)
  then show ?thesis by (auto intro!: same_path_state same_path_leave split: sum.splits)
next
  case (BWrote r)
  then show ?thesis
    by (auto simp: browser_writing_def after_browser_write_def intro!: same_path_leave split: option.splits) (auto simp: same_path_def begun_def late_pc_def)
next
  case (BDrained r)
  then show ?thesis by (auto simp: late_pc_def intro!: same_path_write same_path_leave split: option.splits)
next
  case (BEndTimer now)
  then show ?thesis by (auto simp: late_pc_def intro!: same_path_write)
next
  case BEof
  then show ?thesis by (auto simp: late_pc_def write_results_def intro!: same_path_write)
next
  case (BPayload i m)
  then show ?thesis by (auto simp: on_payload_def same_path_def begun_def split: payload_message.splits)
next
  case (BChunk i now r)
  then show ?thesis
    by (auto intro!: same_path_leave split: browser_pc.splits option.splits) (auto simp: same_path_def begun_def)
next
  case (BSendersDone now)
  then show ?thesis by (auto simp: same_path_def begun_def late_pc_def split: browser_pc.splits)
qed (use assms in \<open>auto simp: same_path_def begun_def late_pc_def intro!: same_path_leave split: option.splits sum.splits\<close>)

lemma direct_inv_path: "direct_inv p \<Longrightarrow> same_path p q \<Longrightarrow> direct_inv q"
  by (auto simp: direct_inv_def same_path_def begun_def)

lemma direct_inv_chosen: "direct_connection (bc_includeAddresses (bp_config q)) c \<Longrightarrow> bp_connection q = Some c \<Longrightarrow> direct_inv q"
  by (simp add: direct_inv_def)

lemma direct_inv_step:
  assumes "direct_inv p"
  shows "direct_inv (browser_step env p e)"
proof (cases "\<exists>deadline polls random. e = BDirect deadline polls random")
  case True
  then obtain deadline polls random where e: "e = BDirect deadline polls random" by blast
  have leave: "direct_inv (bp_leave r p)" for r by (rule direct_inv_path [OF assms]) (simp add: same_path_leave)
  have q: "bp_config q = bp_config p \<and> bp_connection q = Some c" if "say_leave (p\<lparr>bp_connection := Some c\<rparr>) = (q, x)" for q c x
    using that by (auto simp: say_leave_def split: prod.splits)
  show ?thesis
  proof (cases "bp_pc p = PDirect \<and> (\<exists>c. waitForDirectPair (en_text env) (bc_includeAddresses (bp_config p)) deadline polls = Some (Inr c))")
    case True
    then obtain c where c: "bp_pc p = PDirect" "waitForDirectPair (en_text env) (bc_includeAddresses (bp_config p)) deadline polls = Some (Inr c)" by blast
    obtain q x where qx: "say_leave (p\<lparr>bp_connection := Some c\<rparr>) = (q, x)" by fastforce
    show ?thesis
      using wait_direct [OF c(2)] q [OF qx] by (intro direct_inv_chosen [of _ c]) (auto simp: e c qx split: option.splits)
  next
    case False
    then show ?thesis using assms leave by (auto simp: e split: option.splits sum.splits)
  qed
next
  case False
  then show ?thesis using direct_inv_path [OF assms same_path_step] by blast
qed

text \<open>What the end of a run depends on.\<close>

lemma done_inv_running:
  "bp_outcome q = None \<Longrightarrow> bp_pc q \<noteq> PFinished \<Longrightarrow> (bp_pc q \<in> {PDoneWrite, PAck} \<longrightarrow> bp_written q \<noteq> [] \<and> last (bp_written q) = StateFrame IPERF_DONE) \<Longrightarrow> done_inv env q"
  by (simp add: done_inv_def)

lemma done_inv_result:
  assumes "bp_written p \<noteq> []" "last (bp_written p) = StateFrame IPERF_DONE"
  shows "done_inv env (bp_leave (result_of (en_coerce env) p) p)"
  using bp_leave_open [of "result_of (en_coerce env) p" p] assms
  by (auto simp: done_inv_def list_all_iff result_of_leave)


lemma done_inv_say: "(\<And>sg. done_inv env (k (q\<lparr>bp_signal := sg, bp_said := bp_said q @ [m]\<rparr>))) \<Longrightarrow> done_inv env (bp_say m k q)"
  by (cases rule: bp_say_cases [of m k q]) (auto simp: done_inv_fails)

lemma done_inv_write:
  "bp_outcome p = None \<Longrightarrow> pc \<noteq> PFinished \<Longrightarrow> (pc \<in> {PDoneWrite, PAck} \<longrightarrow> f = StateFrame IPERF_DONE) \<Longrightarrow> done_inv env (bp_write num f pc p)"
  by (cases rule: bp_write_cases [of num f pc p]) (auto simp: done_inv_fails intro: done_inv_running)

lemma done_inv_state: "bp_outcome p = None \<Longrightarrow> bp_pc p = PState \<Longrightarrow> done_inv env (on_browser_state num st now p)"
  by (simp add: on_browser_state_def write_results_def open_payloads_def start_transfer_def done_inv_fails done_inv_write done_inv_running)

lemma done_inv_step:
  assumes "done_inv env p"
  shows "done_inv env (browser_step env p e)"
proof (cases "bp_pc p = PFinished")
  case True
  then show ?thesis using finished_step assms by simp
next
  case False
  then have n: "bp_outcome p = None" using assms by (simp add: done_inv_def)
  have ack: "bp_pc p \<in> {PDoneWrite, PAck} \<Longrightarrow> bp_written p \<noteq> [] \<and> last (bp_written p) = StateFrame IPERF_DONE" using assms by (simp add: done_inv_def)
  note fails = done_inv_fails and run = done_inv_running
  show ?thesis
  proof (cases e)
    case (BOpened r)
    then show ?thesis using assms n by (auto simp: fails intro!: done_inv_say run split: option.splits)
  next
    case BNext
    have "done_inv env (on_next r (p\<lparr>bp_signal := sg\<rparr>))" if "awaits_signal p" for r sg
      using that n
      by (auto simp: on_next_def on_bound_def on_ready_def on_remote_ice_def apply_ice_def Let_def awaits_signal_def fails run split: sum.splits)
    then show ?thesis using assms by (auto simp: BNext split: prod.splits list.splits)
  next
    case (BOffer r)
    then show ?thesis using assms n by (auto simp: fails intro!: done_inv_say run split: sum.splits)
  next
    case BIceNext
    then show ?thesis using assms n
      by (auto simp: on_local_ice_def ice_joined_def fails run intro!: done_inv_say split: prod.splits list.splits sum.splits option.splits)
  next
    case (BRemoteApplied r)
    have "done_inv env (remote_applied p)" if "bp_pc p = PIce"
      using that n assms by (auto simp: remote_applied_def ice_joined_def intro!: run split: recv_pc.splits)
    then show ?thesis using assms by (auto simp: BRemoteApplied fails split: option.splits)
  next
    case (BDirect deadline polls random)
    have q: "bp_outcome q = None" if "say_leave (p\<lparr>bp_connection := c\<rparr>) = (q, x)" for q c x
      using that n by (auto simp: say_leave_def split: prod.splits)
    then show ?thesis using assms by (auto simp: BDirect fails intro!: run split: option.splits sum.splits prod.splits)
  next
    case (BState r now)
    then show ?thesis using assms n ack by (auto simp: fails done_inv_state done_inv_result split: sum.splits)
  next
    case (BWrote r)
    then show ?thesis using assms n ack
      by (auto simp: browser_writing_def after_browser_write_def fails intro!: run split: option.splits)
  next
    case (BDrained r)
    then show ?thesis using assms n by (auto simp: fails intro!: done_inv_write split: option.splits)
  next
    case (BEndTimer now)
    then show ?thesis using assms n by (auto intro!: done_inv_write)
  next
    case BEof
    then show ?thesis using assms n by (auto simp: write_results_def intro!: done_inv_write)
  next
    case (BPayload i m)
    then show ?thesis using assms n False ack by (auto simp: on_payload_def intro!: run split: payload_message.splits)
  next
    case (BChunk i now r)
    then show ?thesis using assms n by (auto simp: fails intro!: run split: browser_pc.splits option.splits)
  next
    case (BSendersDone now)
    then show ?thesis using assms n by (auto intro!: run split: browser_pc.splits)
  next
    case (BFrame f)
    then show ?thesis using assms n ack by (auto intro!: run)
  next
    case (BSignalClosed code)
    then show ?thesis using assms n ack by (auto intro!: run)
  next
    case (BLocalIce c)
    then show ?thesis using assms n ack False by (auto intro!: run)
  qed (use assms n in \<open>auto simp: fails intro!: run split: option.splits sum.splits\<close>)
qed

lemma early_say: "early_pc (bp_pc (bp_say m k p)) \<Longrightarrow> (\<exists>sg. early_pc (bp_pc (k (p\<lparr>bp_signal := sg, bp_said := bp_said p @ [m]\<rparr>))))"
  by (cases rule: bp_say_cases [of m k p]) (auto simp: early_pc_def)

lemma early_write: "early_pc (bp_pc (bp_write num f pc p)) \<Longrightarrow> early_pc pc"
  by (cases rule: bp_write_cases [of num f pc p]) (auto simp: early_pc_def)

lemma not_early: "\<not> early_pc PFinished" "\<not> early_pc PIce" "\<not> early_pc PConnecting" "\<not> early_pc PDirect" "\<not> early_pc PCookieWrite" "\<not> early_pc PState"
  "\<not> early_pc PPayloads" "\<not> early_pc PReverse" "\<not> early_pc (PSending d)" "\<not> early_pc PDraining" "\<not> early_pc PEndWrite" "\<not> early_pc PEof"
  "\<not> early_pc PResultsWrite" "\<not> early_pc PResultsRead" "\<not> early_pc PAck" "\<not> early_pc PStray" "\<not> early_pc PParamsWrite" "\<not> early_pc PDoneWrite"
  "early_pc POpening" "early_pc PBound" "early_pc PReady" "early_pc POffer"
  by (simp_all add: early_pc_def)

lemma not_early_step:
  assumes n: "\<not> early_pc (bp_pc p)"
  shows "\<not> early_pc (bp_pc (browser_step env p e))"
proof (cases e)
  case (BOpened r)
  have "bp_pc p \<noteq> POpening" using n by (auto simp: not_early)
  then show ?thesis using n by (simp add: BOpened)
next
  case BNext
  have "\<not> early_pc (bp_pc (on_remote_ice j q))" if "bp_pc q = PIce" for j q
    using that by (auto simp: on_remote_ice_def apply_ice_def Let_def not_early)
  then have "\<not> early_pc (bp_pc (on_next r (p\<lparr>bp_signal := sg\<rparr>)))" if "bp_pc p = PIce" for r sg
    using that by (auto simp: on_next_def not_early split: sum.splits)
  then show ?thesis using n by (auto simp: BNext not_early awaits_signal_def split: prod.splits list.splits)
next
  case (BOffer r)
  have "bp_pc p \<noteq> POffer" using n by (auto simp: not_early)
  then show ?thesis using n by (simp add: BOffer)
next
  case BIceNext
  have "\<not> early_pc (bp_pc (on_local_ice c q))" if "bp_pc q = PIce" for c q
    using that by (cases c) (auto simp: on_local_ice_def ice_joined_def not_early dest!: early_say split: if_splits)
  then show ?thesis using n by (auto simp: BIceNext not_early split: prod.splits list.splits sum.splits)
next
  case (BRemoteApplied r)
  have "\<not> early_pc (bp_pc (remote_applied q))" if "bp_pc q = PIce" for q
    using that by (auto simp: remote_applied_def ice_joined_def not_early split: recv_pc.splits if_splits)
  then show ?thesis using n by (simp add: BRemoteApplied not_early split: option.split)
next
  case (BDirect deadline polls random)
  then show ?thesis using n by (simp add: not_early split: option.split sum.split prod.split)
next
  case (BState r now)
  have "\<not> early_pc (bp_pc (on_browser_state num st now q))" if "bp_pc q = PState" for num st q
  proof -
    have "\<not> early_pc (bp_pc (bp_write num f pc q))" if "\<not> early_pc pc" for f pc using that early_write by blast
    then show ?thesis using that by (simp add: on_browser_state_def write_results_def open_payloads_def start_transfer_def not_early)
  qed
  then show ?thesis using n by (simp add: BState not_early split: sum.split)
next
  case (BWrote r)
  then show ?thesis using n by (simp add: browser_writing_def after_browser_write_def not_early split: option.split browser_pc.split)
next
  case (BPayload i m)
  then show ?thesis using n by (simp add: on_payload_def split: payload_message.split)
next
  case (BChunk i now r)
  then show ?thesis using n by (cases "bp_pc p") (simp_all add: not_early split: option.split)
next
  case (BSendersDone now)
  then show ?thesis using n by (cases "bp_pc p") (simp_all add: not_early)
next
  case (BDrained r)
  then show ?thesis using n by (auto simp: not_early dest!: early_write split: option.split)
next
  case (BEndTimer now)
  then show ?thesis using n by (auto simp: not_early dest!: early_write)
next
  case BEof
  then show ?thesis using n by (auto simp: write_results_def not_early dest!: early_write)
qed (use n in \<open>simp_all add: not_early split: option.split sum.split\<close>)

lemma ice_idle_step:
  assumes "ice_idle p"
  shows "ice_idle (browser_step env p e)"
proof (cases "early_pc (bp_pc (browser_step env p e))")
  case True
  then have "early_pc (bp_pc p)" using not_early_step by blast
  then have "\<not> ice_event p e" by (auto simp: ice_event_def not_early)
  then have "ice_fields (browser_step env p e) = ice_fields p" by (rule ice_fields_step)
  then show ?thesis using assms \<open>early_pc (bp_pc p)\<close> by (simp add: ice_idle_def ice_fields_def)
qed (simp add: ice_idle_def)

definition peer_inv :: "browser_env \<Rightarrow> browser_peer \<Rightarrow> bool" where
  "peer_inv env p \<longleftrightarrow> talk_inv p \<and> ice_idle p \<and> ice_order p \<and> direct_inv p \<and> done_inv env p"

interpretation peer_system: invariant_system "browser_step env" "\<lambda>_ _. True" "peer_inv env" for env
  by unfold_locales (simp add: peer_inv_def talk_inv_step ice_idle_step ice_order_step direct_inv_step done_inv_step)

lemma peer_inv_new: "peer_inv env (new_peer c)"
  by (simp add: peer_inv_def new_peer_def talk_inv_def talk_stage_def ice_idle_def ice_order_def ordered_calls_def direct_inv_def done_inv_def late_pc_def)

lemma peer_inv_run: "peer_inv env (run_steps (browser_step env) (new_peer c) es)"
  by (rule peer_system.inv_run [OF peer_inv_new run_ok_True])

lemma finished_run: "done_inv env p \<Longrightarrow> bp_pc p = PFinished \<Longrightarrow> run_steps (browser_step env) p es = p"
  by (induction es) (simp_all add: finished_step)

text \<open>Every candidate is applied once, in order, after the remote description.\<close>

definition applied_candidates :: "ice_call list \<Rightarrow> json list" where
  "applied_candidates calls = concat (map (\<lambda>c. case c of AddIceCandidate j \<Rightarrow> [j] | _ \<Rightarrow> []) calls)"

lemma ice_order_candidates:
  assumes "ice_order p"
  shows "(\<exists>rest. bp_remoteIce p = applied_candidates (bp_applied p) @ rest)
    \<and> (bp_applied p \<noteq> [] \<longrightarrow> (\<exists>sdp. hd (bp_applied p) = SetRemoteDescription sdp))
    \<and> (AddIceEnd \<in> set (bp_applied p) \<longrightarrow> bp_remoteIce p = applied_candidates (bp_applied p) \<and> last (bp_applied p) = AddIceEnd)"
proof -
  have "concat (map (\<lambda>c. case c of AddIceCandidate j \<Rightarrow> [j] | _ \<Rightarrow> []) (map AddIceCandidate cs)) = cs" for cs
    by (induction cs) simp_all
  then show ?thesis
    using assms
    by (auto simp: ice_order_def ordered_calls_def applied_candidates_def simp del: map_map split: if_splits recv_pc.splits)
qed

lemma config_step: "bp_config (browser_step env p e) = bp_config p"
proof (cases "\<exists>deadline polls random. e = BDirect deadline polls random")
  case True
  have "bp_config q = bp_config p" if "say_leave (p\<lparr>bp_connection := Some c\<rparr>) = (q, x)" for q c x
    using that by (auto simp: say_leave_def split: prod.splits)
  then show ?thesis using True by (auto split: option.splits sum.splits prod.splits)
next
  case False
  then have "same_path p (browser_step env p e)" by (intro same_path_step) blast
  then show ?thesis by (simp add: same_path_def)
qed

lemma config_run: "bp_config (run_steps (browser_step env) p es) = bp_config p"
  by (induction es arbitrary: p) (simp_all add: config_step del: browser_step.simps)

lemma result_of_amounts:
  assumes "result_of coerce p = Inr r"
  shows "\<exists>remote. remote_bytes coerce (bp_remoteResults p) = Some remote
    \<and> {br_sentBytes r, br_receivedBytes r} = {Some (Fin (of_nat (sum_list (bp_counters p)))), remote}
    \<and> (\<forall>b. remote = Some (Fin b) \<longrightarrow> \<bar>of_nat (sum_list (bp_counters p)) - b\<bar> \<le> 5 / 100 * max (max (of_nat (sum_list (bp_counters p))) b) 1)"
proof -
  obtain remote where remote: "remote_bytes coerce (bp_remoteResults p) = Some remote"
    using assms by (auto simp: result_of_def split: option.splits)
  define l :: rat where "l = of_nat (sum_list (bp_counters p))"
  have g: "\<not> val_gt (browser_drift l remote) (5 / 100)" using assms by (auto simp: result_of_def remote l_def Let_def split: if_splits)
  have "{br_sentBytes r, br_receivedBytes r} = {Some (Fin l), remote}"
    using assms g by (auto simp: result_of_def remote l_def Let_def split: if_splits)
  moreover have "\<bar>l - b\<bar> \<le> 5 / 100 * max (max l b) 1" if "remote = Some (Fin b)" for b
  proof -
    have "0 < max (max l b) 1" by (simp add: max_def)
    then show ?thesis using g that by (simp add: browser_drift_def val_gt_def pos_divide_le_eq)
  qed
  ultimately show ?thesis using remote by (auto simp: l_def)
qed

text \<open>A count of the peer that is no number passes the drift check.\<close>

lemma nan_drift_accepted:
  assumes "bp_remoteResults p = Some (JObj [(js ''streams'', JArr [JObj []])])"
  shows "\<exists>r. result_of coerce p = Inr r \<and> None \<in> {br_sentBytes r, br_receivedBytes r}"
  using assms by (auto simp: result_of_def remote_bytes_def stream_bytes_def val_plus_def browser_drift_def val_gt_def Let_def)

text \<open>A peer that has used up its signaling bytes leaves its socket open.\<close>

lemma close_at_limit_stays_open:
  assumes "ss_socket (bp_signal p) = Some OPEN" and "MAX_SIGNAL_BYTES < ss_sentBytes (bp_signal p) + 22"
  shows "ss_socket (bp_signal (bp_leave r p)) = Some OPEN \<and> bp_said (bp_leave r p) = bp_said p"
  using assms leave_frame
  by (simp add: bp_leave_signal say_leave_def signal_close_def signal_send_def Let_def MAX_SIGNAL_FRAME_def)

end
