(* ===== verification/BrowserTest.thy ===== *)
theory BrowserTest
  imports BrowserPeer
begin

text \<open>
  A complete run of the browser peer of \<open>interop/transports/browser/browser-peer.js\<close>: from the opening of the signaling socket to the
  result, for every configuration of a forward test.
\<close>

section \<open>A complete test\<close>

text \<open>The counters after sends of \<open>len\<close> bytes went out on the streams \<open>is\<close>.\<close>

definition count_chunks :: "nat \<Rightarrow> nat list \<Rightarrow> nat list \<Rightarrow> nat list" where
  "count_chunks len is ns = foldl (\<lambda>ns i. ns[i := ns ! i + len]) ns is"

lemma count_chunks_simps [simp]: "count_chunks len [] ns = ns" "count_chunks len (i # is) ns = count_chunks len is (ns[i := ns ! i + len])"
  by (simp_all add: count_chunks_def)

lemma count_chunks_sum:
  "list_all (\<lambda>i. i < length ns) is \<Longrightarrow> sum_list (count_chunks len is ns) = sum_list ns + length is * len \<and> length (count_chunks len is ns) = length ns"
proof (induction "is" arbitrary: ns)
  case (Cons i "is")
  have "sum_list (ns[i := ns ! i + len]) = sum_list ns + len" if "i < length ns"
    using that by (subst sum_list_update) (simp_all add: elem_le_sum_list)
  then show ?case using Cons by (auto simp: list_all_iff)
qed simp

lemma chunks_run:
  assumes "bp_pc p = PSending deadline" and "list_all (\<lambda>(i, now). i < length (bp_payloads p) \<and> now < deadline) sends"
  shows "run_steps (browser_step env) p (map (\<lambda>(i, now). BChunk i now None) sends) =
    p\<lparr>bp_counters := count_chunks (nat (bc_length (bp_config p))) (map fst sends) (bp_counters p)\<rparr>"
  using assms
proof (induction sends arbitrary: p)
  case (Cons ch sends)
  obtain i now where ch: "ch = (i, now)" by fastforce
  define q where "q = p\<lparr>bp_counters := (bp_counters p)[i := bp_counters p ! i + nat (bc_length (bp_config p))]\<rparr>"
  have "browser_step env p (BChunk i now None) = q" using Cons.prems by (simp add: ch q_def)
  moreover have "run_steps (browser_step env) q (map (\<lambda>(i, now). BChunk i now None) sends) =
      q\<lparr>bp_counters := count_chunks (nat (bc_length (bp_config q))) (map fst sends) (bp_counters q)\<rparr>"
    using Cons.prems by (intro Cons.IH) (simp_all add: q_def)
  ultimately show ?case by (simp add: ch q_def)
qed simp

text \<open>What the server asks for in a forward test, and what happens in between.\<close>

definition test_script :: "rat \<Rightarrow> (nat \<times> rat) list \<Rightarrow> rat \<Rightarrow> json \<Rightarrow> browser_event list" where
  "test_script t0 sends t1 results =
     [BWrote None, BState (Inr PARAM_EXCHANGE) 0, BWrote None, BState (Inr CREATE_STREAMS) 0, BPayloadsOpen None, BState (Inr TEST_START) 0,
      BState (Inr TEST_RUNNING) t0] @ map (\<lambda>(i, now). BChunk i now None) sends
     @ [BSendersDone t1, BDrained None, BWrote None, BState (Inr EXCHANGE_RESULTS) 0, BWrote None, BJson (Inr results), BState (Inr DISPLAY_RESULTS) 0,
        BWrote None, BState (Inr IPERF_DONE) 0]"

lemma test_completes:
  assumes p: "bp_pc p = PCookieWrite" "\<not> bc_reverse (bp_config p)" "bp_payloads p = []" "bp_counters p = replicate (nat (bc_parallel (bp_config p))) 0"
      "bp_written p = []" "bp_connection p = Some k" "1 \<le> bc_parallel (bp_config p)"
    and sends: "list_all (\<lambda>(i, now). i < nat (bc_parallel (bp_config p)) \<and> now < t0 + bc_duration (bp_config p) * 1000) sends"
    and t1: "t0 + bc_duration (bp_config p) * 1000 \<le> t1"
    and ns: "ns = count_chunks (nat (bc_length (bp_config p))) (map fst sends) (bp_counters p)"
    and sec: "seconds = max 0 (t1 - t0) / 1000"
    and fits: "encodeJson (en_num env) (buildParams (bp_config p)) = Inr b1" "encodeJson (en_num env) (streamResults ns seconds True) = Inr b2"
    and q: "q = run_steps (browser_step env) p (test_script t0 sends t1 results)"
  shows "bp_outcome q = Some (result_of (en_coerce env) q) \<and> bp_counters q = ns \<and> bp_remoteResults q = Some results \<and> bp_config q = bp_config p
    \<and> bp_connection q = Some k \<and> seconds_of q = seconds
    \<and> bp_written q = [JsonFrame (buildParams (bp_config p)), StateFrame TEST_END, JsonFrame (streamResults ns seconds True), StateFrame IPERF_DONE]"
proof -
  note no_run = run_steps.simps browser_step.simps
  define c where "c = bp_config p"
  define deadline where "deadline = t0 + bc_duration c * 1000"
  define params where "params = JsonFrame (buildParams c)"
  define p1 where "p1 = p\<lparr>bp_written := [params], bp_payloads := replicate (nat (bc_parallel c)) True, bp_eof := bp_eof p, bp_startedAt := t0, bp_pc := PSending deadline\<rparr>"
  define p2 where "p2 = p1\<lparr>bp_counters := ns\<rparr>"
  have w: "bp_write (en_num env) (JsonFrame (buildParams c)) pc r = r\<lparr>bp_written := bp_written r @ [params], bp_pc := pc\<rparr>" for pc r
    using fits(1) by (simp add: bp_write_def params_def c_def)
  have r1: "run_steps (browser_step env) p [BWrote None, BState (Inr PARAM_EXCHANGE) 0, BWrote None, BState (Inr CREATE_STREAMS) 0, BPayloadsOpen None,
      BState (Inr TEST_START) 0, BState (Inr TEST_RUNNING) t0] = p1"
    using p w by (simp add: browser_writing_def after_browser_write_def on_browser_state_def state_defs open_payloads_def start_transfer_def p1_def
        c_def [symmetric] deadline_def)
  have "run_steps (browser_step env) p1 (map (\<lambda>(i, now). BChunk i now None) sends) = p1\<lparr>bp_counters := count_chunks (nat (bc_length (bp_config p1))) (map fst sends) (bp_counters p1)\<rparr>"
    using sends by (intro chunks_run) (simp_all add: p1_def c_def deadline_def)
  then have r2: "run_steps (browser_step env) p1 (map (\<lambda>(i, now). BChunk i now None) sends) = p2"
    using ns by (simp add: p2_def p1_def c_def del: no_run)
  have q2: "q = run_steps (browser_step env) p2 [BSendersDone t1, BDrained None, BWrote None, BState (Inr EXCHANGE_RESULTS) 0, BWrote None, BJson (Inr results),
      BState (Inr DISPLAY_RESULTS) 0, BWrote None, BState (Inr IPERF_DONE) 0]"
    unfolding q test_script_def run_steps_append r1 r2 ..
  define p3 where "p3 = p2\<lparr>bp_endedAt := t1, bp_written := [params, StateFrame TEST_END, JsonFrame (streamResults ns seconds True), StateFrame IPERF_DONE],
    bp_remoteResults := Some results, bp_pc := PAck\<rparr>"
  have s2: "bp_endedAt r = t1 \<Longrightarrow> bp_startedAt r = t0 \<Longrightarrow> seconds_of r = seconds" for r by (simp add: seconds_of_def sec)
  have w2: "bp_write (en_num env) (JsonFrame (streamResults ns seconds True)) pc r = r\<lparr>bp_written := bp_written r @ [JsonFrame (streamResults ns seconds True)], bp_pc := pc\<rparr>" for pc r
    using fits(2) by (simp add: bp_write_def)
  have pc2: "bp_pc p2 = PSending deadline" "bp_written p2 = [params]" "bp_counters p2 = ns" "\<not> bc_reverse (bp_config p2)" "bp_startedAt p2 = t0"
    using p(2) by (simp_all add: p2_def p1_def)
  have d: "deadline \<le> t1" using t1 by (simp add: deadline_def c_def)
  have st: "bp_write num (StateFrame x) pc r = r\<lparr>bp_written := bp_written r @ [StateFrame x], bp_pc := pc\<rparr>" for num x pc r by (simp add: bp_write_def)
  have e1: "bp_pc r = PSending deadline \<Longrightarrow> browser_step env r (BSendersDone t1) = r\<lparr>bp_endedAt := t1, bp_pc := PDraining\<rparr>" for r using d by simp
  have e2: "bp_pc r = PDraining \<Longrightarrow> browser_step env r (BDrained None) = r\<lparr>bp_written := bp_written r @ [StateFrame TEST_END], bp_pc := PEndWrite\<rparr>" for r
    by (simp add: st)
  have e3: "bp_pc r = PEndWrite \<Longrightarrow> browser_step env r (BWrote None) = r\<lparr>bp_pc := PState\<rparr>"
    "bp_pc r = PResultsWrite \<Longrightarrow> browser_step env r (BWrote None) = r\<lparr>bp_pc := PResultsRead\<rparr>"
    "bp_pc r = PDoneWrite \<Longrightarrow> browser_step env r (BWrote None) = r\<lparr>bp_pc := PAck\<rparr>" for r
    by (simp_all add: browser_writing_def after_browser_write_def)
  have e4: "bp_pc r = PState \<Longrightarrow> \<not> bc_reverse (bp_config r) \<Longrightarrow> bp_counters r = ns \<Longrightarrow> seconds_of r = seconds \<Longrightarrow>
      browser_step env r (BState (Inr EXCHANGE_RESULTS) 0) = r\<lparr>bp_written := bp_written r @ [JsonFrame (streamResults ns seconds True)], bp_pc := PResultsWrite\<rparr>" for r
    by (simp add: on_browser_state_def state_defs write_results_def w2)
  have e5: "bp_pc r = PResultsRead \<Longrightarrow> browser_step env r (BJson (Inr results)) = r\<lparr>bp_remoteResults := Some results, bp_pc := PState\<rparr>" for r by simp
  have e6: "bp_pc r = PState \<Longrightarrow> browser_step env r (BState (Inr DISPLAY_RESULTS) 0) = r\<lparr>bp_written := bp_written r @ [StateFrame IPERF_DONE], bp_pc := PDoneWrite\<rparr>" for r
    by (simp add: on_browser_state_def state_defs st)
  have r3: "run_steps (browser_step env) p2 [BSendersDone t1, BDrained None, BWrote None, BState (Inr EXCHANGE_RESULTS) 0, BWrote None, BJson (Inr results),
      BState (Inr DISPLAY_RESULTS) 0, BWrote None] = p3"
    by (simp add: e1 e2 e3 e4 e5 e6 p3_def pc2 s2 del: browser_step.simps)
  have "q = run_steps (browser_step env) (run_steps (browser_step env) p2 [BSendersDone t1, BDrained None, BWrote None, BState (Inr EXCHANGE_RESULTS) 0,
      BWrote None, BJson (Inr results), BState (Inr DISPLAY_RESULTS) 0, BWrote None]) [BState (Inr IPERF_DONE) 0]"
    unfolding q2 by (simp only: run_steps.simps)
  then have "q = browser_step env p3 (BState (Inr IPERF_DONE) 0)" unfolding r3 by (simp only: run_steps.simps)
  moreover have "bp_pc p3 = PAck" by (simp add: p3_def)
  ultimately have "q = bp_leave (result_of (en_coerce env) p3) p3" by simp
  moreover have "seconds_of p3 = seconds" by (rule s2) (simp_all add: p3_def pc2)
  moreover have "seconds_of (bp_leave x p3) = seconds_of p3" for x by (simp add: seconds_of_def)
  moreover have "bp_counters p3 = ns" "bp_remoteResults p3 = Some results" "bp_config p3 = bp_config p" "bp_connection p3 = Some k"
    "bp_written p3 = [JsonFrame (buildParams (bp_config p)), StateFrame TEST_END, JsonFrame (streamResults ns seconds True), StateFrame IPERF_DONE]"
    using p(6) by (simp_all add: p3_def p2_def p1_def c_def params_def)
  ultimately show ?thesis by (simp add: result_of_leave)
qed


text \<open>A frame that arrives while the peer waits for it, and a message that is within the limits.\<close>

lemma frame_then_next:
  assumes "signal_received (TextFrame t) = Inr j" and "ss_socket (bp_signal p) = Some OPEN" and "ss_incoming (bp_signal p) = new_queue" and "awaits_signal p"
  shows "browser_step env (browser_step env p (BFrame (TextFrame t))) BNext = on_next (Inr j) p"
proof -
  have "bp_pc p \<noteq> PFinished" using assms(4) by (auto simp: awaits_signal_def)
  then have "browser_step env (browser_step env p (BFrame (TextFrame t))) BNext = on_next (Inr j) (p\<lparr>bp_signal := (bp_signal p)\<lparr>ss_incoming := new_queue\<rparr>\<rparr>)"
    using assms by (simp add: signal_onmessage_def aq_push_def aq_next_def new_queue_def awaits_signal_def)
  also have "(bp_signal p)\<lparr>ss_incoming := new_queue\<rparr> = bp_signal p" unfolding assms(3) [symmetric] by simp
  finally show ?thesis by simp
qed

definition signal_text :: "ServerSignalMessage \<Rightarrow> js_string" where
  "signal_text m = JSON_stringify int_num (server_json m)"

text \<open>What the service relays of a listener that answers without candidates, and what happens in between.\<close>

definition negotiation_script :: "int \<Rightarrow> js_string \<Rightarrow> js_string \<Rightarrow> rat \<Rightarrow> (rat \<times> (js_error + stats)) list \<Rightarrow> byte list \<Rightarrow> browser_event list" where
  "negotiation_script n sdp answer deadline polls random =
     [BOpened None, BFrame (TextFrame (signal_text (ServerSignalMessage.Bound Joiner n))), BNext, BFrame (TextFrame (signal_text PeerReady)), BNext, BOffer (Inr sdp),
      BLocalIce None, BIceNext, BFrame (TextFrame (signal_text (Relayed (Description Answer answer)))), BNext, BRemoteApplied None,
      BFrame (TextFrame (signal_text (Relayed EndOfCandidates))), BNext, BRemoteApplied None, BConnected None, BDirect deadline polls random]"

definition text_fits :: "ServerSignalMessage \<Rightarrow> bool" where
  "text_fits m \<longleftrightarrow> serverSignalMessageSchema m \<and> scalar_server m \<and> utf8_length (signal_text m) \<le> MAX_SIGNAL_FRAME_BYTES"

lemma text_received: "text_fits m \<Longrightarrow> signal_received (TextFrame (signal_text m)) = Inr (server_json m)"
  by (rule server_message_received) (simp_all add: text_fits_def serializeSignalMessage_def signal_text_def)

text \<open>A socket that is open, whose queue is empty and that has sent \<open>n\<close> bytes.\<close>

definition ready_socket :: "nat \<Rightarrow> signal_socket \<Rightarrow> bool" where
  "ready_socket n sg \<longleftrightarrow> ss_socket sg = Some OPEN \<and> ss_incoming sg = new_queue \<and> ss_sentBytes sg = n"

lemma frame_read:
  assumes "text_fits m" and "ready_socket k (bp_signal p)" and "awaits_signal p"
  shows "run_steps (browser_step env) p [BFrame (TextFrame (signal_text m)), BNext] = on_next (Inr (server_json m)) p"
proof -
  have "browser_step env (browser_step env p (BFrame (TextFrame (signal_text m)))) BNext = on_next (Inr (server_json m)) p"
    using assms by (intro frame_then_next text_received) (simp_all add: ready_socket_def)
  then show ?thesis by (simp only: run_steps.simps)
qed

lemma said:
  assumes "validateSignal (client_json m) = Inr j" and "\<not> is_candidate_client m" and "ready_socket k (bp_signal p)"
    and "byteLength (JSON_stringify int_num (client_json m)) = n" and "n \<le> MAX_SIGNAL_FRAME" and "k + n \<le> MAX_SIGNAL_BYTES"
  obtains sg where "ready_socket (k + n) sg" "bp_say m f p = f (p\<lparr>bp_signal := sg, bp_said := bp_said p @ [m]\<rparr>)"
proof (rule that [of "(bp_signal p)\<lparr>ss_sentBytes := k + n, ss_wire := ss_wire (bp_signal p) @ [JSON_stringify int_num (client_json m)]\<rparr>"])
qed (use assms in \<open>simp_all add: bp_say_def signal_send_def ready_socket_def Let_def candidate_message_json del: client_json.simps\<close>)

lemma bind_said:
  obtains sg where "ready_socket 37 sg"
    "browser_step env (new_peer c) (BOpened None) = (new_peer c)\<lparr>bp_signal := sg, bp_said := [BindJoiner], bp_pc := PBound\<rparr>"
proof -
  define p where "p = (new_peer c)\<lparr>bp_signal := (bp_signal (new_peer c))\<lparr>ss_socket := Some OPEN\<rparr>\<rparr>"
  have len: "byteLength (JSON_stringify int_num (client_json BindJoiner)) = 37"
    by (simp add: byteLength_def typed_def SIGNAL_PROTOCOL_VERSION_def quote_string_def quote_char_def int_num_def int_digits_def nat_digits.simps utf8_length_ascii ascii_def)
  have v: "validateSignal (client_json BindJoiner) = Inr (client_json BindJoiner)" by (simp add: signal_eval del: js_simps)
  have r: "ready_socket 0 (bp_signal p)" by (simp add: p_def new_peer_def ready_socket_def new_signal_socket_def)
  obtain sg where "ready_socket (0 + 37) sg"
    "bp_say BindJoiner (\<lambda>q. q\<lparr>bp_pc := PBound\<rparr>) p = (p\<lparr>bp_signal := sg, bp_said := bp_said p @ [BindJoiner]\<rparr>)\<lparr>bp_pc := PBound\<rparr>"
    using said [where f = "\<lambda>q. q\<lparr>bp_pc := PBound\<rparr>", OF v _ r len] by (auto simp: is_candidate_client_def MAX_SIGNAL_FRAME_def MAX_SIGNAL_BYTES_def)
  then show thesis using that [of sg] by (simp add: p_def new_peer_def)
qed

lemma bound_read:
  "text_fits (ServerSignalMessage.Bound Joiner n) \<Longrightarrow> ready_socket k (bp_signal p) \<Longrightarrow> bp_pc p = PBound \<Longrightarrow>
   run_steps (browser_step env) p [BFrame (TextFrame (signal_text (ServerSignalMessage.Bound Joiner n))), BNext] = p\<lparr>bp_pc := PReady\<rparr>"
  by (simp add: frame_read [where k = k] awaits_signal_def on_next_def on_bound_def has_type_def json_field_typed del: js_simps run_steps.simps browser_step.simps)

lemma ready_read:
  assumes "ready_socket k (bp_signal p)" and "bp_pc p = PReady"
  shows "run_steps (browser_step env) p [BFrame (TextFrame (signal_text PeerReady)), BNext] = p\<lparr>bp_peerOpen := True, bp_controlOpen := True, bp_pc := POffer\<rparr>"
proof -
  have "text_fits PeerReady"
    by (simp add: text_fits_def signal_text_def typed_def SIGNAL_PROTOCOL_VERSION_def quote_string_def quote_char_def int_num_def int_digits_def nat_digits.simps
        utf8_length_ascii ascii_def MAX_SIGNAL_FRAME_BYTES_def)
  then show ?thesis
    using assms by (simp add: frame_read [where k = k] awaits_signal_def on_next_def on_ready_def has_type_def json_field_typed del: js_simps run_steps.simps browser_step.simps)
qed

lemma offer_said:
  assumes "sdp_ok sdp" and "utf8_length (JSON_stringify int_num (relay_json (Description Offer sdp))) \<le> MAX_SIGNAL_FRAME"
    and "ready_socket 37 (bp_signal p)" and "bp_pc p = POffer"
  obtains sg k where "ready_socket k sg" "k \<le> 65573"
    "browser_step env p (BOffer (Inr sdp)) = p\<lparr>bp_signal := sg, bp_said := bp_said p @ [Relay (Description Offer sdp)], bp_pc := PIce\<rparr>"
proof -
  define n where "n = byteLength (JSON_stringify int_num (client_json (Relay (Description Offer sdp))))"
  have n: "n \<le> 65536" using assms(2) by (simp add: n_def byteLength_def MAX_SIGNAL_FRAME_def)
  have v: "validateSignal (client_json (Relay (Description Offer sdp))) = Inr (relay_json (Description Offer sdp))"
    using assms(1) by (simp add: validateSignal_relay del: relay_json.simps)
  obtain sg where "ready_socket (37 + n) sg" "bp_say (Relay (Description Offer sdp)) (\<lambda>q. q\<lparr>bp_pc := PIce\<rparr>) p =
      (p\<lparr>bp_signal := sg, bp_said := bp_said p @ [Relay (Description Offer sdp)]\<rparr>)\<lparr>bp_pc := PIce\<rparr>"
    using said [where f = "\<lambda>q. q\<lparr>bp_pc := PIce\<rparr>", OF v _ assms(3) n_def [symmetric]] n
    by (auto simp: is_candidate_client_def is_candidate_def MAX_SIGNAL_FRAME_def MAX_SIGNAL_BYTES_def)
  then show thesis using that [of "37 + n" sg] assms(4) n by simp
qed

lemma end_said:
  assumes "ready_socket k (bp_signal p)" and "k \<le> 65573" and "bp_pc p = PIce" and "bp_localIce p = new_queue" and "bp_peerOpen p" and "\<not> bp_iceSent p"
    and "bp_iceRecv p = RNext"
  obtains sg where "ready_socket (k + 34) sg" "run_steps (browser_step env) p [BLocalIce None, BIceNext] =
    p\<lparr>bp_signal := sg, bp_said := bp_said p @ [Relay EndOfCandidates], bp_iceSent := True\<rparr>"
proof -
  define f where "f = (\<lambda>q. ice_joined (q\<lparr>bp_iceSent := True\<rparr>))"
  have len: "byteLength (JSON_stringify int_num (client_json (Relay EndOfCandidates))) = 34"
    by (simp add: byteLength_def typed_def SIGNAL_PROTOCOL_VERSION_def quote_string_def quote_char_def int_num_def int_digits_def nat_digits.simps utf8_length_ascii ascii_def)
  have v: "validateSignal (client_json (Relay EndOfCandidates)) = Inr (relay_json EndOfCandidates)" by (simp add: validateSignal_relay del: relay_json.simps)
  obtain sg where sg: "ready_socket (k + 34) sg" "bp_say (Relay EndOfCandidates) f p = f (p\<lparr>bp_signal := sg, bp_said := bp_said p @ [Relay EndOfCandidates]\<rparr>)"
    using said [where f = f, OF v _ assms(1) len] assms(2) by (auto simp: is_candidate_client_def is_candidate_def MAX_SIGNAL_FRAME_def MAX_SIGNAL_BYTES_def)
  have "p\<lparr>bp_localIce := new_queue\<rparr> = p" unfolding assms(4) [symmetric] by simp
  then have eta: "p\<lparr>bp_localIce := \<lparr>aq_values = [], aq_waiters = [], aq_error = None, aq_closed = False\<rparr>\<rparr> = p" by (simp add: new_queue_def)
  have "run_steps (browser_step env) p [BLocalIce None, BIceNext] = bp_say (Relay EndOfCandidates) f p"
    using assms by (simp add: on_local_ice_def aq_push_def aq_next_def new_queue_def f_def eta)
  moreover have "f (p\<lparr>bp_signal := sg, bp_said := bp_said p @ [Relay EndOfCandidates]\<rparr>) =
      p\<lparr>bp_signal := sg, bp_said := bp_said p @ [Relay EndOfCandidates], bp_iceSent := True\<rparr>"
    using assms(7) by (simp add: f_def ice_joined_def)
  ultimately show thesis using that [OF sg(1)] sg(2) by argo
qed

lemma answer_read:
  assumes "text_fits (Relayed (Description Answer answer))" and "ready_socket k (bp_signal p)" and "bp_pc p = PIce" and "bp_iceRecv p = RNext" and "\<not> bp_answered p"
    and "bp_pendingIce p = []"
  shows "run_steps (browser_step env) p [BFrame (TextFrame (signal_text (Relayed (Description Answer answer)))), BNext, BRemoteApplied None] =
    p\<lparr>bp_applied := bp_applied p @ [SetRemoteDescription answer], bp_iceRecv := RNext, bp_answered := True, bp_pendingIce := []\<rparr>"
proof -
  have r: "run_steps (browser_step env) p [BFrame (TextFrame (signal_text (Relayed (Description Answer answer)))), BNext] =
      p\<lparr>bp_applied := bp_applied p @ [SetRemoteDescription answer], bp_iceRecv := RSetRemote\<rparr>"
    using assms by (simp add: frame_read [where k = k] awaits_signal_def on_next_def on_remote_ice_def apply_ice_def json_text_def has_type_def json_field_typed del: js_simps run_steps.simps browser_step.simps)
  have "run_steps (browser_step env) p ([BFrame (TextFrame (signal_text (Relayed (Description Answer answer)))), BNext] @ [BRemoteApplied None]) =
      remote_applied (p\<lparr>bp_applied := bp_applied p @ [SetRemoteDescription answer], bp_iceRecv := RSetRemote\<rparr>)"
    unfolding run_steps_append r using assms(3) by (simp add: applying_def)
  then show ?thesis using assms by (simp add: remote_applied_def)
qed

lemma end_read:
  assumes "ready_socket k (bp_signal p)" and "bp_pc p = PIce" and "bp_iceRecv p = RNext" and "bp_answered p" and "bp_iceSent p"
  shows "run_steps (browser_step env) p [BFrame (TextFrame (signal_text (Relayed EndOfCandidates))), BNext, BRemoteApplied None] =
    p\<lparr>bp_applied := bp_applied p @ [AddIceEnd], bp_iceRecv := RDone, bp_pc := PConnecting\<rparr>"
proof -
  have "text_fits (Relayed EndOfCandidates)"
    by (simp add: text_fits_def signal_text_def typed_def SIGNAL_PROTOCOL_VERSION_def quote_string_def quote_char_def int_num_def int_digits_def nat_digits.simps
        utf8_length_ascii ascii_def MAX_SIGNAL_FRAME_BYTES_def)
  then have r: "run_steps (browser_step env) p [BFrame (TextFrame (signal_text (Relayed EndOfCandidates))), BNext] =
      p\<lparr>bp_applied := bp_applied p @ [AddIceEnd], bp_iceRecv := REnd\<rparr>"
    using assms by (simp add: frame_read [where k = k] awaits_signal_def on_next_def on_remote_ice_def apply_ice_def has_type_def json_field_typed del: js_simps run_steps.simps browser_step.simps)
  have "run_steps (browser_step env) p ([BFrame (TextFrame (signal_text (Relayed EndOfCandidates))), BNext] @ [BRemoteApplied None]) =
      remote_applied (p\<lparr>bp_applied := bp_applied p @ [AddIceEnd], bp_iceRecv := REnd\<rparr>)"
    unfolding run_steps_append r using assms(2) by (simp add: applying_def)
  then show ?thesis using assms by (simp add: remote_applied_def ice_joined_def)
qed

lemma path_found:
  assumes "waitForDirectPair (en_text env) (bc_includeAddresses (bp_config p)) deadline polls = Some (Inr k)" and "bp_pc p = PConnecting"
    and "ready_socket n (bp_signal p)" and "n + 22 \<le> MAX_SIGNAL_BYTES"
  obtains sg where "run_steps (browser_step env) p [BConnected None, BDirect deadline polls random] =
    p\<lparr>bp_connection := Some k, bp_signal := sg, bp_said := bp_said p @ [Leave], bp_cookie := Some (browser_makeCookie random), bp_pc := PCookieWrite\<rparr>"
proof -
  define q where "q = p\<lparr>bp_pc := PDirect, bp_connection := Some k\<rparr>"
  have "say_leave q = (q, None)" if "ss_socket (bp_signal q) \<noteq> Some OPEN" using that by (simp add: say_leave_def signal_close_def)
  obtain sg where "say_leave q = (q\<lparr>bp_signal := sg, bp_said := bp_said q @ [Leave]\<rparr>, None)"
    using assms leave_frame
    by (auto simp: say_leave_def signal_close_def signal_send_def Let_def MAX_SIGNAL_FRAME_def ready_socket_def q_def)
  then show thesis using that [of sg] assms by (simp add: q_def)
qed

lemma negotiation_completes:
  assumes fits: "text_fits (ServerSignalMessage.Bound Joiner n)" "text_fits (Relayed (Description Answer answer))"
    and sdp: "sdp_ok sdp" "utf8_length (JSON_stringify int_num (relay_json (Description Offer sdp))) \<le> MAX_SIGNAL_FRAME"
    and path: "waitForDirectPair (en_text env) (bc_includeAddresses c) deadline polls = Some (Inr k)"
    and p: "p = run_steps (browser_step env) (new_peer c) (negotiation_script n sdp answer deadline polls random)"
  shows "bp_pc p = PCookieWrite \<and> bp_config p = c \<and> bp_payloads p = [] \<and> bp_counters p = replicate (nat (bc_parallel c)) 0 \<and> bp_written p = []
    \<and> bp_connection p = Some k \<and> bp_cookie p = Some (browser_makeCookie random)
    \<and> bp_said p = [BindJoiner, Relay (Description Offer sdp), Relay EndOfCandidates, Leave]
    \<and> bp_applied p = [SetRemoteDescription answer, AddIceEnd]"
proof -
  let ?run = "run_steps (browser_step env)"
  obtain sg1 where s1: "ready_socket 37 sg1"
    "browser_step env (new_peer c) (BOpened None) = (new_peer c)\<lparr>bp_signal := sg1, bp_said := [BindJoiner], bp_pc := PBound\<rparr>" by (rule bind_said)
  define p1 where "p1 = (new_peer c)\<lparr>bp_signal := sg1, bp_said := [BindJoiner], bp_peerOpen := True, bp_controlOpen := True, bp_pc := POffer\<rparr>"
  have "ready_socket 37 (bp_signal p1)" "bp_pc p1 = POffer" by (simp_all add: p1_def s1(1))
  from offer_said [OF sdp this] obtain sg2 b where s2: "ready_socket b sg2" "b \<le> 65573"
    "browser_step env p1 (BOffer (Inr sdp)) = p1\<lparr>bp_signal := sg2, bp_said := bp_said p1 @ [Relay (Description Offer sdp)], bp_pc := PIce\<rparr>"
    by blast
  define p2 where "p2 = p1\<lparr>bp_signal := sg2, bp_said := bp_said p1 @ [Relay (Description Offer sdp)], bp_pc := PIce\<rparr>"
  have "ready_socket b (bp_signal p2)" "bp_pc p2 = PIce" "bp_localIce p2 = new_queue" "bp_peerOpen p2" "\<not> bp_iceSent p2" "bp_iceRecv p2 = RNext"
    by (simp_all add: p2_def p1_def new_peer_def s2(1))
  from end_said [OF this(1) s2(2) this(2-)] obtain sg3 where s3: "ready_socket (b + 34) sg3"
    "?run p2 [BLocalIce None, BIceNext] = p2\<lparr>bp_signal := sg3, bp_said := bp_said p2 @ [Relay EndOfCandidates], bp_iceSent := True\<rparr>"
    by blast
  define p3 where "p3 = p2\<lparr>bp_signal := sg3, bp_said := bp_said p2 @ [Relay EndOfCandidates], bp_iceSent := True\<rparr>"
  define p4 where "p4 = p3\<lparr>bp_applied := [SetRemoteDescription answer], bp_iceRecv := RNext, bp_answered := True, bp_pendingIce := []\<rparr>"
  define p5 where "p5 = p4\<lparr>bp_applied := [SetRemoteDescription answer, AddIceEnd], bp_iceRecv := RDone, bp_pc := PConnecting\<rparr>"
  note defs = p5_def p4_def p3_def p2_def p1_def new_peer_def
  have "bp_pc p5 = PConnecting" "ready_socket (b + 34) (bp_signal p5)" "b + 34 + 22 \<le> MAX_SIGNAL_BYTES" "bp_config p5 = c"
    using s3(1) s2(2) by (simp_all add: defs MAX_SIGNAL_BYTES_def)
  with path obtain sg6 where s6: "?run p5 [BConnected None, BDirect deadline polls random] =
      p5\<lparr>bp_connection := Some k, bp_signal := sg6, bp_said := bp_said p5 @ [Leave], bp_cookie := Some (browser_makeCookie random), bp_pc := PCookieWrite\<rparr>"
    using path_found [of env p5 deadline polls k "b + 34"] by blast
  have r1: "?run ((new_peer c)\<lparr>bp_signal := sg1, bp_said := [BindJoiner], bp_pc := PBound\<rparr>) [BFrame (TextFrame (signal_text (ServerSignalMessage.Bound Joiner n))), BNext]
      = (new_peer c)\<lparr>bp_signal := sg1, bp_said := [BindJoiner], bp_pc := PReady\<rparr>"
    using bound_read [OF fits(1), of 37] s1(1) by (simp del: browser_step.simps run_steps.simps)
  have r2: "?run ((new_peer c)\<lparr>bp_signal := sg1, bp_said := [BindJoiner], bp_pc := PReady\<rparr>) [BFrame (TextFrame (signal_text PeerReady)), BNext] = p1"
    using ready_read [of 37] s1(1) by (simp add: p1_def del: browser_step.simps run_steps.simps)
  have r4: "?run p3 [BFrame (TextFrame (signal_text (Relayed (Description Answer answer)))), BNext, BRemoteApplied None] = p4"
    using answer_read [OF fits(2), of "b + 34" p3 env] s3(1) by (simp add: defs del: browser_step.simps run_steps.simps)
  have r5: "?run p4 [BFrame (TextFrame (signal_text (Relayed EndOfCandidates))), BNext, BRemoteApplied None] = p5"
    using end_read [of "b + 34" p4 env] s3(1) by (simp add: defs del: browser_step.simps run_steps.simps)
  have "p = ?run (?run (?run (?run (browser_step env (?run (?run (browser_step env (new_peer c) (BOpened None))
      [BFrame (TextFrame (signal_text (ServerSignalMessage.Bound Joiner n))), BNext]) [BFrame (TextFrame (signal_text PeerReady)), BNext]) (BOffer (Inr sdp)))
      [BLocalIce None, BIceNext]) [BFrame (TextFrame (signal_text (Relayed (Description Answer answer)))), BNext, BRemoteApplied None])
      [BFrame (TextFrame (signal_text (Relayed EndOfCandidates))), BNext, BRemoteApplied None]) [BConnected None, BDirect deadline polls random]"
    unfolding p negotiation_script_def by (simp only: run_steps.simps)
  also have "\<dots> = ?run p5 [BConnected None, BDirect deadline polls random]"
    unfolding s1(2) r1 r2 s2(3) p2_def [symmetric] s3(2) p3_def [symmetric] r4 r5 ..
  finally show ?thesis unfolding s6 by (simp add: defs)
qed


lemma encodeJson_fits: "utf8_length (JSON_stringify num v) \<le> MAX_JSON \<Longrightarrow> \<exists>b. encodeJson num v = Inr b"
  by (simp add: encodeJson_def Let_def utf8_length_def)

lemma browser_run_range:
  assumes "browser_run up parse coerce input = Inr (room, new_peer c)"
  shows "1 \<le> bc_parallel c \<and> 0 \<le> bc_length c \<and> 1 \<le> bc_duration c"
proof -
  have "validateConfig up parse coerce input = Inr c"
    using assms by (auto simp: browser_run_def new_peer_def)
  then show ?thesis using validateConfig_range by fastforce
qed

text \<open>The result of a forward test whose amounts agree.\<close>

lemma forward_result:
  assumes "\<not> bc_reverse (bp_config p)" and "remote_bytes coerce (bp_remoteResults p) = Some (Some (Fin b))" and "l = of_nat (sum_list (bp_counters p))"
    and "\<bar>l - b\<bar> \<le> 5 / 100 * max (max l b) 1"
  shows "\<exists>r. result_of coerce p = Inr r \<and> br_sentBytes r = Some (Fin l) \<and> br_receivedBytes r = Some (Fin b) \<and> br_durationSeconds r = seconds_of p
    \<and> br_local r = streamResults (bp_counters p) (seconds_of p) True \<and> br_connection r = with_streams (bc_parallel (bp_config p)) (the (bp_connection p))"
proof -
  have "0 < max (max l b) 1" by (simp add: max_def)
  then have "\<not> val_gt (browser_drift l (Some (Fin b))) (5 / 100)" using assms(4) by (simp add: browser_drift_def val_gt_def pos_divide_le_eq)
  then show ?thesis using assms(1-3) by (simp add: result_of_def Let_def)
qed

text \<open>
  C8: a forward test of the browser peer completes.  For every accepted configuration of a forward test, every offer and answer that fit the signaling
  limits, every direct path that the statistics show in time and every sequence of sends on the
  open streams before the deadline: if the two sides agree within five percent, the run from the opening of the signaling
  socket ends with a result whose amounts are the bytes of the sends and the peer's sum, over the time of the
  transfer and the path found, and the peer wrote its parameters, \<open>TEST_END\<close>, its results and \<open>IPERF_DONE\<close>.
\<close>

theorem browser_test_completes:
  assumes fits: "text_fits (ServerSignalMessage.Bound Joiner n)" "text_fits (Relayed (Description Answer answer))"
    and sdp: "sdp_ok sdp" "utf8_length (JSON_stringify int_num (relay_json (Description Offer sdp))) \<le> MAX_SIGNAL_FRAME"
    and path: "waitForDirectPair (en_text env) (bc_includeAddresses c) deadline polls = Some (Inr k)"
    and config: "browser_run up parse coerce input = Inr (room, new_peer c)" "\<not> bc_reverse c"
    and sends: "list_all (\<lambda>(i, now). i < nat (bc_parallel c) \<and> now < t0 + bc_duration c * 1000) sends" "t0 + bc_duration c * 1000 \<le> t1"
    and ns: "ns = count_chunks (nat (bc_length c)) (map fst sends) (replicate (nat (bc_parallel c)) 0)" "l = of_nat (length sends) * of_int (bc_length c)"
    and json: "utf8_length (JSON_stringify (en_num env) (buildParams c)) \<le> MAX_JSON"
      "utf8_length (JSON_stringify (en_num env) (streamResults ns ((t1 - t0) / 1000) True)) \<le> MAX_JSON"
    and remote: "remote_bytes (en_coerce env) (Some results) = Some (Some (Fin b))" "\<bar>l - b\<bar> \<le> 5 / 100 * max (max l b) 1"
    and q: "q = run_steps (browser_step env) (new_peer c) (negotiation_script n sdp answer deadline polls random @ test_script t0 sends t1 results)"
  shows "(\<exists>r. bp_outcome q = Some (Inr r) \<and> br_sentBytes r = Some (Fin l) \<and> br_receivedBytes r = Some (Fin b)
      \<and> br_durationSeconds r = (t1 - t0) / 1000 \<and> br_local r = streamResults ns ((t1 - t0) / 1000) True \<and> br_connection r = with_streams (bc_parallel c) k)
    \<and> bp_written q = [JsonFrame (buildParams c), StateFrame TEST_END, JsonFrame (streamResults ns ((t1 - t0) / 1000) True), StateFrame IPERF_DONE]"
proof -
  have range: "1 \<le> bc_parallel c" "0 \<le> bc_length c" "1 \<le> bc_duration c" using browser_run_range [OF config(1)] by simp_all
  then have "t0 \<le> t1" using sends(2) by simp
  define p where "p = run_steps (browser_step env) (new_peer c) (negotiation_script n sdp answer deadline polls random)"
  have p: "bp_pc p = PCookieWrite" "bp_config p = c" "bp_payloads p = []" "bp_counters p = replicate (nat (bc_parallel c)) 0" "bp_written p = []"
      "bp_connection p = Some k"
    using negotiation_completes [OF fits sdp path p_def] by simp_all
  obtain b1 b2 where b: "encodeJson (en_num env) (buildParams c) = Inr b1" "encodeJson (en_num env) (streamResults ns ((t1 - t0) / 1000) True) = Inr b2"
    using encodeJson_fits json by blast
  have "q = run_steps (browser_step env) p (test_script t0 sends t1 results)" unfolding q run_steps_append p_def ..
  then have end_state: "bp_outcome q = Some (result_of (en_coerce env) q) \<and> bp_counters q = ns \<and> bp_remoteResults q = Some results \<and> bp_config q = bp_config p
    \<and> bp_connection q = Some k \<and> seconds_of q = (t1 - t0) / 1000
    \<and> bp_written q = [JsonFrame (buildParams (bp_config p)), StateFrame TEST_END, JsonFrame (streamResults ns ((t1 - t0) / 1000) True), StateFrame IPERF_DONE]"
    using p config(2) range \<open>t0 \<le> t1\<close> sends ns(1) b by (intro test_completes [where ?b1.0 = b1 and ?b2.0 = b2 and ?t0.0 = t0 and sends = sends and ?t1.0 = t1]) (simp_all add: max_def)
  have "list_all (\<lambda>i. i < length (replicate (nat (bc_parallel c)) (0::nat))) (map fst sends)" using sends(1) by (auto simp: list_all_iff)
  from count_chunks_sum [OF this, of "nat (bc_length c)"] have "l = of_nat (sum_list ns)" using range(2) by (simp add: ns sum_list_replicate of_nat_nat)
  then show ?thesis
    using forward_result [of q "en_coerce env" b l] end_state p(2) config(2) remote by auto
qed

section \<open>A concrete test\<close>

definition witness_env :: browser_env where
  "witness_env = \<lparr>en_num = int_num, en_coerce = (\<lambda>_. None), en_text = (\<lambda>_. [])\<rparr>"

definition witness_server_results :: json where
  "witness_server_results = JObj [(js ''streams'', JArr [JObj [(js ''bytes'', JNum 65536)]])]"

definition witness_polls :: "(rat \<times> (js_error + stats)) list" where
  "witness_polls = [(0, Inr []), (50, Inr witness_stats)]"

lemma witness_path: "\<exists>k. waitForDirectPair (en_text witness_env) (bc_includeAddresses witness_config) 5000 witness_polls = Some (Inr k)"
proof -
  have c: "\<exists>c. directPairFromStats (\<lambda>_. []) witness_stats False = Inr c"
    by (simp add: directPairFromStats_def selected_pair_def names_pair_def has_text_def stats_get_def truthy_def witness_stats_def
        candidate_type_allowed_def coalesce_def js_inject js_def)
  have "directPairFromStats (\<lambda>_. []) [] False = Inl no_direct_path" "error_kind no_direct_path = Some ''direct_path_unavailable''"
    by (simp_all add: directPairFromStats_def selected_pair_def truthy_def no_direct_path_def)
  with c show ?thesis by (auto simp: poll_result_def witness_env_def witness_config_def witness_polls_def)
qed

lemmas text_eval = signal_text_def typed_def SIGNAL_PROTOCOL_VERSION_def quote_string_def quote_char_def int_num_def int_digits_def nat_digits.simps
  utf8_length_ascii ascii_def

lemma witness_texts:
  "text_fits (ServerSignalMessage.Bound Joiner 60)" "text_fits (Relayed (Description Answer (js ''v=0'')))" "sdp_ok (js ''v=0'')"
  "utf8_length (JSON_stringify int_num (relay_json (Description Offer (js ''v=0'')))) \<le> MAX_SIGNAL_FRAME"
  by (simp_all add: text_eval text_fits_def MAX_SIGNAL_FRAME_BYTES_def MAX_SIGNAL_FRAME_def sdp_ok_def u16_length_def encodedBytes_def MAX_SIGNAL_SDP_BYTES_def
      scalar_value_def)

lemma witness_json:
  "utf8_length (JSON_stringify (en_num witness_env) (buildParams witness_config)) \<le> MAX_JSON"
  "utf8_length (JSON_stringify (en_num witness_env) (streamResults [65536] 1 True)) \<le> MAX_JSON"
proof -
  have "json_small (buildParams witness_config)" "4 * json_bound (buildParams witness_config) \<le> MAX_JSON"
    by (simp_all add: witness_config_def buildParams_def MAX_JSON_def del: js_simps)
  then show "utf8_length (JSON_stringify (en_num witness_env) (buildParams witness_config)) \<le> MAX_JSON"
    by (simp add: witness_env_def utf8_stringify_le)
  have "json_small (streamResults [65536] 1 True)" "4 * json_bound (streamResults [65536] 1 True) \<le> MAX_JSON"
    by (simp_all add: streamResults_def stream_entry_def browser_nextStreamId_def MAX_JSON_def del: js_simps)
  then show "utf8_length (JSON_stringify (en_num witness_env) (streamResults [65536] 1 True)) \<le> MAX_JSON"
    by (simp add: witness_env_def utf8_stringify_le)
qed

lemma witness_remote: "remote_bytes (en_coerce witness_env) (Some witness_server_results) = Some (Some (Fin 65536))"
  by (simp add: remote_bytes_def witness_env_def witness_server_results_def stream_bytes_def to_number_def val_plus_def val_add_def)

definition witness_negotiation :: "browser_event list" where
  "witness_negotiation = negotiation_script 60 (js ''v=0'') (js ''v=0'') 5000 witness_polls (replicate 36 200)"

definition witness_test :: "browser_event list" where
  "witness_test = witness_negotiation @ test_script 0 [(0, 0)] 1000 witness_server_results"

lemma witness_run: "\<exists>room. browser_run (\<lambda>_. []) witness_parse (\<lambda>_. None) witness_input = Inr (room, new_peer witness_config)"
proof -
  have "normalizeRoomCode (\<lambda>_. []) (js ''2345-6789'') = Inr (js ''2345-6789'')"
    by (simp add: normalizeRoomCode_def toUpperCase_def ascii_upper_def Let_def)
  then show ?thesis by (simp add: browser_run_def witness_valid roomWebSocketUrl_def witness_parse_def witness_config_def)
qed

theorem browser_test_completes_witness:
  "\<exists>r. bp_outcome (run_steps (browser_step witness_env) (new_peer witness_config) witness_test) = Some (Inr r)
     \<and> br_sentBytes r = Some (Fin 65536) \<and> br_receivedBytes r = Some (Fin 65536) \<and> br_durationSeconds r = 1"
proof -
  obtain k where k: "waitForDirectPair (en_text witness_env) (bc_includeAddresses witness_config) 5000 witness_polls = Some (Inr k)" using witness_path by blast
  obtain room where room: "browser_run (\<lambda>_. []) witness_parse (\<lambda>_. None) witness_input = Inr (room, new_peer witness_config)" using witness_run by blast
  have "\<exists>r. bp_outcome (run_steps (browser_step witness_env) (new_peer witness_config) witness_test) = Some (Inr r)
     \<and> br_sentBytes r = Some (Fin 65536) \<and> br_receivedBytes r = Some (Fin 65536) \<and> br_durationSeconds r = (1000 - 0) / 1000"
    using browser_test_completes [OF witness_texts k room, where ?t0.0 = 0 and ?t1.0 = 1000 and sends = "[(0, 0)]" and ns = "[65536]" and l = 65536
        and results = witness_server_results and b = 65536 and random = "replicate 36 200", OF _ _ _ _ _ witness_json(1) _ witness_remote _ refl] witness_json(2)
    by (auto simp: witness_config_def witness_test_def witness_negotiation_def simp del: run_steps.simps browser_step.simps)
  then show ?thesis by simp
qed

section \<open>Every run\<close>

text \<open>
  C10: the negotiation of the browser peer is in order.  In every run, whatever the service, the browser and the network do:
  the messages it sends are a bind, one offer, candidates, one end of candidates and at most one leave after which it
  says nothing more; the remote description is applied before any remote candidate,
  every candidate that arrived is applied once and in the order of arrival, and the end only
  after all of them.
\<close>

theorem negotiation_in_order:
  assumes "p = run_steps (browser_step env) (new_peer c) es"
  shows "talk (bp_said p) \<noteq> None
    \<and> (\<exists>rest. bp_remoteIce p = applied_candidates (bp_applied p) @ rest)
    \<and> (bp_applied p \<noteq> [] \<longrightarrow> (\<exists>sdp. hd (bp_applied p) = SetRemoteDescription sdp))
    \<and> (AddIceEnd \<in> set (bp_applied p) \<longrightarrow> bp_remoteIce p = applied_candidates (bp_applied p) \<and> last (bp_applied p) = AddIceEnd)"
proof -
  have i: "peer_inv env p" unfolding assms by (rule peer_inv_run)
  then have "talk (bp_said p) \<noteq> None" by (auto simp: peer_inv_def talk_inv_def)
  then show ?thesis using ice_order_candidates [of p] i by (simp add: peer_inv_def)
qed

theorem negotiation_in_order_witness:
  "AddIceEnd \<in> set (bp_applied (run_steps (browser_step witness_env) (new_peer witness_config) witness_negotiation))
   \<and> talk (bp_said (run_steps (browser_step witness_env) (new_peer witness_config) witness_negotiation)) \<noteq> None
   \<and> bp_remoteIce (run_steps (browser_step witness_env) (new_peer witness_config) witness_negotiation) = []"
proof -
  define p where "p = run_steps (browser_step witness_env) (new_peer witness_config) witness_negotiation"
  obtain k where k: "waitForDirectPair (en_text witness_env) (bc_includeAddresses witness_config) 5000 witness_polls = Some (Inr k)" using witness_path by blast
  have "bp_applied p = [SetRemoteDescription (js ''v=0''), AddIceEnd]"
    using negotiation_completes [OF witness_texts k, of p "replicate 36 200"] by (simp add: p_def witness_negotiation_def)
  then show ?thesis using negotiation_in_order [OF p_def] unfolding p_def [symmetric] by (simp add: applied_candidates_def)
qed



end
