(* ===== verification/Process.thy ===== *)
theory Process
  imports BrowserFrames
begin

text \<open>
  The processes the drivers under \<open>interop/transports\<close> start: \<open>command\<close>, \<open>waitForReadiness\<close>, the readiness promise of
  \<open>startServer\<close> and \<open>waitForObservedClose\<close> of \<open>run-quic-matrix.ts\<close> and \<open>run-webrtc-matrix.ts\<close>.  A process is the
  list of its events: chunks of output (as text), an error, its end, and the timer of the driver.
\<close>

section \<open>Texts\<close>

text \<open>\<open>s.includes(p)\<close>.\<close>

fun js_includes :: "js_string \<Rightarrow> js_string \<Rightarrow> bool" where
  "js_includes p [] \<longleftrightarrow> p = []"
| "js_includes p (c # s) \<longleftrightarrow> starts_with p (c # s) \<or> js_includes p s"

lemma starts_with_append: "starts_with p s \<longleftrightarrow> (\<exists>t. s = p @ t)"
  by (auto simp: starts_with_def) (metis append_take_drop_id)

lemma js_includes_iff: "js_includes p s \<longleftrightarrow> (\<exists>u t. s = u @ p @ t)"
proof (induction s)
  case (Cons c s)
  have "(\<exists>u t. c # s = u @ p @ t) \<longleftrightarrow> (\<exists>t. c # s = p @ t) \<or> (\<exists>u t. s = u @ p @ t)"
    by (metis append_Cons append_Nil list.sel(3) tl_append2)
  then show ?case using Cons by (simp add: starts_with_append)
qed auto

lemma js_includes_append: "js_includes p s \<Longrightarrow> js_includes p (s @ t)"
  by (metis append.assoc js_includes_iff)

text \<open>\<open>JSON.stringify(v, null, 2)\<close>; \<open>n\<close> is the indentation of the value.\<close>

fun JSON_pretty :: "(rat \<Rightarrow> js_string) \<Rightarrow> nat \<Rightarrow> json \<Rightarrow> js_string" where
  "JSON_pretty num n (JArr vs) =
     (if vs = [] then js ''[]''
      else [91, 10] @ join [44, 10] (map (\<lambda>v. replicate (n + 2) 32 @ JSON_pretty num (n + 2) v) vs) @ [10] @ replicate n 32 @ [93])"
| "JSON_pretty num n (JObj fs) =
     (if fs = [] then js ''{}''
      else [123, 10] @ join [44, 10] (map (\<lambda>(k, v). replicate (n + 2) 32 @ quote_string k @ [58, 32] @ JSON_pretty num (n + 2) v) fs)
        @ [10] @ replicate n 32 @ [125])"
| "JSON_pretty num n v = JSON_stringify num v"

section \<open>Commands\<close>

record command_result =
  cm_code :: int
  cm_stdout :: js_string
  cm_stderr :: js_string

record timed_result = command_result +
  cm_timedOut :: bool

record child =
  ch_stdout :: js_string
  ch_stderr :: js_string
  ch_timer :: bool
  ch_timedOut :: bool
  ch_killed :: bool
  ch_result :: "timed_result option"

datatype child_event = ChildStdout js_string | ChildStderr js_string | ChildError js_string | ChildTimer | ChildClose "int option"

definition spawn_child :: child where
  "spawn_child = \<lparr>ch_stdout = [], ch_stderr = [], ch_timer = True, ch_timedOut = False, ch_killed = False, ch_result = None\<rparr>"

definition timeout_note :: "nat \<Rightarrow> js_string" where
  "timeout_note timeoutMs = [10] @ js ''[runner] timed out after '' @ nat_digits timeoutMs @ js ''ms''"

text \<open>The listeners of \<open>command\<close>; \<open>resolve\<close> counts the first time only.\<close>

definition child_closed :: "nat \<Rightarrow> int option \<Rightarrow> child \<Rightarrow> child" where
  "child_closed timeoutMs code c =
     (let err = ch_stderr c @ (if ch_timedOut c then timeout_note timeoutMs else []);
          r = \<lparr>cm_code = (case code of Some n \<Rightarrow> n | None \<Rightarrow> - 1), cm_stdout = ch_stdout c, cm_stderr = err, cm_timedOut = ch_timedOut c\<rparr>
      in c\<lparr>ch_timer := False, ch_stderr := err, ch_result := (if ch_result c = None then Some r else ch_result c)\<rparr>)"

fun child_step :: "nat \<Rightarrow> child \<Rightarrow> child_event \<Rightarrow> child" where
  "child_step timeoutMs c (ChildStdout t) = c\<lparr>ch_stdout := ch_stdout c @ t\<rparr>"
| "child_step timeoutMs c (ChildStderr t) = c\<lparr>ch_stderr := ch_stderr c @ t\<rparr>"
| "child_step timeoutMs c (ChildError m) = c\<lparr>ch_stderr := ch_stderr c @ 10 # m\<rparr>"
| "child_step timeoutMs c ChildTimer = (if ch_timer c then c\<lparr>ch_timer := False, ch_timedOut := True, ch_killed := True\<rparr> else c)"
| "child_step timeoutMs c (ChildClose code) = child_closed timeoutMs code c"

definition quic_command :: "nat \<Rightarrow> child_event list \<Rightarrow> command_result option" where
  "quic_command timeoutMs es = map_option command_result.truncate (ch_result (run_steps (child_step timeoutMs) spawn_child es))"

definition webrtc_command :: "nat \<Rightarrow> child_event list \<Rightarrow> timed_result option" where
  "webrtc_command timeoutMs es = ch_result (run_steps (child_step timeoutMs) spawn_child es)"

interpretation command_promise: one_shot "child_step timeoutMs" ch_result "\<lambda>_. True" for timeoutMs
proof
  show "ch_result (child_step timeoutMs s e) = Some r" if "ch_result s = Some r" for s e r
    using that by (cases e) (simp_all add: child_closed_def Let_def)
qed

text \<open>What a process wrote before it ended.\<close>

fun child_out :: "child_event \<Rightarrow> js_string" where
  "child_out (ChildStdout t) = t"
| "child_out _ = []"

fun child_err :: "child_event \<Rightarrow> js_string" where
  "child_err (ChildStderr t) = t"
| "child_err (ChildError m) = 10 # m"
| "child_err _ = []"

definition is_close :: "child_event \<Rightarrow> bool" where
  "is_close e = (case e of ChildClose _ \<Rightarrow> True | _ \<Rightarrow> False)"

lemma child_before_close:
  assumes "list_all (Not \<circ> is_close) es" and "c = run_steps (child_step timeoutMs) spawn_child es"
  shows "c = \<lparr>ch_stdout = concat (map child_out es), ch_stderr = concat (map child_err es), ch_timer = (ChildTimer \<notin> set es),
    ch_timedOut = (ChildTimer \<in> set es), ch_killed = (ChildTimer \<in> set es), ch_result = None\<rparr>"
proof -
  have "run_steps (child_step timeoutMs) d es = d\<lparr>ch_stdout := ch_stdout d @ concat (map child_out es), ch_stderr := ch_stderr d @ concat (map child_err es),
      ch_timer := (ch_timer d \<and> ChildTimer \<notin> set es), ch_timedOut := (ch_timedOut d \<or> ch_timer d \<and> ChildTimer \<in> set es),
      ch_killed := (ch_killed d \<or> ch_timer d \<and> ChildTimer \<in> set es)\<rparr>" for d
    using assms(1)
  proof (induction es arbitrary: d)
    case (Cons e es)
    then show ?case by (cases e) (auto simp: is_close_def)
  qed simp
  then show ?thesis using assms(2) by (simp add: spawn_child_def)
qed

text \<open>
  A command reports its process: the result is that of the first end, with the text written until then, -1 for a process
  that was killed, and a note exactly if the timer fired first; then the process was killed.
\<close>

lemma command_reports:
  assumes "list_all (Not \<circ> is_close) es"
  shows "webrtc_command timeoutMs (es @ ChildClose code # fs) = Some \<lparr>cm_code = (case code of Some n \<Rightarrow> n | None \<Rightarrow> - 1), cm_stdout = concat (map child_out es),
      cm_stderr = concat (map child_err es) @ (if ChildTimer \<in> set es then timeout_note timeoutMs else []), cm_timedOut = (ChildTimer \<in> set es)\<rparr>"
proof -
  define c where "c = run_steps (child_step timeoutMs) spawn_child es"
  define d where "d = child_step timeoutMs c (ChildClose code)"
  have "ch_result d = Some \<lparr>cm_code = (case code of Some n \<Rightarrow> n | None \<Rightarrow> - 1), cm_stdout = concat (map child_out es),
      cm_stderr = concat (map child_err es) @ (if ChildTimer \<in> set es then timeout_note timeoutMs else []), cm_timedOut = (ChildTimer \<in> set es)\<rparr>"
    using child_before_close [OF assms c_def] by (simp add: d_def child_closed_def Let_def)
  then have "ch_result (run_steps (child_step timeoutMs) d fs) = Some \<lparr>cm_code = (case code of Some n \<Rightarrow> n | None \<Rightarrow> - 1), cm_stdout = concat (map child_out es),
      cm_stderr = concat (map child_err es) @ (if ChildTimer \<in> set es then timeout_note timeoutMs else []), cm_timedOut = (ChildTimer \<in> set es)\<rparr>"
    by (intro command_promise.outcome_final) simp_all
  then show ?thesis unfolding webrtc_command_def run_steps_append c_def [symmetric] by (simp add: d_def)
qed

section \<open>Readiness of a server\<close>

text \<open>
  \<open>found\<close> looks for the banner in the output so far.  The listener that collects the output is registered before the one
  that looks, so a chunk is seen with all that came before it.
\<close>

record 'a readiness =
  re_stdout :: js_string
  re_stderr :: js_string
  re_waiting :: bool
  re_outcome :: "(js_string + 'a) option"

datatype server_event = ServerStdout js_string | ServerStderr js_string | ServerClose "int option" | ReadyTimer

definition look :: "(js_string \<Rightarrow> 'a option) \<Rightarrow> 'a readiness \<Rightarrow> 'a readiness" where
  "look found s = (case found (re_stdout s) of
     Some x \<Rightarrow> s\<lparr>re_waiting := False, re_outcome := Some (Inr x)\<rparr>
   | None \<Rightarrow> s)"

definition give_up :: "js_string \<Rightarrow> 'a readiness \<Rightarrow> 'a readiness" where
  "give_up m s = s\<lparr>re_waiting := False, re_outcome := Some (Inl m)\<rparr>"

definition await_ready :: "(js_string \<Rightarrow> 'a option) \<Rightarrow> 'a readiness" where
  "await_ready found = look found \<lparr>re_stdout = [], re_stderr = [], re_waiting = True, re_outcome = None\<rparr>"

definition exit_text :: "int option \<Rightarrow> js_string" where
  "exit_text code = (case code of Some n \<Rightarrow> int_digits n | None \<Rightarrow> js ''null'')"

fun ready_step :: "(js_string \<Rightarrow> 'a option) \<Rightarrow> string \<Rightarrow> 'a readiness \<Rightarrow> server_event \<Rightarrow> 'a readiness" where
  "ready_step found what s (ServerStdout t) =
     (let s1 = s\<lparr>re_stdout := re_stdout s @ t\<rparr> in if re_waiting s then look found s1 else s1)"
| "ready_step found what s (ServerStderr t) = s\<lparr>re_stderr := re_stderr s @ t\<rparr>"
| "ready_step found what s (ServerClose code) =
     (if re_waiting s
      then give_up (js ''server exited before '' @ js what @ js '' ('' @ exit_text code @ js ''): '' @ u16_take 500 (re_stderr s)) s else s)"
| "ready_step found what s ReadyTimer =
     (if re_waiting s then give_up (js ''server '' @ js what @ js '' timed out: '' @ u16_take 500 (re_stderr s)) s else s)"

lemma look_fields:
  "re_stdout (look found s) = re_stdout s" "re_outcome (look found s) = (case found (re_stdout s) of None \<Rightarrow> re_outcome s | Some x \<Rightarrow> Some (Inr x))"
  "re_waiting (look found s) = (re_waiting s \<and> found (re_stdout s) = None)"
  by (auto simp: look_def split: option.splits)

interpretation ready_promise: one_shot "ready_step found what" re_outcome "\<lambda>s. re_waiting s \<longleftrightarrow> re_outcome s = None" for found what
proof
  show "re_outcome (ready_step found what s e) = Some r" if "re_waiting s \<longleftrightarrow> re_outcome s = None" "re_outcome s = Some r" for s e r
    using that by (cases e) (simp_all add: Let_def)
  show "re_waiting (ready_step found what s e) \<longleftrightarrow> re_outcome (ready_step found what s e) = None" if "re_waiting s \<longleftrightarrow> re_outcome s = None" for s e
    using that by (cases e) (auto simp: Let_def look_fields give_up_def split: option.splits)
qed

fun server_out :: "server_event \<Rightarrow> js_string" where
  "server_out (ServerStdout t) = t"
| "server_out _ = []"

text \<open>The driver goes on exactly when the banner has appeared, at the first chunk that completes it.\<close>

lemma ready_when_found:
  fixes found :: "js_string \<Rightarrow> 'a option"
  assumes "re_outcome (run_steps (ready_step found what) (await_ready found) es) = Some (Inr x)"
  shows "\<exists>n. found (concat (map server_out (take n es))) = Some x"
proof -
  define Q where "Q = (\<lambda>fs (s :: 'a readiness). re_stdout s = concat (map server_out fs) \<and> (re_waiting s \<longleftrightarrow> re_outcome s = None)
    \<and> (re_outcome s = Some (Inr x) \<longrightarrow> (\<exists>n. found (concat (map server_out (take n fs))) = Some x)))"
  have start: "Q [] (await_ready found)" by (auto simp: Q_def await_ready_def look_fields split: option.splits)
  have step: "Q (fs @ [e]) (ready_step found what s e)" if "Q fs s" for fs s e
  proof -
    have "\<exists>n. found (concat (map server_out (take n (fs @ [e])))) = Some x" if "\<exists>n. found (concat (map server_out (take n fs))) = Some x"
    proof -
      from that obtain n where "found (concat (map server_out (take n fs))) = Some x" by blast
      then have "found (concat (map server_out (take (min n (length fs)) (fs @ [e])))) = Some x" by (cases "n \<le> length fs") simp_all
      then show ?thesis by blast
    qed
    moreover have "\<exists>n. found (concat (map server_out (take n (fs @ [e])))) = Some x" if "found (concat (map server_out fs) @ server_out e) = Some x"
      using that by (intro exI [of _ "Suc (length fs)"]) simp
    ultimately show ?thesis using that
      by (cases e) (auto simp: Q_def Let_def look_fields give_up_def split: option.splits if_splits)
  qed
  have "Q fs s \<Longrightarrow> Q (fs @ gs) (run_steps (ready_step found what) s gs)" for fs gs s
  proof (induction gs arbitrary: fs s)
    case (Cons g gs)
    from Cons.IH [OF step [OF Cons.prems]] show ?case by simp
  qed simp
  from this [OF start] show ?thesis using assms by (simp add: Q_def)
qed

section \<open>What a driver does\<close>

text \<open>Servers it starts, commands it runs with their time limit, lines it prints, files it writes and removes, signals it sends.\<close>

datatype driver_action =
  StartServer "js_string list"
| RunCommand "js_string list" nat
| Print js_string
| WriteFile js_string js_string
| RemoveFile js_string
| KillServer
| ForceKillServer

section \<open>Waiting for the end of a process\<close>

datatype close_event = ObservedClose | CloseTimer

fun close_step :: "nat \<Rightarrow> settled \<Rightarrow> close_event \<Rightarrow> settled" where
  "close_step ms p ObservedClose = settle p Resolved_ok"
| "close_step ms p CloseTimer = settle p (Rejected_with (OtherError (js ''child process did not close within '' @ nat_digits ms @ js ''ms'')))"

text \<open>\<open>ended\<close>: the process has ended before the wait begins, as \<open>observeChildClose\<close> remembers.\<close>

definition waitForObservedClose :: "nat \<Rightarrow> bool \<Rightarrow> close_event list \<Rightarrow> settled" where
  "waitForObservedClose ms ended es = run_steps (close_step ms) (if ended then Resolved_ok else Pending) es"

interpretation close_promise: one_shot "close_step ms" outcome_of "\<lambda>_. True" for ms
proof
  show "outcome_of (close_step ms s e) = Some r" if "outcome_of s = Some r" for s e r
    using that by (cases e) (auto simp: outcome_of_def settle_settled split: if_splits)
qed

lemma close_seen: "ended \<Longrightarrow> waitForObservedClose ms ended es = Resolved_ok"
  using close_promise.outcome_final [of Resolved_ok Resolved_ok ms es] by (simp add: waitForObservedClose_def outcome_of_def split: if_splits)

end
