(* ===== verification/Redact.thy ===== *)
theory Redact
  imports Process "HOL-Library.Sublist"
begin

text \<open>
  \<open>redactArtifact\<close> of \<open>interop/transports/run-webrtc-matrix.ts\<close>: six global replacements by regular expressions.  A
  regular expression is a tree whose matcher gives all ways to match, in the order a backtracking
  engine tries them.  The expressions see code points here and UTF-16 code units in the program; none of them tells the
  two halves of a surrogate pair apart.
\<close>

section \<open>Regular expressions\<close>

text \<open>A position: the character before it and the text after it.\<close>

type_synonym rx_pos = "nat option \<times> js_string"

datatype rx = Eps | Chars "nat \<Rightarrow> bool" | Cat rx rx | Alt rx rx | Star rx | Look "rx_pos \<Rightarrow> bool"

definition word_char :: "nat \<Rightarrow> bool" where
  "word_char c \<longleftrightarrow> is_digit c \<or> 65 \<le> c \<and> c \<le> 90 \<or> 97 \<le> c \<and> c \<le> 122 \<or> c = 95"

definition at_edge :: "rx_pos \<Rightarrow> bool" where
  "at_edge p \<longleftrightarrow> (case fst p of None \<Rightarrow> False | Some c \<Rightarrow> word_char c) \<noteq> (case snd p of [] \<Rightarrow> False | c # _ \<Rightarrow> word_char c)"

text \<open>An iteration of a star that consumes nothing is dropped, as the standard says.\<close>

function rx_match :: "rx \<Rightarrow> rx_pos \<Rightarrow> rx_pos list" where
  "rx_match Eps p = [p]"
| "rx_match (Chars f) p = (case snd p of [] \<Rightarrow> [] | c # s \<Rightarrow> if f c then [(Some c, s)] else [])"
| "rx_match (Cat r1 r2) p = concat (map (rx_match r2) (rx_match r1 p))"
| "rx_match (Alt r1 r2) p = rx_match r1 p @ rx_match r2 p"
| "rx_match (Star r) p = concat (map (\<lambda>q. if length (snd q) < length (snd p) then rx_match (Star r) q else []) (rx_match r p)) @ [p]"
| "rx_match (Look f) p = (if f p then [p] else [])"
  by pat_completeness auto
termination
  by (relation "measures [\<lambda>(r, p). size r, \<lambda>(r, p). length (snd p)]") auto

declare rx_match.simps(5) [simp del]

text \<open>\<open>s.replace(/r/g, rep)\<close>, from a position on.\<close>

function replace_from :: "rx \<Rightarrow> js_string \<Rightarrow> nat option \<Rightarrow> js_string \<Rightarrow> js_string" where
  "replace_from r rep before s =
     (case rx_match r (before, s) of
        (b, t) # _ \<Rightarrow>
          if length t < length s then rep @ replace_from r rep b t
          else rep @ (case s of [] \<Rightarrow> [] | c # u \<Rightarrow> c # replace_from r rep (Some c) u)
      | [] \<Rightarrow> (case s of [] \<Rightarrow> [] | c # u \<Rightarrow> c # replace_from r rep (Some c) u))"
  by pat_completeness auto
termination
  by (relation "measure (\<lambda>(r, rep, before, s). length s)") auto

declare replace_from.simps [simp del]

definition replace_all :: "rx \<Rightarrow> js_string \<Rightarrow> js_string \<Rightarrow> js_string" where
  "replace_all r rep s = replace_from r rep None s"

section \<open>The expressions\<close>

definition cats :: "rx list \<Rightarrow> rx" where
  "cats rs = foldr Cat rs Eps"

definition alts :: "rx list \<Rightarrow> rx" where
  "alts rs = foldr Alt (butlast rs) (last rs)"

text \<open>A literal, with the flag \<open>i\<close>.\<close>

definition lit :: "js_string \<Rightarrow> rx" where
  "lit w = cats (map (\<lambda>c. Chars (\<lambda>d. ascii_lower d = ascii_lower c)) w)"

definition optional :: "rx \<Rightarrow> rx" where
  "optional r = Alt r Eps"

definition plus_rx :: "rx \<Rightarrow> rx" where
  "plus_rx r = Cat r (Star r)"

fun upto_rx :: "nat \<Rightarrow> rx \<Rightarrow> rx" where
  "upto_rx 0 r = Eps"
| "upto_rx (Suc n) r = Alt (Cat r (upto_rx n r)) Eps"

definition spaces :: rx where "spaces = Star (Chars js_space)"
definition nonspaces :: rx where "nonspaces = plus_rx (Chars (\<lambda>c. \<not> js_space c))"

definition secret_name :: rx where
  "secret_name = cats [lit (js ''listener''), optional (Chars (\<lambda>c. c = 95 \<or> c = 45)), lit (js ''secret'')]"

definition quoted :: "nat \<Rightarrow> rx" where
  "quoted q = cats [Chars (\<lambda>c. c = q), Star (Chars (\<lambda>c. c \<noteq> q)), Chars (\<lambda>c. c = q)]"

definition assigned_secret :: rx where
  "assigned_secret = cats [secret_name, spaces, Chars (\<lambda>c. c = 61), spaces, alts [quoted 34, quoted 39, nonspaces]]"

definition string_body :: rx where
  "string_body = Star (Alt (Cat (Chars (\<lambda>c. c = 92)) (Chars (\<lambda>c. \<not> line_end c))) (Chars (\<lambda>c. c \<noteq> 34 \<and> c \<noteq> 92)))"

definition json_string :: rx where
  "json_string = cats [Chars (\<lambda>c. c = 34), string_body, Chars (\<lambda>c. c = 34)]"

definition secret_field :: rx where
  "secret_field = cats [Chars (\<lambda>c. c = 34), alts [secret_name, lit (js ''secret''), lit (js ''sdp'')], Chars (\<lambda>c. c = 34), spaces, Chars (\<lambda>c. c = 58), spaces, json_string]"

definition candidate_line :: rx where
  "candidate_line = cats [lit (js ''candidate:''), Star (Chars (\<lambda>c. c \<notin> {34, 92, 13, 10}))]"

definition digit_group :: rx where
  "digit_group = Cat (Chars is_digit) (upto_rx 2 (Chars is_digit))"

definition ipv4 :: rx where
  "ipv4 = (let part = Cat digit_group (Chars (\<lambda>c. c = 46)) in
     cats [Look at_edge, part, part, part, digit_group, optional (Cat (Chars (\<lambda>c. c = 58)) (plus_rx (Chars is_digit))), Look at_edge])"

definition hex_char :: "nat \<Rightarrow> bool" where
  "hex_char c \<longleftrightarrow> is_digit c \<or> 97 \<le> ascii_lower c \<and> ascii_lower c \<le> 102"

definition ipv6 :: rx where
  "ipv6 = (let part = cats [Chars hex_char, upto_rx 3 (Chars hex_char), Chars (\<lambda>c. c = 58)] in
     cats [Look at_edge, part, part, Star part, plus_rx (Chars (\<lambda>c. hex_char c \<or> c \<in> {58, 37, 46, 45})), Look at_edge])"

definition named_address :: rx where
  "named_address = cats [Look at_edge, alts [lit (js ''local''), lit (js ''remote'')], lit (js ''_addr''), spaces, Chars (\<lambda>c. c = 61 \<or> c = 58), spaces, nonspaces]"

definition redacted_address :: js_string where "redacted_address = js ''[REDACTED_ADDRESS]''"
definition redacted_candidate :: js_string where "redacted_candidate = js ''[REDACTED_CANDIDATE]''"

definition redacted_field :: js_string where "redacted_field = js ''\"redacted\":\"[REDACTED_SIGNALING_MATERIAL]\"''"

definition redactArtifact :: "js_string \<Rightarrow> js_string" where
  "redactArtifact input =
     (let s1 = replace_all assigned_secret (js ''redacted=[REDACTED_SIGNALING_MATERIAL]'') input;
          s2 = replace_all secret_field redacted_field s1;
          s3 = replace_all candidate_line redacted_candidate s2;
          s4 = replace_all ipv4 redacted_address s3;
          s5 = replace_all ipv6 redacted_address s4
      in replace_all named_address redacted_address s5)"

section \<open>Words that do not survive\<close>

text \<open>Words are compared without case.\<close>

definition word_at :: "js_string \<Rightarrow> js_string \<Rightarrow> bool" where
  "word_at w s \<longleftrightarrow> map ascii_lower (take (length w) s) = w"

fun word_free :: "js_string \<Rightarrow> js_string \<Rightarrow> bool" where
  "word_free w [] \<longleftrightarrow> w \<noteq> []"
| "word_free w (c # s) \<longleftrightarrow> \<not> word_at w (c # s) \<and> word_free w s"

lemma word_at_Cons: "word_at (d # w) (c # s) \<longleftrightarrow> ascii_lower c = d \<and> word_at w s"
  by (simp add: word_at_def)

lemma word_at_Nil [simp]: "word_at [] s" "word_at (d # w) [] = False"
  by (simp_all add: word_at_def)

text \<open>A replacement text in brackets cannot be part of a word without them.\<close>

lemma ascii_lower_bracket: "ascii_lower 91 = 91" "ascii_lower 93 = 93"
  by (simp_all add: ascii_lower_def)

lemma rx_match_suffix: "q \<in> set (rx_match r p) \<Longrightarrow> suffix (snd q) (snd p)"
proof (induction r p arbitrary: q rule: rx_match.induct)
  case (3 r1 r2 p)
  then obtain q' where "q' \<in> set (rx_match r1 p)" "q \<in> set (rx_match r2 q')" by auto
  then show ?case using "3.IH" suffix_order.trans by blast
next
  case (5 r p)
  have "q = p \<or> (\<exists>q' \<in> set (rx_match r p). length (snd q') < length (snd p) \<and> q \<in> set (rx_match (Star r) q'))"
    using "5.prems" unfolding rx_match.simps(5) [of r p] by (auto split: if_splits)
  then show ?case using "5.IH" suffix_order.trans by blast
qed (auto simp: suffix_ConsI split: list.splits if_splits)

lemma rx_match_shrinks: "q \<in> set (rx_match r p) \<Longrightarrow> length (snd q) \<le> length (snd p)"
  using rx_match_suffix suffix_length_le by blast

text \<open>Expressions that match no empty text.\<close>

fun consumes :: "rx \<Rightarrow> bool" where
  "consumes (Chars f) = True"
| "consumes (Cat r1 r2) = (consumes r1 \<or> consumes r2)"
| "consumes (Alt r1 r2) = (consumes r1 \<and> consumes r2)"
| "consumes _ = False"

lemma consumes_shrinks: "consumes r \<Longrightarrow> q \<in> set (rx_match r p) \<Longrightarrow> length (snd q) < length (snd p)"
proof (induction r arbitrary: p q)
  case (Cat r1 r2)
  then obtain q' where q': "q' \<in> set (rx_match r1 p)" "q \<in> set (rx_match r2 q')" by auto
  then show ?case using Cat rx_match_shrinks [OF q'(1)] rx_match_shrinks [OF q'(2)] by fastforce
qed (auto split: list.splits if_splits)

lemma replace_from_cases:
  assumes "consumes r"
  obtains (stop) "s = []" "replace_from r rep before s = []"
  | (keep) c u where "s = c # u" "rx_match r (before, s) = []" "replace_from r rep before s = c # replace_from r rep (Some c) u"
  | (hit) b t where "rx_match r (before, s) \<noteq> []" "suffix t s" "length t < length s" "replace_from r rep before s = rep @ replace_from r rep b t"
proof (cases "rx_match r (before, s)")
  case Nil
  then show thesis using stop keep by (cases s) (simp_all add: replace_from.simps [of r rep before])
next
  case (Cons q qs)
  then have "length (snd q) < length s" using consumes_shrinks [OF assms, of q "(before, s)"] by simp
  then show thesis using hit [of "snd q" "fst q"] Cons rx_match_suffix [of q r "(before, s)"] by (cases q) (simp add: replace_from.simps [of r rep before])
qed

text \<open>A replacement text in brackets is no part of a word without brackets.\<close>

lemma word_at_before_bracket:
  assumes "consumes r" and "91 \<notin> set w" and "word_at w (replace_from r (91 # body) before s)"
  shows "word_at w s"
  using assms(2,3)
proof (induction w arbitrary: s before)
  case (Cons d w)
  show ?case
  proof (cases rule: replace_from_cases [OF assms(1), of s "91 # body" before, case_names stop keep hit])
    case stop
    then show ?thesis using Cons.prems(2) by simp
  next
    case (keep c u)
    then have "ascii_lower c = d" "word_at w (replace_from r (91 # body) (Some c) u)" using Cons.prems(2) by (simp_all add: word_at_Cons)
    then show ?thesis using Cons.IH [of "Some c" u] Cons.prems(1) keep(1) by (simp add: word_at_Cons)
  next
    case (hit b t)
    then show ?thesis using Cons.prems by (simp add: word_at_Cons ascii_lower_bracket)
  qed
qed simp

lemma word_free_prefix:
  assumes "word_free w rep" and "w \<noteq> []" and "93 \<notin> set w" and "rep = body @ [93]" and "word_free w s"
  shows "word_free w (rep @ s)"
  using assms(1,4)
proof (induction rep arbitrary: body)
  case (Cons c rep)
  have "\<not> word_at w (c # rep @ s)"
  proof
    assume at: "word_at w (c # rep @ s)"
    show False
    proof (cases "length w \<le> length (c # rep)")
      case True
      then have "take (length w) (c # rep @ s) = take (length w) (c # rep)" by (cases w) simp_all
      then show False using at Cons.prems(1) by (simp add: word_at_def)
    next
      case False
      then have "93 \<in> set (take (length w) ((c # rep) @ s))" using Cons.prems(2) by (simp add: take_append del: append_Cons)
      then have "ascii_lower 93 \<in> set (map ascii_lower (take (length w) (c # rep @ s)))" by (metis append_Cons image_eqI set_map)
      then show False using at assms(3) unfolding word_at_def ascii_lower_bracket by argo
    qed
  qed
  moreover have "word_free w (rep @ s)"
  proof (cases rep)
    case (Cons d rep')
    then obtain body' where "rep = body' @ [93]" using Cons.prems(2) by (cases body) auto
    then show ?thesis using Cons.IH Cons.prems(1) by simp
  qed (use assms(5) in simp)
  ultimately show ?case by simp
qed (use assms(5) in simp)

lemma word_free_iff: "word_free w s \<longleftrightarrow> w \<noteq> [] \<and> (\<forall>t. suffix t s \<longrightarrow> \<not> word_at w t)"
proof (induction s)
  case Nil
  then show ?case by (cases w) simp_all
qed (auto simp: suffix_Cons)

text \<open>
  If an expression matches wherever a word begins, no word is left; where there was none before, none appears.
\<close>

lemma replace_word_free:
  assumes "consumes r" and w: "w \<noteq> []" "91 \<notin> set w" "93 \<notin> set w" and rep: "word_free w rep" "rep = 91 # body" "rep = body' @ [93]"
    and "\<And>before t. suffix t s \<Longrightarrow> word_at w t \<Longrightarrow> rx_match r (before, t) \<noteq> []"
  shows "word_free w (replace_from r rep before s)"
  using assms(8)
proof (induction "length s" arbitrary: s before rule: less_induct)
  case less
  show ?case
  proof (cases rule: replace_from_cases [OF assms(1), of s rep before, case_names stop keep hit])
    case stop
    then show ?thesis using w by simp
  next
    case (keep c u)
    have "\<not> word_at w (c # replace_from r rep (Some c) u)"
    proof
      assume "word_at w (c # replace_from r rep (Some c) u)"
      then have "word_at w s" using word_at_before_bracket [OF assms(1) w(2), of body before s] rep(2) keep(3) by simp
      then show False using less.prems [of s before] keep(2) by simp
    qed
    moreover have "word_free w (replace_from r rep (Some c) u)" using less keep(1) by (auto simp: suffix_Cons)
    ultimately show ?thesis by (simp add: keep(3))
  next
    case (hit b t)
    have "word_free w (replace_from r rep b t)" using less hit(2,3) suffix_order.trans by blast
    then show ?thesis using word_free_prefix [OF rep(1) w(1,3) rep(3)] hit(4) by simp
  qed
qed

definition CANDIDATE :: js_string where "CANDIDATE = js ''candidate:''"

lemma lit_match: "word_at (map ascii_lower w) s \<Longrightarrow> \<exists>b. rx_match (lit w) (before, s) = [(b, drop (length w) s)]"
proof (induction w arbitrary: before s)
  case (Cons c w)
  then obtain d s' where s: "s = d # s'" "ascii_lower d = ascii_lower c" "word_at (map ascii_lower w) s'" by (cases s) (auto simp: word_at_Cons)
  then obtain b where "rx_match (lit w) (Some d, s') = [(b, drop (length w) s')]" using Cons.IH by blast
  then show ?case using s by (simp add: lit_def cats_def)
qed (simp add: lit_def cats_def)

lemma star_matches [simp]: "rx_match (Star r) p \<noteq> []"
  by (subst rx_match.simps(5)) simp

text \<open>The match a backtracking engine finds first.\<close>

definition first_match :: "rx \<Rightarrow> rx_pos \<Rightarrow> rx_pos option" where
  "first_match r p = (case rx_match r p of [] \<Rightarrow> None | q # _ \<Rightarrow> Some q)"

lemma first_match_iff: "first_match r p = Some q \<longleftrightarrow> (\<exists>qs. rx_match r p = q # qs)"
  by (auto simp: first_match_def split: list.splits)

lemma first_Eps [simp]: "first_match Eps p = Some p"
  by (simp add: first_match_def)

lemma first_Chars: "f c \<Longrightarrow> first_match (Chars f) (b, c # s) = Some (Some c, s)"
  by (simp add: first_match_def)

lemma first_Cat: "first_match r1 p = Some q \<Longrightarrow> first_match r2 q = Some q' \<Longrightarrow> first_match (Cat r1 r2) p = Some q'"
  by (auto simp: first_match_iff)

lemma first_Alt: "first_match (Alt r1 r2) p = (case first_match r1 p of Some q \<Rightarrow> Some q | None \<Rightarrow> first_match r2 p)"
  by (auto simp: first_match_def split: list.splits option.splits)

lemma first_None: "first_match r p = None \<longleftrightarrow> rx_match r p = []"
  by (simp add: first_match_def split: list.split)

lemma candidate_found: "word_at CANDIDATE t \<Longrightarrow> rx_match candidate_line (before, t) \<noteq> []"
proof -
  assume "word_at CANDIDATE t"
  moreover have "map ascii_lower (js ''candidate:'') = CANDIDATE" by (simp add: CANDIDATE_def ascii_lower_def)
  ultimately obtain b where "rx_match (lit (js ''candidate:'')) (before, t) = [(b, drop (length (js ''candidate:'')) t)]"
    using lit_match [of "js ''candidate:''" t before] by metis
  then have l: "first_match (lit (js ''candidate:'')) (before, t) = Some (b, drop (length (js ''candidate:'')) t)" by (simp only: first_match_iff) blast
  obtain q where "first_match (Star (Chars (\<lambda>c. c \<notin> {34, 92, 13, 10}))) (b, drop (length (js ''candidate:'')) t) = Some q"
    using star_matches first_None by fastforce
  then have "first_match candidate_line (before, t) = Some q"
    unfolding candidate_line_def cats_def foldr.simps comp_def id_def by (intro first_Cat [OF l first_Cat [OF _ first_Eps]])
  then show ?thesis by (auto simp only: first_match_iff)
qed

lemma redact_consumes: "consumes candidate_line" "consumes ipv4" "consumes ipv6" "consumes named_address"
  by (simp_all add: candidate_line_def lit_def cats_def ipv4_def ipv6_def named_address_def Let_def)

lemma brackets:
  "word_free CANDIDATE redacted_candidate" "word_free CANDIDATE redacted_address" "redacted_candidate = 91 # js ''REDACTED_CANDIDATE]''"
  "redacted_address = 91 # js ''REDACTED_ADDRESS]''" "redacted_candidate = js ''[REDACTED_CANDIDATE'' @ [93]" "redacted_address = js ''[REDACTED_ADDRESS'' @ [93]"
  "CANDIDATE \<noteq> []" "91 \<notin> set CANDIDATE" "93 \<notin> set CANDIDATE"
  by (simp_all add: CANDIDATE_def redacted_candidate_def redacted_address_def word_at_def ascii_lower_def)

text \<open>No candidate line is left.\<close>

lemma redacted_candidate_free: "word_free CANDIDATE (redactArtifact s)"
proof -
  have keeps: "word_free CANDIDATE (replace_all r redacted_address u)" if "consumes r" "word_free CANDIDATE u" for r u
    unfolding replace_all_def
    by (rule replace_word_free [OF that(1) brackets(7-9,2,4,6)]) (use that(2) word_free_iff in blast)
  have "word_free CANDIDATE (replace_all candidate_line redacted_candidate u)" for u
    unfolding replace_all_def
    by (rule replace_word_free [OF redact_consumes(1) brackets(7-9,1,3,5)]) (rule candidate_found)
  then show ?thesis unfolding redactArtifact_def Let_def by (intro keeps redact_consumes)
qed


section \<open>Fields that are replaced\<close>

lemma star_one: "rx_match r p = [q] \<Longrightarrow> length (snd q) < length (snd p) \<Longrightarrow> rx_match (Star r) p = rx_match (Star r) q @ [p]"
  by (subst rx_match.simps(5)) simp

lemma star_none: "rx_match r p = [] \<Longrightarrow> rx_match (Star r) p = [p]"
  by (subst rx_match.simps(5)) simp

lemma first_star_one: "rx_match r p = [q] \<Longrightarrow> length (snd q) < length (snd p) \<Longrightarrow> first_match (Star r) p = first_match (Star r) q"
  using star_matches [of r q] by (cases "rx_match (Star r) q") (simp_all add: first_match_def star_one)

text \<open>The body of a printed string is consumed up to its closing quote.\<close>

lemma body_plain: "c \<noteq> 34 \<Longrightarrow> c \<noteq> 92 \<Longrightarrow> first_match string_body (b, c # s) = first_match string_body (Some c, s)"
  unfolding string_body_def by (rule first_star_one) simp_all

lemma body_escape: "\<not> line_end x \<Longrightarrow> first_match string_body (b, 92 # x # s) = first_match string_body (Some x, s)"
  unfolding string_body_def by (rule first_star_one) simp_all

lemma body_stop: "first_match string_body (b, 34 # s) = Some (b, 34 # s)"
  unfolding string_body_def by (simp add: first_match_def star_none)

lemma hex_digit_plain: "d < 16 \<Longrightarrow> hex_digit d \<noteq> 34 \<and> hex_digit d \<noteq> 92"
  by (simp add: hex_digit_def)

lemma body_quoted: "\<exists>b'. first_match string_body (b, concat (map quote_char v) @ 34 # s) = Some (b', 34 # s)"
proof (induction v arbitrary: b)
  case (Cons c v)
  have "\<exists>b'. first_match string_body (b, quote_char c @ t) = first_match string_body (b', t)" for t
    by (auto simp: quote_char_def escape_u_def body_escape line_end_def body_plain hex_digit_plain)
  then obtain b' where "first_match string_body (b, concat (map quote_char (c # v)) @ 34 # s) = first_match string_body (b', concat (map quote_char v) @ 34 # s)"
    by fastforce
  then show ?case using Cons by simp
qed (simp add: body_stop)

lemma first_json_string: "first_match json_string (b, quote_string v @ s) = Some (Some 34, s)"
proof -
  obtain b' where "first_match string_body (Some 34, concat (map quote_char v) @ 34 # s) = Some (b', 34 # s)" using body_quoted by blast
  then show ?thesis
    unfolding json_string_def cats_def quote_string_def by (auto intro!: first_Cat first_Chars)
qed

lemma first_spaces: "c \<noteq> 32 \<Longrightarrow> \<not> js_space c \<Longrightarrow> \<exists>b'. first_match spaces (b, replicate k 32 @ c # s) = Some (b', c # s)"
proof (induction k arbitrary: b)
  case 0
  then show ?case by (simp add: spaces_def first_match_def star_none)
next
  case (Suc k)
  have "first_match spaces (b, replicate (Suc k) 32 @ c # s) = first_match spaces (Some 32, replicate k 32 @ c # s)"
    unfolding spaces_def by (rule first_star_one) (simp_all add: js_space_def)
  then show ?case using Suc by simp
qed

definition secret_keys :: "string list" where
  "secret_keys = [''listener_secret'', ''secret'', ''sdp'']"

lemma first_key:
  assumes "key \<in> set secret_keys"
  shows "\<exists>b'. first_match (alts [secret_name, lit (js ''secret''), lit (js ''sdp'')]) (b, js key @ 34 # s) = Some (b', 34 # s)"
  using assms
  by (auto simp: secret_keys_def alts_def secret_name_def lit_def cats_def optional_def first_match_def ascii_lower_def)

lemma secret_field_first:
  assumes "key \<in> set secret_keys"
  shows "first_match secret_field (b, 34 # js key @ [34, 58] @ replicate k 32 @ quote_string v @ s) = Some (Some 34, s)"
proof -
  obtain b1 where b1: "first_match (alts [secret_name, lit (js ''secret''), lit (js ''sdp'')]) (Some 34, js key @ 34 # 58 # replicate k 32 @ quote_string v @ s)
      = Some (b1, 34 # 58 # replicate k 32 @ quote_string v @ s)"
    using first_key [OF assms] by blast
  obtain b2 where b2: "first_match spaces (Some 34, 58 # replicate k 32 @ quote_string v @ s) = Some (b2, 58 # replicate k 32 @ quote_string v @ s)"
    using first_spaces [of 58 "Some 34" 0 "replicate k 32 @ quote_string v @ s"] by (auto simp: js_space_def)
  obtain b3 where b3: "first_match spaces (Some 58, replicate k 32 @ quote_string v @ s) = Some (b3, quote_string v @ s)"
    using first_spaces [of 34 "Some 58" k "concat (map quote_char v) @ 34 # s"] by (auto simp: js_space_def quote_string_def)
  show ?thesis
    unfolding secret_field_def cats_def foldr.simps comp_def append_Cons append_Nil id_def
    by (intro first_Cat [OF first_Chars first_Cat [OF b1 first_Cat [OF first_Chars first_Cat [OF b2 first_Cat [OF first_Chars first_Cat [OF b3
        first_Cat [OF first_json_string first_Eps]]]]]]]) simp_all
qed


section \<open>Texts that are left alone\<close>

lemma replace_skip: "rx_match r (before, c # u) = [] \<Longrightarrow> replace_from r rep before (c # u) = c # replace_from r rep (Some c) u"
  by (subst replace_from.simps) simp

lemma replace_nil: "consumes r \<Longrightarrow> replace_from r rep before [] = []"
  by (cases rule: replace_from_cases [of r "[]" rep before]) simp_all

text \<open>Expressions every match of which contains a character.\<close>

fun requires :: "nat \<Rightarrow> rx \<Rightarrow> bool" where
  "requires c (Chars f) = (\<forall>d. f d \<longrightarrow> d = c)"
| "requires c (Cat r1 r2) = (requires c r1 \<or> requires c r2)"
| "requires c (Alt r1 r2) = (requires c r1 \<and> requires c r2)"
| "requires c _ = False"

lemma requires_none: "requires c r \<Longrightarrow> c \<notin> set (snd p) \<Longrightarrow> rx_match r p = []"
proof (induction r arbitrary: p)
  case (Cat r1 r2)
  have "c \<notin> set (snd q)" if "q \<in> set (rx_match r1 p)" for q
    using rx_match_suffix [OF that] Cat.prems(2) by (auto dest: set_mono_suffix)
  then have "rx_match r2 q = []" if "requires c r2" "q \<in> set (rx_match r1 p)" for q using that Cat.IH(2) by blast
  moreover have "rx_match r1 p = []" if "requires c r1" using that Cat.IH(1) Cat.prems(2) by blast
  ultimately show ?case using Cat.prems(1) by auto
qed (auto split: list.splits)

lemma replace_requires: "consumes r \<Longrightarrow> requires c r \<Longrightarrow> c \<notin> set s \<Longrightarrow> replace_from r rep before s = s"
  by (induction s arbitrary: before) (simp_all add: replace_nil replace_skip requires_none)

lemma lit_no_match: "\<not> word_at (map ascii_lower w) s \<Longrightarrow> rx_match (lit w) (before, s) = []"
proof (induction w arbitrary: before s)
  case (Cons c w)
  then show ?case by (cases s) (auto simp: lit_def cats_def word_at_Cons)
qed (simp add: lit_def cats_def)

lemma candidate_absent:
  assumes "word_free CANDIDATE s"
  shows "replace_from candidate_line rep before s = s"
  using assms
proof (induction s arbitrary: before)
  case (Cons c s)
  have "map ascii_lower (js ''candidate:'') = CANDIDATE" by (simp add: CANDIDATE_def ascii_lower_def)
  then have "rx_match (lit (js ''candidate:'')) (before, c # s) = []" using Cons.prems lit_no_match [of "js ''candidate:''" "c # s"] by simp
  then have "rx_match candidate_line (before, c # s) = []" by (simp add: candidate_line_def cats_def del: js_simps)
  then show ?case using Cons by (simp add: replace_skip)
qed (simp add: replace_nil redact_consumes)

lemma redacted_field_stable:
  "replace_all candidate_line redacted_candidate redacted_field = redacted_field" "replace_all ipv4 redacted_address redacted_field = redacted_field"
  "replace_all ipv6 redacted_address redacted_field = redacted_field" "replace_all named_address redacted_address redacted_field = redacted_field"
proof -
  have "word_free CANDIDATE redacted_field" by (simp add: CANDIDATE_def redacted_field_def word_at_def ascii_lower_def)
  then show "replace_all candidate_line redacted_candidate redacted_field = redacted_field" by (simp add: replace_all_def candidate_absent)
  have "requires 46 ipv4" by (simp add: ipv4_def cats_def Let_def)
  moreover have "46 \<notin> set redacted_field" by (simp add: redacted_field_def)
  ultimately show "replace_all ipv4 redacted_address redacted_field = redacted_field"
    unfolding replace_all_def by (intro replace_requires [OF redact_consumes(2)])
  show "replace_all ipv6 redacted_address redacted_field = redacted_field"
    unfolding replace_all_def redacted_field_def
    by (simp add: replace_skip replace_nil redact_consumes ipv6_def cats_def Let_def at_edge_def word_char_def is_digit_def hex_char_def ascii_lower_def numeral_3_eq_3)
  show "replace_all named_address redacted_address redacted_field = redacted_field"
    unfolding replace_all_def redacted_field_def
    by (simp add: replace_skip replace_nil redact_consumes named_address_def cats_def alts_def lit_def at_edge_def word_char_def is_digit_def ascii_lower_def)
qed


lemma quote_no_equals: "61 \<notin> set v \<Longrightarrow> 61 \<notin> set (quote_string v)"
proof -
  have h: "hex_digit (n mod 16) \<noteq> 61" for n
  proof -
    have "n mod 16 < 16" by simp
    then show ?thesis by (auto simp: hex_digit_def)
  qed
  have "61 \<notin> set (quote_char c)" if "c \<noteq> 61" for c
    using that h [of "c div 4096"] h [of "c div 256"] h [of "c div 16"] h [of c] by (simp add: quote_char_def escape_u_def)
  then show "61 \<notin> set v \<Longrightarrow> 61 \<notin> set (quote_string v)" by (simp add: quote_string_def) metis
qed

lemma no_equals_left: "61 \<notin> set s \<Longrightarrow> replace_all assigned_secret rep s = s"
proof -
  have "consumes assigned_secret" "requires 61 assigned_secret" by (simp_all add: assigned_secret_def cats_def)
  then show "61 \<notin> set s \<Longrightarrow> replace_all assigned_secret rep s = s" unfolding replace_all_def by (rule replace_requires)
qed

lemma secret_field_replaced:
  assumes "key \<in> set secret_keys"
  shows "replace_from secret_field rep b (34 # js key @ [34, 58] @ replicate k 32 @ quote_string v @ s) = rep @ replace_from secret_field rep (Some 34) s"
proof -
  obtain qs where "rx_match secret_field (b, 34 # js key @ [34, 58] @ replicate k 32 @ quote_string v @ s) = (Some 34, s) # qs"
    using secret_field_first [OF assms, of b k v s] unfolding first_match_iff by blast
  then show ?thesis by (subst replace_from.simps) simp
qed



text \<open>
  A field inside a string of the artifact, whose quotes JSON has escaped, keeps its value: the output of a process is such
  a string in the file of a failed cell.
\<close>

definition escaped_field :: js_string where
  "escaped_field = [92, 34] @ js ''secret'' @ [92, 34, 58, 92, 34] @ js ''key'' @ [92, 34]"

lemma escaped_field_kept: "quote_string (quote_string (js ''secret'') @ [58] @ quote_string (js ''key'')) = [34] @ escaped_field @ [34] \<and> redactArtifact escaped_field = escaped_field"
proof
  show "quote_string (quote_string (js ''secret'') @ [58] @ quote_string (js ''key'')) = [34] @ escaped_field @ [34]"
    by (simp add: quote_string_def quote_char_def escaped_field_def)
  have "replace_all secret_field rep escaped_field = escaped_field" for rep
    unfolding replace_all_def escaped_field_def
    by (simp add: replace_skip replace_nil secret_field_def cats_def alts_def secret_name_def lit_def ascii_lower_def)
  moreover have "word_free CANDIDATE escaped_field" by (simp add: CANDIDATE_def escaped_field_def word_at_def ascii_lower_def)
  then have "replace_all candidate_line rep escaped_field = escaped_field" for rep by (simp add: replace_all_def candidate_absent)
  moreover have "replace_all ipv4 rep escaped_field = escaped_field" for rep
    unfolding replace_all_def by (rule replace_requires [OF redact_consumes(2), of 46]) (simp_all add: ipv4_def cats_def Let_def escaped_field_def)
  moreover have "replace_all ipv6 rep escaped_field = escaped_field" for rep
    unfolding replace_all_def escaped_field_def
    by (simp add: replace_skip replace_nil redact_consumes ipv6_def cats_def Let_def at_edge_def word_char_def is_digit_def hex_char_def ascii_lower_def numeral_3_eq_3)
  moreover have "replace_all named_address rep escaped_field = escaped_field" for rep
    unfolding replace_all_def escaped_field_def
    by (simp add: replace_skip replace_nil redact_consumes named_address_def cats_def alts_def lit_def at_edge_def word_char_def is_digit_def ascii_lower_def)
  moreover have "61 \<notin> set escaped_field" by (simp add: escaped_field_def)
  then have "replace_all assigned_secret rep escaped_field = escaped_field" for rep by (rule no_equals_left)
  ultimately show "redactArtifact escaped_field = escaped_field" unfolding redactArtifact_def Let_def by simp
qed

end
