(* ===== verification/BrowserRunner.thy ===== *)
theory BrowserRunner
  imports BrowserTest Redact
begin

text \<open>
  \<open>interop/transports/browser/run-browser-peer.mjs\<close>: the command that runs the browser peer in a headless browser.  It reads
  its arguments, prints the result or the error as one line of JSON, and ends with a code that tells the kinds of errors apart.
  The browser is an argument: the error it gave before the peer ran, and what the run of the peer settled with.
\<close>

section \<open>Arguments\<close>

record runner_config =
  rc_code :: "js_string option"
  rc_signalUrl :: "js_string option"
  rc_stunUrls :: "js_string list"
  rc_reverse :: bool
  rc_includeAddresses :: bool
  rc_parallel :: "js_string option"
  rc_duration :: "js_string option"
  rc_length :: "js_string option"

definition runner_defaults :: runner_config where
  "runner_defaults = \<lparr>rc_code = None, rc_signalUrl = None, rc_stunUrls = [], rc_reverse = False, rc_includeAddresses = False, rc_parallel = None,
     rc_duration = None, rc_length = None\<rparr>"

text \<open>An option with a value: the next argument, which must not be missing or empty.\<close>

definition set_option :: "js_string \<Rightarrow> js_string \<Rightarrow> runner_config \<Rightarrow> runner_config option" where
  "set_option arg v c =
     (if arg = js ''--code'' then Some (c\<lparr>rc_code := Some v\<rparr>)
      else if arg = js ''--signal-url'' then Some (c\<lparr>rc_signalUrl := Some v\<rparr>)
      else if arg = js ''--stun'' then Some (c\<lparr>rc_stunUrls := rc_stunUrls c @ [v]\<rparr>)
      else if arg = js ''--parallel'' then Some (c\<lparr>rc_parallel := Some v\<rparr>)
      else if arg = js ''--duration'' then Some (c\<lparr>rc_duration := Some v\<rparr>)
      else if arg = js ''--length'' then Some (c\<lparr>rc_length := Some v\<rparr>)
      else None)"

definition set_flag :: "js_string \<Rightarrow> runner_config \<Rightarrow> runner_config option" where
  "set_flag arg c =
     (if arg = js ''--reverse'' then Some (c\<lparr>rc_reverse := True\<rparr>)
      else if arg = js ''--include-addresses'' then Some (c\<lparr>rc_includeAddresses := True\<rparr>)
      else None)"

fun parse_loop :: "js_string list \<Rightarrow> runner_config \<Rightarrow> js_string + runner_config" where
  "parse_loop [] c = Inr c"
| "parse_loop (arg # rest) c =
     (case set_option arg [] c of
        Some _ \<Rightarrow>
          (case rest of
             [] \<Rightarrow> Inl (arg @ js '' requires a value'')
           | v # rest' \<Rightarrow> if v = [] then Inl (arg @ js '' requires a value'') else parse_loop rest' (the (set_option arg v c)))
      | None \<Rightarrow>
          (case set_flag arg c of
             Some c' \<Rightarrow> parse_loop rest c'
           | None \<Rightarrow> Inl (js ''unknown argument '' @ arg)))"

definition parseArgs :: "js_string list \<Rightarrow> js_string + runner_config" where
  "parseArgs argv = andThen (parse_loop argv runner_defaults) (\<lambda>c.
     if rc_code c = None \<or> rc_signalUrl c = None then Inl (js ''--code and --signal-url are required'') else Inr c)"

text \<open>
  What the page gets: \<open>Number\<close> of the three numbers, as \<open>coerce\<close> gives it for a text; the text \<open>NaN\<close> stands for
  not a number, which it is again when the peer applies \<open>Number\<close>.
\<close>

definition number_arg :: "(json \<Rightarrow> js_val) \<Rightarrow> js_string \<Rightarrow> json" where
  "number_arg coerce t = (case coerce (JStr t) of None \<Rightarrow> JStr (js ''NaN'') | Some x \<Rightarrow> num_json x)"

definition runner_input :: "(json \<Rightarrow> js_val) \<Rightarrow> runner_config \<Rightarrow> config_input" where
  "runner_input coerce c = \<lparr>ci_code = the (rc_code c), ci_signalUrl = the (rc_signalUrl c), ci_stunUrls = Some (JArr (map JStr (rc_stunUrls c))),
     ci_includeAddresses = Some (JBool (rc_includeAddresses c)), ci_reverse = Some (JBool (rc_reverse c)),
     ci_parallel = map_option (number_arg coerce) (rc_parallel c), ci_duration = map_option (number_arg coerce) (rc_duration c),
     ci_length = map_option (number_arg coerce) (rc_length c)\<rparr>"

section \<open>Output\<close>

definition result_json :: "browser_result \<Rightarrow> json" where
  "result_json r = JObj [(js ''transport'', JStr (br_transport r)), (js ''reverse'', JBool (br_reverse r)), (js ''parallel'', JNum (of_int (br_parallel r))),
     (js ''duration_seconds'', JNum (br_durationSeconds r)), (js ''sent_bytes'', val_json (br_sentBytes r)), (js ''received_bytes'', val_json (br_receivedBytes r)),
     (js ''send_bits_per_second'', val_json (br_sendBitsPerSecond r)), (js ''receive_bits_per_second'', val_json (br_receiveBitsPerSecond r)),
     (js ''local'', br_local r), (js ''remote'', br_remote r), (js ''connection'', br_connection r)]"

definition direct_warning :: js_string where
  "direct_warning = js ''warning: WebRTC direct connection failed; netsu does not use TURN relay, so no throughput test was run''"

record runner_output =
  ro_stdout :: js_string
  ro_stderr :: js_string
  ro_code :: nat

definition runner_code :: "string option \<Rightarrow> nat" where
  "runner_code kind =
     (if kind = Some ''direct_path_unavailable'' then 4 else if kind = Some ''setup_timeout'' then 3 else if kind = Some ''config'' then 2 else 1)"

text \<open>The \<open>catch\<close>: an error of the peer carries its \<open>errorResult\<close>, any other is described in the same form.\<close>

definition runner_failed :: "(rat \<Rightarrow> js_string) \<Rightarrow> js_error \<Rightarrow> runner_output" where
  "runner_failed num e = \<lparr>ro_stdout = JSON_stringify num (errorResult e) @ [10],
     ro_stderr = (if error_kind e = Some ''direct_path_unavailable'' then direct_warning @ [10] else []), ro_code = runner_code (error_kind e)\<rparr>"

definition run_browser_peer :: "(rat \<Rightarrow> js_string) \<Rightarrow> (json \<Rightarrow> js_val) \<Rightarrow> (js_string \<Rightarrow> url option) \<Rightarrow> js_string option
    \<Rightarrow> (config_input \<Rightarrow> js_error + browser_result) \<Rightarrow> js_string list \<Rightarrow> runner_output" where
  "run_browser_peer num coerce parse page run argv = (case parseArgs argv of
     Inl m \<Rightarrow> runner_failed num (OtherError m)
   | Inr c \<Rightarrow>
       (case parse (the (rc_signalUrl c)) of
          None \<Rightarrow> runner_failed num (OtherError (js ''Invalid URL''))
        | Some u \<Rightarrow>
            (case page of
               Some m \<Rightarrow> runner_failed num (OtherError m)
             | None \<Rightarrow>
                 (case run (runner_input coerce c) of
                    Inl e \<Rightarrow> runner_failed num e
                  | Inr r \<Rightarrow> \<lparr>ro_stdout = JSON_stringify num (result_json r) @ [10], ro_stderr = [], ro_code = 0\<rparr>))))"


section \<open>Lemmas\<close>

lemma result_of_fields:
  assumes "result_of coerce p = Inr r"
  shows "br_parallel r = bc_parallel (bp_config p) \<and> br_connection r = with_streams (bc_parallel (bp_config p)) (the (bp_connection p))
    \<and> br_sendBitsPerSecond r = rate_of (br_sentBytes r) (br_durationSeconds r) \<and> br_receiveBitsPerSecond r = rate_of (br_receivedBytes r) (br_durationSeconds r)"
  using assms by (auto simp: result_of_def Let_def split: option.splits if_splits)

lemma map_of_without: "map_of (filter (\<lambda>(k, v). k \<noteq> s) fs) x = (if x = s then None else map_of fs x)"
  by (induction fs) auto

lemma field_with_streams: "json_field k (with_streams n (JObj fs)) = (if k = ''streams'' then Some (JNum (of_int n)) else json_field k (JObj fs))"
  by (auto simp: with_streams_def map_add_def map_of_without js_inject split: option.split simp del: js_simps)

text \<open>The report is one line: trimming leaves the JSON text.\<close>

lemma trim_line: "js_trim (JSON_stringify num (JObj fs) @ [10]) = JSON_stringify num (JObj fs)"
proof -
  obtain s where s: "JSON_stringify num (JObj fs) = 123 # s @ [125]" by (cases fs) auto
  have "dropWhile js_space (123 # s @ [125, 10]) = 123 # s @ [125, 10]" by (simp add: js_space_def)
  moreover have "dropWhile js_space (rev (123 # s @ [125, 10])) = rev (123 # s @ [125])" by (simp add: js_space_def)
  ultimately show ?thesis unfolding s by (simp add: js_trim_def)
qed

lemma parse_line: "json_ok num (JObj fs) \<Longrightarrow> JSON_parse (js_trim (JSON_stringify num (JObj fs) @ [10])) = Some (JObj fs)"
  by (simp only: trim_line JSON_roundtrip)

end
