(* ===== verification/QuicMatrix.thy ===== *)
theory QuicMatrix
  imports Process
begin

text \<open>
  \<open>interop/transports/run-quic-matrix.ts\<close>: the native QUIC matrix.  A cell starts a server in a container, waits until it
  listens, runs a client and judges its report.  What the two processes leave is an argument (\<open>quic_env\<close>), as are the texts of
  numbers (\<open>num\<close>) and of other values in a template (\<open>txt\<close>), and \<open>ToNumber\<close> of values that are no numbers (\<open>coerce\<close>).
\<close>

section \<open>Cells\<close>

definition QUIC_ABSURD_BPS :: rat where "QUIC_ABSURD_BPS = 10 ^ 12"
definition BYTE_DRIFT_LIMIT :: rat where "BYTE_DRIFT_LIMIT = 2 / 100"

definition QUIC_COMPOSE :: "js_string list" where
  "QUIC_COMPOSE = [js ''compose'', js ''-f'', js ''interop/transports/docker-compose.quic.yml'']"

datatype QuicProfile = Baseline | Constrained | Lossy
datatype direction = Upload | Reverse

record QuicCell =
  qc_name :: js_string
  qc_profile :: QuicProfile
  qc_direction :: direction
  qc_parallel :: nat
  qc_durationSeconds :: nat
  qc_timeoutMs :: nat

definition profile_text :: "QuicProfile \<Rightarrow> js_string" where
  "profile_text p = (case p of Baseline \<Rightarrow> js ''baseline'' | Constrained \<Rightarrow> js ''constrained'' | Lossy \<Rightarrow> js ''lossy'')"

definition direction_text :: "direction \<Rightarrow> js_string" where
  "direction_text d = (case d of Upload \<Rightarrow> js ''upload'' | Reverse \<Rightarrow> js ''reverse'')"

definition quic_cell :: "QuicProfile \<Rightarrow> direction \<Rightarrow> nat \<Rightarrow> QuicCell" where
  "quic_cell p d n =
     (let durationSeconds = 3 in
      \<lparr>qc_name = profile_text p @ [45] @ direction_text d @ js ''-p'' @ nat_digits n, qc_profile = p, qc_direction = d, qc_parallel = n,
        qc_durationSeconds = durationSeconds, qc_timeoutMs = (durationSeconds + 25) * 1000\<rparr>)"

definition buildQuicMatrix :: "QuicCell list" where
  "buildQuicMatrix = [quic_cell Baseline Upload 1, quic_cell Baseline Reverse 1, quic_cell Baseline Upload 4, quic_cell Baseline Reverse 4,
     quic_cell Constrained Upload 1, quic_cell Lossy Upload 1]"

definition quic_cell_json :: "QuicCell \<Rightarrow> json" where
  "quic_cell_json c = JObj [(js ''name'', JStr (qc_name c)), (js ''profile'', JStr (profile_text (qc_profile c))),
     (js ''direction'', JStr (direction_text (qc_direction c))), (js ''parallel'', JNum (of_nat (qc_parallel c))),
     (js ''durationSeconds'', JNum (of_nat (qc_durationSeconds c))), (js ''timeoutMs'', JNum (of_nat (qc_timeoutMs c)))]"

section \<open>Judging a report\<close>

text \<open>\<open>Math.max\<close>; not a number if one of them is not.\<close>

definition js_max :: "js_val \<Rightarrow> js_val \<Rightarrow> js_val" where
  "js_max v w = (case (v, w) of (Some x, Some y) \<Rightarrow> Some (if num_le x y then y else x) | _ \<Rightarrow> None)"

definition finite_val :: "js_val \<Rightarrow> bool" where
  "finite_val v = (case v of Some (Fin q) \<Rightarrow> True | _ \<Rightarrow> False)"

text \<open>\<open>x >= q\<close>; false for NaN.\<close>

definition val_ge :: "js_val \<Rightarrow> rat \<Rightarrow> bool" where
  "val_ge v q = (case v of None \<Rightarrow> False | Some x \<Rightarrow> num_le (Fin q) x)"

definition undef_text :: "(json \<Rightarrow> js_string) \<Rightarrow> json option \<Rightarrow> js_string" where
  "undef_text f v = (case v of None \<Rightarrow> js ''undefined'' | Some j \<Rightarrow> f j)"

definition sum_field :: "string \<Rightarrow> string \<Rightarrow> json \<Rightarrow> json" where
  "sum_field which field result = coalesce (opt_field field (opt_field which (json_field ''end'' result))) (JNum 0)"

definition quic_bps :: "(json \<Rightarrow> js_val) \<Rightarrow> json \<Rightarrow> js_val" where
  "quic_bps coerce result = js_max (to_number coerce (sum_field ''sum_sent'' ''bits_per_second'' result))
     (to_number coerce (sum_field ''sum_received'' ''bits_per_second'' result))"

text \<open>\<open>Number.isFinite(h)\<close> and the two bounds.\<close>

definition handshake_ok :: "json option \<Rightarrow> bool" where
  "handshake_ok h = (case h of Some (JNum q) \<Rightarrow> 0 \<le> q \<and> q \<le> 10000 | _ \<Rightarrow> False)"

record texts =
  tx_num :: "rat \<Rightarrow> js_string"
  tx_value :: "json \<Rightarrow> js_string"
  tx_coerce :: "json \<Rightarrow> js_val"

definition assertResult :: "texts \<Rightarrow> QuicCell \<Rightarrow> js_string \<Rightarrow> js_string + json" where
  "assertResult tx c raw = (case JSON_parse raw of
     None \<Rightarrow> Inl (js ''stdout is not JSON: '' @ u16_take 400 raw)
   | Some result \<Rightarrow>
       if result = JNull then Inl (js ''TypeError'')
       else
         let sent = sum_field ''sum_sent'' ''bytes'' result; received = sum_field ''sum_received'' ''bytes'' result;
             bps = quic_bps (tx_coerce tx) result;
             amounts = js ''sent='' @ tx_value tx sent @ js '' received='' @ tx_value tx received;
             d = drift (to_number (tx_coerce tx) sent) (to_number (tx_coerce tx) received);
             connection = json_field ''connection'' result
         in if val_le (to_number (tx_coerce tx) sent) 0 \<or> val_le (to_number (tx_coerce tx) received) 0 then Inl (js ''zero transfer: '' @ amounts)
            else if \<not> finite_val bps \<or> val_le bps 0 \<or> val_ge bps QUIC_ABSURD_BPS
            then Inl (js ''implausible throughput: '' @ val_text (tx_num tx) bps @ js '' bits/s'')
            else if val_gt d BYTE_DRIFT_LIMIT
            then Inl (js ''byte drift '' @ toFixed (tx_num tx) 2 (val_scale 100 d) @ js ''% exceeds 2%: '' @ amounts)
            else if opt_field ''transport'' connection \<noteq> Some (JStr (js ''quic'')) \<or> opt_field ''path'' connection \<noteq> Some (JStr (js ''direct''))
            then Inl (js ''wrong connection classification: '' @ undef_text (JSON_stringify (tx_num tx)) connection)
            else if opt_field ''streams'' connection \<noteq> Some (JNum (of_nat (qc_parallel c)))
            then Inl (js ''stream count '' @ undef_text (tx_value tx) (opt_field ''streams'' connection) @ js '' != '' @ nat_digits (qc_parallel c))
            else if \<not> handshake_ok (opt_field ''handshake_ms'' connection)
            then Inl (js ''invalid or unbounded handshake: '' @ undef_text (tx_value tx) (opt_field ''handshake_ms'' connection) @ js ''ms'')
            else Inr result)"

section \<open>A cell\<close>

text \<open>
  What the processes of a cell leave: how the wait for the server settled, the server's output by the end, the result of the
  client, and the error of writing the file of a failure.
\<close>

record quic_env =
  qe_ready :: "js_string + unit"
  qe_serverStdout :: js_string
  qe_serverStderr :: js_string
  qe_client :: command_result
  qe_write :: "js_string option"

definition quic_banner :: "js_string \<Rightarrow> unit option" where
  "quic_banner out = (if js_includes (js ''netsu server listening'') out then Some () else None)"

definition waitForReadiness :: "server_event list \<Rightarrow> unit readiness" where
  "waitForReadiness es = run_steps (ready_step quic_banner ''readiness'') (await_ready quic_banner) es"

definition quic_server_args :: "nat \<Rightarrow> js_string list" where
  "quic_server_args port = QUIC_COMPOSE @ [js ''exec'', js ''-T'', js ''quic-server'', js ''/usr/local/bin/netsu'', js ''server'', js ''-p'', nat_digits port,
     js ''--quic'', js ''--quic-self-signed'']"

definition quic_client_args :: "QuicCell \<Rightarrow> nat \<Rightarrow> js_string list" where
  "quic_client_args c port = QUIC_COMPOSE @ [js ''exec'', js ''-T'', js ''quic-client'', js ''/usr/local/bin/netem-entrypoint'', profile_text (qc_profile c), js ''--'',
     js ''/usr/local/bin/netsu'', js ''client'', js ''quic-server'', js ''-p'', nat_digits port, js ''-t'', nat_digits (qc_durationSeconds c),
     js ''-P'', nat_digits (qc_parallel c), js ''--quic'', js ''--quic-insecure'', js ''--json'']
     @ (if qc_direction c = Reverse then [js ''-R''] else [])"

definition quic_stop_args :: "nat \<Rightarrow> js_string list" where
  "quic_stop_args port = QUIC_COMPOSE @ [js ''exec'', js ''-T'', js ''quic-server'', js ''pkill'', js ''-TERM'', js ''-f'', js ''netsu server -p '' @ nat_digits port]"

definition command_json :: "command_result \<Rightarrow> json" where
  "command_json r = JObj [(js ''code'', JNum (of_int (cm_code r))), (js ''stdout'', JStr (cm_stdout r)), (js ''stderr'', JStr (cm_stderr r))]"

text \<open>\<open>writeFailure\<close>; a client that has not run leaves no field.\<close>

definition quic_writeFailure :: "texts \<Rightarrow> QuicCell \<Rightarrow> js_string \<Rightarrow> command_result option \<Rightarrow> quic_env \<Rightarrow> driver_action list" where
  "quic_writeFailure tx c reason client env = (case qe_write env of
     Some e \<Rightarrow> []
   | None \<Rightarrow> [WriteFile (qc_name c @ js ''.json'') (JSON_pretty (tx_num tx) 0 (JObj (
       [(js ''cell'', quic_cell_json c), (js ''error'', JStr reason)]
       @ (case client of None \<Rightarrow> [] | Some r \<Rightarrow> [(js ''client'', command_json r)])
       @ [(js ''server'', JObj [(js ''stdout'', JStr (qe_serverStdout env)), (js ''stderr'', JStr (qe_serverStderr env))])])))])"

text \<open>The \<open>try\<close> of \<open>runCell\<close>: an error with the client's result if it ran, or the line it prints.\<close>

definition quic_try :: "texts \<Rightarrow> QuicCell \<Rightarrow> quic_env \<Rightarrow> (js_string \<times> command_result option) + js_string" where
  "quic_try tx c env = (case qe_ready env of
     Inl m \<Rightarrow> Inl (m, None)
   | Inr _ \<Rightarrow>
       let r = qe_client env in
       if cm_code r \<noteq> 0 then Inl (js ''client exit '' @ int_digits (cm_code r) @ js '': '' @ u16_take 500 (cm_stderr r), Some r)
       else case assertResult tx c (cm_stdout r) of
         Inl m \<Rightarrow> Inl (m, Some r)
       | Inr result \<Rightarrow> Inr (js ''PASS  '' @ qc_name c @ js ''  '' @ toFixed (tx_num tx) 1 (val_scale (1 / 10 ^ 6) (quic_bps (tx_coerce tx) result)) @ js '' Mbit/s''))"

definition quic_runCell :: "texts \<Rightarrow> nat \<Rightarrow> QuicCell \<Rightarrow> quic_env \<Rightarrow> driver_action list \<times> js_string option" where
  "quic_runCell tx port c env =
     (let started = [StartServer (quic_server_args port)];
          ran = (if isl (qe_ready env) then [] else [RunCommand (quic_client_args c port) (qc_timeoutMs c)]);
          stop = [RunCommand (quic_stop_args port) 5000, KillServer]
      in case quic_try tx c env of
           Inr line \<Rightarrow> (started @ ran @ [Print line] @ stop, None)
         | Inl (m, client) \<Rightarrow>
             (started @ ran @ quic_writeFailure tx c m client env @ stop,
              Some (case qe_write env of Some e \<Rightarrow> e | None \<Rightarrow> m)))"

section \<open>The run\<close>

text \<open>\<open>qr_ran\<close> records the cells begun.  The loop ends with the first error.\<close>

record quic_run =
  qr_port :: nat
  qr_actions :: "driver_action list"
  qr_ran :: "QuicCell list"
  qr_error :: "js_string option"

definition quic_step :: "texts \<Rightarrow> (nat \<Rightarrow> QuicCell \<Rightarrow> quic_env) \<Rightarrow> quic_run \<Rightarrow> QuicCell \<Rightarrow> quic_run" where
  "quic_step tx env m c =
     (if qr_error m \<noteq> None then m
      else case quic_runCell tx (qr_port m) c (env (qr_port m) c) of
        (acts, e) \<Rightarrow> m\<lparr>qr_port := qr_port m + 1, qr_actions := qr_actions m @ acts, qr_ran := qr_ran m @ [c], qr_error := e\<rparr>)"

text \<open>\<open>QUIC_CASE\<close>: \<open>None\<close> when unset or empty.\<close>

definition quic_cells :: "js_string option \<Rightarrow> QuicCell list" where
  "quic_cells requested = (case requested of None \<Rightarrow> buildQuicMatrix | Some n \<Rightarrow> filter (\<lambda>c. qc_name c = n) buildQuicMatrix)"

definition quic_main :: "texts \<Rightarrow> (nat \<Rightarrow> QuicCell \<Rightarrow> quic_env) \<Rightarrow> js_string option \<Rightarrow> quic_run" where
  "quic_main tx env requested =
     (let cells = quic_cells requested; m0 = \<lparr>qr_port = 6401, qr_actions = [], qr_ran = [], qr_error = None\<rparr>
      in if cells = []
         then m0\<lparr>qr_error := Some (js ''unknown QUIC_CASE='' @ (case requested of None \<Rightarrow> [] | Some n \<Rightarrow> n) @ js ''; choose one of: ''
                 @ join (js '', '') (map qc_name buildQuicMatrix))\<rparr>
         else run_steps (quic_step tx env) (m0\<lparr>qr_actions := [Print (js ''running '' @ nat_digits (length cells) @ js '' QUIC correctness cell(s)'')]\<rparr>) cells)"

definition quic_exit :: "quic_run \<Rightarrow> nat" where
  "quic_exit m = (if qr_error m = None then 0 else 1)"


section \<open>Accepted reports\<close>

definition quic_passes :: "texts \<Rightarrow> QuicCell \<Rightarrow> quic_env \<Rightarrow> bool" where
  "quic_passes tx c env \<longleftrightarrow> \<not> isl (quic_try tx c env)"

text \<open>A plausible report: a rate below the limit, amounts that are positive and agree, and a direct QUIC connection of the cell.\<close>

definition quic_plausible :: "(json \<Rightarrow> js_val) \<Rightarrow> nat \<Rightarrow> json \<Rightarrow> bool" where
  "quic_plausible coerce parallel j \<longleftrightarrow>
     (\<exists>q. quic_bps coerce j = Some (Fin q) \<and> 0 < q \<and> q < QUIC_ABSURD_BPS)
     \<and> (\<forall>a b. to_number coerce (sum_field ''sum_sent'' ''bytes'' j) = Some (Fin a) \<and> to_number coerce (sum_field ''sum_received'' ''bytes'' j) = Some (Fin b) \<longrightarrow>
          0 < a \<and> 0 < b \<and> \<bar>a - b\<bar> \<le> BYTE_DRIFT_LIMIT * max a b)
     \<and> (\<exists>k q. json_field ''connection'' j = Some k \<and> json_field ''transport'' k = Some (JStr (js ''quic'')) \<and> json_field ''path'' k = Some (JStr (js ''direct''))
          \<and> json_field ''streams'' k = Some (JNum (of_nat parallel)) \<and> json_field ''handshake_ms'' k = Some (JNum q) \<and> 0 \<le> q \<and> q \<le> 10000)"

lemma drift_bound: "0 < a \<Longrightarrow> 0 < b \<Longrightarrow> \<not> val_gt (drift (Some (Fin a)) (Some (Fin b))) q \<Longrightarrow> \<bar>a - b\<bar> \<le> q * max a b"
  by (simp add: drift_def val_gt_def pos_divide_le_eq max_def split: if_splits)

lemma opt_field_Some: "opt_field k x = Some v \<Longrightarrow> \<exists>j. x = Some j \<and> json_field k j = Some v"
  by (auto simp: opt_field_def split: option.splits if_splits)

lemma assertResult_plausible:
  assumes "assertResult tx c raw = Inr j"
  shows "JSON_parse raw = Some j \<and> quic_plausible (tx_coerce tx) (qc_parallel c) j"
proof -
  obtain j' where j': "JSON_parse raw = Some j'" using assms by (auto simp: assertResult_def split: option.splits)
  let ?s = "to_number (tx_coerce tx) (sum_field ''sum_sent'' ''bytes'' j')" and ?r = "to_number (tx_coerce tx) (sum_field ''sum_received'' ''bytes'' j')"
  let ?bps = "quic_bps (tx_coerce tx) j'" and ?k = "json_field ''connection'' j'"
  have c: "\<not> val_le ?s 0" "\<not> val_le ?r 0" "finite_val ?bps" "\<not> val_le ?bps 0" "\<not> val_ge ?bps QUIC_ABSURD_BPS" "\<not> val_gt (drift ?s ?r) BYTE_DRIFT_LIMIT"
    "opt_field ''transport'' ?k = Some (JStr (js ''quic''))" "opt_field ''path'' ?k = Some (JStr (js ''direct''))"
    "opt_field ''streams'' ?k = Some (JNum (of_nat (qc_parallel c)))" "handshake_ok (opt_field ''handshake_ms'' ?k)" and e: "j = j'"
    using assms by (simp_all add: assertResult_def j' Let_def split: if_splits del: js_simps)
  have "0 < a \<and> 0 < b \<and> \<bar>a - b\<bar> \<le> BYTE_DRIFT_LIMIT * max a b" if "?s = Some (Fin a)" "?r = Some (Fin b)" for a b
    using c(1,2,6) that drift_bound [of a b] by (simp add: val_le_def not_le)
  moreover obtain q where "?bps = Some (Fin q)" using c(3) by (auto simp: finite_val_def split: option.splits js_num.splits)
  moreover obtain k where k: "?k = Some k" "json_field ''transport'' k = Some (JStr (js ''quic''))" using opt_field_Some [OF c(7)] by blast
  moreover have "json_field ''path'' k = Some (JStr (js ''direct''))" "json_field ''streams'' k = Some (JNum (of_nat (qc_parallel c)))"
    using opt_field_Some [OF c(8)] opt_field_Some [OF c(9)] k(1) by auto
  moreover obtain h where "opt_field ''handshake_ms'' ?k = Some (JNum h)" "0 \<le> h" "h \<le> 10000"
    using c(10) by (auto simp: handshake_ok_def split: option.splits json.splits)
  moreover from this have "json_field ''handshake_ms'' k = Some (JNum h)" using opt_field_Some [of "''handshake_ms''" ?k "JNum h"] k(1) by auto
  ultimately show ?thesis using j' c(4,5) unfolding e quic_plausible_def by (auto simp: val_le_def val_ge_def not_le)
qed

lemma quic_passes_sound:
  assumes "quic_passes tx c env"
  shows "qe_ready env = Inr () \<and> cm_code (qe_client env) = 0 \<and> (\<exists>j. JSON_parse (cm_stdout (qe_client env)) = Some j \<and> quic_plausible (tx_coerce tx) (qc_parallel c) j)"
  using assms assertResult_plausible [of tx c "cm_stdout (qe_client env)"]
  by (auto simp: quic_passes_def quic_try_def Let_def split: sum.splits if_splits)

section \<open>Every server is stopped\<close>

definition servers_of :: "driver_action list \<Rightarrow> js_string list list" where
  "servers_of acts = concat (map (\<lambda>a. case a of StartServer x \<Rightarrow> [x] | _ \<Rightarrow> []) acts)"

definition kills_of :: "driver_action list \<Rightarrow> nat" where
  "kills_of acts = length (filter (\<lambda>a. a = KillServer) acts)"

lemma servers_append [simp]: "servers_of (xs @ ys) = servers_of xs @ servers_of ys" "kills_of (xs @ ys) = kills_of xs + kills_of ys"
  by (simp_all add: servers_of_def kills_of_def)

lemma servers_simps [simp]: "servers_of [] = []" "servers_of (a # xs) = (case a of StartServer x \<Rightarrow> x # servers_of xs | _ \<Rightarrow> servers_of xs)"
  "kills_of [] = 0" "kills_of (a # xs) = (if a = KillServer then Suc (kills_of xs) else kills_of xs)"
  by (simp_all add: servers_of_def kills_of_def split: driver_action.split)

lemma writeFailure_quiet: "servers_of (quic_writeFailure tx c m r env) = []" "kills_of (quic_writeFailure tx c m r env) = 0"
  by (simp_all add: quic_writeFailure_def split: option.split)

lemma quic_runCell_effect:
  assumes "quic_runCell tx port c env = (acts, e)"
  shows "servers_of acts = [quic_server_args port] \<and> kills_of acts = 1 \<and> RunCommand (quic_stop_args port) 5000 \<in> set acts \<and> (e = None \<longleftrightarrow> quic_passes tx c env)"
  using assms
  by (auto simp: quic_runCell_def quic_passes_def Let_def writeFailure_quiet split: sum.splits prod.splits if_splits)

definition ports_pass :: "texts \<Rightarrow> (nat \<Rightarrow> QuicCell \<Rightarrow> quic_env) \<Rightarrow> nat \<Rightarrow> QuicCell list \<Rightarrow> bool" where
  "ports_pass tx env p cs \<longleftrightarrow> list_all (\<lambda>(port, c). quic_passes tx c (env port c)) (zip [p..<p + length cs] cs)"

lemma ports_pass_Cons: "ports_pass tx env p (c # cs) \<longleftrightarrow> quic_passes tx c (env p c) \<and> ports_pass tx env (Suc p) cs"
proof -
  have "[p..<p + length (c # cs)] = p # [Suc p..<Suc p + length cs]" by (subst upt_conv_Cons) simp_all
  then show ?thesis unfolding ports_pass_def by (simp del: upt_Suc)
qed

lemma quic_loop_stopped: "qr_error m \<noteq> None \<Longrightarrow> run_steps (quic_step tx env) m cs = m"
  by (induction cs) (simp_all add: quic_step_def)

text \<open>The loop ran all cells, which passed, or stopped at the first that did not.\<close>

lemma quic_loop:
  assumes "qr_error m = None" and "m' = run_steps (quic_step tx env) m cs"
  shows "\<exists>n. qr_ran m' = qr_ran m @ take n cs \<and> n \<le> length cs
    \<and> servers_of (qr_actions m') = servers_of (qr_actions m) @ map quic_server_args [qr_port m..<qr_port m + n]
    \<and> kills_of (qr_actions m') = kills_of (qr_actions m) + n
    \<and> (\<forall>port \<in> {qr_port m..<qr_port m + n}. RunCommand (quic_stop_args port) 5000 \<in> set (qr_actions m'))
    \<and> set (qr_actions m) \<subseteq> set (qr_actions m')
    \<and> (if ports_pass tx env (qr_port m) cs then n = length cs \<and> qr_error m' = None
       else 0 < n \<and> qr_error m' \<noteq> None \<and> ports_pass tx env (qr_port m) (take (n - 1) cs) \<and> \<not> ports_pass tx env (qr_port m) (take n cs))"
  using assms
proof (induction cs arbitrary: m)
  case (Cons c cs)
  obtain acts e where r: "quic_runCell tx (qr_port m) c (env (qr_port m) c) = (acts, e)" by force
  define m1 where "m1 = m\<lparr>qr_port := Suc (qr_port m), qr_actions := qr_actions m @ acts, qr_ran := qr_ran m @ [c], qr_error := e\<rparr>"
  have "quic_step tx env m c = m1" using Cons.prems(1) r by (simp add: quic_step_def m1_def)
  then have m1: "m' = run_steps (quic_step tx env) m1 cs" using Cons.prems(2) by simp
  note eff = quic_runCell_effect [OF r]
  show ?case
  proof (cases e)
    case None
    then obtain n where n: "qr_ran m' = qr_ran m1 @ take n cs" "n \<le> length cs"
      "servers_of (qr_actions m') = servers_of (qr_actions m1) @ map quic_server_args [qr_port m1..<qr_port m1 + n]"
      "kills_of (qr_actions m') = kills_of (qr_actions m1) + n"
      "\<forall>port \<in> {qr_port m1..<qr_port m1 + n}. RunCommand (quic_stop_args port) 5000 \<in> set (qr_actions m')"
      "set (qr_actions m1) \<subseteq> set (qr_actions m')"
      "if ports_pass tx env (qr_port m1) cs then n = length cs \<and> qr_error m' = None
       else 0 < n \<and> qr_error m' \<noteq> None \<and> ports_pass tx env (qr_port m1) (take (n - 1) cs) \<and> \<not> ports_pass tx env (qr_port m1) (take n cs)"
      using Cons.IH [OF _ m1] by (auto simp: m1_def)
    have up: "[qr_port m..<qr_port m + Suc n] = qr_port m # [Suc (qr_port m)..<Suc (qr_port m) + n]" by (subst upt_conv_Cons) simp_all
    have p: "quic_passes tx c (env (qr_port m) c)" using eff None by simp
    have r: "port = qr_port m \<or> port \<in> {Suc (qr_port m)..<Suc (qr_port m) + n}" if "port \<in> {qr_port m..<qr_port m + Suc n}" for port
      using that by auto
    have "RunCommand (quic_stop_args (qr_port m)) 5000 \<in> set (qr_actions m')" using eff n(6) by (auto simp: m1_def)
    then have stop: "\<forall>port \<in> {qr_port m..<qr_port m + Suc n}. RunCommand (quic_stop_args port) 5000 \<in> set (qr_actions m')"
      using n(5) r by (fastforce simp: m1_def)
    have last: "ports_pass tx env (qr_port m) (take (Suc n - 1) (c # cs))" if "0 < n" "ports_pass tx env (qr_port m1) (take (n - 1) cs)"
      using that p by (cases n) (simp_all add: m1_def ports_pass_Cons)
    show ?thesis
      using n(1-4,6,7) eff p stop last up
      by (intro exI [of _ "Suc n"]) (auto simp: m1_def ports_pass_Cons simp del: upt_Suc split: if_splits)
  next
    case (Some x)
    then have "m' = m1" using m1 quic_loop_stopped [of m1] by (simp add: m1_def)
    moreover have "\<not> quic_passes tx c (env (qr_port m) c)" using eff Some by simp
    moreover have "ports_pass tx env (qr_port m) []" by (simp add: ports_pass_def)
    ultimately show ?thesis using eff Some by (intro exI [of _ 1]) (auto simp: m1_def ports_pass_Cons)
  qed
qed (simp add: ports_pass_def)


section \<open>The matrix\<close>

text \<open>
  The QUIC matrix.  Whatever the processes do: the run succeeds exactly if the requested cells exist and each of
  them passes on its own port, and then every client ended with 0 and printed a plausible report; otherwise the run ends
  with the first cell that does not pass; and every server it started, on ports counted up from 6401, was told to
  stop and killed.
\<close>

theorem quic_matrix_sound:
  assumes "m = quic_main tx env requested" and "cells = quic_cells requested"
  shows "(quic_exit m = 0 \<longleftrightarrow> cells \<noteq> [] \<and> ports_pass tx env 6401 cells)
    \<and> (quic_exit m = 0 \<longrightarrow> list_all (\<lambda>(port, c). \<exists>j. cm_code (qe_client (env port c)) = 0
          \<and> JSON_parse (cm_stdout (qe_client (env port c))) = Some j \<and> quic_plausible (tx_coerce tx) (qc_parallel c) j) (zip [6401..<6401 + length cells] cells))
    \<and> (\<exists>n \<le> length cells. qr_ran m = take n cells \<and> servers_of (qr_actions m) = map quic_server_args [6401..<6401 + n] \<and> kills_of (qr_actions m) = n
        \<and> list_all (\<lambda>port. RunCommand (quic_stop_args port) 5000 \<in> set (qr_actions m)) [6401..<6401 + n]
        \<and> ports_pass tx env 6401 (take (n - 1) cells))"
proof (cases "cells = []")
  case True
  then show ?thesis using assms by (auto simp: quic_main_def Let_def quic_exit_def ports_pass_def)
next
  case False
  define m0 where "m0 = \<lparr>qr_port = 6401, qr_actions = [Print (js ''running '' @ nat_digits (length cells) @ js '' QUIC correctness cell(s)'')], qr_ran = [], qr_error = None\<rparr>"
  have m0: "m = run_steps (quic_step tx env) m0 cells" using False assms by (simp add: quic_main_def Let_def m0_def)
  have f0: "qr_error m0 = None" "qr_port m0 = 6401" "servers_of (qr_actions m0) = []" "kills_of (qr_actions m0) = 0" "qr_ran m0 = []" by (simp_all add: m0_def)
  from quic_loop [OF f0(1) m0, unfolded f0] obtain n where n: "qr_ran m = take n cells" "n \<le> length cells" "servers_of (qr_actions m) = map quic_server_args [6401..<6401 + n]"
    "kills_of (qr_actions m) = n" "\<forall>port \<in> {6401..<6401 + n}. RunCommand (quic_stop_args port) 5000 \<in> set (qr_actions m)"
    "if ports_pass tx env 6401 cells then n = length cells \<and> qr_error m = None
     else 0 < n \<and> qr_error m \<noteq> None \<and> ports_pass tx env 6401 (take (n - 1) cells) \<and> \<not> ports_pass tx env 6401 (take n cells)"
    by auto
  have exit_iff: "quic_exit m = 0 \<longleftrightarrow> ports_pass tx env 6401 cells" using n(6) by (auto simp: quic_exit_def split: if_splits)
  have sub: "ports_pass tx env 6401 (take (n - 1) cells)"
  proof (cases "ports_pass tx env 6401 cells")
    case True
    have "zip [6401..<6401 + length (take (n - 1) cells)] (take (n - 1) cells) = take (n - 1) (zip [6401..<6401 + length cells] cells)"
      using n(2) by (simp add: take_zip)
    then show ?thesis using True by (auto simp: ports_pass_def list_all_iff dest: in_set_takeD)
  qed (use n(6) in simp)
  have "list_all (\<lambda>(port, c). \<exists>j. cm_code (qe_client (env port c)) = 0 \<and> JSON_parse (cm_stdout (qe_client (env port c))) = Some j
      \<and> quic_plausible (tx_coerce tx) (qc_parallel c) j) (zip [6401..<6401 + length cells] cells)" if "ports_pass tx env 6401 cells"
    using that quic_passes_sound by (fastforce simp: ports_pass_def list_all_iff)
  moreover have "list_all (\<lambda>port. RunCommand (quic_stop_args port) 5000 \<in> set (qr_actions m)) [6401..<6401 + n]" using n(5) by (simp add: list_all_iff)
  ultimately show ?thesis using n(1-4) False exit_iff sub by blast
qed

text \<open>A client that prints no JSON: the first cell fails and ends the run.\<close>

definition witness_texts_quic :: texts where
  "witness_texts_quic = \<lparr>tx_num = int_num, tx_value = (\<lambda>_. []), tx_coerce = (\<lambda>_. None)\<rparr>"

definition witness_quic_env :: "nat \<Rightarrow> QuicCell \<Rightarrow> quic_env" where
  "witness_quic_env port c = \<lparr>qe_ready = Inr (), qe_serverStdout = [], qe_serverStderr = [], qe_client = \<lparr>cm_code = 1, cm_stdout = [], cm_stderr = []\<rparr>, qe_write = None\<rparr>"

theorem quic_matrix_sound_witness:
  "quic_exit (quic_main witness_texts_quic witness_quic_env None) = 1 \<and> length (qr_ran (quic_main witness_texts_quic witness_quic_env None)) \<le> 1"
proof -
  have "\<not> quic_passes witness_texts_quic (quic_cell Baseline Upload 1) (witness_quic_env 6401 (quic_cell Baseline Upload 1))"
    by (simp add: quic_passes_def quic_try_def witness_quic_env_def)
  then have first: "\<not> ports_pass witness_texts_quic witness_quic_env 6401 (take (Suc k) (quic_cells None))" for k
    by (simp add: quic_cells_def buildQuicMatrix_def ports_pass_Cons)
  have "take 6 (quic_cells None) = quic_cells None" by (simp add: quic_cells_def buildQuicMatrix_def)
  then have "\<not> ports_pass witness_texts_quic witness_quic_env 6401 (quic_cells None)" using first [of 5] by simp
  moreover from quic_matrix_sound [OF refl refl, of witness_texts_quic witness_quic_env None] obtain n where
    n: "qr_ran (quic_main witness_texts_quic witness_quic_env None) = take n (quic_cells None)" "ports_pass witness_texts_quic witness_quic_env 6401 (take (n - 1) (quic_cells None))"
    by blast
  moreover have "n - 1 = 0" using n(2) first by (cases "n - 1") auto
  moreover have "quic_exit (quic_main witness_texts_quic witness_quic_env None) = 0 \<longleftrightarrow>
      quic_cells None \<noteq> [] \<and> ports_pass witness_texts_quic witness_quic_env 6401 (quic_cells None)"
    using quic_matrix_sound [OF refl refl, of witness_texts_quic witness_quic_env None] by blast
  ultimately show ?thesis by (auto simp: quic_exit_def split: if_splits)
qed


text \<open>Amounts that are texts pass: no comparison with not a number holds.\<close>

lemma text_amounts_accepted:
  fixes amount :: json
  defines "amount \<equiv> JObj [(js ''bytes'', JStr (js ''many'')), (js ''bits_per_second'', JNum 1)]"
  defines "report \<equiv> JObj [(js ''end'', JObj [(js ''sum_sent'', amount), (js ''sum_received'', amount)]),
     (js ''connection'', JObj [(js ''transport'', JStr (js ''quic'')), (js ''path'', JStr (js ''direct'')), (js ''streams'', JNum 1), (js ''handshake_ms'', JNum 5)])]"
  assumes "tx_coerce tx (JStr (js ''many'')) = None" and "JSON_parse raw = Some report"
  shows "assertResult tx (quic_cell Baseline Upload 1) raw = Inr report"
proof -
  have b: "sum_field w ''bytes'' report = JStr (js ''many'')" "sum_field w ''bits_per_second'' report = JNum 1" if "w \<in> {''sum_sent'', ''sum_received''}" for w
    using that by (auto simp: report_def amount_def sum_field_def opt_field_def coalesce_def js_inject simp del: js_simps)
  have "quic_bps (tx_coerce tx) report = Some (Fin 1)" by (simp add: quic_bps_def b to_number_def js_max_def)
  moreover have "json_field ''connection'' report = Some (JObj [(js ''transport'', JStr (js ''quic'')), (js ''path'', JStr (js ''direct'')), (js ''streams'', JNum 1), (js ''handshake_ms'', JNum 5)])"
    by (simp add: report_def js_inject del: js_simps)
  moreover have "report \<noteq> JNull" by (simp add: report_def)
  ultimately show ?thesis
    using assms(3,4) by (simp add: assertResult_def b to_number_def Let_def drift_def val_gt_def val_le_def finite_val_def val_ge_def QUIC_ABSURD_BPS_def
        opt_field_def js_inject handshake_ok_def quic_cell_def del: js_simps)
qed

end
