(* ===== verification/WebRtcMatrix.thy ===== *)
theory WebRtcMatrix
  imports BrowserRunner QuicMatrix
begin

text \<open>
  \<open>interop/transports/run-webrtc-matrix.ts\<close>: the matrix of direct WebRTC paths.  A cell recreates its containers, starts a
  server, reads the room code it prints, runs a Rust or a Chromium client and judges its report; blocked cells
  check that no test is run without a direct path.  What the commands leave is an argument (\<open>webrtc_env\<close>).
\<close>

section \<open>Cells\<close>

text \<open>The arguments of every \<open>docker\<close> command, with the default name of the project (\<open>COMPOSE_PROJECT_NAME\<close> is not set).\<close>

definition WEBRTC_COMPOSE :: "js_string list" where
  "WEBRTC_COMPOSE = [js ''compose'', js ''-p'', js ''netsu-webrtc-e2e-manual'', js ''-f'', js ''interop/transports/docker-compose.yml'']"

definition SIGNAL_URL :: js_string where "SIGNAL_URL = js ''http://signal:8787/v1/signal''"
definition DURATION_SECONDS :: nat where "DURATION_SECONDS = 1"
definition SUCCESS_TIMEOUT_MS :: nat where "SUCCESS_TIMEOUT_MS = 40000"
definition BLOCKED_TIMEOUT_MS :: nat where "BLOCKED_TIMEOUT_MS = 26000"
definition CONTAINER_RESET_TIMEOUT_MS :: nat where "CONTAINER_RESET_TIMEOUT_MS = 60000"
definition CELL_PROCESS_TIMEOUT_MS :: nat where "CELL_PROCESS_TIMEOUT_MS = 120000"
definition WEBRTC_ABSURD_BPS :: rat where "WEBRTC_ABSURD_BPS = 10 ^ 12"

definition DIRECT_WARNING :: js_string where
  "DIRECT_WARNING = js ''warning: WebRTC direct connection failed; netsu does not use TURN relay, so no throughput test was run''"

datatype WebRtcPeer = RustPeer | ChromiumPeer

record WebRtcCell =
  wc_name :: js_string
  wc_peer :: WebRtcPeer
  wc_direction :: direction
  wc_parallel :: nat
  wc_blocked :: bool

definition webrtc_cell :: "string \<Rightarrow> WebRtcPeer \<Rightarrow> direction \<Rightarrow> nat \<Rightarrow> bool \<Rightarrow> WebRtcCell" where
  "webrtc_cell name peer d n blocked = \<lparr>wc_name = js name, wc_peer = peer, wc_direction = d, wc_parallel = n, wc_blocked = blocked\<rparr>"

definition buildWebRtcMatrix :: "WebRtcCell list" where
  "buildWebRtcMatrix =
     [webrtc_cell ''rust-upload-p1'' RustPeer Upload 1 False, webrtc_cell ''rust-upload-p4'' RustPeer Upload 4 False,
      webrtc_cell ''rust-reverse-p1'' RustPeer Reverse 1 False, webrtc_cell ''rust-reverse-p4'' RustPeer Reverse 4 False,
      webrtc_cell ''chromium-upload-p1'' ChromiumPeer Upload 1 False, webrtc_cell ''chromium-upload-p4'' ChromiumPeer Upload 4 False,
      webrtc_cell ''chromium-reverse-p1'' ChromiumPeer Reverse 1 False, webrtc_cell ''rust-blocked-upload-p1'' RustPeer Upload 1 True,
      webrtc_cell ''chromium-blocked-upload-p1'' ChromiumPeer Upload 1 True]"

definition buildIsolatedCaseEnvironments :: "(js_string \<rightharpoonup> js_string) \<Rightarrow> (js_string \<rightharpoonup> js_string) list" where
  "buildIsolatedCaseEnvironments base = map (\<lambda>c. base(js ''WEBRTC_CASE'' \<mapsto> wc_name c)) buildWebRtcMatrix"

definition client_service :: "WebRtcCell \<Rightarrow> js_string" where
  "client_service c = (if wc_peer c = RustPeer then js ''rs-client'' else js ''browser'')"

definition peerServicesForCell :: "WebRtcCell \<Rightarrow> js_string list" where
  "peerServicesForCell c = [js ''rs-server'', client_service c]"

definition peer_text :: "WebRtcPeer \<Rightarrow> js_string" where
  "peer_text p = (case p of RustPeer \<Rightarrow> js ''rust'' | ChromiumPeer \<Rightarrow> js ''chromium'')"

definition webrtc_cell_json :: "WebRtcCell \<Rightarrow> json" where
  "webrtc_cell_json c = JObj [(js ''name'', JStr (wc_name c)), (js ''peer'', JStr (peer_text (wc_peer c))), (js ''direction'', JStr (direction_text (wc_direction c))),
     (js ''parallel'', JNum (of_nat (wc_parallel c))), (js ''blocked'', JBool (wc_blocked c))]"

section \<open>Judging a report\<close>

definition parseJson :: "js_string \<Rightarrow> js_string + json" where
  "parseJson raw = (case JSON_parse (js_trim raw) of None \<Rightarrow> Inl (js ''stdout is not one JSON object: '' @ u16_take 400 raw) | Some j \<Rightarrow> Inr j)"

text \<open>A path of fields to a number; \<open>None\<close> is NaN.\<close>

fun value_at :: "json \<Rightarrow> string list \<Rightarrow> json option" where
  "value_at j [] = Some j"
| "value_at j (k # ks) = Option.bind (json_field k j) (\<lambda>v. value_at v ks)"

definition numberAt :: "json \<Rightarrow> string list \<Rightarrow> js_val" where
  "numberAt j path = (case value_at j path of Some (JNum q) \<Rightarrow> Some (Fin q) | Some (JInf n) \<Rightarrow> Some (Inf n) | _ \<Rightarrow> None)"

definition objectAt :: "json \<Rightarrow> string \<Rightarrow> js_string + json" where
  "objectAt j key =
     (if j = JNull then Inl (js ''TypeError'')
      else case json_field key j of Some (JObj fs) \<Rightarrow> Inr (JObj fs) | _ \<Rightarrow> Inl (js ''missing object field '' @ js key))"

text \<open>\<open>String(v)\<close> and \<open>Number(v)\<close> of a field that may be missing.\<close>

definition string_of :: "texts \<Rightarrow> json option \<Rightarrow> js_string" where
  "string_of tx v = (case v of None \<Rightarrow> js ''undefined'' | Some (JStr s) \<Rightarrow> s | Some j \<Rightarrow> tx_value tx j)"

definition number_of :: "texts \<Rightarrow> json option \<Rightarrow> js_val" where
  "number_of tx v = (case v of None \<Rightarrow> None | Some j \<Rightarrow> to_number (tx_coerce tx) j)"

definition direct_candidate :: "texts \<Rightarrow> json \<Rightarrow> string \<Rightarrow> bool" where
  "direct_candidate tx connection field \<longleftrightarrow> string_of tx (json_field field connection) \<in> {js ''host'', js ''srflx'', js ''prflx''}"

definition assertDirectConnection :: "texts \<Rightarrow> json \<Rightarrow> nat \<Rightarrow> js_string option" where
  "assertDirectConnection tx k n =
     (if json_field ''transport'' k \<noteq> Some (JStr (js ''webrtc'')) \<or> json_field ''path'' k \<noteq> Some (JStr (js ''direct''))
      then Some (js ''wrong connection classification: '' @ JSON_stringify (tx_num tx) k)
      else if \<not> direct_candidate tx k ''local_candidate_type''
      then Some (js ''non-direct local_candidate_type: '' @ string_of tx (json_field ''local_candidate_type'' k))
      else if \<not> direct_candidate tx k ''remote_candidate_type''
      then Some (js ''non-direct remote_candidate_type: '' @ string_of tx (json_field ''remote_candidate_type'' k))
      else if \<not> truthy (json_field ''ice_protocol'' k) \<or> string_of tx (json_field ''ice_protocol'' k) = js ''unknown''
      then Some (js ''selected ICE protocol is missing or unknown'')
      else if json_field ''addresses_included'' k \<noteq> Some (JBool False)
      then Some (js ''container E2E unexpectedly included candidate addresses'')
      else if number_of tx (json_field ''streams'' k) \<noteq> Some (Fin (of_nat n))
      then Some (js ''stream count '' @ val_text (tx_num tx) (number_of tx (json_field ''streams'' k)) @ js '' != '' @ nat_digits n)
      else None)"

definition amount_path :: "bool \<Rightarrow> bool \<Rightarrow> string list" where
  "amount_path browser outgoing = (if browser then [if outgoing then ''sent_bytes'' else ''received_bytes'']
     else [''end'', if outgoing then ''sum_sent'' else ''sum_received'', ''bytes''])"

definition rate_path :: "bool \<Rightarrow> bool \<Rightarrow> string list" where
  "rate_path browser outgoing = (if browser then [if outgoing then ''send_bits_per_second'' else ''receive_bits_per_second'']
     else [''end'', if outgoing then ''sum_sent'' else ''sum_received'', ''bits_per_second''])"

definition drift_limit :: "bool \<Rightarrow> rat" where
  "drift_limit browser = (if browser then 5 / 100 else 2 / 100)"

definition assertSuccessfulResult :: "texts \<Rightarrow> WebRtcCell \<Rightarrow> json \<Rightarrow> js_string + js_val" where
  "assertSuccessfulResult tx c result =
     (let browser = (wc_peer c = ChromiumPeer); outgoing = numberAt result (amount_path browser True); received = numberAt result (amount_path browser False);
          bps = js_max (numberAt result (rate_path browser True)) (numberAt result (rate_path browser False)); d = drift outgoing received
      in if \<not> val_gt outgoing 0 \<or> \<not> val_gt received 0
         then Inl (js ''zero transfer: sent='' @ val_text (tx_num tx) outgoing @ js '' received='' @ val_text (tx_num tx) received)
         else if \<not> finite_val bps \<or> val_le bps 0 \<or> val_ge bps WEBRTC_ABSURD_BPS then Inl (js ''invalid throughput: '' @ val_text (tx_num tx) bps)
         else if val_gt d (drift_limit browser)
         then Inl (js ''byte drift '' @ toFixed (tx_num tx) 2 (val_scale 100 d) @ js ''% exceeds '' @ tx_num tx (drift_limit browser * 100) @ js ''%'')
         else if browser \<and> number_of tx (json_field ''parallel'' result) \<noteq> Some (Fin (of_nat (wc_parallel c)))
         then Inl (js ''browser parallel='' @ string_of tx (json_field ''parallel'' result) @ js '' != '' @ nat_digits (wc_parallel c))
         else andThen (objectAt result ''connection'') (\<lambda>k. case assertDirectConnection tx k (wc_parallel c) of Some m \<Rightarrow> Inl m | None \<Rightarrow> Inr bps))"

definition assertBlockedResult :: "texts \<Rightarrow> WebRtcCell \<Rightarrow> timed_result \<Rightarrow> js_string option" where
  "assertBlockedResult tx c r =
     (if cm_timedOut r then Some (js ''blocked path exceeded its bounded deadline'')
      else if cm_code r \<noteq> 4
      then Some (js ''blocked '' @ peer_text (wc_peer c) @ js '' exited '' @ int_digits (cm_code r) @ js '': '' @ u16_take 500 (cm_stderr r))
      else if \<not> js_includes DIRECT_WARNING (cm_stderr r) then Some (js ''blocked path did not emit the direct-only warning'')
      else if js_includes (js ''bits_per_second'') (cm_stdout r) then Some (js ''blocked path emitted throughput fields'')
      else case andThen (parseJson (cm_stdout r)) (\<lambda>j. objectAt j ''error'') of
        Inl m \<Rightarrow> Some m
      | Inr e \<Rightarrow>
          if json_field ''transport'' e \<noteq> Some (JStr (js ''webrtc'')) \<or> json_field ''kind'' e \<noteq> Some (JStr (js ''direct_path_unavailable''))
          then Some (js ''wrong blocked-path error: '' @ JSON_stringify (tx_num tx) e) else None)"

section \<open>The server\<close>

definition webrtc_server_args :: "js_string list" where
  "webrtc_server_args = WEBRTC_COMPOSE @ [js ''exec'', js ''-T'', js ''rs-server'', js ''/usr/local/bin/netsu'', js ''server'', js ''--webrtc'', js ''--signal-url'', SIGNAL_URL]"

text \<open>\<open>/^code:\s+([A-Z0-9]{4}-[A-Z0-9]{4})\s*$/m\<close>.\<close>

definition line_start :: "rx_pos \<Rightarrow> bool" where
  "line_start p = (case fst p of None \<Rightarrow> True | Some c \<Rightarrow> line_end c)"

definition line_stop :: "rx_pos \<Rightarrow> bool" where
  "line_stop p = (case snd p of [] \<Rightarrow> True | c # _ \<Rightarrow> line_end c)"

definition code_char :: "nat \<Rightarrow> bool" where
  "code_char c \<longleftrightarrow> 65 \<le> c \<and> c \<le> 90 \<or> is_digit c"

definition exact :: "js_string \<Rightarrow> rx" where
  "exact w = cats (map (\<lambda>c. Chars (\<lambda>d. d = c)) w)"

definition code_line :: rx where
  "code_line = cats ([Look line_start, exact (js ''code:''), plus_rx (Chars js_space)] @ replicate 4 (Chars code_char) @ [Chars (\<lambda>c. c = 45)]
     @ replicate 4 (Chars code_char) @ [spaces, Look line_stop])"

text \<open>The group of the first match: what follows the spaces, since a code contains none.\<close>

fun find_code :: "nat option \<Rightarrow> js_string \<Rightarrow> js_string option" where
  "find_code before s =
     (if rx_match code_line (before, s) \<noteq> [] then Some (take 9 (dropWhile js_space (drop 5 s)))
      else case s of [] \<Rightarrow> None | c # u \<Rightarrow> find_code (Some c) u)"

declare find_code.simps [simp del]

definition startServer :: "server_event list \<Rightarrow> js_string readiness" where
  "startServer es = run_steps (ready_step (find_code None) ''room readiness'') (await_ready (find_code None)) es"

section \<open>Commands\<close>

definition buildUdpBlockRule :: "js_string list" where
  "buildUdpBlockRule = [js ''-p'', js ''udp'', js ''-d'', js ''rs-server'', js ''-j'', js ''REJECT'']"

definition udp_block_args :: "js_string \<Rightarrow> bool \<Rightarrow> js_string list" where
  "udp_block_args service blocked = WEBRTC_COMPOSE @ [js ''exec'', js ''-T'', service, js ''iptables'']
     @ (if blocked then [js ''-I'', js ''OUTPUT'', js ''1''] else [js ''-D'', js ''OUTPUT'']) @ buildUdpBlockRule"

definition browser_argv :: "WebRtcCell \<Rightarrow> js_string \<Rightarrow> js_string list" where
  "browser_argv c code = [js ''--signal-url'', SIGNAL_URL, js ''--code'', code, js ''--duration'', nat_digits DURATION_SECONDS,
     js ''--parallel'', nat_digits (wc_parallel c), js ''--length'', js ''65536''] @ (if wc_direction c = Reverse then [js ''--reverse''] else [])"

definition clientArgs :: "WebRtcCell \<Rightarrow> js_string \<Rightarrow> js_string list" where
  "clientArgs c code =
     (if wc_peer c = RustPeer
      then [js ''exec'', js ''-T'', js ''rs-client'', js ''/usr/local/bin/netsu'', js ''client'', code, js ''--webrtc'', js ''--signal-url'', SIGNAL_URL,
            js ''-t'', nat_digits DURATION_SECONDS, js ''-P'', nat_digits (wc_parallel c), js ''-l'', js ''64K'', js ''--json'']
           @ (if wc_direction c = Reverse then [js ''-R''] else [])
      else [js ''exec'', js ''-T'', js ''browser'', js ''node'', js ''/app/run-browser-peer.mjs''] @ browser_argv c code)"

definition reset_args :: "WebRtcCell \<Rightarrow> js_string list" where
  "reset_args c = WEBRTC_COMPOSE @ [js ''up'', js ''-d'', js ''--no-deps'', js ''--force-recreate''] @ peerServicesForCell c"

definition stop_client_args :: "js_string \<Rightarrow> js_string list" where
  "stop_client_args service = WEBRTC_COMPOSE @
     (if service = js ''browser'' then [js ''exec'', js ''-T'', service, js ''pkill'', js ''-TERM'', js ''-f'', js ''run-browser-peer.mjs'']
      else [js ''exec'', js ''-T'', service, js ''pkill'', js ''-TERM'', js ''-x'', js ''netsu''])"

definition stop_server_args :: "js_string list" where
  "stop_server_args = WEBRTC_COMPOSE @ [js ''exec'', js ''-T'', js ''rs-server'', js ''pkill'', js ''-TERM'', js ''-x'', js ''netsu'']"

section \<open>A cell\<close>

text \<open>
  The results of the commands in the order they run, how the readiness of the server settled and what it had printed, whether its
  process still ran at the end, the events while its end was awaited, and the errors of the file system.
\<close>

record webrtc_env =
  we_reset :: timed_result
  we_server :: "js_string + js_string"
  we_serverStdout :: js_string
  we_serverStderr :: js_string
  we_block :: timed_result
  we_client :: timed_result
  we_logs :: timed_result
  we_write :: "js_string option"
  we_writeLog :: "js_string option"
  we_running :: bool
  we_closes :: "close_event list"

text \<open>What the \<open>try\<close> did, whether a server was there, and its error, with the client's result if it ran.\<close>

record webrtc_attempt =
  wa_actions :: "driver_action list"
  wa_server :: bool
  wa_client :: "timed_result option"
  wa_error :: "js_string option"

definition webrtc_judge :: "texts \<Rightarrow> WebRtcCell \<Rightarrow> timed_result \<Rightarrow> js_string + js_string" where
  "webrtc_judge tx c r =
     (if wc_blocked c
      then (case assertBlockedResult tx c r of
              Some m \<Rightarrow> Inl m
            | None \<Rightarrow> Inr (js ''PASS  '' @ wc_name c @ js ''  direct path rejected before throughput''))
      else if cm_code r \<noteq> 0 then Inl (js ''client exit '' @ int_digits (cm_code r) @ js '': '' @ u16_take 500 (cm_stderr r))
      else andThen (andThen (parseJson (cm_stdout r)) (assertSuccessfulResult tx c)) (\<lambda>bps.
        Inr (js ''PASS  '' @ wc_name c @ js ''  '' @ toFixed (tx_num tx) 1 (val_scale (1 / 10 ^ 6) bps) @ js '' Mbit/s'')))"

definition webrtc_try :: "texts \<Rightarrow> WebRtcCell \<Rightarrow> webrtc_env \<Rightarrow> webrtc_attempt" where
  "webrtc_try tx c env =
     (let reset = RunCommand (reset_args c) CONTAINER_RESET_TIMEOUT_MS; service = client_service c in
      if cm_code (we_reset env) \<noteq> 0
      then \<lparr>wa_actions = [reset], wa_server = False, wa_client = None, wa_error = Some (js ''could not reset peer containers: '' @ cm_stderr (we_reset env))\<rparr>
      else case we_server env of
        Inl m \<Rightarrow> \<lparr>wa_actions = [reset, StartServer webrtc_server_args], wa_server = False, wa_client = None, wa_error = Some m\<rparr>
      | Inr code \<Rightarrow>
          let block = (if wc_blocked c then [RunCommand (udp_block_args service True) 15000] else []);
              before = [reset, StartServer webrtc_server_args] @ block
          in if wc_blocked c \<and> cm_code (we_block env) \<noteq> 0
             then \<lparr>wa_actions = before, wa_server = True, wa_client = None, wa_error = Some (js ''could not block UDP: '' @ cm_stderr (we_block env))\<rparr>
             else
               let ran = before @ [RunCommand (WEBRTC_COMPOSE @ clientArgs c code) (if wc_blocked c then BLOCKED_TIMEOUT_MS else SUCCESS_TIMEOUT_MS)]
               in case webrtc_judge tx c (we_client env) of
                    Inl m \<Rightarrow> \<lparr>wa_actions = ran, wa_server = True, wa_client = Some (we_client env), wa_error = Some m\<rparr>
                  | Inr line \<Rightarrow> \<lparr>wa_actions = ran @ [Print line], wa_server = True, wa_client = Some (we_client env), wa_error = None\<rparr>)"

definition timed_json :: "timed_result \<Rightarrow> json" where
  "timed_json r = JObj [(js ''code'', JNum (of_int (cm_code r))), (js ''stdout'', JStr (cm_stdout r)), (js ''stderr'', JStr (cm_stderr r)),
     (js ''timedOut'', JBool (cm_timedOut r))]"

definition webrtc_payload :: "WebRtcCell \<Rightarrow> js_string \<Rightarrow> timed_result option \<Rightarrow> (js_string \<times> js_string) option \<Rightarrow> json" where
  "webrtc_payload c reason client server = JObj (
     [(js ''cell'', webrtc_cell_json c), (js ''error'', JStr reason)]
     @ (case client of None \<Rightarrow> [] | Some r \<Rightarrow> [(js ''client'', timed_json r)])
     @ (case server of None \<Rightarrow> [] | Some (out, err) \<Rightarrow> [(js ''server'', JObj [(js ''stdout'', JStr out), (js ''stderr'', JStr err)])]))"

definition webrtc_writeFailure :: "texts \<Rightarrow> WebRtcCell \<Rightarrow> js_string \<Rightarrow> webrtc_attempt \<Rightarrow> webrtc_env \<Rightarrow> driver_action list" where
  "webrtc_writeFailure tx c reason a env = (case we_write env of
     Some e \<Rightarrow> []
   | None \<Rightarrow> [WriteFile (wc_name c @ js ''.json'') (redactArtifact (JSON_pretty (tx_num tx) 0 (webrtc_payload c reason (wa_client a)
                (if wa_server a then Some (we_serverStdout env, we_serverStderr env) else None)))),
              RunCommand (WEBRTC_COMPOSE @ [js ''logs'', js ''--no-color'']) 10000]
       @ (if we_writeLog env = None then [WriteFile (js ''compose-webrtc.log'') (redactArtifact (cm_stdout (we_logs env) @ [10] @ cm_stderr (we_logs env)))] else []))"

text \<open>The error of a failing cell: that of its \<open>catch\<close> block if writing the artifacts fails.\<close>

definition webrtc_error :: "js_string \<Rightarrow> webrtc_env \<Rightarrow> js_string" where
  "webrtc_error m env = (case we_write env of Some e \<Rightarrow> e | None \<Rightarrow> (case we_writeLog env of Some e \<Rightarrow> e | None \<Rightarrow> m))"

definition stopServer :: "bool \<Rightarrow> webrtc_env \<Rightarrow> driver_action list" where
  "stopServer server env = [RunCommand stop_server_args 15000] @
     (if \<not> server then []
      else (if we_running env then [KillServer] else [])
           @ (case waitForObservedClose 5000 False (we_closes env) of Rejected_with _ \<Rightarrow> [ForceKillServer] | _ \<Rightarrow> []))"

definition webrtc_finally :: "WebRtcCell \<Rightarrow> bool \<Rightarrow> webrtc_env \<Rightarrow> driver_action list" where
  "webrtc_finally c server env = (if wc_blocked c then [RunCommand (udp_block_args (client_service c) False) 15000] else [])
     @ [RunCommand (stop_client_args (client_service c)) 15000] @ stopServer server env"

definition webrtc_runCell :: "texts \<Rightarrow> WebRtcCell \<Rightarrow> webrtc_env \<Rightarrow> driver_action list \<times> js_string option" where
  "webrtc_runCell tx c env =
     (let a = webrtc_try tx c env in
      case wa_error a of
        None \<Rightarrow> (wa_actions a @ webrtc_finally c (wa_server a) env, None)
      | Some m \<Rightarrow> (wa_actions a @ webrtc_writeFailure tx c m a env @ webrtc_finally c (wa_server a) env,
                   Some (webrtc_error m env)))"

section \<open>The run\<close>

definition signal_ready_args :: "js_string list" where
  "signal_ready_args = WEBRTC_COMPOSE @ [js ''exec'', js ''-T'', js ''signal'', js ''node'', js ''-e'',
     js ''fetch('' @ [39] @ js ''http://127.0.0.1:8787/healthz'' @ [39] @ js '').then(async r=>{if(!r.ok)throw new Error(await r.text())})'']"

text \<open>One requested case; \<open>ready\<close> is the result of \<open>assertSignalReady\<close>.\<close>

fun webrtc_cells :: "texts \<Rightarrow> (WebRtcCell \<Rightarrow> webrtc_env) \<Rightarrow> WebRtcCell list \<Rightarrow> driver_action list \<times> js_string option" where
  "webrtc_cells tx env [] = ([], None)"
| "webrtc_cells tx env (c # cs) = (case webrtc_runCell tx c (env c) of
     (acts, Some e) \<Rightarrow> (acts, Some e)
   | (acts, None) \<Rightarrow> (case webrtc_cells tx env cs of
       (rest, e) \<Rightarrow> (acts @ [RemoveFile (wc_name c @ js ''.json''), RemoveFile (js ''compose-webrtc.log'')] @ rest, e)))"

definition webrtc_case :: "texts \<Rightarrow> timed_result \<Rightarrow> (WebRtcCell \<Rightarrow> webrtc_env) \<Rightarrow> js_string \<Rightarrow> driver_action list \<times> js_string option" where
  "webrtc_case tx ready env requested =
     (let cells = filter (\<lambda>c. wc_name c = requested) buildWebRtcMatrix; check = RunCommand signal_ready_args 15000 in
      if cm_code ready \<noteq> 0 then ([check], Some (js ''signaling Worker is not ready: '' @ cm_stderr ready))
      else if cells = []
      then ([check], Some (js ''unknown WEBRTC_CASE='' @ requested @ js ''; choose one of: '' @ join (js '', '') (map wc_name buildWebRtcMatrix)))
      else (case webrtc_cells tx env cells of
        (acts, e) \<Rightarrow> ([check, Print (js ''running '' @ nat_digits (length cells) @ js '' WebRTC correctness cell(s)'')] @ acts, e)))"

text \<open>
  Without a request every case runs in a process of its own; \<open>proc name\<close> is what it leaves.  The name stands for the environment of
  \<open>buildIsolatedCaseEnvironments\<close> it is given.
\<close>

fun webrtc_isolated :: "(js_string \<Rightarrow> timed_result) \<Rightarrow> WebRtcCell list \<Rightarrow> driver_action list \<times> js_string option" where
  "webrtc_isolated proc [] = ([], None)"
| "webrtc_isolated proc (c # cs) =
     (let r = proc (wc_name c);
          acts = [RunCommand [js ''WEBRTC_CASE='' @ wc_name c] CELL_PROCESS_TIMEOUT_MS, Print (cm_stdout r), Print (cm_stderr r)]
      in if cm_code r \<noteq> 0 then (acts, Some (js ''isolated WebRTC cell '' @ wc_name c @ js '' exited '' @ int_digits (cm_code r)))
         else (case webrtc_isolated proc cs of (rest, e) \<Rightarrow> (acts @ rest, e)))"

definition webrtc_main :: "texts \<Rightarrow> timed_result \<Rightarrow> (WebRtcCell \<Rightarrow> webrtc_env) \<Rightarrow> (js_string \<Rightarrow> timed_result) \<Rightarrow> js_string option
    \<Rightarrow> driver_action list \<times> js_string option" where
  "webrtc_main tx ready env proc requested = (case requested of
     Some (ch # name) \<Rightarrow> webrtc_case tx ready env (ch # name)
   | _ \<Rightarrow> (case webrtc_isolated proc buildWebRtcMatrix of
       (acts, e) \<Rightarrow> (Print (js ''running '' @ nat_digits (length buildWebRtcMatrix) @ js '' isolated WebRTC correctness cell(s)'') # acts, e)))"

definition webrtc_exit :: "driver_action list \<times> js_string option \<Rightarrow> nat" where
  "webrtc_exit r = (if snd r = None then 0 else 1)"


section \<open>Accepted reports\<close>

text \<open>A direct connection of the cell, without addresses.\<close>

definition reports_direct :: "texts \<Rightarrow> nat \<Rightarrow> json \<Rightarrow> bool" where
  "reports_direct tx n k \<longleftrightarrow> json_field ''transport'' k = Some (JStr (js ''webrtc'')) \<and> json_field ''path'' k = Some (JStr (js ''direct''))
     \<and> direct_candidate tx k ''local_candidate_type'' \<and> direct_candidate tx k ''remote_candidate_type''
     \<and> truthy (json_field ''ice_protocol'' k) \<and> string_of tx (json_field ''ice_protocol'' k) \<noteq> js ''unknown''
     \<and> json_field ''addresses_included'' k = Some (JBool False) \<and> number_of tx (json_field ''streams'' k) = Some (Fin (of_nat n))"

text \<open>Positive amounts that agree, a rate below the limit, and a direct connection.\<close>

definition webrtc_plausible :: "texts \<Rightarrow> WebRtcCell \<Rightarrow> json \<Rightarrow> bool" where
  "webrtc_plausible tx c j \<longleftrightarrow> (let browser = (wc_peer c = ChromiumPeer) in
     (\<exists>q. js_max (numberAt j (rate_path browser True)) (numberAt j (rate_path browser False)) = Some (Fin q) \<and> 0 < q \<and> q < WEBRTC_ABSURD_BPS)
     \<and> (\<forall>a b. numberAt j (amount_path browser True) = Some (Fin a) \<and> numberAt j (amount_path browser False) = Some (Fin b) \<longrightarrow>
          0 < a \<and> 0 < b \<and> \<bar>a - b\<bar> \<le> drift_limit browser * max a b)
     \<and> (\<exists>k. json_field ''connection'' j = Some k \<and> reports_direct tx (wc_parallel c) k))"

text \<open>A refusal: the code and the warning of a missing direct path, no rate, and the error as one JSON object.\<close>

definition webrtc_refused :: "timed_result \<Rightarrow> bool" where
  "webrtc_refused r \<longleftrightarrow> \<not> cm_timedOut r \<and> cm_code r = 4 \<and> js_includes DIRECT_WARNING (cm_stderr r) \<and> \<not> js_includes (js ''bits_per_second'') (cm_stdout r)
     \<and> (\<exists>j e. JSON_parse (js_trim (cm_stdout r)) = Some j \<and> json_field ''error'' j = Some e
          \<and> json_field ''transport'' e = Some (JStr (js ''webrtc'')) \<and> json_field ''kind'' e = Some (JStr (js ''direct_path_unavailable'')))"

definition webrtc_passes :: "texts \<Rightarrow> WebRtcCell \<Rightarrow> webrtc_env \<Rightarrow> bool" where
  "webrtc_passes tx c env \<longleftrightarrow> cm_code (we_reset env) = 0 \<and> \<not> isl (we_server env) \<and> (wc_blocked c \<longrightarrow> cm_code (we_block env) = 0)
     \<and> \<not> isl (webrtc_judge tx c (we_client env))"

lemma objectAt_Inr: "objectAt j k = Inr v \<Longrightarrow> json_field k j = Some v"
  by (auto simp: objectAt_def split: if_splits option.splits json.splits)

lemma assertDirect_None: "assertDirectConnection tx k n = None \<longleftrightarrow> reports_direct tx n k"
  by (auto simp: assertDirectConnection_def reports_direct_def simp del: js_simps)

lemma assertSuccessful_plausible:
  assumes "assertSuccessfulResult tx c j = Inr bps"
  shows "webrtc_plausible tx c j"
proof -
  let ?b = "wc_peer c = ChromiumPeer"
  let ?s = "numberAt j (amount_path ?b True)" and ?r = "numberAt j (amount_path ?b False)"
  let ?m = "js_max (numberAt j (rate_path ?b True)) (numberAt j (rate_path ?b False))"
  obtain k where c: "val_gt ?s 0" "val_gt ?r 0" "finite_val ?m" "\<not> val_le ?m 0" "\<not> val_ge ?m WEBRTC_ABSURD_BPS" "\<not> val_gt (drift ?s ?r) (drift_limit ?b)"
    and k: "objectAt j ''connection'' = Inr k" "assertDirectConnection tx k (wc_parallel c) = None"
    using assms by (auto simp: assertSuccessfulResult_def Let_def split: if_splits sum.splits option.splits simp del: js_simps)
  have "0 < a \<and> 0 < b \<and> \<bar>a - b\<bar> \<le> drift_limit ?b * max a b" if "?s = Some (Fin a)" "?r = Some (Fin b)" for a b
    using c(1,2,6) that drift_bound [of a b] by (simp add: val_gt_def)
  moreover obtain q where "?m = Some (Fin q)" using c(3) by (auto simp: finite_val_def split: option.splits js_num.splits)
  ultimately show ?thesis
    using c(4,5) objectAt_Inr [OF k(1)] k(2) unfolding webrtc_plausible_def Let_def assertDirect_None by (auto simp: val_le_def val_ge_def not_le)
qed

lemma assertBlocked_None: "assertBlockedResult tx c r = None \<Longrightarrow> webrtc_refused r"
  by (auto simp: assertBlockedResult_def webrtc_refused_def parseJson_def split: if_splits option.splits sum.splits
      dest!: objectAt_Inr simp del: js_simps)

lemma andThen_returns: "\<not> isl (andThen r k) \<longleftrightarrow> (\<exists>x. r = Inr x \<and> \<not> isl (k x))"
  by (cases r) simp_all

lemma judge_sound:
  assumes "\<not> isl (webrtc_judge tx c r)"
  shows "if wc_blocked c then webrtc_refused r
    else cm_code r = 0 \<and> (\<exists>j. JSON_parse (js_trim (cm_stdout r)) = Some j \<and> webrtc_plausible tx c j)"
  using assms assertBlocked_None [of tx c r] assertSuccessful_plausible [of tx c]
  by (auto simp: webrtc_judge_def andThen_returns parseJson_def split: if_splits option.splits sum.splits simp del: js_simps)

section \<open>Cleaning up\<close>

text \<open>The rules a list of actions leaves in the firewall of a service.\<close>

definition rules_left :: "js_string \<Rightarrow> nat \<Rightarrow> driver_action list \<Rightarrow> nat" where
  "rules_left service = foldl (\<lambda>n a. if a = RunCommand (udp_block_args service True) 15000 then Suc n
     else if a = RunCommand (udp_block_args service False) 15000 then n - 1 else n)"

definition redacted_write :: "driver_action \<Rightarrow> bool" where
  "redacted_write a = (case a of WriteFile f t \<Rightarrow> \<exists>u. t = redactArtifact u | _ \<Rightarrow> True)"

lemma rules_left_simps [simp]:
  "rules_left s n [] = n" "rules_left s n (a # as) = rules_left s (if a = RunCommand (udp_block_args s True) 15000 then Suc n
     else if a = RunCommand (udp_block_args s False) 15000 then n - 1 else n) as"
  "rules_left s n (as @ bs) = rules_left s (rules_left s n as) bs"
  by (simp_all add: rules_left_def)

lemma webrtc_runCell_error: "snd (webrtc_runCell tx c env) = None \<longleftrightarrow> webrtc_passes tx c env"
  by (auto simp: webrtc_runCell_def webrtc_try_def webrtc_passes_def Let_def split: sum.splits option.splits)

lemma webrtc_cells_error: "snd (webrtc_cells tx env cs) = None \<longleftrightarrow> list_all (\<lambda>c. webrtc_passes tx c (env c)) cs"
proof (induction cs)
  case (Cons c cs)
  then show ?case using webrtc_runCell_error [of tx c "env c"] by (auto split: prod.splits option.splits)
qed simp

lemma webrtc_isolated_error: "snd (webrtc_isolated proc cs) = None \<longleftrightarrow> list_all (\<lambda>c. cm_code (proc (wc_name c)) = 0) cs"
  by (induction cs) (auto simp: Let_def split: prod.splits)

lemma webrtc_case_exit:
  "webrtc_exit (webrtc_case tx ready env name) = 0 \<longleftrightarrow>
     cm_code ready = 0 \<and> name \<in> wc_name ` set buildWebRtcMatrix \<and> list_all (\<lambda>c. wc_name c = name \<longrightarrow> webrtc_passes tx c (env c)) buildWebRtcMatrix"
proof -
  have "filter (\<lambda>c. wc_name c = name) buildWebRtcMatrix = [] \<longleftrightarrow> name \<notin> wc_name ` set buildWebRtcMatrix" by (auto simp: filter_empty_conv)
  moreover have "list_all P (filter Q xs) \<longleftrightarrow> list_all (\<lambda>x. Q x \<longrightarrow> P x) xs" for P Q and xs :: "WebRtcCell list" by (auto simp: list_all_iff)
  ultimately show ?thesis using webrtc_cells_error [of tx env "filter (\<lambda>c. wc_name c = name) buildWebRtcMatrix"]
    by (auto simp: webrtc_case_def webrtc_exit_def Let_def split: prod.splits if_splits)
qed



definition witness_result :: "int \<Rightarrow> timed_result" where
  "witness_result n = \<lparr>cm_code = n, cm_stdout = [], cm_stderr = [], cm_timedOut = False\<rparr>"

definition witness_webrtc_env :: "WebRtcCell \<Rightarrow> webrtc_env" where
  "witness_webrtc_env c = \<lparr>we_reset = witness_result 1, we_server = Inl [], we_serverStdout = [], we_serverStderr = [], we_block = witness_result 0,
     we_client = witness_result 0, we_logs = witness_result 0, we_write = None, we_writeLog = None, we_running = False, we_closes = []\<rparr>"


lemma udp_args_other:
  "udp_block_args s True \<noteq> udp_block_args t False" "stop_client_args s \<noteq> udp_block_args t b" "stop_server_args \<noteq> udp_block_args t b" "reset_args c \<noteq> udp_block_args t b"
  "clientArgs c code \<noteq> [js ''exec'', js ''-T'', s, js ''iptables''] @ xs"
  by (simp_all add: udp_block_args_def stop_client_args_def stop_server_args_def reset_args_def clientArgs_def js_inject del: js_simps)


lemma webrtc_finally_effect:
  assumes "f = webrtc_finally c server env"
  shows "rules_left (client_service c) n f = (if wc_blocked c then n - 1 else n) \<and> list_all redacted_write f
    \<and> {RunCommand (stop_client_args (client_service c)) 15000, RunCommand stop_server_args 15000} \<subseteq> set f
    \<and> (server \<and> we_running env \<longrightarrow> KillServer \<in> set f)"
  using udp_args_other
  by (auto simp: assms webrtc_finally_def stopServer_def redacted_write_def udp_args_other(1) [symmetric] split: settled.split)

lemma webrtc_failure_effect:
  "rules_left s n (webrtc_writeFailure tx c m a env) = n" "list_all redacted_write (webrtc_writeFailure tx c m a env)"
  by (auto simp: webrtc_writeFailure_def redacted_write_def split: option.split)

lemma webrtc_try_effect:
  assumes "a = webrtc_try tx c env"
  shows "rules_left (client_service c) 0 (wa_actions a) = (if wc_blocked c \<and> wa_server a then 1 else 0) \<and> list_all redacted_write (wa_actions a)
    \<and> (wa_server a \<longleftrightarrow> cm_code (we_reset env) = 0 \<and> \<not> isl (we_server env))"
  using udp_args_other
  by (auto simp: assms webrtc_try_def Let_def redacted_write_def CONTAINER_RESET_TIMEOUT_MS_def BLOCKED_TIMEOUT_MS_def SUCCESS_TIMEOUT_MS_def
      split: sum.split)

text \<open>
  A cell of the WebRTC matrix leaves nothing behind and hides what it saw.  Whatever the processes and the file system do, the
  firewall of the client has no rule of the cell left, the client and the server are told to stop, a server that still runs is
  signalled, and every file written is redacted; the cell ends with an error exactly if it does not pass.
\<close>

theorem webrtc_cell_cleans_up:
  assumes "webrtc_runCell tx c env = (acts, e)"
  shows "rules_left (client_service c) 0 acts = 0 \<and> RunCommand (stop_client_args (client_service c)) 15000 \<in> set acts
    \<and> RunCommand stop_server_args 15000 \<in> set acts
    \<and> (cm_code (we_reset env) = 0 \<and> \<not> isl (we_server env) \<and> we_running env \<longrightarrow> KillServer \<in> set acts)
    \<and> list_all redacted_write acts \<and> (e = None \<longleftrightarrow> webrtc_passes tx c env)"
proof -
  define a where "a = webrtc_try tx c env"
  define f where "f = webrtc_finally c (wa_server a) env"
  obtain w where acts: "acts = wa_actions a @ w @ f" and w: "\<And>n. rules_left (client_service c) n w = n" "list_all redacted_write w"
  proof (cases "wa_error a")
    case None
    then have "acts = wa_actions a @ [] @ f" using assms by (simp add: webrtc_runCell_def a_def f_def Let_def)
    then show ?thesis using that by fastforce
  next
    case (Some m)
    then have "acts = wa_actions a @ webrtc_writeFailure tx c m a env @ f" using assms by (auto simp: webrtc_runCell_def a_def f_def Let_def)
    then show ?thesis by (rule that) (rule webrtc_failure_effect)+
  qed
  have "rules_left (client_service c) 0 acts = 0"
    unfolding acts rules_left_simps w using webrtc_try_effect [OF a_def] webrtc_finally_effect [OF f_def] by simp
  moreover have "list_all redacted_write acts" using webrtc_try_effect [OF a_def] webrtc_finally_effect [OF f_def] w(2) by (simp add: acts)
  moreover have "e = None \<longleftrightarrow> webrtc_passes tx c env" using assms webrtc_runCell_error [of tx c env] by simp
  moreover have "set f \<subseteq> set acts" by (auto simp: acts)
  ultimately show ?thesis using webrtc_try_effect [OF a_def] webrtc_finally_effect [OF f_def] by blast
qed

theorem webrtc_cell_cleans_up_witness:
  "let env = (witness_webrtc_env (webrtc_cell ''b'' RustPeer Upload 1 True))\<lparr>we_reset := witness_result 0, we_server := Inr (js ''AAAA-BBBB''), we_running := True\<rparr>;
       acts = fst (webrtc_runCell witness_texts_quic (webrtc_cell ''b'' RustPeer Upload 1 True) env)
   in rules_left (js ''rs-client'') 0 acts = 0 \<and> KillServer \<in> set acts"
proof -
  define env where "env = (witness_webrtc_env (webrtc_cell ''b'' RustPeer Upload 1 True))\<lparr>we_reset := witness_result 0, we_server := Inr (js ''AAAA-BBBB''), we_running := True\<rparr>"
  obtain acts e where r: "webrtc_runCell witness_texts_quic (webrtc_cell ''b'' RustPeer Upload 1 True) env = (acts, e)" by fastforce
  have s: "client_service (webrtc_cell ''b'' RustPeer Upload 1 True) = js ''rs-client''" by (simp add: client_service_def webrtc_cell_def)
  have "cm_code (we_reset env) = 0" "\<not> isl (we_server env)" "we_running env" by (simp_all add: env_def witness_result_def)
  then show ?thesis using webrtc_cell_cleans_up [OF r, unfolded s] unfolding env_def [symmetric] Let_def r by simp
qed


text \<open>A server that does not become ready is only told to stop: its process is neither signalled nor awaited.\<close>

lemma unready_server_kept:
  assumes "we_server env = Inl m" and "webrtc_runCell tx c env = (acts, e)"
  shows "KillServer \<notin> set acts \<and> ForceKillServer \<notin> set acts"
  using assms
  by (auto simp: webrtc_runCell_def webrtc_try_def webrtc_finally_def stopServer_def webrtc_writeFailure_def Let_def split: if_splits option.splits)

end
