(* ===== verification/BrowserVerdict.thy ===== *)
theory BrowserVerdict
  imports WebRtcMatrix
begin

text \<open>
  The Chromium cells of the WebRTC matrix, end to end: the arguments the matrix passes reach the browser peer as its configuration,
  what the peer ends with is printed by \<open>run-browser-peer.mjs\<close>, and the matrix judges that output.
\<close>

section \<open>Arguments\<close>

definition cell_config :: "WebRtcCell \<Rightarrow> js_string \<Rightarrow> runner_config" where
  "cell_config c code = \<lparr>rc_code = Some code, rc_signalUrl = Some SIGNAL_URL, rc_stunUrls = [], rc_reverse = (wc_direction c = Reverse), rc_includeAddresses = False,
     rc_parallel = Some (nat_digits (wc_parallel c)), rc_duration = Some (nat_digits DURATION_SECONDS), rc_length = Some (js ''65536'')\<rparr>"

lemma browser_argv_parsed: "code \<noteq> [] \<Longrightarrow> parseArgs (browser_argv c code) = Inr (cell_config c code)"
  by (simp add: parseArgs_def browser_argv_def runner_defaults_def set_option_def set_flag_def cell_config_def SIGNAL_URL_def js_inject del: js_simps)
     (simp add: js_def)

text \<open>What the configuration of the cell is for the peer, if it is accepted.\<close>

lemma cell_config_validated:
  assumes "validateConfig up parse coerce (runner_input coerce (cell_config c code)) = Inr cfg"
    and "coerce (JStr (nat_digits (wc_parallel c))) = Some (Fin (of_nat (wc_parallel c)))"
  shows "\<not> bc_includeAddresses cfg \<and> bc_parallel cfg = int (wc_parallel c) \<and> (bc_reverse cfg \<longleftrightarrow> wc_direction c = Reverse)"
  using assms
  by (auto simp: validateConfig_def runner_input_def cell_config_def number_arg_def coalesce_def to_number_def integer_between_def
      split: option.splits if_splits)

section \<open>The report\<close>

lemma direct_types_text: "t \<in> set direct_types \<Longrightarrow> string_of tx (Some t) \<in> {js ''host'', js ''srflx'', js ''prflx''}"
  by (auto simp: direct_types_def string_of_def simp del: js_simps)

lemma direct_connection_reported:
  assumes "direct_connection False k"
  shows "reports_direct tx n (with_streams (int n) k)"
proof -
  obtain fs where k: "k = JObj fs" using assms by (cases k) (simp_all add: direct_connection_def)
  obtain t u where t: "json_field ''local_candidate_type'' k = Some t" "json_field ''remote_candidate_type'' k = Some u" "t \<in> set direct_types" "u \<in> set direct_types"
    using assms by (auto simp: direct_connection_def)
  have f: "json_field x (with_streams (int n) k) = (if x = ''streams'' then Some (JNum (of_nat n)) else json_field x k)" for x
    unfolding k field_with_streams by simp
  have "json_field ''transport'' k = Some (JStr (js ''webrtc''))" "json_field ''path'' k = Some (JStr (js ''direct''))" "json_field ''addresses_included'' k = Some (JBool False)"
    using assms by (simp_all add: direct_connection_def del: js_simps)
  moreover obtain w where "json_field ''ice_protocol'' k = Some (JStr (js w))" "w \<in> {''udp'', ''tcp''}"
    using assms unfolding direct_connection_def by blast
  moreover have "number_of tx (Some (JNum (of_nat n))) = Some (Fin (of_nat n))" by (simp add: number_of_def to_number_def)
  ultimately show ?thesis using t direct_types_text [of t tx] direct_types_text [of u tx]
    unfolding reports_direct_def direct_candidate_def f by (auto simp: truthy_def string_of_def js_inject)
qed


lemma val_json_number: "(case val_json v of JNum q \<Rightarrow> Some (Fin q) | JInf n \<Rightarrow> Some (Inf n) | _ \<Rightarrow> None) = v"
proof (cases v)
  case (Some x)
  then show ?thesis by (cases x) (simp_all add: val_json_def)
qed (simp add: val_json_def)

lemma result_numbers:
  "numberAt (result_json r) (amount_path True True) = br_sentBytes r" "numberAt (result_json r) (amount_path True False) = br_receivedBytes r"
  "numberAt (result_json r) (rate_path True True) = br_sendBitsPerSecond r" "numberAt (result_json r) (rate_path True False) = br_receiveBitsPerSecond r"
  "json_field ''parallel'' (result_json r) = Some (JNum (of_int (br_parallel r)))" "json_field ''connection'' (result_json r) = Some (br_connection r)"
  by (simp_all add: numberAt_def amount_path_def rate_path_def result_json_def js_inject val_json_number del: js_simps)

definition acceptable :: "browser_result \<Rightarrow> bool" where
  "acceptable r \<longleftrightarrow> (\<exists>a b. br_sentBytes r = Some (Fin a) \<and> br_receivedBytes r = Some (Fin b) \<and> 0 < a \<and> 0 < b
     \<and> 8 * max a b < WEBRTC_ABSURD_BPS * max (br_durationSeconds r) (1 / 2 ^ 52))"

lemma rate_max:
  assumes "x = max (s :: rat) (1 / 2 ^ 52)"
  shows "js_max (rate_of (Some (Fin a)) s) (rate_of (Some (Fin b)) s) = Some (Fin (8 * max a b / x))"
proof -
  have x: "0 < x" by (simp add: assms less_max_iff_disj)
  have "8 / x * a \<le> 8 / x * b \<longleftrightarrow> a \<le> b" using x by (simp add: field_simps)
  then show ?thesis using x unfolding rate_of_def assms [symmetric] by (simp add: js_max_def val_scale_def max_def [of a b])
qed

lemma judge_result:
  assumes cell: "wc_peer c = ChromiumPeer" "\<not> wc_blocked c" and ok: "json_ok num (result_json r)"
    and r: "br_parallel r = int (wc_parallel c)" "reports_direct tx (wc_parallel c) (br_connection r)" "br_connection r = JObj gs"
    and rates: "br_sendBitsPerSecond r = rate_of (br_sentBytes r) (br_durationSeconds r)" "br_receiveBitsPerSecond r = rate_of (br_receivedBytes r) (br_durationSeconds r)"
    and close: "\<And>a b. br_sentBytes r = Some (Fin a) \<Longrightarrow> br_receivedBytes r = Some (Fin b) \<Longrightarrow> 0 < a \<Longrightarrow> 0 < b \<Longrightarrow> \<bar>a - b\<bar> \<le> 5 / 100 * max a b"
    and res: "cm_code res = 0" "cm_stdout res = JSON_stringify num (result_json r) @ [10]"
  shows "\<not> isl (webrtc_judge tx c res) \<longleftrightarrow> acceptable r"
proof -
  let ?x = "max (br_durationSeconds r) (1 / 2 ^ 52)"
  have x: "0 < ?x" by (simp add: less_max_iff_disj)
  obtain fs where fs: "result_json r = JObj fs" by (simp add: result_json_def)
  have "parseJson (cm_stdout res) = Inr (result_json r)"
    unfolding parseJson_def res(2) fs parse_line [OF ok [unfolded fs]] by simp
  then have "\<not> isl (webrtc_judge tx c res) \<longleftrightarrow> \<not> isl (assertSuccessfulResult tx c (result_json r))"
    using cell(2) res(1) by (auto simp: webrtc_judge_def andThen_returns) (metis sum.collapse(2))
  also have "\<dots> \<longleftrightarrow> acceptable r"
  proof (cases "\<exists>a b. br_sentBytes r = Some (Fin a) \<and> br_receivedBytes r = Some (Fin b) \<and> 0 < a \<and> 0 < b")
    case True
    then obtain a b where ab: "br_sentBytes r = Some (Fin a)" "br_receivedBytes r = Some (Fin b)" "0 < a" "0 < b" by blast
    have d: "\<not> val_gt (drift (Some (Fin a)) (Some (Fin b))) (drift_limit True)"
      using close [OF ab] ab(3,4) by (simp add: drift_def val_gt_def drift_limit_def pos_divide_le_eq max_def split: if_splits)
    have o: "objectAt (result_json r) ''connection'' = Inr (br_connection r)"
      using result_numbers(6) [of r] r(3) by (simp add: objectAt_def fs)
    define q where "q = 8 * max a b / ?x"
    have "0 < q" unfolding q_def using ab(3) x by (intro divide_pos_pos) (simp_all add: less_max_iff_disj)
    moreover have "q < WEBRTC_ABSURD_BPS \<longleftrightarrow> acceptable r"
      unfolding q_def acceptable_def using ab x by (auto simp: pos_divide_less_eq simp del: max_less_iff_conj)
    moreover have "js_max (br_sendBitsPerSecond r) (br_receiveBitsPerSecond r) = Some (Fin q)"
      unfolding rates ab(1,2) q_def by (rule rate_max) (rule refl)
    moreover have "val_gt (Some (Fin a)) 0" "val_gt (Some (Fin b)) 0" using ab(3,4) by (simp_all add: val_gt_def)
    ultimately show ?thesis
      using ab cell(1) d o r(1,2)
      unfolding assertSuccessfulResult_def assertDirect_None [symmetric]
      by (auto simp: Let_def result_numbers finite_val_def val_le_def val_ge_def number_of_def to_number_def not_le simp del: js_simps)
  next
    case False
    have "br_sentBytes r \<noteq> Some (Inf n)" "br_receivedBytes r \<noteq> Some (Inf n)" for n
      using ok by (auto simp: result_json_def val_json_def)
    then have "\<not> (val_gt (br_sentBytes r) 0 \<and> val_gt (br_receivedBytes r) 0)"
      using False by (auto simp: val_gt_def split: option.splits) (metis js_num.exhaust not_le num_le.simps(1))
    then have "isl (assertSuccessfulResult tx c (result_json r))"
      unfolding assertSuccessfulResult_def using cell(1) by (auto simp: Let_def result_numbers simp del: js_simps)
    moreover have "\<not> acceptable r" using False by (auto simp: acceptable_def)
    ultimately show ?thesis by simp
  qed
  finally show ?thesis .
qed


section \<open>The refusal\<close>

definition unavailable_json :: json where
  "unavailable_json = JObj [(js ''error'', JObj [(js ''transport'', JStr (js ''webrtc'')), (js ''kind'', JStr (js ''direct_path_unavailable'')),
     (js ''message'', JStr (js ''WebRTC direct connection failed; netsu does not use TURN relay, so no throughput test was run''))])]"

lemma errorResult_unavailable: "error_kind e = Some ''direct_path_unavailable'' \<Longrightarrow> errorResult e = unavailable_json"
  by (simp add: errorResult_def unavailable_json_def Let_def)

lemma unavailable_ok: "json_ok num unavailable_json"
  by (simp add: unavailable_json_def js_inject del: js_simps) (simp add: js_def scalar_value_def)

lemma unavailable_no_rate: "\<not> js_includes (js ''bits_per_second'') (JSON_stringify num unavailable_json @ [10])"
  by (simp add: unavailable_json_def js_def quote_string_def quote_char_def starts_with_def)

lemma judge_refusal:
  assumes "wc_peer c = ChromiumPeer" and "res = \<lparr>cm_code = int (ro_code (runner_failed num e)), cm_stdout = ro_stdout (runner_failed num e),
    cm_stderr = ro_stderr (runner_failed num e), cm_timedOut = False\<rparr>"
  shows "\<not> isl (webrtc_judge tx c res) \<longleftrightarrow> wc_blocked c \<and> error_kind e = Some ''direct_path_unavailable''"
proof (cases "wc_blocked c \<and> error_kind e = Some ''direct_path_unavailable''")
  case True
  obtain fs where fs: "unavailable_json = JObj fs" by (simp add: unavailable_json_def)
  have "parseJson (JSON_stringify num unavailable_json @ [10]) = Inr unavailable_json"
    unfolding parseJson_def fs parse_line [OF unavailable_ok [unfolded fs]] by simp
  moreover have "objectAt unavailable_json ''error'' = Inr (JObj [(js ''transport'', JStr (js ''webrtc'')), (js ''kind'', JStr (js ''direct_path_unavailable'')),
     (js ''message'', JStr (js ''WebRTC direct connection failed; netsu does not use TURN relay, so no throughput test was run''))])"
    by (simp add: objectAt_def unavailable_json_def)
  moreover have "js_includes DIRECT_WARNING (direct_warning @ [10])"
    unfolding js_includes_iff DIRECT_WARNING_def direct_warning_def by (metis append_Nil)
  ultimately show ?thesis
    using True unavailable_no_rate [of num] errorResult_unavailable [of e]
    by (simp add: webrtc_judge_def assertBlockedResult_def assms(2) runner_failed_def runner_code_def js_inject del: js_simps)
next
  case False
  then show ?thesis
    by (auto simp: webrtc_judge_def assertBlockedResult_def assms(2) runner_failed_def runner_code_def simp del: js_simps split: if_splits)
qed


section \<open>The verdict\<close>

lemma finished_report:
  assumes "p = run_steps (browser_step env) (new_peer cfg) es" and "bp_outcome p = Some (Inr r)"
  shows "br_parallel r = bc_parallel cfg \<and> (\<exists>k. direct_connection (bc_includeAddresses cfg) k \<and> br_connection r = with_streams (bc_parallel cfg) k)
    \<and> br_sendBitsPerSecond r = rate_of (br_sentBytes r) (br_durationSeconds r) \<and> br_receiveBitsPerSecond r = rate_of (br_receivedBytes r) (br_durationSeconds r)
    \<and> (\<forall>a b. br_sentBytes r = Some (Fin a) \<longrightarrow> br_receivedBytes r = Some (Fin b) \<longrightarrow> 0 < a \<longrightarrow> 0 < b \<longrightarrow> \<bar>a - b\<bar> \<le> 5 / 100 * max a b)"
proof -
  have i: "peer_inv env p" and cfg: "bp_config p = cfg" unfolding assms(1) by (rule peer_inv_run, simp add: config_run new_peer_def)
  then have f: "bp_written p \<noteq> []" "result_of (en_coerce env) p = Inr r" using assms(2) by (auto simp: peer_inv_def done_inv_def)
  then obtain k where k: "bp_connection p = Some k" "direct_connection (bc_includeAddresses cfg) k" using i cfg by (auto simp: peer_inv_def direct_inv_def)
  define l :: rat where "l = of_nat (sum_list (bp_counters p))"
  have l: "0 < l \<Longrightarrow> 1 \<le> l" by (simp add: l_def)
  from result_of_amounts [OF f(2)] obtain remote where remote: "{br_sentBytes r, br_receivedBytes r} = {Some (Fin l), remote}"
    "\<forall>b. remote = Some (Fin b) \<longrightarrow> \<bar>l - b\<bar> \<le> 5 / 100 * max (max l b) 1" unfolding l_def by blast
  have "\<bar>a - b\<bar> \<le> 5 / 100 * max a b" if ab: "br_sentBytes r = Some (Fin a)" "br_receivedBytes r = Some (Fin b)" "0 < a" "0 < b" for a b
  proof -
    from remote(1) ab(1,2) have "a = l \<and> remote = Some (Fin b) \<or> b = l \<and> remote = Some (Fin a)" by (auto simp: doubleton_eq_iff)
    then show ?thesis using remote(2) l ab(3,4) by (auto simp: max_def abs_minus_commute split: if_splits)
  qed
  then show ?thesis using result_of_fields [OF f(2)] cfg k by auto
qed

text \<open>
  C15: the verdict on a Chromium cell.  Let the matrix run \<open>run-browser-peer.mjs\<close> with its arguments, and the peer of the
  accepted configuration end in any way.  Then the matrix passes an open cell exactly if the peer ended with a result
  whose two amounts are positive and whose rate is below the limit: the path, the streams, the addresses and the agreement of
  the amounts that the matrix checks hold of every result; and it passes a blocked cell exactly if the peer ended because there was no direct
  path.  Assumed are \<open>Number\<close> of the printed stream count, and numbers and texts that survive printing as JSON.
\<close>

theorem browser_cell_verdict:
  assumes cell: "wc_peer c = ChromiumPeer" "code \<noteq> []"
    and number: "coerce (JStr (nat_digits (wc_parallel c))) = Some (Fin (of_nat (wc_parallel c)))"
    and config: "browser_run up parse coerce (runner_input coerce (cell_config c code)) = Inr (room, new_peer cfg)"
    and peer: "p = run_steps (browser_step env) (new_peer cfg) es" "bp_outcome p = Some outcome"
    and printed: "\<And>r. outcome = Inr r \<Longrightarrow> json_ok num (result_json r)"
    and runner: "out = run_browser_peer num coerce parse None (\<lambda>_. outcome) (browser_argv c code)"
    and process: "webrtc_command timeoutMs [ChildStdout (ro_stdout out), ChildStderr (ro_stderr out), ChildClose (Some (int (ro_code out)))] = Some res"
  shows "\<not> isl (webrtc_judge tx c res) \<longleftrightarrow>
    (if wc_blocked c then \<exists>e. outcome = Inl e \<and> error_kind e = Some ''direct_path_unavailable'' else \<exists>r. outcome = Inr r \<and> acceptable r)"
proof -
  have valid: "validateConfig up parse coerce (runner_input coerce (cell_config c code)) = Inr cfg"
    using config by (auto simp: browser_run_def new_peer_def)
  note cfg = cell_config_validated [OF valid number]
  obtain u where u: "parse (the (rc_signalUrl (cell_config c code))) = Some u"
    using valid by (auto simp: validateConfig_def runner_input_def split: option.splits)
  have out: "out = (case outcome of Inl e \<Rightarrow> runner_failed num e | Inr r \<Rightarrow> \<lparr>ro_stdout = JSON_stringify num (result_json r) @ [10], ro_stderr = [], ro_code = 0\<rparr>)"
    unfolding runner run_browser_peer_def browser_argv_parsed [OF cell(2)] using u by (simp split: sum.split)
  have res: "res = \<lparr>cm_code = int (ro_code out), cm_stdout = ro_stdout out, cm_stderr = ro_stderr out, cm_timedOut = False\<rparr>"
    using process command_reports [of "[ChildStdout (ro_stdout out), ChildStderr (ro_stderr out)]" timeoutMs "Some (int (ro_code out))" "[]"] by (simp add: is_close_def)
  show ?thesis
  proof (cases outcome)
    case (Inl e)
    then show ?thesis using judge_refusal [OF cell(1), of res num e tx] res out by auto
  next
    case (Inr r)
    note fin = finished_report [OF peer(1), of r] peer(2) [unfolded Inr]
    then obtain k where k: "direct_connection False k" "br_connection r = with_streams (int (wc_parallel c)) k" using cfg by auto
    obtain fs where "k = JObj fs" using k(1) by (cases k) (simp_all add: direct_connection_def)
    then obtain gs where gs: "br_connection r = JObj gs" by (simp add: k(2) with_streams_def)
    show ?thesis
    proof (cases "wc_blocked c")
      case True
      then show ?thesis using Inr by (simp add: webrtc_judge_def assertBlockedResult_def res out)
    next
      case False
      have "\<not> isl (webrtc_judge tx c res) \<longleftrightarrow> acceptable r"
        using fin cfg printed [OF Inr] gs direct_connection_reported [OF k(1), of tx "wc_parallel c"] False Inr res out cell(1)
        by (intro judge_result) (simp_all add: k(2))
      then show ?thesis using False Inr by simp
    qed
  qed
qed


text \<open>The blocked Chromium cell with a peer that finds no direct path.\<close>

definition witness_coerce :: "json \<Rightarrow> js_val" where
  "witness_coerce j = (case j of JStr s \<Rightarrow> Some (Fin (of_nat (digits_value s))) | _ \<Rightarrow> None)"

definition witness_cell :: WebRtcCell where
  "witness_cell = webrtc_cell ''chromium-blocked-upload-p1'' ChromiumPeer Upload 1 True"

lemma witness_cell_run:
  "\<exists>room. browser_run (\<lambda>_. []) witness_parse witness_coerce (runner_input witness_coerce (cell_config witness_cell (js ''2345-6789''))) = Inr (room, new_peer witness_config)"
proof -
  have n: "normalizeRoomCode (\<lambda>_. []) (js ''2345-6789'') = Inr (js ''2345-6789'')"
    by (simp add: normalizeRoomCode_def toUpperCase_def ascii_upper_def Let_def)
  have "digits_value (js ''65536'') = 65536" by (simp add: js_def digits_value_def)
  then have "validateConfig (\<lambda>_. []) witness_parse witness_coerce (runner_input witness_coerce (cell_config witness_cell (js ''2345-6789''))) = Inr witness_config"
    using n by (simp add: validateConfig_def runner_input_def cell_config_def witness_cell_def webrtc_cell_def number_arg_def witness_coerce_def witness_parse_def
        witness_config_def DURATION_SECONDS_def integer_between_def finite_between_def coalesce_def to_number_def url_text_def starts_with_def validateStunUrls_def)
  then show ?thesis using n by (simp add: browser_run_def roomWebSocketUrl_def witness_parse_def witness_config_def)
qed

theorem browser_cell_verdict_witness:
  "\<exists>res. webrtc_command 26000 (let out = runner_failed int_num no_direct_path in
       [ChildStdout (ro_stdout out), ChildStderr (ro_stderr out), ChildClose (Some (int (ro_code out)))]) = Some res
     \<and> \<not> isl (webrtc_judge witness_texts_quic witness_cell res)"
proof -
  obtain room where run: "browser_run (\<lambda>_. []) witness_parse witness_coerce (runner_input witness_coerce (cell_config witness_cell (js ''2345-6789''))) = Inr (room, new_peer witness_config)"
    using witness_cell_run by blast
  define p where "p = run_steps (browser_step witness_env) (new_peer witness_config) [BOpened (Some no_direct_path)]"
  have p: "bp_outcome p = Some (Inl no_direct_path)" by (simp add: p_def new_peer_def)
  define out where "out = run_browser_peer int_num witness_coerce witness_parse None (\<lambda>_. Inl no_direct_path) (browser_argv witness_cell (js ''2345-6789''))"
  have out: "out = runner_failed int_num no_direct_path"
  proof -
    have c: "js ''2345-6789'' \<noteq> []" by simp
    show ?thesis unfolding out_def run_browser_peer_def browser_argv_parsed [OF c] by (simp add: witness_parse_def)
  qed
  obtain res where res: "webrtc_command 26000 [ChildStdout (ro_stdout out), ChildStderr (ro_stderr out), ChildClose (Some (int (ro_code out)))] = Some res"
    using command_reports [of "[ChildStdout (ro_stdout out), ChildStderr (ro_stderr out)]" 26000 "Some (int (ro_code out))" "[]"] by (simp add: is_close_def)
  have "wc_peer witness_cell = ChromiumPeer" "wc_blocked witness_cell" "js ''2345-6789'' \<noteq> []"
    "witness_coerce (JStr (nat_digits (wc_parallel witness_cell))) = Some (Fin (of_nat (wc_parallel witness_cell)))"
    "error_kind no_direct_path = Some ''direct_path_unavailable''"
    by (simp_all add: witness_cell_def webrtc_cell_def witness_coerce_def no_direct_path_def)
  then have "\<not> isl (webrtc_judge witness_texts_quic witness_cell res)"
    using browser_cell_verdict [OF _ _ _ run p_def p _ out_def res, of witness_texts_quic] by simp
  then show ?thesis using res unfolding out Let_def by blast
qed

end
