(* ===== verification/SmokeTest.thy ===== *)
theory SmokeTest
  imports Process SignalRoutes
begin

text \<open>
  \<open>apps/rendez-key/scripts/signal-smoke-test.mjs\<close>: a client that creates a room, binds a listener and a joiner, lets
  them exchange an offer, an answer and a candidate, leaves, and checks that the room is gone.  What the service
  does is an argument (\<open>service_api\<close>): how a request, an attempt to connect and a wait for a frame settle.
\<close>

section \<open>The inbox of a socket\<close>

text \<open>
  A call of \<open>next\<close> is named by a number; \<open>ib_results\<close> holds how the calls settled.  The timer of a call looks for its waiter by comparing
  the stored function, which wraps \<open>resolve\<close>, with \<open>resolve\<close> itself; they never agree, so the waiter stays.
\<close>

record inbox =
  ib_queued :: "js_string list"
  ib_waiters :: "nat list"
  ib_results :: "(nat \<times> (js_string + js_string)) list"

datatype inbox_event = Arrives js_string | Next nat | NextTimer nat

definition new_inbox :: inbox where
  "new_inbox = \<lparr>ib_queued = [], ib_waiters = [], ib_results = []\<rparr>"

definition settle_next :: "nat \<Rightarrow> js_string + js_string \<Rightarrow> inbox \<Rightarrow> inbox" where
  "settle_next k r b = (if map_of (ib_results b) k = None then b\<lparr>ib_results := ib_results b @ [(k, r)]\<rparr> else b)"

fun inbox_step :: "inbox \<Rightarrow> inbox_event \<Rightarrow> inbox" where
  "inbox_step b (Arrives t) = (case ib_waiters b of
     w # ws \<Rightarrow> settle_next w (Inr t) (b\<lparr>ib_waiters := ws\<rparr>)
   | [] \<Rightarrow> b\<lparr>ib_queued := ib_queued b @ [t]\<rparr>)"
| "inbox_step b (Next k) = (case ib_queued b of
     t # ts \<Rightarrow> settle_next k (Inr t) (b\<lparr>ib_queued := ts\<rparr>)
   | [] \<Rightarrow> b\<lparr>ib_waiters := ib_waiters b @ [k]\<rparr>)"
| "inbox_step b (NextTimer k) =
     (if k \<in> set (ib_waiters b) then settle_next k (Inl (js ''timed out waiting for signaling frame'')) b else b)"

section \<open>Checks\<close>

definition field_of :: "json \<Rightarrow> string \<Rightarrow> json option" where
  "field_of actual key = (if actual = JNull then None else json_field key actual)"

text \<open>\<open>expected\<close> are texts; \<open>show\<close> is the conversion of a value by a template literal.\<close>

fun assertSubset :: "(json \<Rightarrow> js_string) \<Rightarrow> json \<Rightarrow> (string \<times> js_string) list \<Rightarrow> string \<Rightarrow> js_string option" where
  "assertSubset show actual [] label = None"
| "assertSubset show actual ((key, v) # expected) label =
     (if field_of actual key \<noteq> Some (JStr v)
      then Some (js label @ js '': expected '' @ js key @ [61] @ v @ js '', got ''
        @ (case field_of actual key of None \<Rightarrow> js ''undefined'' | Some j \<Rightarrow> show j))
      else assertSubset show actual expected label)"

definition websocketUrl :: "(js_string \<Rightarrow> url option) \<Rightarrow> js_string \<Rightarrow> js_string \<Rightarrow> js_string + js_string" where
  "websocketUrl parse baseUrl code = (case parse (baseUrl @ js ''/rooms/'' @ code @ js ''/ws'') of
     None \<Rightarrow> Inl (js ''Invalid URL'')
   | Some u \<Rightarrow> Inr (url_text (u\<lparr>url_protocol := (if url_protocol u = js ''https:'' then js ''wss:'' else js ''ws:'')\<rparr>)))"

section \<open>Connecting\<close>

datatype connect_event = WsOpen | WsError | WsClose | WsTimer

text \<open>The promises of \<open>openSocket\<close> and \<open>expectUpgradeRejected\<close>.\<close>

fun open_socket_step :: "settled \<Rightarrow> connect_event \<Rightarrow> settled" where
  "open_socket_step p WsOpen = settle p Resolved_ok"
| "open_socket_step p WsError = settle p (Rejected_with (OtherError (js ''WebSocket upgrade failed'')))"
| "open_socket_step p WsTimer = settle p (Rejected_with (OtherError (js ''WebSocket open timed out'')))"
| "open_socket_step p WsClose = p"

fun rejected_step :: "settled \<Rightarrow> connect_event \<Rightarrow> settled" where
  "rejected_step p WsOpen = settle p (Rejected_with (OtherError (js ''terminal room was reusable'')))"
| "rejected_step p WsError = settle p Resolved_ok"
| "rejected_step p WsClose = settle p Resolved_ok"
| "rejected_step p WsTimer = settle p (Rejected_with (OtherError (js ''terminal room unexpectedly kept upgrade pending'')))"

definition openSocket :: "connect_event list \<Rightarrow> settled" where
  "openSocket es = run_steps open_socket_step Pending es"

definition expectUpgradeRejected :: "connect_event list \<Rightarrow> settled" where
  "expectUpgradeRejected es = run_steps rejected_step Pending es"

interpretation open_socket: one_shot open_socket_step outcome_of "\<lambda>_. True"
proof
  show "outcome_of (open_socket_step s e) = Some r" if "outcome_of s = Some r" for s e r
    using that by (cases e) (auto simp: outcome_of_def settle_settled split: if_splits)
qed

interpretation rejected_socket: one_shot rejected_step outcome_of "\<lambda>_. True"
proof
  show "outcome_of (rejected_step s e) = Some r" if "outcome_of s = Some r" for s e r
    using that by (cases e) (auto simp: outcome_of_def settle_settled split: if_splits)
qed

section \<open>One room\<close>

text \<open>
  The service and the network: a POST request with its authorization and body (status, text and parsed body of the
  answer, or why it failed), a new socket and how its promise settles, sending, the settlement of \<open>next\<close> of a socket, and a probe of a
  closed room.  \<open>'w\<close> is whatever they change.
\<close>

record 'w service_api =
  sv_post :: "js_string \<Rightarrow> js_string option \<Rightarrow> js_string \<Rightarrow> 'w \<Rightarrow> (js_string + nat \<times> js_string \<times> json option) \<times> 'w"
  sv_open :: "js_string \<Rightarrow> 'w \<Rightarrow> settled \<times> nat \<times> 'w"
  sv_send :: "nat \<Rightarrow> js_string \<Rightarrow> 'w \<Rightarrow> 'w"
  sv_next :: "nat \<Rightarrow> 'w \<Rightarrow> (js_string + js_string) \<times> 'w"
  sv_probe :: "js_string \<Rightarrow> 'w \<Rightarrow> settled \<times> 'w"

type_synonym ('w, 'a) act = "'w \<Rightarrow> (js_string + 'a) \<times> 'w"

definition andDo :: "('w, 'a) act \<Rightarrow> ('a \<Rightarrow> ('w, 'b) act) \<Rightarrow> ('w, 'b) act" where
  "andDo m k w = (case m w of (Inl e, w') \<Rightarrow> (Inl e, w') | (Inr x, w') \<Rightarrow> k x w')"

definition give :: "js_string + 'a \<Rightarrow> ('w, 'a) act" where
  "give x w = (x, w)"

definition settled_result :: "settled \<Rightarrow> 'a \<Rightarrow> js_string + 'a" where
  "settled_result s x = (case s of Resolved_ok \<Rightarrow> Inr x | Rejected_with e \<Rightarrow> Inl (error_message e) | Pending \<Rightarrow> Inl (js ''pending''))"

definition connect :: "'w service_api \<Rightarrow> js_string \<Rightarrow> ('w, nat) act" where
  "connect sv url w = (case sv_open sv url w of (s, i, w') \<Rightarrow> (settled_result s i, w'))"

definition inbox_send :: "'w service_api \<Rightarrow> nat \<Rightarrow> json \<Rightarrow> ('w, unit) act" where
  "inbox_send sv i message w = (Inr (), sv_send sv i (JSON_stringify int_num message) w)"

definition inbox_next :: "'w service_api \<Rightarrow> nat \<Rightarrow> ('w, json) act" where
  "inbox_next sv i = andDo (sv_next sv i) (\<lambda>raw. give (case JSON_parse raw of None \<Rightarrow> Inl (js ''SyntaxError'') | Some j \<Rightarrow> Inr j))"

definition expect :: "(json \<Rightarrow> js_string) \<Rightarrow> 'w service_api \<Rightarrow> nat \<Rightarrow> (string \<times> js_string) list \<Rightarrow> string \<Rightarrow> ('w, unit) act" where
  "expect show sv i expected label = andDo (inbox_next sv i) (\<lambda>j. give (case assertSubset show j expected label of
     None \<Rightarrow> Inr () | Some m \<Rightarrow> Inl m))"

definition message :: "(string \<times> json) list \<Rightarrow> json" where
  "message fs = JObj ((js ''v'', JNum 1) # map (\<lambda>(k, v). (js k, v)) fs)"

definition create_body :: js_string where
  "create_body = JSON_stringify int_num (message [(''ttl_seconds'', JNum 60)])"

definition create_room :: "'w service_api \<Rightarrow> js_string \<Rightarrow> js_string option \<Rightarrow> ('w, json) act" where
  "create_room sv baseUrl token =
     andDo (sv_post sv (baseUrl @ js ''/rooms'') (case token of Some (c # t) \<Rightarrow> Some (js ''Bearer '' @ c # t) | _ \<Rightarrow> None) create_body)
       (\<lambda>(status, text, j). give (if status \<noteq> 201 then Inl (js ''room create failed: '' @ nat_digits status @ [32] @ text)
          else case j of None \<Rightarrow> Inl (js ''SyntaxError'') | Some room \<Rightarrow> if room = JNull then Inl (js ''TypeError'') else Inr room))"

text \<open>Both peers are bound: the sockets of the listener and the joiner.\<close>

definition bind_peers :: "(json \<Rightarrow> js_string) \<Rightarrow> 'w service_api \<Rightarrow> js_string \<Rightarrow> json option \<Rightarrow> ('w, nat \<times> nat) act" where
  "bind_peers show sv url secret =
     andDo (connect sv url) (\<lambda>listener.
     andDo (inbox_send sv listener (message ([(''type'', JStr (js ''bind'')), (''role'', JStr (js ''listener''))]
       @ (case secret of None \<Rightarrow> [] | Some s \<Rightarrow> [(''secret'', s)])))) (\<lambda>_.
     andDo (expect show sv listener [(''type'', js ''bound''), (''role'', js ''listener'')] ''listener bind'') (\<lambda>_.
     andDo (connect sv url) (\<lambda>joiner.
     andDo (inbox_send sv joiner (message [(''type'', JStr (js ''bind'')), (''role'', JStr (js ''joiner''))])) (\<lambda>_.
     andDo (expect show sv joiner [(''type'', js ''bound''), (''role'', js ''joiner'')] ''joiner bind'') (\<lambda>_.
     andDo (expect show sv listener [(''type'', js ''peer_ready'')] ''listener ready'') (\<lambda>_.
     andDo (expect show sv joiner [(''type'', js ''peer_ready'')] ''joiner ready'') (\<lambda>_.
     give (Inr (listener, joiner))))))))))"

text \<open>The exchange and the end of the room.\<close>

definition exchange :: "(json \<Rightarrow> js_string) \<Rightarrow> 'w service_api \<Rightarrow> js_string \<Rightarrow> nat \<Rightarrow> nat \<Rightarrow> nat \<Rightarrow> js_string \<Rightarrow> js_string \<Rightarrow> js_string \<Rightarrow> ('w, unit) act" where
  "exchange show sv url index listener joiner offer answer candidate =
     andDo (inbox_send sv joiner (message [(''type'', JStr (js ''description'')), (''sdp_type'', JStr (js ''offer'')), (''sdp'', JStr offer)])) (\<lambda>_.
     andDo (expect show sv listener [(''type'', js ''description''), (''sdp'', offer)] ''offer forward'') (\<lambda>_.
     andDo (inbox_send sv listener (message [(''type'', JStr (js ''description'')), (''sdp_type'', JStr (js ''answer'')), (''sdp'', JStr answer)])) (\<lambda>_.
     andDo (expect show sv joiner [(''type'', js ''description''), (''sdp'', answer)] ''answer forward'') (\<lambda>_.
     andDo (inbox_send sv joiner (message [(''type'', JStr (js ''candidate'')), (''candidate'', JStr candidate), (''sdp_mid'', JStr (js ''0'')),
       (''sdp_mline_index'', JNum 0), (''username_fragment'', JStr (js ''fragment-'' @ nat_digits index))])) (\<lambda>_.
     andDo (expect show sv listener [(''type'', js ''candidate''), (''candidate'', candidate)] ''candidate forward'') (\<lambda>_.
     andDo (inbox_send sv joiner (message [(''type'', JStr (js ''leave''))])) (\<lambda>_.
     andDo (expect show sv listener [(''type'', js ''peer_left'')] ''peer-left notification'') (\<lambda>_.
     (\<lambda>w. case sv_probe sv url w of (s, w') \<Rightarrow> (settled_result s (), w'))))))))))"

text \<open>\<open>runOne\<close>; the result are the texts pushed to \<open>sentinels\<close>.\<close>

definition template :: "(json \<Rightarrow> js_string) \<Rightarrow> json option \<Rightarrow> js_string" where
  "template show v = (case v of None \<Rightarrow> js ''undefined'' | Some (JStr s) \<Rightarrow> s | Some j \<Rightarrow> show j)"

definition sentinel :: "(json \<Rightarrow> js_string) \<Rightarrow> json option \<Rightarrow> js_string" where
  "sentinel show v = (case v of None \<Rightarrow> [] | Some JNull \<Rightarrow> [] | _ \<Rightarrow> template show v)"

definition runOne :: "(json \<Rightarrow> js_string) \<Rightarrow> (js_string \<Rightarrow> url option) \<Rightarrow> 'w service_api \<Rightarrow> js_string \<Rightarrow> js_string option \<Rightarrow> js_string \<Rightarrow> nat
    \<Rightarrow> ('w, js_string list) act" where
  "runOne show parse sv baseUrl token uuid index =
     andDo (create_room sv baseUrl token) (\<lambda>room.
     andDo (give (websocketUrl parse baseUrl (template show (json_field ''code'' room)))) (\<lambda>url.
     andDo (bind_peers show sv url (json_field ''listener_secret'' room)) (\<lambda>(listener, joiner).
     let suffix = nat_digits index @ [45] @ uuid; offer = js ''signal-smoke-offer-'' @ suffix; answer = js ''signal-smoke-answer-'' @ suffix;
         candidate = js ''signal-smoke-candidate-'' @ suffix
     in andDo (exchange show sv url index listener joiner offer answer candidate) (\<lambda>_.
        give (Inr [sentinel show (json_field ''listener_secret'' room), offer, answer, candidate])))))"

section \<open>The script\<close>

text \<open>\<open>parse_int\<close> is \<open>Number.parseInt(s, 10)\<close> of a text without leading space, and gives no number that is not finite.\<close>

definition smoke_iterations :: "js_string option \<Rightarrow> js_string + nat" where
  "smoke_iterations v = (case parse_int (dropWhile js_space (case v of None \<Rightarrow> js ''1'' | Some s \<Rightarrow> s)) of
     Some n \<Rightarrow> if n < 1 \<or> n > 100 then Inl (js ''SIGNAL_SMOKE_ITERATIONS must be 1..100'') else Inr (nat n)
   | None \<Rightarrow> Inl (js ''SIGNAL_SMOKE_ITERATIONS must be 1..100''))"

fun smoke_rooms :: "(nat \<Rightarrow> ('w, js_string list) act) \<Rightarrow> nat list \<Rightarrow> ('w, js_string list) act" where
  "smoke_rooms run [] = give (Inr [])"
| "smoke_rooms run (i # is) = andDo (run i) (\<lambda>ts. andDo (smoke_rooms run is) (\<lambda>us. give (Inr (ts @ us))))"

definition smoke_main :: "(json \<Rightarrow> js_string) \<Rightarrow> (js_string \<Rightarrow> url option) \<Rightarrow> 'w service_api \<Rightarrow> js_string option \<Rightarrow> js_string option \<Rightarrow> js_string option
    \<Rightarrow> js_string option \<Rightarrow> (nat \<Rightarrow> js_string) \<Rightarrow> ('w, driver_action list) act" where
  "smoke_main show parse sv baseUrl iterations token sentinelFile uuid =
     andDo (give (case baseUrl of Some (c # b) \<Rightarrow> Inr (c # b) | _ \<Rightarrow> Inl (js ''usage: signal-smoke-test.mjs <http(s)://host/v1/signal>''))) (\<lambda>base.
     andDo (give (smoke_iterations iterations)) (\<lambda>n.
     andDo (smoke_rooms (\<lambda>i. runOne show parse sv base token (uuid i) i) [0..<n]) (\<lambda>sentinels.
     give (Inr ((case sentinelFile of Some (c # f) \<Rightarrow> [WriteFile (c # f) (join [10] sentinels @ [10])] | _ \<Rightarrow> [])
       @ [Print (js ''signaling smoke passed ('' @ nat_digits n @ js '' room'' @ (if n = 1 then [] else js ''s'') @ js '')'')])))))"

section \<open>The inbox keeps the order, until a wait times out\<close>

definition timer_free :: "inbox_event list \<Rightarrow> bool" where
  "timer_free es = list_all (\<lambda>e. case e of NextTimer _ \<Rightarrow> False | _ \<Rightarrow> True) es"

fun arrived :: "inbox_event \<Rightarrow> js_string list" where
  "arrived (Arrives t) = [t]"
| "arrived _ = []"

fun asked :: "inbox_event \<Rightarrow> nat list" where
  "asked (Next k) = [k]"
| "asked _ = []"

lemma inbox_fifo:
  assumes "timer_free es" and "distinct (concat (map asked es))" and "b = run_steps inbox_step new_inbox es"
  shows "map snd (ib_results b) @ map Inr (ib_queued b) = map Inr (concat (map arrived es))
    \<and> map fst (ib_results b) @ ib_waiters b = concat (map asked es) \<and> (ib_queued b = [] \<or> ib_waiters b = [])"
  using assms
proof (induction es arbitrary: b rule: rev_induct)
  case Nil
  then show ?case by (simp add: new_inbox_def)
next
  case (snoc e es)
  define a where "a = run_steps inbox_step new_inbox es"
  have a: "map snd (ib_results a) @ map Inr (ib_queued a) = map Inr (concat (map arrived es))" "map fst (ib_results a) @ ib_waiters a = concat (map asked es)"
    "ib_queued a = [] \<or> ib_waiters a = []"
    using snoc.IH [OF _ _ a_def] snoc.prems by (auto simp: timer_free_def)
  have "distinct ((map fst (ib_results a) @ ib_waiters a) @ asked e)" unfolding a(2) using snoc.prems(2) by simp
  then have d: "distinct (map fst (ib_results a) @ ib_waiters a @ asked e)" by simp
  have fresh: "k \<in> set (ib_waiters a @ asked e) \<Longrightarrow> map_of (ib_results a) k = None" for k using d by (auto simp: map_of_eq_None_iff)
  have b: "b = inbox_step a e" using snoc.prems(3) by (simp add: run_steps_append a_def)
  show ?case
  proof (cases e)
    case (Arrives t)
    then show ?thesis using a fresh by (cases "ib_waiters a") (auto simp: b settle_next_def)
  next
    case (Next k)
    then show ?thesis using a fresh by (cases "ib_queued a") (auto simp: b settle_next_def)
  next
    case (NextTimer k)
    then show ?thesis using snoc.prems(1) by (simp add: timer_free_def)
  qed
qed

text \<open>After a timeout the abandoned waiter takes the next frame, and the frame is lost.\<close>

lemma inbox_loses_frame:
  "ib_results (run_steps inbox_step new_inbox [Next 0, NextTimer 0, Arrives t, Next 1]) = [(0, Inl (js ''timed out waiting for signaling frame''))]
   \<and> ib_queued (run_steps inbox_step new_inbox [Next 0, NextTimer 0, Arrives t, Next 1]) = []
   \<and> ib_waiters (run_steps inbox_step new_inbox [Next 0, NextTimer 0, Arrives t, Next 1]) = [1]"
  by (simp add: new_inbox_def settle_next_def)

end
