(* ===== verification/SmokeService.thy ===== *)
theory SmokeService
  imports SmokeTest
begin

text \<open>
  The smoke test run against the model of the service: \<open>SignalRoutes\<close> creates and connects, \<open>SignalRoom\<close> handles the
  frames, and the frames a room sends arrive in the inbox of their socket.  The test passes.
\<close>

section \<open>Steps of a room\<close>

definition peer_socket :: "nat \<Rightarrow> js_string \<Rightarrow> int \<Rightarrow> SignalRole option \<Rightarrow> js_string list \<Rightarrow> socket" where
  "peer_socket i u t role fs = \<lparr>sid = i, readyState = OPEN,
     ws_attachment = Some \<lparr>a_version = SIGNAL_PROTOCOL_VERSION, sessionId = u, connectedAt = t, bound = (role \<noteq> None), a_role = role\<rparr>,
     sent = fs, close_call = None\<rparr>"

definition room_is :: "room \<Rightarrow> SignalRoomRow \<Rightarrow> socket list \<Rightarrow> bool" where
  "room_is r w ss \<longleftrightarrow> room_row r = Some w \<and> sockets r = ss \<and> pending r = [] \<and> next_sid r = length ss"

text \<open>A frame arrives, and the digest it may need is computed before anything else happens.\<close>

definition room_said :: "runtime \<Rightarrow> int \<Rightarrow> nat \<Rightarrow> js_string \<Rightarrow> room \<Rightarrow> room" where
  "room_said rt now i t r = (let r' = room_step rt r (Message now i (TextFrame t))
     in if pending r' = [] then r' else room_step rt r' (SecretChecked now 0))"

lemma peer_socket_simps [simp]:
  "sid (peer_socket i u t role fs) = i" "readyState (peer_socket i u t role fs) = OPEN" "sent (peer_socket i u t role fs) = fs"
  "attachment (peer_socket i u t role fs) = Some \<lparr>a_version = SIGNAL_PROTOCOL_VERSION, sessionId = u, connectedAt = t, bound = (role \<noteq> None), a_role = role\<rparr>"
  "holds_role x (peer_socket i u t role fs) \<longleftrightarrow> role = Some x"
  "(peer_socket i u t role fs)\<lparr>sent := gs\<rparr> = peer_socket i u t role gs"
  "(peer_socket i u t role fs)\<lparr>ws_attachment := Some \<lparr>a_version = SIGNAL_PROTOCOL_VERSION, sessionId = u, connectedAt = t, bound = True, a_role = Some x\<rparr>\<rparr> = peer_socket i u t (Some x) fs"
  by (auto simp: peer_socket_def attachment_def holds_role_def)

lemma expires_in_minute: "c \<le> now \<Longrightarrow> 0 \<le> expires_in (c + 60000) now \<and> expires_in (c + 60000) now \<le> 3600"
proof -
  assume c: "c \<le> now"
  have "(- 60000) div 1000 \<le> (now - (c + 60000)) div 1000" using c by (intro zdiv_mono1) simp_all
  then show ?thesis by (simp add: expires_in_def)
qed

lemma serialize_small: "serverSignalMessageSchema m \<Longrightarrow> serializeSignalMessage m = Some (server_text m)"
  by (simp add: serializeSignalMessage_def)

lemmas room_steps = webSocketMessage_def catching_def message_body_def find_socket_def bindSocket_def bind_role_def announce_bind_def boundSocket_def
  upd_socket_def update_row_def safeSend_def safeSendSerialized_def serialize_small scheduleNextAlarm_def ok_def seq_def SIGNAL_BIND_DEADLINE_MS_def Let_def

lemma room_opens:
  assumes "room_is r w ss" and "length ss < 4" and "lifecycle w \<noteq> Closed" and "now < expires_at w"
  shows "\<exists>r'. fetch rt now u True (Some (js ''websocket'')) r = (Upgraded (length ss), r') \<and> room_is r' w (ss @ [peer_socket (length ss) u now None []])"
proof -
  have "map ascii_lower (js ''websocket'') = js ''websocket''" by (simp add: ascii_lower_def)
  then show ?thesis
    using assms by (auto simp: room_is_def fetch_def scheduleNextAlarm_def accept_socket_def ok_def peer_socket_def simp del: js_simps)
qed

lemma listener_binds:
  assumes "room_is r w [peer_socket 0 u t None []]" and "lifecycle w = ListenerCreated" and "expires_at w = c + 60000" and "c \<le> now" "now \<le> t + 5000" "now < c + 60000"
    and "parseSignalFrame (TextFrame s) = Inr (BindListener secret)" and "verifyListenerSecret (rt_sha256 rt) secret (listener_secret_hash w)"
  shows "\<exists>n. 0 \<le> n \<and> n \<le> 3600 \<and> room_is (room_said rt now 0 s r) (w\<lparr>lifecycle := ListenerBound\<rparr>) [peer_socket 0 u t (Some Listener) [server_text (ServerSignalMessage.Bound Listener n)]]"
proof -
  let ?a = "\<lparr>a_version = SIGNAL_PROTOCOL_VERSION, sessionId = u, connectedAt = t, bound = False, a_role = None\<rparr>"
  have e: "0 \<le> expires_in (c + 60000) now" "expires_in (c + 60000) now \<le> 3600" using expires_in_minute assms(4) by auto
  have m: "room_step rt r (Message now 0 (TextFrame s)) = r\<lparr>pending := [\<lparr>pb_socket = 0, pb_attachment = ?a, pb_secret = secret, pb_row = w\<rparr>]\<rparr>"
    using assms by (simp add: room_is_def room_steps)
  have "room_is (room_said rt now 0 s r) (w\<lparr>lifecycle := ListenerBound\<rparr>) [peer_socket 0 u t (Some Listener) [server_text (ServerSignalMessage.Bound Listener (expires_in (c + 60000) now))]]"
    unfolding room_said_def Let_def m
    using assms(1-3,8) e by (simp add: secret_checked_def bind_verified_def room_is_def room_steps)
  with e show ?thesis by blast
qed

lemma joiner_binds:
  assumes "room_is r w [peer_socket 0 u t (Some Listener) fs, peer_socket 1 v t' None []]" and "lifecycle w = ListenerBound" and "expires_at w = c + 60000"
    and "c \<le> now" "now \<le> t' + 5000" "now < c + 60000" and "parseSignalFrame (TextFrame s) = Inr BindJoiner"
  shows "\<exists>n. 0 \<le> n \<and> n \<le> 3600 \<and> room_is (room_said rt now 1 s r) (w\<lparr>lifecycle := Paired\<rparr>)
    [peer_socket 0 u t (Some Listener) (fs @ [server_text PeerReady]), peer_socket 1 v t' (Some Joiner) [server_text (ServerSignalMessage.Bound Joiner n), server_text PeerReady]]"
proof -
  have e: "0 \<le> expires_in (c + 60000) now" "expires_in (c + 60000) now \<le> 3600" using expires_in_minute assms(4) by auto
  then have "room_is (room_said rt now 1 s r) (w\<lparr>lifecycle := Paired\<rparr>) [peer_socket 0 u t (Some Listener) (fs @ [server_text PeerReady]),
      peer_socket 1 v t' (Some Joiner) [server_text (ServerSignalMessage.Bound Joiner (expires_in (c + 60000) now)), server_text PeerReady]]"
    using assms by (simp add: room_said_def room_is_def room_steps)
  with e show ?thesis by blast
qed


lemma peer_relays:
  assumes "room_is r w [peer_socket 0 u t (Some Listener) fs, peer_socket 1 v t' (Some Joiner) gs]" and "lifecycle w = Paired" and "now < expires_at w"
    and "parseSignalFrame (TextFrame s) = Inr (Relay m)" and "relay_ok m" and "relay_allowed role m (server_text (Relayed m)) w"
  shows "room_is (room_said rt now (if role = Joiner then 1 else 0) s r) (count_message role m (utf8_length (server_text (Relayed m))) w)
    [peer_socket 0 u t (Some Listener) (if role = Joiner then fs @ [server_text (Relayed m)] else fs),
     peer_socket 1 v t' (Some Joiner) (if role = Joiner then gs else gs @ [server_text (Relayed m)])]"
proof -
  have s: "serializeSignalMessage (Relayed m) = Some (server_text (Relayed m))" using assms(5) by (simp add: serializeSignalMessage_def)
  have a: "legal_description role m w" "\<not> MAX_SIGNAL_FORWARDED_BYTES < forwarded_bytes w + utf8_length (server_text (Relayed m))"
    "\<not> (is_candidate m \<and> MAX_SIGNAL_CANDIDATES_PER_PEER \<le> role_candidates role w)"
    using assms(6) by (auto simp: relay_allowed_def)
  show ?thesis
    using assms(1-4) a s by (cases role; cases "is_candidate m") (simp_all add: room_said_def room_is_def room_steps forward_def)
qed

lemma joiner_leaves:
  assumes "room_is r w [peer_socket 0 u t (Some Listener) fs, peer_socket 1 v t' (Some Joiner) gs]" and "lifecycle w = Paired" and "now < expires_at w"
    and "parseSignalFrame (TextFrame s) = Inr Leave" and "r' = room_said rt now 1 s r"
  shows "\<exists>w'. room_row r' = Some w' \<and> lifecycle w' = Closed \<and> terminal_reason w' = Some (js ''peer_left'') \<and> pending r' = []
    \<and> map sid (sockets r') = [0, 1] \<and> map sent (sockets r') = [fs @ [server_text PeerLeft], gs]"
proof -
  have "closing_text None = server_text PeerLeft" by (simp add: closing_text_def closing_message_def)
  then show ?thesis
    using assms closeRoom_effect [of r w rt "''peer_left''" "Some 1" None 1000]
    by (simp add: room_said_def room_is_def webSocketMessage_def catching_def message_body_def find_socket_def closed_socket_def close_socket_def Let_def)
qed

section \<open>The texts of the test\<close>

lemma message_typed: "message ((''type'', JStr (js t)) # fs) = typed t fs"
  by (simp add: message_def typed_def SIGNAL_PROTOCOL_VERSION_def)

lemma server_text_parsed: "serverSignalMessageSchema m \<Longrightarrow> scalar_server m \<Longrightarrow> JSON_parse (server_text m) = Some (server_json m)"
  by (rule JSON_roundtrip) (rule json_ok_server)

lemma said_parsed:
  assumes "client_ok m" "scalar_client m" "json_small (client_json m)" "4 * json_bound (client_json m) \<le> 60000"
  shows "parseSignalFrame (TextFrame (JSON_stringify int_num (client_json m))) = Inr m"
  using assms utf8_stringify_le [OF assms(3), of 60000] by (intro parse_client_text) (simp_all add: encodedBytes_def MAX_SIGNAL_FRAME_BYTES_def)

text \<open>The texts the two peers exchange.\<close>

definition short :: "js_string \<Rightarrow> bool" where
  "short s \<longleftrightarrow> s \<noteq> [] \<and> list_all scalar_value s \<and> length s \<le> 150"

definition smoke_candidate :: "js_string \<Rightarrow> nat \<Rightarrow> candidate" where
  "smoke_candidate s index = \<lparr>cand = s, sdp_mid = Some (js ''0''), sdp_mline_index = Some 0, username_fragment = Some (js ''fragment-'' @ nat_digits index)\<rparr>"

definition smoke_relay :: "relay_message \<Rightarrow> bool" where
  "smoke_relay m \<longleftrightarrow> (\<exists>t s. m = Description t s \<and> short s) \<or> (\<exists>s i. m = Candidate (smoke_candidate s i) \<and> short s \<and> i < 100)"

lemma short_ok_limits: "short s \<Longrightarrow> sdp_ok s \<and> cand_ok s"
  using utf8_length_le [of s] u16_length_pos [of s]
  by (auto simp: short_def sdp_ok_def cand_ok_def encodedBytes_def MAX_SIGNAL_SDP_BYTES_def MAX_SIGNAL_CANDIDATE_BYTES_def)

lemma fragment_text: "i < 100 \<Longrightarrow> length (js ''fragment-'' @ nat_digits i) \<le> 11 \<and> ascii (js ''fragment-'' @ nat_digits i)"
  using length_nat_digits [of i 2] nat_digits_digit [of i] by (auto simp: ascii_def list_all_iff is_digit_def)

lemma ascii_scalar: "ascii s \<Longrightarrow> list_all scalar_value s"
  by (auto simp: ascii_def list_all_iff scalar_value_def)

lemma smoke_relay_text:
  assumes "smoke_relay m"
  shows "relay_ok m" "parseSignalFrame (TextFrame (JSON_stringify int_num (relay_json m))) = Inr (Relay m)"
    "JSON_parse (server_text (Relayed m)) = Some (relay_json m)" "utf8_length (server_text (Relayed m)) \<le> 60000"
proof -
  have f: "i < 100 \<Longrightarrow> length (nat_digits i) \<le> 2 \<and> u16_length (js ''fragment-'' @ nat_digits i) \<le> 256 \<and> list_all scalar_value (js ''fragment-'' @ nat_digits i)" for i
    using fragment_text [of i] ascii_scalar [of "js ''fragment-'' @ nat_digits i"] length_nat_digits [of i 2] by (auto simp: u16_length_ascii simp del: js_simps)
  show ok: "relay_ok m" using assms f short_ok_limits
    by (auto simp: smoke_relay_def smoke_candidate_def short_ok_def u16_length_def simp del: u16_length_digits)
  have sc: "scalar_relay m" using assms f js_scalar [of "''0''"] by (auto simp: smoke_relay_def smoke_candidate_def short_def simp del: js_simps)
  have g: "i < 100 \<Longrightarrow> length (nat_digits i) \<le> 2" for i using length_nat_digits [of i 2] by simp
  have l: "length (sdp_type_text t) \<le> 10" for t by (cases t) simp_all
  have small: "json_small (relay_json m) \<and> 4 * json_bound (relay_json m) \<le> 60000"
    using assms unfolding smoke_relay_def
  proof (elim disjE exE conjE)
    show "json_small (relay_json m) \<and> 4 * json_bound (relay_json m) \<le> 60000" if "m = Description t s" "short s" for t s
      using that l [of t] by (simp_all add: short_def typed_def SIGNAL_PROTOCOL_VERSION_def)
    show "json_small (relay_json m) \<and> 4 * json_bound (relay_json m) \<le> 60000" if "m = Candidate (smoke_candidate s i)" "short s" "i < 100" for s i
      using that g [of i] by (simp_all add: short_def smoke_candidate_def typed_def SIGNAL_PROTOCOL_VERSION_def nullable_json_def)
  qed
  show "parseSignalFrame (TextFrame (JSON_stringify int_num (relay_json m))) = Inr (Relay m)"
    using said_parsed [of "Relay m"] ok sc small by simp
  show "JSON_parse (server_text (Relayed m)) = Some (relay_json m)" using server_text_parsed [of "Relayed m"] ok sc by simp
  show "utf8_length (server_text (Relayed m)) \<le> 60000" using small utf8_stringify_le by simp
qed


section \<open>The service behind the test\<close>

text \<open>
  The rooms, and for every socket the test has opened: the code of its room, its identity there, the number of frames that arrived and its
  inbox.  Operations happen at \<open>sr_clock\<close> of their number.  \<open>sr_code\<close> is the room parameter the router
  reads from an address; authorization has granted the request.
\<close>

record service_run =
  sr_rt :: runtime
  sr_up :: "nat \<Rightarrow> js_string"
  sr_clock :: "nat \<Rightarrow> int"
  sr_secret :: "byte list"
  sr_draws :: "nat \<Rightarrow> byte list"
  sr_rpc :: "nat \<Rightarrow> nat \<Rightarrow> rpc_fate"
  sr_uuid :: "nat \<Rightarrow> js_string"
  sr_code :: "js_string \<Rightarrow> js_string option"

record smoke_net =
  sn_rooms :: rooms
  sn_socks :: "(js_string \<times> nat \<times> nat \<times> inbox) list"
  sn_tick :: nat

definition tick :: "smoke_net \<Rightarrow> smoke_net" where
  "tick w = w\<lparr>sn_tick := Suc (sn_tick w)\<rparr>"

definition net_post :: "service_run \<Rightarrow> js_string \<Rightarrow> js_string option \<Rightarrow> js_string \<Rightarrow> smoke_net \<Rightarrow> (js_string + nat \<times> js_string \<times> json option) \<times> smoke_net" where
  "net_post q url auth text w = (case createSignalRoomRoute (rt_sha256 (sr_rt q)) (Some text) (sr_clock q (sn_tick w)) (sr_secret q) (sr_draws q) (sr_rpc q) (sn_rooms w) of
     (Inl e, rs) \<Rightarrow> (Inl (js ''fetch failed''), tick (w\<lparr>sn_rooms := rs\<rparr>))
   | (Inr resp, rs) \<Rightarrow> (Inr (status resp, [], case body resp of JsonBody j \<Rightarrow> Some j | _ \<Rightarrow> None), tick (w\<lparr>sn_rooms := rs\<rparr>)))"

definition net_connect :: "service_run \<Rightarrow> js_string \<Rightarrow> smoke_net \<Rightarrow> fetch_response option \<times> smoke_net" where
  "net_connect q url w = (case sr_code q url of
     None \<Rightarrow> (None, tick w)
   | Some param \<Rightarrow> (case connectSignalRoomRoute (sr_rt q) (sr_up q) param (sr_clock q (sn_tick w)) (sr_uuid q (sn_tick w)) True (Some (js ''websocket'')) (sn_rooms w) of
       (NotFound resp, rs) \<Rightarrow> (None, tick (w\<lparr>sn_rooms := rs\<rparr>))
     | (FromRoom f, rs) \<Rightarrow> (Some f, tick (w\<lparr>sn_rooms := rs\<rparr>))))"

definition net_open :: "service_run \<Rightarrow> js_string \<Rightarrow> smoke_net \<Rightarrow> settled \<times> nat \<times> smoke_net" where
  "net_open q url w = (case net_connect q url w of
     (Some (Upgraded i), w') \<Rightarrow> (openSocket [WsOpen], length (sn_socks w'),
        w'\<lparr>sn_socks := sn_socks w' @ [(the (Option.bind (sr_code q url) (normalizeCode (sr_up q))), i, 0, new_inbox)]\<rparr>)
   | (_, w') \<Rightarrow> (openSocket [WsError, WsClose], 0, w'))"

definition net_probe :: "service_run \<Rightarrow> js_string \<Rightarrow> smoke_net \<Rightarrow> settled \<times> smoke_net" where
  "net_probe q url w = (case net_connect q url w of
     (Some (Upgraded i), w') \<Rightarrow> (expectUpgradeRejected [WsOpen], w')
   | (_, w') \<Rightarrow> (expectUpgradeRejected [WsError, WsClose], w'))"

definition net_send :: "service_run \<Rightarrow> nat \<Rightarrow> js_string \<Rightarrow> smoke_net \<Rightarrow> smoke_net" where
  "net_send q h t w = (case sn_socks w ! h of
     (code, i, n, b) \<Rightarrow> tick (w\<lparr>sn_rooms := (sn_rooms w)(code := room_said (sr_rt q) (sr_clock q (sn_tick w)) i t (sn_rooms w code))\<rparr>))"

definition frames :: "room \<Rightarrow> nat \<Rightarrow> js_string list" where
  "frames r i = (case find_socket i r of None \<Rightarrow> [] | Some s \<Rightarrow> sent s)"

text \<open>\<open>next\<close>: what the room has sent arrives, then the call is made; if it is not settled its timer fires.\<close>

definition net_next :: "service_run \<Rightarrow> nat \<Rightarrow> smoke_net \<Rightarrow> (js_string + js_string) \<times> smoke_net" where
  "net_next q h w = (case sn_socks w ! h of
     (code, i, n, b) \<Rightarrow>
       let fs = frames (sn_rooms w code) i; k = length (ib_results b);
           b' = run_steps inbox_step b (map Arrives (drop n fs) @ [Next k]);
           b'' = (if map_of (ib_results b') k = None then inbox_step b' (NextTimer k) else b')
       in (the (map_of (ib_results b'') k), tick (w\<lparr>sn_socks := (sn_socks w)[h := (code, i, length fs, b'')]\<rparr>)))"

definition net_api :: "service_run \<Rightarrow> smoke_net service_api" where
  "net_api q = \<lparr>sv_post = net_post q, sv_open = net_open q, sv_send = net_send q, sv_next = net_next q, sv_probe = net_probe q\<rparr>"

section \<open>Reading\<close>

text \<open>An inbox of which \<open>c\<close> frames were read, with the rest of the first \<open>n\<close> waiting.\<close>

definition reads :: "js_string list \<Rightarrow> nat \<Rightarrow> nat \<Rightarrow> inbox \<Rightarrow> bool" where
  "reads fs c n b \<longleftrightarrow> c \<le> n \<and> n \<le> length fs \<and> ib_queued b = drop c (take n fs) \<and> ib_waiters b = [] \<and> map fst (ib_results b) = [0..<c]"

lemma reads_new: "reads fs 0 0 new_inbox"
  by (simp add: reads_def new_inbox_def)

lemma reads_more: "reads fs c n b \<Longrightarrow> reads (fs @ gs) c n b"
  by (auto simp: reads_def)

lemma inbox_arrivals: "ib_waiters b = [] \<Longrightarrow> run_steps inbox_step b (map Arrives ts) = b\<lparr>ib_queued := ib_queued b @ ts\<rparr>"
  by (induction ts arbitrary: b) simp_all

lemma reads_next:
  assumes "reads fs c n b" and "c < length fs" and "b' = run_steps inbox_step b (map Arrives (drop n fs) @ [Next (length (ib_results b))])"
  shows "map_of (ib_results b') (length (ib_results b)) = Some (Inr (fs ! c)) \<and> reads fs (Suc c) (length fs) b'"
proof -
  have c: "length (ib_results b) = c" using assms(1) by (metis diff_zero length_map length_upt reads_def)
  have "drop c (take n fs) @ drop n fs = drop c fs" using assms(1) by (metis append_take_drop_id drop_append length_take min.absorb2 diff_is_0_eq drop_0 reads_def)
  then have q: "ib_queued b @ drop n fs = fs ! c # drop (Suc c) fs" using assms(1,2) by (simp add: reads_def Cons_nth_drop_Suc)
  have k: "map fst (ib_results b) = [0..<c]" using assms(1) by (simp add: reads_def)
  then have "map_of (ib_results b) c = None" by (metis atLeastLessThan_iff less_irrefl list.set_map map_of_eq_None_iff set_upt)
  then have "b' = b\<lparr>ib_queued := drop (Suc c) fs, ib_results := ib_results b @ [(c, Inr (fs ! c))]\<rparr>"
    using assms(1,3) q c by (simp add: run_steps_append inbox_arrivals reads_def settle_next_def)
  then show ?thesis using assms(1,2) c k \<open>map_of (ib_results b) c = None\<close> by (simp add: reads_def map_add_def)
qed


text \<open>The network and a room with its sockets in the order they were opened; \<open>cs\<close> counts the frames read.\<close>

definition tracks :: "js_string \<Rightarrow> room \<Rightarrow> nat list \<Rightarrow> smoke_net \<Rightarrow> bool" where
  "tracks code r cs w \<longleftrightarrow> sn_rooms w code = r \<and> length (sn_socks w) = length cs
     \<and> (\<forall>h < length cs. \<exists>n b. sn_socks w ! h = (code, h, n, b) \<and> reads (frames r h) (cs ! h) n b)"

lemma tick_simps [simp]: "sn_rooms (tick w) = sn_rooms w" "sn_socks (tick w) = sn_socks w"
  by (simp_all add: tick_def)

lemma net_reads:
  assumes "tracks code r cs w" and "h < length cs" and "cs ! h < length (frames r h)"
  shows "\<exists>w'. net_next q h w = (Inr (frames r h ! (cs ! h)), w') \<and> tracks code r (cs[h := Suc (cs ! h)]) w'"
proof -
  obtain n b where s: "sn_socks w ! h = (code, h, n, b)" "reads (frames r h) (cs ! h) n b" and r: "sn_rooms w code = r" "length (sn_socks w) = length cs"
    using assms(1,2) unfolding tracks_def by blast
  define b' where "b' = run_steps inbox_step b (map Arrives (drop n (frames r h)) @ [Next (length (ib_results b))])"
  note nx = reads_next [OF s(2) assms(3) b'_def]
  define w' where "w' = tick (w\<lparr>sn_socks := (sn_socks w)[h := (code, h, length (frames r h), b')]\<rparr>)"
  have "net_next q h w = (Inr (frames r h ! (cs ! h)), w')"
    unfolding net_next_def s(1) prod.case r(1) Let_def b'_def [symmetric] w'_def using nx by simp
  moreover have "tracks code r (cs[h := Suc (cs ! h)]) w'"
    using assms(1,2) nx r by (auto simp: tracks_def w'_def nth_list_update)
  ultimately show ?thesis by blast
qed

lemma net_expects:
  assumes "tracks code r cs w" and "h < length cs" and "cs ! h < length (frames r h)" and "JSON_parse (frames r h ! (cs ! h)) = Some j" and "assertSubset show j ex label = None"
  shows "\<exists>w'. expect show (net_api q) h ex label w = (Inr (), w') \<and> tracks code r (cs[h := Suc (cs ! h)]) w'"
proof -
  obtain w' where "net_next q h w = (Inr (frames r h ! (cs ! h)), w')" "tracks code r (cs[h := Suc (cs ! h)]) w'" using net_reads [OF assms(1-3)] by blast
  then show ?thesis using assms(4,5) by (simp add: expect_def inbox_next_def andDo_def give_def net_api_def)
qed

lemma net_says:
  assumes "tracks code r cs w" and "h < length cs" and "\<And>n. P (room_said (sr_rt q) (sr_clock q n) h (JSON_stringify int_num j) r)"
    and "\<And>r' i. P r' \<Longrightarrow> i < length cs \<Longrightarrow> \<exists>gs. frames r' i = frames r i @ gs"
  shows "\<exists>r' w'. inbox_send (net_api q) h j w = (Inr (), w') \<and> P r' \<and> tracks code r' cs w'"
proof -
  define r' where "r' = room_said (sr_rt q) (sr_clock q (sn_tick w)) h (JSON_stringify int_num j) r"
  obtain n b where s: "sn_socks w ! h = (code, h, n, b)" and r: "sn_rooms w code = r" using assms(1,2) unfolding tracks_def by blast
  define w' where "w' = tick (w\<lparr>sn_rooms := (sn_rooms w)(code := r')\<rparr>)"
  have "inbox_send (net_api q) h j w = (Inr (), w')" by (simp add: inbox_send_def net_api_def net_send_def s r r'_def w'_def)
  moreover have p: "P r'" using assms(3) by (simp add: r'_def)
  moreover have "tracks code r' cs w'"
    unfolding tracks_def
  proof (intro conjI allI impI)
    fix i assume i: "i < length cs"
    then obtain m d where "sn_socks w ! i = (code, i, m, d)" "reads (frames r i) (cs ! i) m d" using assms(1) unfolding tracks_def by blast
    moreover obtain gs where "frames r' i = frames r i @ gs" using assms(4) [OF p i] by blast
    ultimately show "\<exists>m d. sn_socks w' ! i = (code, i, m, d) \<and> reads (frames r' i) (cs ! i) m d" using reads_more by (simp add: w'_def)
  qed (use assms(1) in \<open>simp_all add: tracks_def w'_def\<close>)
  ultimately show ?thesis by blast
qed

lemma net_connects:
  assumes "tracks code r cs w" and "sr_code q url = Some param" and "normalizeCode (sr_up q) param = Some code"
    and "\<And>n. \<exists>r'. fetch (sr_rt q) (sr_clock q n) (sr_uuid q n) True (Some (js ''websocket'')) r = (Upgraded (length cs), r') \<and> P (sr_uuid q n) (sr_clock q n) r'"
    and "\<And>u t r' i. P u t r' \<Longrightarrow> i < length cs \<Longrightarrow> frames r' i = frames r i"
  shows "\<exists>u n r' w'. connect (net_api q) url w = (Inr (length cs), w') \<and> P u (sr_clock q n) r' \<and> tracks code r' (cs @ [0]) w'"
proof -
  obtain r' where f: "fetch (sr_rt q) (sr_clock q (sn_tick w)) (sr_uuid q (sn_tick w)) True (Some (js ''websocket'')) r = (Upgraded (length cs), r')"
    and p: "P (sr_uuid q (sn_tick w)) (sr_clock q (sn_tick w)) r'" using assms(4) by blast
  have r: "sn_rooms w code = r" "length (sn_socks w) = length cs" using assms(1) by (simp_all add: tracks_def)
  define w' where "w' = (tick (w\<lparr>sn_rooms := (sn_rooms w)(code := r')\<rparr>))\<lparr>sn_socks := sn_socks w @ [(code, length cs, 0, new_inbox)]\<rparr>"
  have "connect (net_api q) url w = (Inr (length cs), w')"
    using f r assms(2,3)
    by (simp add: connect_def net_api_def net_open_def net_connect_def connectSignalRoomRoute_def openSocket_def settled_result_def w'_def del: js_simps)
  moreover have "tracks code r' (cs @ [0]) w'"
    unfolding tracks_def
  proof (intro conjI allI impI)
    fix i assume "i < length (cs @ [0])"
    then consider "i < length cs" | "i = length cs" by force
    then show "\<exists>n b. sn_socks w' ! i = (code, i, n, b) \<and> reads (frames r' i) ((cs @ [0]) ! i) n b"
    proof cases
      case 1
      then show ?thesis using assms(1) assms(5) [OF p 1] r(2) by (auto simp: tracks_def w'_def nth_append)
    next
      case 2
      then show ?thesis using r(2) reads_new by (simp add: w'_def nth_append)
    qed
  qed (use r in \<open>simp_all add: w'_def\<close>)
  ultimately show ?thesis using p by blast
qed


section \<open>The test passes\<close>

lemma andDo_Inr: "m w = (Inr x, w') \<Longrightarrow> andDo m k w = k x w'"
  by (simp add: andDo_def)

lemma frames_one: "room_is r w [peer_socket 0 u t ro fs] \<Longrightarrow> frames r 0 = fs"
  by (simp add: room_is_def frames_def find_socket_def)

lemma frames_two: "room_is r w [peer_socket 0 u t ro fs, peer_socket 1 v t' ro' gs] \<Longrightarrow> frames r 0 = fs \<and> frames r 1 = gs"
  by (simp add: room_is_def frames_def find_socket_def)

text \<open>The next frame of a socket is a message the test expects.\<close>

lemma net_hears:
  assumes "tracks code r cs w" and "h < length cs" and "drop (cs ! h) (frames r h) = server_text m # rest" and "serverSignalMessageSchema m" and "scalar_server m"
    and "assertSubset show (server_json m) ex label = None"
  shows "\<exists>w'. expect show (net_api q) h ex label w = (Inr (), w') \<and> tracks code r (cs[h := Suc (cs ! h)]) w'"
proof (rule net_expects [OF assms(1,2)])
  show c: "cs ! h < length (frames r h)" using assms(3) by (metis drop_all list.distinct(1) not_le_imp_less)
  have "frames r h ! (cs ! h) = server_text m" using assms(3) c by (metis hd_drop_conv_nth list.sel(1))
  then show "JSON_parse (frames r h ! (cs ! h)) = Some (server_json m)" using server_text_parsed [OF assms(4,5)] by simp
qed (rule assms(6))

lemma field_typed: "field_of (typed t fs) k = (if k = ''v'' then Some (JNum 1) else if k = ''type'' then Some (JStr (js t)) else map_of fs k)"
  by (simp add: field_of_def json_field_typed SIGNAL_PROTOCOL_VERSION_def) (simp add: typed_def)

lemma expected_messages:
  "assertSubset show (server_json (ServerSignalMessage.Bound role n)) [(''type'', js ''bound''), (''role'', role_text role)] label = None"
  "assertSubset show (server_json PeerReady) [(''type'', js ''peer_ready'')] label = None"
  "assertSubset show (server_json PeerLeft) [(''type'', js ''peer_left'')] label = None"
  "assertSubset show (server_json (Relayed (Description t s))) [(''type'', js ''description''), (''sdp'', s)] label = None"
  "assertSubset show (server_json (Relayed (Candidate k))) [(''type'', js ''candidate''), (''candidate'', cand k)] label = None"
  by (simp_all add: field_typed del: js_simps)

text \<open>The hypotheses on the run of the service: connections within the deadline, and the address of the room.\<close>

definition in_time :: "service_run \<Rightarrow> int \<Rightarrow> bool" where
  "in_time q c \<longleftrightarrow> (\<forall>n. c \<le> sr_clock q n \<and> sr_clock q n \<le> c + 5000)"

lemma in_timeD: "in_time q c \<Longrightarrow> c \<le> sr_clock q n" "in_time q c \<Longrightarrow> sr_clock q n \<le> c + 5000"
  by (simp_all add: in_time_def)

lemma listener_joins:
  assumes t: "in_time q c" and url: "sr_code q url = Some param" "normalizeCode (sr_up q) param = Some code"
    and start: "tracks code r [] w" "room_is r row []" "lifecycle row = ListenerCreated" "expires_at row = c + 60000"
    and secret: "parseSignalFrame (TextFrame (JSON_stringify int_num (client_json (BindListener s)))) = Inr (BindListener s)"
      "verifyListenerSecret (rt_sha256 (sr_rt q)) s (listener_secret_hash row)"
  shows "\<exists>w1 w2 w3 r' u t n. connect (net_api q) url w = (Inr 0, w1) \<and> inbox_send (net_api q) 0 (client_json (BindListener s)) w1 = (Inr (), w2)
    \<and> expect show (net_api q) 0 [(''type'', js ''bound''), (''role'', js ''listener'')] ''listener bind'' w2 = (Inr (), w3)
    \<and> tracks code r' [1] w3 \<and> c \<le> t \<and> room_is r' (row\<lparr>lifecycle := ListenerBound\<rparr>) [peer_socket 0 u t (Some Listener) [server_text (ServerSignalMessage.Bound Listener n)]]"
proof -
  have now: "c \<le> sr_clock q n" "sr_clock q n \<le> c + 5000" for n using in_timeD [OF t] by auto
  have "\<exists>u n r' w'. connect (net_api q) url w = (Inr (length ([] :: nat list)), w') \<and> room_is r' row [peer_socket 0 u (sr_clock q n) None []] \<and> tracks code r' ([] @ [0]) w'"
  proof (rule net_connects [OF start(1) url, where P = "\<lambda>u t r'. room_is r' row [peer_socket 0 u t None []]"])
    fix n
    have "sr_clock q n < expires_at row" using now(2) [of n] start(4) by simp
    then show "\<exists>r'. fetch (sr_rt q) (sr_clock q n) (sr_uuid q n) True (Some (js ''websocket'')) r = (Upgraded (length ([] :: nat list)), r')
        \<and> room_is r' row [peer_socket 0 (sr_uuid q n) (sr_clock q n) None []]"
      using room_opens [OF start(2), of "sr_clock q n" "sr_rt q" "sr_uuid q n"] start(3) by simp
  qed simp
  then obtain u m r1 w1 where c1: "connect (net_api q) url w = (Inr 0, w1)" "room_is r1 row [peer_socket 0 u (sr_clock q m) None []]" "tracks code r1 [0] w1" by auto
  define P where "P = (\<lambda>r'. \<exists>n. 0 \<le> n \<and> n \<le> 3600 \<and> room_is r' (row\<lparr>lifecycle := ListenerBound\<rparr>) [peer_socket 0 u (sr_clock q m) (Some Listener) [server_text (ServerSignalMessage.Bound Listener n)]])"
  have "P (room_said (sr_rt q) (sr_clock q n) 0 (JSON_stringify int_num (client_json (BindListener s))) r1)" for n
    unfolding P_def using now(2) [of n] now(1) [of m] now(1) [of n] by (intro listener_binds [OF c1(2) start(3,4) _ _ _ secret]) simp_all
  moreover have "\<exists>gs. frames r' i = frames r1 i @ gs" if "P r'" "i < length [0]" for r' i
    using that frames_one [OF c1(2)] frames_one by (fastforce simp: P_def)
  ultimately obtain r2 w2 where c2: "inbox_send (net_api q) 0 (client_json (BindListener s)) w1 = (Inr (), w2)" "P r2" "tracks code r2 [0] w2"
    using net_says [OF c1(3), of 0 P q "client_json (BindListener s)"] by auto
  then obtain n where n: "0 \<le> n" "n \<le> 3600" "room_is r2 (row\<lparr>lifecycle := ListenerBound\<rparr>) [peer_socket 0 u (sr_clock q m) (Some Listener) [server_text (ServerSignalMessage.Bound Listener n)]]"
    unfolding P_def by blast
  have f: "frames r2 0 = [server_text (ServerSignalMessage.Bound Listener n)]" using frames_one [OF n(3)] .
  obtain w3 where "expect show (net_api q) 0 [(''type'', js ''bound''), (''role'', js ''listener'')] ''listener bind'' w2 = (Inr (), w3)" "tracks code r2 [1] w3"
    using net_hears [OF c2(3), of 0 "ServerSignalMessage.Bound Listener n" "[]" "show", OF _ _ _ _ expected_messages(1)] f n(1,2) by (auto simp del: server_json.simps js_simps)
  then show ?thesis using c1(1) c2(1) n(3) now(1) by blast
qed


lemma said_simple:
  "parseSignalFrame (TextFrame (JSON_stringify int_num (client_json BindJoiner))) = Inr BindJoiner"
  "parseSignalFrame (TextFrame (JSON_stringify int_num (client_json Leave))) = Inr Leave"
  by (rule said_parsed; simp add: typed_def SIGNAL_PROTOCOL_VERSION_def)+

lemma joiner_joins:
  assumes t: "in_time q c" and url: "sr_code q url = Some param" "normalizeCode (sr_up q) param = Some code"
    and start: "tracks code r [1] w" "room_is r row [peer_socket 0 u t (Some Listener) [f]]" "lifecycle row = ListenerBound" "expires_at row = c + 60000"
  shows "\<exists>w1 w2 w3 w4 w5 r' v t' g. connect (net_api q) url w = (Inr 1, w1) \<and> inbox_send (net_api q) 1 (client_json BindJoiner) w1 = (Inr (), w2)
    \<and> expect show (net_api q) 1 [(''type'', js ''bound''), (''role'', js ''joiner'')] ''joiner bind'' w2 = (Inr (), w3)
    \<and> expect show (net_api q) 0 [(''type'', js ''peer_ready'')] ''listener ready'' w3 = (Inr (), w4)
    \<and> expect show (net_api q) 1 [(''type'', js ''peer_ready'')] ''joiner ready'' w4 = (Inr (), w5)
    \<and> tracks code r' [2, 2] w5 \<and> room_is r' (row\<lparr>lifecycle := Paired\<rparr>)
        [peer_socket 0 u t (Some Listener) [f, server_text PeerReady], peer_socket 1 v t' (Some Joiner) [g, server_text PeerReady]]"
proof -
  have now: "c \<le> sr_clock q n" "sr_clock q n \<le> c + 5000" for n using in_timeD [OF t] by auto
  let ?l = "peer_socket 0 u t (Some Listener)"
  have "\<exists>v n r' w'. connect (net_api q) url w = (Inr (length [1 :: nat]), w') \<and> room_is r' row [?l [f], peer_socket 1 v (sr_clock q n) None []] \<and> tracks code r' ([1] @ [0]) w'"
  proof (rule net_connects [OF start(1) url, where P = "\<lambda>v t r'. room_is r' row [?l [f], peer_socket 1 v t None []]"])
    fix n
    have "sr_clock q n < expires_at row" using now(2) [of n] start(4) by simp
    then show "\<exists>r'. fetch (sr_rt q) (sr_clock q n) (sr_uuid q n) True (Some (js ''websocket'')) r = (Upgraded (length [1 :: nat]), r')
        \<and> room_is r' row [?l [f], peer_socket 1 (sr_uuid q n) (sr_clock q n) None []]"
      using room_opens [OF start(2), of "sr_clock q n" "sr_rt q" "sr_uuid q n"] start(3) by simp
  next
    show "frames r' i = frames r i" if "room_is r' row [?l [f], peer_socket 1 v s None []]" "i < length [1 :: nat]" for v s r' i
      using that(2) frames_two [OF that(1)] frames_one [OF start(2)] by simp
  qed
  then obtain v m r1 w1 where c1: "connect (net_api q) url w = (Inr 1, w1)" "room_is r1 row [?l [f], peer_socket 1 v (sr_clock q m) None []]" "tracks code r1 [1, 0] w1" by auto
  let ?j = "peer_socket 1 v (sr_clock q m) (Some Joiner)"
  define P where "P = (\<lambda>r'. \<exists>n. 0 \<le> n \<and> n \<le> 3600 \<and> room_is r' (row\<lparr>lifecycle := Paired\<rparr>) [?l ([f] @ [server_text PeerReady]), ?j [server_text (ServerSignalMessage.Bound Joiner n), server_text PeerReady]])"
  have "P (room_said (sr_rt q) (sr_clock q n) 1 (JSON_stringify int_num (client_json BindJoiner)) r1)" for n
    unfolding P_def using now(2) [of n] now(1) [of m] now(1) [of n] by (intro joiner_binds [OF c1(2) start(3,4) _ _ _ said_simple(1)]) simp_all
  moreover have "\<exists>gs. frames r' i = frames r1 i @ gs" if "P r'" "i < length [1 :: nat, 0]" for r' i
  proof -
    obtain n where "frames r' 0 = [f] @ [server_text PeerReady] \<and> frames r' 1 = [server_text (ServerSignalMessage.Bound Joiner n), server_text PeerReady]"
      using \<open>P r'\<close> frames_two unfolding P_def by blast
    moreover have "i = 0 \<or> i = 1" using that(2) by auto
    ultimately show ?thesis using frames_two [OF c1(2)] by (auto simp del: server_json.simps)
  qed
  ultimately obtain r2 w2 where c2: "inbox_send (net_api q) 1 (client_json BindJoiner) w1 = (Inr (), w2)" "P r2" "tracks code r2 [1, 0] w2"
    using net_says [OF c1(3), of 1 P q "client_json BindJoiner"] by (auto simp del: client_json.simps)
  then obtain n where n: "0 \<le> n" "n \<le> 3600" "room_is r2 (row\<lparr>lifecycle := Paired\<rparr>) [?l [f, server_text PeerReady], ?j [server_text (ServerSignalMessage.Bound Joiner n), server_text PeerReady]]"
    unfolding P_def by (auto simp del: server_json.simps)
  note f = conjunct1 [OF frames_two [OF n(3)]] conjunct2 [OF frames_two [OF n(3)]]
  note keep = server_json.simps js_simps
  obtain w3 where c3: "expect show (net_api q) 1 [(''type'', js ''bound''), (''role'', js ''joiner'')] ''joiner bind'' w2 = (Inr (), w3)" "tracks code r2 [1, 1] w3"
    using net_hears [OF c2(3), of 1 "ServerSignalMessage.Bound Joiner n" "[server_text PeerReady]" "show", OF _ _ _ _ expected_messages(1)] f n(1,2) by (auto simp del: keep)
  obtain w4 where c4: "expect show (net_api q) 0 [(''type'', js ''peer_ready'')] ''listener ready'' w3 = (Inr (), w4)" "tracks code r2 [2, 1] w4"
    using net_hears [OF c3(2), of 0 PeerReady "[]" "show", OF _ _ _ _ expected_messages(2)] f by (auto simp: numeral_2_eq_2 simp del: keep)
  obtain w5 where c5: "expect show (net_api q) 1 [(''type'', js ''peer_ready'')] ''joiner ready'' w4 = (Inr (), w5)" "tracks code r2 [2, 2] w5"
    using net_hears [OF c4(2), of 1 PeerReady "[]" "show", OF _ _ _ _ expected_messages(2)] f by (auto simp: numeral_2_eq_2 simp del: keep)
  show ?thesis using c1(1) c2(1) c3(1) c4(1) c5 n(3) by blast
qed


lemma net_relays:
  assumes t: "in_time q c" and start: "tracks code r [length fs, length gs] w" "room_is r row [peer_socket 0 u t (Some Listener) fs, peer_socket 1 v t' (Some Joiner) gs]"
      "lifecycle row = Paired" "expires_at row = c + 60000"
    and m: "smoke_relay m" "scalar_relay m" "relay_allowed role m (server_text (Relayed m)) row" "assertSubset show (server_json (Relayed m)) ex label = None"
    and now: "fs' = (if role = Joiner then fs @ [server_text (Relayed m)] else fs)" "gs' = (if role = Joiner then gs else gs @ [server_text (Relayed m)])"
  shows "\<exists>w1 w2 r'. inbox_send (net_api q) (if role = Joiner then 1 else 0) (relay_json m) w = (Inr (), w1)
    \<and> expect show (net_api q) (if role = Joiner then 0 else 1) ex label w1 = (Inr (), w2) \<and> tracks code r' [length fs', length gs'] w2
    \<and> room_is r' (count_message role m (utf8_length (server_text (Relayed m))) row) [peer_socket 0 u t (Some Listener) fs', peer_socket 1 v t' (Some Joiner) gs']"
proof -
  define P where "P = (\<lambda>r'. room_is r' (count_message role m (utf8_length (server_text (Relayed m))) row) [peer_socket 0 u t (Some Listener) fs', peer_socket 1 v t' (Some Joiner) gs'])"
  have i: "(if role = Joiner then 1 else 0) < length [length fs, length gs]" by simp
  have "sr_clock q n < expires_at row" for n using in_timeD(2) [OF t, of n] start(4) by simp
  then have "P (room_said (sr_rt q) (sr_clock q n) (if role = Joiner then 1 else 0) (JSON_stringify int_num (relay_json m)) r)" for n
    unfolding P_def now by (intro peer_relays start(2,3) smoke_relay_text(1,2) m(1,3)) simp
  moreover have "\<exists>hs. frames r' i = frames r i @ hs" if "P r'" "i < length [length fs, length gs]" for r' i
  proof -
    have "frames r' 0 = fs' \<and> frames r' 1 = gs'" using that(1) unfolding P_def by (rule frames_two)
    moreover have "i = 0 \<or> i = 1" using that(2) by auto
    ultimately show ?thesis using frames_two [OF start(2)] now by (auto simp del: server_json.simps)
  qed
  ultimately obtain r' w1 where c1: "inbox_send (net_api q) (if role = Joiner then 1 else 0) (relay_json m) w = (Inr (), w1)" "P r'" "tracks code r' [length fs, length gs] w1"
    using net_says [OF start(1) i, of P q "relay_json m"] by blast
  note f = frames_two [OF c1(2) [unfolded P_def]]
  have "serverSignalMessageSchema (Relayed m)" "scalar_server (Relayed m)" using smoke_relay_text(1) [OF m(1)] m(2) by simp_all
  then obtain w2 where "expect show (net_api q) (if role = Joiner then 0 else 1) ex label w1 = (Inr (), w2)" "tracks code r' [length fs', length gs'] w2"
    using net_hears [OF c1(3), of "if role = Joiner then 0 else 1" "Relayed m" "[]" "show", OF _ _ _ _ m(4)] f now by (auto simp del: server_json.simps split: if_splits)
  then show ?thesis using c1 unfolding P_def by blast
qed


definition room_ended :: "room \<Rightarrow> bool" where
  "room_ended r \<longleftrightarrow> (\<exists>w. room_row r = Some w \<and> lifecycle w = Closed \<and> terminal_reason w = Some (js ''peer_left''))"

lemma frames_sent:
  assumes "map sid (sockets r) = [0, 1]" and "map sent (sockets r) = [fs, gs]"
  shows "frames r 0 = fs" "frames r 1 = gs"
proof -
  obtain a b where "sockets r = [a, b]" using assms(1) by auto
  then show "frames r 0 = fs" "frames r 1 = gs" using assms by (auto simp: frames_def find_socket_def)
qed

lemma net_leaves:
  assumes t: "in_time q c" and start: "tracks code r [length fs, length gs] w" "room_is r row [peer_socket 0 u t (Some Listener) fs, peer_socket 1 v t' (Some Joiner) gs]"
      "lifecycle row = Paired" "expires_at row = c + 60000"
  shows "\<exists>w1 w2 r'. inbox_send (net_api q) 1 (client_json Leave) w = (Inr (), w1)
    \<and> expect show (net_api q) 0 [(''type'', js ''peer_left'')] ''peer-left notification'' w1 = (Inr (), w2) \<and> sn_rooms w2 code = r' \<and> room_ended r'"
proof -
  define P where "P = (\<lambda>r'. room_ended r' \<and> frames r' 0 = fs @ [server_text PeerLeft] \<and> frames r' 1 = gs)"
  have "sr_clock q n < expires_at row" for n using in_timeD(2) [OF t, of n] start(4) by simp
  from joiner_leaves [OF start(2,3) this said_simple(2)] have "P r'" if "r' = room_said (sr_rt q) (sr_clock q n) 1 (JSON_stringify int_num (client_json Leave)) r" for n r'
    using that frames_sent [of r' "fs @ [server_text PeerLeft]" gs] unfolding P_def room_ended_def by blast
  then have "P (room_said (sr_rt q) (sr_clock q n) 1 (JSON_stringify int_num (client_json Leave)) r)" for n by blast
  moreover have "\<exists>hs. frames r' i = frames r i @ hs" if "P r'" "i < length [length fs, length gs]" for r' i
  proof -
    have "i = 0 \<or> i = 1" using that(2) by auto
    then show ?thesis using that(1) frames_two [OF start(2)] by (auto simp: P_def simp del: server_json.simps)
  qed
  moreover have i: "1 < length [length fs, length gs]" by simp
  ultimately obtain r' w1 where c1: "inbox_send (net_api q) 1 (client_json Leave) w = (Inr (), w1)" "P r'" "tracks code r' [length fs, length gs] w1"
    using net_says [OF start(1) i, of P q "client_json Leave"] by blast
  then obtain w2 where "expect show (net_api q) 0 [(''type'', js ''peer_left'')] ''peer-left notification'' w1 = (Inr (), w2)" "tracks code r' [Suc (length fs), length gs] w2"
    using net_hears [OF c1(3), of 0 PeerLeft "[]" "show", OF _ _ _ _ expected_messages(3)] by (auto simp: P_def simp del: server_json.simps js_simps)
  then show ?thesis using c1(1,2) unfolding P_def tracks_def by blast
qed

lemma net_refuses:
  assumes "room_ended (sn_rooms w code)" and "sr_code q url = Some param" and "normalizeCode (sr_up q) param = Some code"
  shows "\<exists>w'. sv_probe (net_api q) url w = (Resolved_ok, w') \<and> sn_rooms w' code = sn_rooms w code"
  using assms
  by (auto simp: net_api_def net_probe_def net_connect_def connectSignalRoomRoute_def room_ended_def fetch_def expectUpgradeRejected_def simp del: js_simps)

lemma messages_said:
  "message [(''type'', JStr (js ''description'')), (''sdp_type'', JStr (sdp_type_text t)), (''sdp'', JStr s)] = relay_json (Description t s)"
  "message [(''type'', JStr (js ''candidate'')), (''candidate'', JStr s), (''sdp_mid'', JStr (js ''0'')), (''sdp_mline_index'', JNum 0),
     (''username_fragment'', JStr (js ''fragment-'' @ nat_digits i))] = relay_json (Candidate (smoke_candidate s i))"
  "message [(''type'', JStr (js ''leave''))] = client_json Leave"
  "message [(''type'', JStr (js ''bind'')), (''role'', JStr (js ''joiner''))] = client_json BindJoiner"
  "message [(''type'', JStr (js ''bind'')), (''role'', JStr (js ''listener'')), (''secret'', JStr s)] = client_json (BindListener s)"
  by (simp_all add: message_typed smoke_candidate_def nullable_json_def del: js_simps)


lemma roles_differ: "(Joiner = Joiner) = True" "(Listener = Joiner) = False"
  by simp_all

lemmas joiner_relays = net_relays [where role = Joiner, unfolded roles_differ if_True]

lemmas listener_relays = net_relays [where role = Listener, unfolded roles_differ if_False]

text \<open>A row with nothing relayed.\<close>

definition fresh_row :: "SignalRoomRow \<Rightarrow> int \<Rightarrow> bool" where
  "fresh_row row c \<longleftrightarrow> expires_at row = c + 60000 \<and> offer_seen row = 0 \<and> answer_seen row = 0 \<and> forwarded_bytes row = 0 \<and> joiner_candidates row = 0"

lemma relays_allowed:
  assumes "fresh_row row c" and "smoke_relay (Description Offer offer)" "smoke_relay (Description Answer answer)" "smoke_relay (Candidate k)"
  defines "bytes_of m \<equiv> utf8_length (server_text (Relayed m))"
  defines "row1 \<equiv> count_message Joiner (Description Offer offer) (bytes_of (Description Offer offer)) row"
  defines "row2 \<equiv> count_message Listener (Description Answer answer) (bytes_of (Description Answer answer)) row1"
  shows "relay_allowed Joiner (Description Offer offer) (server_text (Relayed (Description Offer offer))) row"
    "relay_allowed Listener (Description Answer answer) (server_text (Relayed (Description Answer answer))) row1"
    "relay_allowed Joiner (Candidate k) (server_text (Relayed (Candidate k))) row2"
    "lifecycle row1 = lifecycle row" "lifecycle row2 = lifecycle row" "lifecycle (count_message Joiner (Candidate k) n row2) = lifecycle row"
    "expires_at row1 = c + 60000" "expires_at row2 = c + 60000" "expires_at (count_message Joiner (Candidate k) n row2) = c + 60000"
  using assms(1) smoke_relay_text(4) [OF assms(2)] smoke_relay_text(4) [OF assms(3)] smoke_relay_text(4) [OF assms(4)]
  unfolding row1_def row2_def bytes_of_def
  by (simp_all add: fresh_row_def relay_allowed_def is_candidate_def role_candidates_def MAX_SIGNAL_FORWARDED_BYTES_def MAX_SIGNAL_CANDIDATES_PER_PEER_def del: server_json.simps)

lemma exchange_passes:
  assumes t: "in_time q c" and url: "sr_code q url = Some param" "normalizeCode (sr_up q) param = Some code"
    and start: "tracks code r [length fs, length gs] w" "room_is r row [peer_socket 0 u t (Some Listener) fs, peer_socket 1 v t' (Some Joiner) gs]"
      "lifecycle row = Paired" "fresh_row row c"
    and texts: "short offer" "short answer" "short candidate" "index < 100"
  shows "\<exists>w'. exchange show (net_api q) url index 0 1 offer answer candidate w = (Inr (), w') \<and> room_ended (sn_rooms w' code)"
proof -
  define k where "k = smoke_candidate candidate index"
  have m: "smoke_relay (Description Offer offer)" "smoke_relay (Description Answer answer)" "smoke_relay (Candidate k)"
    using texts by (auto simp: smoke_relay_def k_def)
  have s: "scalar_relay (Description Offer offer)" "scalar_relay (Description Answer answer)" "scalar_relay (Candidate k)"
    using texts js_scalar [of "''0''"] ascii_scalar [OF conjunct2 [OF fragment_text [OF texts(4)]]] by (simp_all add: short_def k_def smoke_candidate_def del: js_simps)
  note ok = relays_allowed [OF start(4) m]
  have exp: "expires_at row = c + 60000" using start(4) by (simp add: fresh_row_def)
  obtain w1 w2 r2 where c1: "inbox_send (net_api q) 1 (relay_json (Description Offer offer)) w = (Inr (), w1)"
      "expect show (net_api q) 0 [(''type'', js ''description''), (''sdp'', offer)] ''offer forward'' w1 = (Inr (), w2)"
    and r2: "tracks code r2 [length (fs @ [server_text (Relayed (Description Offer offer))]), length gs] w2"
      "room_is r2 (count_message Joiner (Description Offer offer) (utf8_length (server_text (Relayed (Description Offer offer)))) row)
        [peer_socket 0 u t (Some Listener) (fs @ [server_text (Relayed (Description Offer offer))]), peer_socket 1 v t' (Some Joiner) gs]"
    using joiner_relays [OF t start(1-3) exp m(1) s(1) ok(1) expected_messages(4) refl refl, of "show" "''offer forward''"] by blast
  obtain w3 w4 r3 where c2: "inbox_send (net_api q) 0 (relay_json (Description Answer answer)) w2 = (Inr (), w3)"
      "expect show (net_api q) 1 [(''type'', js ''description''), (''sdp'', answer)] ''answer forward'' w3 = (Inr (), w4)"
    and r3: "tracks code r3 [length (fs @ [server_text (Relayed (Description Offer offer))]), length (gs @ [server_text (Relayed (Description Answer answer))])] w4"
      "room_is r3 (count_message Listener (Description Answer answer) (utf8_length (server_text (Relayed (Description Answer answer))))
          (count_message Joiner (Description Offer offer) (utf8_length (server_text (Relayed (Description Offer offer)))) row))
        [peer_socket 0 u t (Some Listener) (fs @ [server_text (Relayed (Description Offer offer))]), peer_socket 1 v t' (Some Joiner) (gs @ [server_text (Relayed (Description Answer answer))])]"
    using listener_relays [OF t r2 ok(4) [unfolded start(3)] ok(7) m(2) s(2) ok(2) expected_messages(4) refl refl, of "show" "''answer forward''"] by blast
  obtain w5 w6 r4 fs' gs' row' where c3: "inbox_send (net_api q) 1 (relay_json (Candidate k)) w4 = (Inr (), w5)"
      "expect show (net_api q) 0 [(''type'', js ''candidate''), (''candidate'', candidate)] ''candidate forward'' w5 = (Inr (), w6)"
    and r4: "tracks code r4 [length fs', length gs'] w6" "room_is r4 row' [peer_socket 0 u t (Some Listener) fs', peer_socket 1 v t' (Some Joiner) gs']"
      "lifecycle row' = Paired" "expires_at row' = c + 60000"
  proof -
    have "cand k = candidate" by (simp add: k_def smoke_candidate_def)
    then show thesis
      using joiner_relays [OF t r3 ok(5) [unfolded start(3)] ok(8) m(3) s(3) ok(3) expected_messages(5) refl refl, of "show" "''candidate forward''"] ok(6,9) that
      unfolding start(3) by blast
  qed
  obtain w7 w8 where c4: "inbox_send (net_api q) 1 (client_json Leave) w6 = (Inr (), w7)"
      "expect show (net_api q) 0 [(''type'', js ''peer_left'')] ''peer-left notification'' w7 = (Inr (), w8)" "room_ended (sn_rooms w8 code)"
    using net_leaves [OF t r4, of "show"] by blast
  obtain w9 where c5: "sv_probe (net_api q) url w8 = (Resolved_ok, w9)" "sn_rooms w9 code = sn_rooms w8 code" using net_refuses [OF c4(3) url] by blast
  have "exchange show (net_api q) url index 0 1 offer answer candidate w = (Inr (), w9)"
    using c1 c2 c3 c4 c5(1) unfolding exchange_def messages_said(1) [of Offer, unfolded sdp_type_text.simps] messages_said(1) [of Answer, unfolded sdp_type_text.simps] messages_said(2,3) k_def
    by (simp add: andDo_def settled_result_def del: js_simps relay_json.simps client_json.simps)
  then show ?thesis using c4(3) c5(2) by auto
qed


section \<open>Creating the room\<close>

lemma create_body_parsed: "JSON_parse create_body = Some (message [(''ttl_seconds'', JNum 60)])" "requestSchema (message [(''ttl_seconds'', JNum 60)]) = Some 60"
proof -
  have "num_ok int_num 1" "num_ok int_num 60" using num_ok_int [of 1] num_ok_int [of 60] by simp_all
  then show "JSON_parse create_body = Some (message [(''ttl_seconds'', JNum 60)])"
    unfolding create_body_def by (intro JSON_roundtrip) (simp add: message_def js_scalar js_inject del: js_simps)
  show "requestSchema (message [(''ttl_seconds'', JNum 60)]) = Some 60"
    by (simp add: requestSchema_def message_def js_inject SIGNAL_PROTOCOL_VERSION_def int_in_def MIN_SIGNAL_TTL_SECONDS_def MAX_SIGNAL_TTL_SECONDS_def del: js_simps)
qed

lemma hash_valid: "length (sha256 s) = 32 \<Longrightarrow> length (bytesToHex (sha256 s)) = 64 \<and> list_all lower_hex (bytesToHex (sha256 s))"
  using hexToBytes_bytesToHex [of "sha256 s"] by (simp add: hexToBytes_def split: if_splits)

lemma secret_said:
  assumes "length raw = SIGNAL_LISTENER_SECRET_BYTES"
  shows "parseSignalFrame (TextFrame (JSON_stringify int_num (client_json (BindListener (encodeBase64Url raw))))) = Inr (BindListener (encodeBase64Url raw))"
proof -
  have g: "generateListenerSecret raw = Inr (encodeBase64Url raw)" "length (encodeBase64Url raw) = 43" using generateListenerSecret_32 [OF assms] by simp_all
  have "validListenerSecret (encodeBase64Url raw)" "list_all scalar_value (encodeBase64Url raw)" using validListenerSecret_generated [OF assms] g(1) by simp_all
  then show ?thesis using g(2) by (intro said_parsed) (simp_all add: typed_def SIGNAL_PROTOCOL_VERSION_def)
qed

lemma room_created:
  assumes "generateCode (sr_draws q 0) = Inr code" "sr_rpc q 0 0 = Answered" "sn_rooms w code = new_room" "sn_socks w = []"
    and "length (sr_secret q) = SIGNAL_LISTENER_SECRET_BYTES" "\<And>m. length (rt_sha256 (sr_rt q) m) = 32" "c = sr_clock q (sn_tick w)" "safe_integer c" "safe_integer (c + 60000)"
  shows "\<exists>room w' row r. create_room (net_api q) base token w = (Inr room, w') \<and> json_field ''code'' room = Some (JStr (formatCode code))
    \<and> json_field ''listener_secret'' room = Some (JStr (encodeBase64Url (sr_secret q))) \<and> tracks code r [] w' \<and> room_is r row []
    \<and> lifecycle row = ListenerCreated \<and> fresh_row row c \<and> listener_secret_hash row = hashListenerSecretHex (rt_sha256 (sr_rt q)) (encodeBase64Url (sr_secret q))"
proof -
  let ?sha = "rt_sha256 (sr_rt q)" and ?s = "encodeBase64Url (sr_secret q)"
  define i where "i = \<lparr>in_version = SIGNAL_PROTOCOL_VERSION, in_hash = hashListenerSecretHex ?sha ?s, in_createdAt = c, in_expiresAt = c + 60000\<rparr>"
  have v: "valid_initialization i" using assms(8,9) hash_valid [of ?sha, OF assms(6)]
    by (simp add: i_def valid_initialization_def hashListenerSecretHex_def hashListenerSecret_def)
  obtain res r where n: "initialize i new_room = (Some res, r)" "res_created res" and r: "r = snd (initialize i new_room)" using v by (simp add: initialize_def new_room_def)
  have t: "initialize_twice (sr_rpc q 0) code i (sn_rooms w) = (Some res, (sn_rooms w)(code := r))"
    using assms(2,3) n by (simp add: initialize_twice_def call_initialize_def)
  have "allocate_attempts MAX_CODE_ATTEMPTS (sr_draws q) (sr_rpc q) i ?s (sn_rooms w)
      = (Inr (Some \<lparr>al_code = code, al_listenerSecret = ?s, al_expiresAt = in_expiresAt i\<rparr>), (sn_rooms w)(code := r))"
    using allocate_first [of "sr_draws q" code "sr_rpc q" i "sn_rooms w" res _ 4 ?s, OF assms(1) t] n(2)
    by (simp only: MAX_CODE_ATTEMPTS_def eval_nat_numeral simp_thms)
  then have a: "allocateSignalRoom ?sha c (sr_secret q) (sr_draws q) (sr_rpc q) 60 (sn_rooms w)
      = (Inr (Some \<lparr>al_code = code, al_listenerSecret = ?s, al_expiresAt = c + 60000\<rparr>), (sn_rooms w)(code := r))"
    using generateListenerSecret_32 [OF assms(5)] by (simp add: allocateSignalRoom_def i_def)
  define room where "room = JObj [(js ''v'', JNum (of_int SIGNAL_PROTOCOL_VERSION)), (js ''code'', JStr (formatCode code)), (js ''listener_secret'', JStr ?s),
     (js ''expires_at'', JStr (toISOString (c + 60000)))]"
  have "net_post q url auth create_body w = (Inr (201, [], Some room), tick (w\<lparr>sn_rooms := (sn_rooms w)(code := r)\<rparr>))" for url auth
    unfolding net_post_def createSignalRoomRoute_def assms(7) [symmetric] by (simp add: create_body_parsed a room_def del: js_simps)
  then have "create_room (net_api q) base token w = (Inr room, tick (w\<lparr>sn_rooms := (sn_rooms w)(code := r)\<rparr>))"
    by (simp add: create_room_def andDo_def give_def net_api_def room_def)
  moreover have "json_field ''code'' room = Some (JStr (formatCode code))" "json_field ''listener_secret'' room = Some (JStr ?s)"
    by (simp_all add: room_def js_inject del: js_simps)
  moreover have "tracks code r [] (tick (w\<lparr>sn_rooms := (sn_rooms w)(code := r)\<rparr>))" using assms(4) by (simp add: tracks_def)
  moreover have "\<exists>row. room_is r row [] \<and> lifecycle row = ListenerCreated \<and> fresh_row row c \<and> listener_secret_hash row = hashListenerSecretHex ?sha ?s"
    unfolding r using v by (simp add: initialize_def new_room_def room_is_def fresh_row_def i_def)
  ultimately show ?thesis by blast
qed


section \<open>The whole test\<close>

lemma bind_peers_passes:
  assumes t: "in_time q c" and url: "sr_code q url = Some param" "normalizeCode (sr_up q) param = Some code"
    and start: "tracks code r [] w" "room_is r row []" "lifecycle row = ListenerCreated" "fresh_row row c"
    and secret: "parseSignalFrame (TextFrame (JSON_stringify int_num (client_json (BindListener s)))) = Inr (BindListener s)"
      "verifyListenerSecret (rt_sha256 (sr_rt q)) s (listener_secret_hash row)"
  shows "\<exists>w' r' row' u t v t' fs gs. bind_peers show (net_api q) url (Some (JStr s)) w = (Inr (0, 1), w') \<and> tracks code r' [length fs, length gs] w'
    \<and> room_is r' row' [peer_socket 0 u t (Some Listener) fs, peer_socket 1 v t' (Some Joiner) gs] \<and> lifecycle row' = Paired \<and> fresh_row row' c"
proof -
  have exp: "expires_at row = c + 60000" using start(4) by (simp add: fresh_row_def)
  obtain w1 w2 w3 r1 u t1 n where c1: "connect (net_api q) url w = (Inr 0, w1)" "inbox_send (net_api q) 0 (client_json (BindListener s)) w1 = (Inr (), w2)"
    "expect show (net_api q) 0 [(''type'', js ''bound''), (''role'', js ''listener'')] ''listener bind'' w2 = (Inr (), w3)"
    and r1: "tracks code r1 [1] w3" "room_is r1 (row\<lparr>lifecycle := ListenerBound\<rparr>) [peer_socket 0 u t1 (Some Listener) [server_text (ServerSignalMessage.Bound Listener n)]]"
    using listener_joins [OF t url start(1-3) exp secret, of "show"] by blast
  have "lifecycle (row\<lparr>lifecycle := ListenerBound\<rparr>) = ListenerBound" "expires_at (row\<lparr>lifecycle := ListenerBound\<rparr>) = c + 60000" using exp by simp_all
  from joiner_joins [OF t url r1 this, of "show"] obtain w4 w5 w6 w7 w8 r2 v t2 g where c2: "connect (net_api q) url w3 = (Inr 1, w4)"
    "inbox_send (net_api q) 1 (client_json BindJoiner) w4 = (Inr (), w5)"
    "expect show (net_api q) 1 [(''type'', js ''bound''), (''role'', js ''joiner'')] ''joiner bind'' w5 = (Inr (), w6)"
    "expect show (net_api q) 0 [(''type'', js ''peer_ready'')] ''listener ready'' w6 = (Inr (), w7)"
    "expect show (net_api q) 1 [(''type'', js ''peer_ready'')] ''joiner ready'' w7 = (Inr (), w8)"
    and r2: "tracks code r2 [2, 2] w8" "room_is r2 (row\<lparr>lifecycle := ListenerBound, lifecycle := Paired\<rparr>)
        [peer_socket 0 u t1 (Some Listener) [server_text (ServerSignalMessage.Bound Listener n), server_text PeerReady], peer_socket 1 v t2 (Some Joiner) [g, server_text PeerReady]]"
    by auto
  have "bind_peers show (net_api q) url (Some (JStr s)) w = (Inr (0, 1), w8)"
    using c1 c2 unfolding bind_peers_def option.case append.simps messages_said by (simp add: andDo_def give_def del: js_simps client_json.simps)
  moreover have "fresh_row (row\<lparr>lifecycle := ListenerBound, lifecycle := Paired\<rparr>) c" using start(4) by (simp add: fresh_row_def)
  moreover have "tracks code r2 [length [server_text (ServerSignalMessage.Bound Listener n), server_text PeerReady], length [g, server_text PeerReady]] w8"
    using r2(1) by (simp add: numeral_2_eq_2)
  ultimately show ?thesis using r2(2) by fastforce
qed

text \<open>
  C14: the smoke test passes against the service.  On any state of the service in which the code it draws is free, with a service whose
  call to the new room is answered and whose clock stays within the five seconds a socket has to bind, for any secret, any
  digest function and any short suffix: \<open>runOne\<close> creates the room, both peers are bound and told so, offer, answer and
  candidate arrive as sent, the listener learns that the joiner left, and connecting again is refused, because the room
  has ended; and the script reports success.
\<close>

theorem smoke_test_passes:
  assumes service: "generateCode (sr_draws q 0) = Inr code" "sr_rpc q 0 0 = Answered" "sn_rooms w code = new_room" "sn_socks w = []"
      "length (sr_secret q) = SIGNAL_LISTENER_SECRET_BYTES" "\<And>m. length (rt_sha256 (sr_rt q) m) = 32"
    and clock: "in_time q (sr_clock q (sn_tick w))" "safe_integer (sr_clock q (sn_tick w))" "safe_integer (sr_clock q (sn_tick w) + 60000)"
    and url: "websocketUrl parse base (formatCode code) = Inr url" "sr_code q url = Some (formatCode code)" "base \<noteq> []"
    and uuid: "list_all scalar_value (uuid 0)" "length (uuid 0) \<le> 100"
  shows "\<exists>ts w'. runOne show parse (net_api q) base token (uuid 0) 0 w = (Inr ts, w') \<and> hd ts = encodeBase64Url (sr_secret q) \<and> room_ended (sn_rooms w' code)
    \<and> smoke_main show parse (net_api q) (Some base) None token None uuid w = (Inr [Print (js ''signaling smoke passed (1 room)'')], w')"
proof -
  let ?s = "encodeBase64Url (sr_secret q)"
  have up: "normalizeCode (sr_up q) (formatCode code) = Some code"
    using normalizeCode_typed [OF formatCode_typed(1) [OF generateCode_valid [OF service(1)]] generateCode_valid [OF service(1)]] .
  obtain room w1 row r where c1: "create_room (net_api q) base token w = (Inr room, w1)" "json_field ''code'' room = Some (JStr (formatCode code))"
      "json_field ''listener_secret'' room = Some (JStr ?s)"
    and r: "tracks code r [] w1" "room_is r row []" "lifecycle row = ListenerCreated" "fresh_row row (sr_clock q (sn_tick w))"
      "listener_secret_hash row = hashListenerSecretHex (rt_sha256 (sr_rt q)) ?s"
    using room_created [OF service refl clock(2,3), of base token] by blast
  have "verifyListenerSecret (rt_sha256 (sr_rt q)) ?s (listener_secret_hash row)"
    unfolding r(5) by (rule hash_of_secret) (rule service(6))
  from bind_peers_passes [OF clock(1) url(2) up r(1-4) secret_said [OF service(5)] this, of "show"]
  obtain w2 r2 row2 u t v t' fs gs where c2: "bind_peers show (net_api q) url (Some (JStr ?s)) w1 = (Inr (0, 1), w2)"
    and r2: "tracks code r2 [length fs, length gs] w2" "room_is r2 row2 [peer_socket 0 u t (Some Listener) fs, peer_socket 1 v t' (Some Joiner) gs]"
      "lifecycle row2 = Paired" "fresh_row row2 (sr_clock q (sn_tick w))" by blast
  define suffix where "suffix = nat_digits 0 @ [45] @ uuid 0"
  have "short (js p @ suffix)" if "length p \<le> 40" for p
    using that uuid js_scalar [of p] by (auto simp: short_def suffix_def scalar_value_def js_def nat_digits.simps [of 0])
  from exchange_passes [OF clock(1) url(2) up r2 this this this, of "''signal-smoke-offer-''" "''signal-smoke-answer-''" "''signal-smoke-candidate-''" 0 "show"]
  obtain w3 where c3: "exchange show (net_api q) url 0 0 1 (js ''signal-smoke-offer-'' @ suffix) (js ''signal-smoke-answer-'' @ suffix) (js ''signal-smoke-candidate-'' @ suffix) w2 = (Inr (), w3)"
    "room_ended (sn_rooms w3 code)" by auto
  define ts where "ts = [?s, js ''signal-smoke-offer-'' @ suffix, js ''signal-smoke-answer-'' @ suffix, js ''signal-smoke-candidate-'' @ suffix]"
  have run: "runOne show parse (net_api q) base token (uuid 0) 0 w = (Inr ts, w3)"
    unfolding runOne_def andDo_Inr [of "create_room (net_api q) base token", OF c1(1)]
    using c1(2,3) c2 c3(1) url(1) by (simp add: andDo_def give_def template_def sentinel_def Let_def ts_def suffix_def del: js_simps)
  moreover have "smoke_iterations None = Inr 1" by (simp add: smoke_iterations_def parse_int_def js_space_def strip_char_Cons is_digit_def digits_value_def round53_def floorlog_def)
  then have "smoke_main show parse (net_api q) (Some base) None token None uuid w = (Inr [Print (js ''signaling smoke passed (1 room)'')], w3)"
    using run url(3) by (cases base) (simp_all add: smoke_main_def andDo_def give_def nat_digits.simps [of "Suc 0"])
  ultimately show ?thesis using c3(2) by (auto simp: ts_def)
qed


definition smoke_sample :: service_run where
  "smoke_sample = \<lparr>sr_rt = sample_rt, sr_up = (\<lambda>_. []), sr_clock = (\<lambda>n. int (min n 100)), sr_secret = replicate 32 1, sr_draws = (\<lambda>_. [0, 0, 0, 0, 0]),
     sr_rpc = (\<lambda>_ _. Answered), sr_uuid = (\<lambda>_. []), sr_code = (\<lambda>_. Some (js ''2222-2222''))\<rparr>"

definition smoke_start :: smoke_net where
  "smoke_start = \<lparr>sn_rooms = (\<lambda>_. new_room), sn_socks = [], sn_tick = 0\<rparr>"

theorem smoke_test_passes_witness:
  "\<exists>w'. smoke_main (\<lambda>_. []) witness_parse (net_api smoke_sample) (Some (js ''http://h'')) None None None (\<lambda>_. js ''u'') smoke_start
     = (Inr [Print (js ''signaling smoke passed (1 room)'')], w')"
proof -
  have g: "generateCode (sr_draws smoke_sample 0) = Inr (js ''22222222'')"
    by (simp add: smoke_sample_def generateCode_eq CODE_ALPHABET_def random_value_def)
  have f: "formatCode (js ''22222222'') = js ''2222-2222''" by (simp add: formatCode_def)
  have u: "websocketUrl witness_parse (js ''http://h'') (formatCode (js ''22222222'')) = Inr (js ''ws://h/'')"
    by (simp add: websocketUrl_def witness_parse_def url_text_def)
  have "in_time smoke_sample (sr_clock smoke_sample (sn_tick smoke_start))" by (auto simp: in_time_def smoke_sample_def smoke_start_def min_def)
  from smoke_test_passes [OF g _ _ _ _ _ this _ _ u, of "\<lambda>_. js ''u''" "\<lambda>_. []" None]
  moreover have "js ''http://h'' \<noteq> []" by simp
  ultimately show ?thesis using f js_scalar [of "''u''"]
    by (auto simp: smoke_sample_def smoke_start_def SIGNAL_LISTENER_SECRET_BYTES_def safe_integer_def simp del: js_simps)
qed

end
