(* ===== verification/Spec2Isabelle.thy ===== *)
theory Spec2Isabelle
  imports App Channels Handshake UdpStream Matrix BrowserVerdict SmokeService
begin

text \<open>
  \<^bold>\<open>netsu\<close>: an iperf3-compatible network speed test (\<open>packages/netsu\<close>) and \<open>rendez-key\<close>
  (\<open>apps/rendez-key\<close>), the service through which two peers find each other: a store of short-lived
  texts under short codes, and signaling rooms that relay WebRTC negotiation.  This
  development models the TypeScript sources of both and proves the properties below.  Every
  definition is executable and keeps the name of what it models; the manifest lists the lines.

  \<^bold>\<open>Common ground.\<close>  \<open>Prelude\<close> has bytes as words, JavaScript strings as lists of code points,
  runs of a step function (\<open>run_steps\<close>) and the interfaces many components share as locales: \<open>codec\<close> (decode
  undoes encode), \<open>invariant_system\<close> (steps keep an invariant, so runs do), \<open>bounded_uses\<close> and
  \<open>monotone_system\<close>.  \<open>JsText\<close> is UTF-8 with replacement characters and decimal digits, \<open>JsonText\<close> the
  parser and printer of JSON with their round trip.

  \<^bold>\<open>The speed test.\<close>
  \<^item> \<open>Pipe\<close> (\<open>protocol/pipe.ts\<close>): \<open>ByteBuffer\<close> and \<open>MemoryPipe\<close>.  Bytes come out in the order they went in and
    every read settles once; the locale \<open>ordered_pipe\<close> is what readers rely on.
  \<^item> \<open>Framing\<close> (\<open>protocol/states.ts\<close>, \<open>cookie.ts\<close>, \<open>framing.ts\<close>): states, cookie and JSON frames, with their
    round trips under any chunking.
  \<^item> \<open>Params\<close> (\<open>protocol/params.ts\<close>, \<open>results.ts\<close>): the two payloads, validated and bounded.
  \<^item> \<open>Stats\<close> (\<open>stats.ts\<close>): interval meter, jitter and loss.
  \<^item> \<open>Runner\<close> (\<open>streams/runner.ts\<close>): counters, stream ids and the send loop.
  \<^item> \<open>Handshake\<close> (\<open>transport/tcp.ts\<close>, \<open>ws.ts\<close>, \<open>udp.ts\<close>): every function that opens a connection as a
    machine over the events of its socket; the locale \<open>one_shot\<close> is the contract of their promises.
  \<^item> \<open>Channels\<close> (\<open>transport/tcp.ts\<close>, \<open>ws.ts\<close>, \<open>streams/channel.ts\<close>): pipes, the handover of a connection from
    control to bulk, and data channels with the locale \<open>data_channel\<close>.
  \<^item> \<open>Udp\<close> and \<open>UdpStream\<close> (\<open>transport/udp.ts\<close> and the UDP parts of \<open>client.ts\<close>, \<open>server.ts\<close>): header, pacer, size
    probe, the buffer pool over an explicit memory, sender and receiver.
  \<^item> \<open>Server\<close> and \<open>ServerCore\<close> (\<open>server.ts\<close>): a session, the accept rule, listening and closing.
  \<^item> \<open>Client\<close> (\<open>client.ts\<close>): \<open>runClient\<close>, the client session and its result.
  \<^item> \<open>Format\<close> and \<open>Cli\<close> (\<open>format.ts\<close>, \<open>cli.ts\<close>): amounts as text and back, the options and the two commands with
    what they print on which stream and their exit code.
  \<^item> \<open>Matrix\<close> (\<open>interop/run-matrix.ts\<close>): the cells, their command lines, and the judging of the reports; the
    report of \<open>Cli\<close> is judged by the amounts it was made of.

  An asynchronous function is a machine: its program counter names the \<open>await\<close> it stands at, an
  event is the result of that \<open>await\<close> or something that happens meanwhile, and a step runs the code
  up to the next \<open>await\<close>.  So every interleaving the event loop allows is a list of events, and
  the theorems quantify over all lists.  \<open>Server\<close> states the protocol as an abstract machine (\<open>abstract_step\<close>)
  and shows that a session refines it; below, a client run and a server run are put together.

  \<^bold>\<open>The service.\<close>
  \<^item> \<open>Code\<close>, \<open>EntryLimits\<close> (\<open>domain/\<close>): codes and limits of a request.
  \<^item> \<open>Auth\<close>, \<open>Http\<close> (\<open>http/\<close>): the two authorization middlewares, responses.
  \<^item> \<open>Entries\<close> (\<open>repositories/entries.ts\<close>, \<open>db/schema.ts\<close>): the table and its three statements; an entry is
    handed out exactly \<open>max_reads\<close> times in any interleaving.
  \<^item> \<open>EntryRoutes\<close> (\<open>routes/\<close>, \<open>scheduled.ts\<close>): create, claim, health and the cleanup job.
  \<^item> \<open>Secret\<close>, \<open>SignalProtocol\<close>, \<open>SignalRoom\<close> (\<open>signal/\<close>): the listener's secret, the messages, and the Durable
    Object with all its handlers; \<open>SignalRoutes\<close>: room allocation and connection.
  \<^item> \<open>App\<close> (\<open>app.ts\<close>, \<open>index.ts\<close>): the routes over the entry table and all rooms.
  \<^item> \<open>SmokeTest\<close> (\<open>scripts/signal-smoke-test.mjs\<close>): the script over any service; \<open>SmokeService\<close> runs it against
    \<open>SignalRoutes\<close> and \<open>SignalRoom\<close>, where it passes.

  \<^bold>\<open>The browser peer\<close> (\<open>interop/transports/browser/browser-peer.js\<close>) meets a listener through the service and then
  speaks the protocol of the speed test over WebRTC.
  \<^item> \<open>BrowserQueue\<close>: \<open>AsyncQueue\<close>, \<open>ByteQueue\<close> and its reader, every wake-up explicit.
  \<^item> \<open>BrowserSignal\<close>: configuration, message checks and the signaling socket; its frames are parsed by
    \<open>SignalProtocol\<close> as the messages sent.
  \<^item> \<open>BrowserFrames\<close>: frames, data channels, the promises that wait on them, sending, and the selection of a direct path;
    states, frames and payloads are those of \<open>Framing\<close> and \<open>Params\<close>.
  \<^item> \<open>BrowserPeer\<close>: the class \<open>BrowserPeer\<close> as a machine with its two ICE coroutines, and the invariants of its runs.
  \<^item> \<open>BrowserTest\<close>: the order of the negotiation, soundness of every run, and a complete test.
  \<^item> \<open>BrowserRunner\<close> (\<open>run-browser-peer.mjs\<close>): the command that runs the peer, with its arguments, output and exit code.

  \<^bold>\<open>The drivers\<close> (\<open>interop/transports\<close>) run servers and clients in containers and judge what they print.
  \<^item> \<open>Process\<close>: a command with its time limit, the readiness of a server and the end of a process, as promises of
    \<open>one_shot\<close>; \<open>driver_action\<close> is what a driver does.
  \<^item> \<open>QuicMatrix\<close> (\<open>run-quic-matrix.ts\<close>): a run succeeds exactly if all its cells pass, and every server is stopped.
  \<^item> \<open>Redact\<close> (\<open>redactArtifact\<close>): an executable matcher for the regular expressions used, with lookaround for \<open>\b\<close>; what
    redaction removes, and what it misses.
  \<^item> \<open>WebRtcMatrix\<close> (\<open>run-webrtc-matrix.ts\<close>): cells, verdicts, cleaning up and the run; \<open>BrowserVerdict\<close> puts it together with
    \<open>BrowserRunner\<close> and \<open>BrowserPeer\<close>: how the end of a peer decides a cell.

  \<^bold>\<open>Arguments.\<close>  What is not in the repository is an argument of the definitions that use it: SHA-256,
  the rate limiter, the close codes a WebSocket accepts, the upper case of non-ASCII code points,
  the printing of non-integer numbers, the pages the OpenAPI library renders, the URL parser, \<open>Number\<close> and template texts of
  values that are no numbers, what \<open>getStats\<close> reports, what a process left behind.  Random bytes, clocks
  and the answers of sockets and timers are arguments or events.

  \<^bold>\<open>Bounds and termination.\<close>  All functions are total; no definition uses fuel.  Loops whose end is
  not structural have a termination proof: the size probe, a binary search that ends within 22 trials, the pieces
  of a send and of a request for random bytes, and the repetitions of a regular expression, which only go on when they consume text.
  Numbers that the code keeps integral are integers, 32-bit fields are words; other numbers
  are exact rationals (or an infinity where JSON lets one in), so rounding of binary64
  arithmetic in rates, jitter and pacing is not represented.

  \<^bold>\<open>Not modelled.\<close>  \<open>index.ts\<close>, \<open>client.ts\<close> of the service, \<open>openapi/schemas.ts\<close> and type declarations: re-exports,
  documentation and types without behaviour.  A server that asks the browser peer for its
  payload channels twice (\<open>PStray\<close>).  \<open>netsu-rs\<close>: a second implementation, in Rust.  Log output.
\<close>

section \<open>Client and server together\<close>

text \<open>The control frames each side is given by the events of its run.\<close>

fun client_reads :: "client_event \<Rightarrow> frame option" where
  "client_reads (CState (Some st) now) = Some (StateFrame st)"
| "client_reads (CJson (Some j)) = Some (JsonFrame j)"
| "client_reads _ = None"

fun server_reads :: "session_event \<Rightarrow> frame option" where
  "server_reads (GotState (Some st) now) = Some (StateFrame st)"
| "server_reads (GotJson (Some j)) = Some (JsonFrame j)"
| "server_reads _ = None"

lemma map_filter_silent: "(\<And>x. x \<in> set xs \<Longrightarrow> f x = None) \<Longrightarrow> List.map_filter f xs = []"
  by (induction xs) (simp_all add: List.map_filter_def)

lemma map_filter_append: "List.map_filter f (xs @ ys) = List.map_filter f xs @ List.map_filter f ys"
  by (simp add: List.map_filter_def)

lemma client_test_reads:
  "List.map_filter client_reads (client_test n sends sj a b) = [StateFrame PARAM_EXCHANGE, StateFrame CREATE_STREAMS,
     StateFrame TEST_START, StateFrame TEST_RUNNING, StateFrame EXCHANGE_RESULTS, JsonFrame sj, StateFrame DISPLAY_RESULTS]"
proof -
  have "List.map_filter client_reads (open_events n) = []" by (rule map_filter_silent) (auto simp: open_events_def split: if_splits)
  moreover have "List.map_filter client_reads (map (\<lambda>(i, b). CSent i b) sends) = []" by (rule map_filter_silent) auto
  ultimately show ?thesis by (simp add: client_test_def map_filter_append)
qed

lemma complete_test_reads:
  "List.map_filter server_reads (complete_test n j r ds a b) = [JsonFrame j, StateFrame TEST_END, JsonFrame r, StateFrame IPERF_DONE]"
proof -
  have "List.map_filter server_reads (replicate n StreamConnected) = []" by (rule map_filter_silent) auto
  moreover have "List.map_filter server_reads (map (\<lambda>(i, b). StreamData i b) ds) = []" by (rule map_filter_silent) auto
  ultimately show ?thesis by (simp add: complete_test_def map_filter_append)
qed

lemma sum_bytes_on: "list_all (\<lambda>d. fst d < n) ds \<Longrightarrow> sum_list (map (bytes_on ds) [0..<n]) = sum_list (map snd ds)"
proof (induction ds)
  case (Cons d ds)
  obtain i b where d: "d = (i, b)" by (cases d)
  have "sum_list (map (\<lambda>k. if i = k then b else 0) [0..<m]) = (if i < m then b else 0)" for m
    by (induction m) auto
  with Cons d show ?case by (simp add: sum_list_addf)
qed (simp add: bytes_on_def)

lemma sum_bytes_expected:
  assumes "list_all (\<lambda>d. fst d < n) ds"
  shows "sum_bytes (expected_results n ds q) = Some (Fin (of_nat (sum_list (map snd ds))))"
    and "sum_bytes (sender_results n ds q) = Some (Fin (of_nat (sum_list (map snd ds))))"
proof -
  have m: "map (\<lambda>k. Fin (of_nat (bytes_on ds k))) ks = map Fin (map (\<lambda>k. of_nat (bytes_on ds k)) ks)" for ks by simp
  have s: "sum_list (map (\<lambda>k. of_nat (bytes_on ds k)) ks) = (of_nat (sum_list (map (bytes_on ds) ks)) :: rat)" for ks
    by (induction ks) simp_all
  have *: "val_sum (map (\<lambda>k. Fin (of_nat (bytes_on ds k))) [0..<n]) = Some (Fin (of_nat (sum_list (map snd ds))))"
    unfolding m val_sum_Fin s sum_bytes_on [OF assms] ..
  show "sum_bytes (expected_results n ds q) = Some (Fin (of_nat (sum_list (map snd ds))))"
    "sum_bytes (sender_results n ds q) = Some (Fin (of_nat (sum_list (map snd ds))))"
    using * by (simp_all add: sum_bytes_def expected_results_def sender_results_def stream_result_def makeCounters_def comp_def)
qed

text \<open>
  C1: a speed test works end to end.  For all options of a forward TCP test whose parameters
  are valid and admitted by the server's time limit, every random cookie, every server that
  is free after whatever happened to it before, and any amounts sent and received on any of
  the streams in any order: the client run and the server run fit together, that is the server
  is given, on the control connection and on each stream connection, the cookie the client
  writes there, and each side reads exactly the frames the other writes, in order; the server
  is free again; and the client returns a result whose sent and received bytes are exactly the
  bytes its streams sent and the bytes the server's streams received.
\<close>

theorem speed_test_end_to_end:
  assumes "params_ok p" and "\<not> tp_udp p" and "\<not> tp_reverse p" and "tp_time p \<le> m" and "n = nat (tp_parallel p)"
    and "list_all (\<lambda>d. fst d < n) sends" and "list_all (\<lambda>d. fst d < n) recvs" and "cEnd \<noteq> 0"
    and "p = client_params opts" and "length raw = COOKIE_SIZE - 1" and "cookie = makeCookie raw" and "cb = cookieToBytes cookie"
    and "run_ok core_event_ok core_step (new_core m) es" and "s0 = run_steps core_step (new_core m) es"
    and "co_active s0 = None" and "\<And>i. k \<le> i \<Longrightarrow> co_conns s0 i = None"
    and "ces = client_test n sends (encodeResults (expected_results n recvs ((sEnd - sStart) / 1000))) cStart cEnd"
    and "ses = complete_test n (encodeParams p) (encodeResults (sender_results n sends ((cEnd - cStart) / 1000))) recvs sStart sEnd"
    and "c = run_steps client_step (runClient opts cookie t) ces" and "s = run_steps core_step s0 (core_test cb k ses)"
  shows "cl_cookies c = replicate (Suc n) cb \<and> List.map_filter client_reads ces = sent_on k s \<and> List.map_filter server_reads ses = cl_written c
    \<and> run_ok core_event_ok core_step s0 (core_test cb k ses) \<and> co_active s = None
    \<and> (\<exists>res. cl_result c = Some (Inr res) \<and> re_sentBytes res = Some (Fin (of_nat (sum_list (map snd sends))))
         \<and> re_receivedBytes res = Some (Fin (of_nat (sum_list (map snd recvs)))))"
proof -
  have d: "decodeParams (encodeParams p) = Inr p" by (rule decode_encodeParams [OF assms(1)])
  have par: "tp_parallel p = int n" "0 < n" using assms(1,5) by (simp_all add: params_ok_def)
  have s0: "core_wire s0" "co_maxTestSeconds s0 = m"
    using core_wire_system.inv_run [OF _ assms(13)] new_core_inv new_core_wire core_run_max unfolding assms(14) by blast+
  have ck: "bytesToCookie cb = cookie" using cookie_recovered [OF assms(10)] assms(11,12) by simp
  note server = session_completes [OF d assms(2-4) decode_encodeResults assms(5,7), where c = cookie and startMs = sStart and endMs = sEnd
      and cr = "sender_results n sends ((cEnd - cStart) / 1000)", folded assms(18)]
  note client = client_completes [OF assms(9,2,3) par assms(6) decode_encodeResults assms(8) assms(19) [unfolded assms(17)]]
  have ses: "ses = butlast ses @ [GotState (Some IPERF_DONE) sEnd]" by (simp add: assms(18) complete_test_def butlast_append)
  have core: "co_active s = None" "sent_on k s = ss_written (run_steps session_step (new_session cookie m) ses)"
    "run_ok core_event_ok core_step s0 (core_test cb k ses)"
    using core_completes [OF s0(1) assms(15,16) ses _ _ _ _ _ assms(20)] server ck s0(2) by simp_all
  have "List.map_filter client_reads ces = sent_on k s"
    unfolding core(2) assms(17) client_test_reads using server by simp
  moreover have "List.map_filter server_reads ses = cl_written c"
    using client unfolding assms(18) complete_test_reads by simp
  moreover have "cl_cookies c = replicate (Suc n) cb" using client assms(12) by simp
  moreover have "cl_result c = Some (Inr (buildResult p ((cEnd - cStart) / 1000) (sender_results n sends ((cEnd - cStart) / 1000))
      (expected_results n recvs ((sEnd - sStart) / 1000))))"
    using client by simp
  ultimately show ?thesis
    using core assms(3) sum_bytes_expected(2) [OF assms(6)] sum_bytes_expected(1) [OF assms(7)]
    by (simp add: buildResult_def Let_def)
qed

theorem speed_test_end_to_end_witness:
  "\<exists>opts raw c s. length raw = COOKIE_SIZE - 1
     \<and> c = run_steps client_step (runClient opts (makeCookie raw) 0)
         (client_test 2 [(0, 100), (1, 50), (0, 7)] (encodeResults (expected_results 2 [(1, 50), (0, 90)] 10)) 0 10000)
     \<and> s = run_steps core_step (new_core 3600) (core_test (cookieToBytes (makeCookie raw)) 0
         (complete_test 2 (encodeParams (client_params opts)) (encodeResults (sender_results 2 [(0, 100), (1, 50), (0, 7)] 10)) [(1, 50), (0, 90)] 0 10000))
     \<and> co_active s = None \<and> (\<exists>res. cl_result c = Some (Inr res) \<and> re_sentBytes res = Some (Fin 157) \<and> re_receivedBytes res = Some (Fin 140))"
proof -
  let ?o = "default_options\<lparr>op_parallel := Some 2\<rparr>"
  let ?raw = "replicate 36 0 :: byte list"
  have p: "params_ok (client_params ?o)" "\<not> tp_udp (client_params ?o)" "\<not> tp_reverse (client_params ?o)" "tp_time (client_params ?o) \<le> 3600"
    "2 = nat (tp_parallel (client_params ?o))"
    by (simp_all add: params_ok_def client_params_def default_options_def nullish_def DEFAULT_TCP_LEN_def MAX_PARALLEL_def MAX_LEN_def)
  have l: "list_all (\<lambda>d. fst d < 2) [(0 :: nat, 100 :: nat), (1, 50), (0, 7)]" "list_all (\<lambda>d. fst d < 2) [(1 :: nat, 50 :: nat), (0, 90)]"
    "(10000 :: rat) \<noteq> 0" by simp_all
  have raw: "length ?raw = COOKIE_SIZE - 1" by (simp add: COOKIE_SIZE_def)
  have core: "run_ok core_event_ok core_step (new_core 3600) []" "new_core 3600 = run_steps core_step (new_core 3600) []"
    "co_active (new_core 3600) = None" "\<And>i. (0 :: nat) \<le> i \<Longrightarrow> co_conns (new_core 3600) i = None"
    by (simp_all add: new_core_def)
  note e = speed_test_end_to_end [OF p l refl raw refl refl core(1-3) _ refl refl, where k = 0 and sStart = 0 and cStart = 0 and sEnd = 10000 and t = 0]
  have q: "(10000 - 0) / 1000 = (10 :: rat)" "of_nat (sum_list (map snd [(0 :: nat, 100 :: nat), (1, 50), (0, 7)])) = (157 :: rat)"
    "of_nat (sum_list (map snd [(1 :: nat, 50 :: nat), (0, 90)])) = (140 :: rat)" by simp_all
  obtain c s where cs: "c = run_steps client_step (runClient ?o (makeCookie ?raw) 0)
         (client_test 2 [(0, 100), (1, 50), (0, 7)] (encodeResults (expected_results 2 [(1, 50), (0, 90)] 10)) 0 10000)"
    "s = run_steps core_step (new_core 3600) (core_test (cookieToBytes (makeCookie ?raw)) 0
         (complete_test 2 (encodeParams (client_params ?o)) (encodeResults (sender_results 2 [(0, 100), (1, 50), (0, 7)] 10)) [(1, 50), (0, 90)] 0 10000))"
    by blast
  have "co_active s = None \<and> (\<exists>res. cl_result c = Some (Inr res) \<and> re_sentBytes res = Some (Fin 157) \<and> re_receivedBytes res = Some (Fin 140))"
    using e [unfolded q, OF core(4) cs] by simp
  then show ?thesis using raw cs by blast
qed

end
